(* ===== verification/Prelude.thy ===== *)
theory Prelude
  imports Main "HOL-Library.Word" "HOL-Library.Monad_Syntax"
begin

text \<open>
  Shared vocabulary of the development: the machine integers of the i386 target, the loops of
  the C source as recursion, the byte, little-endian and bitmap views of a disk block, and the
  generic facts about them that the component theories use.

  A kernel routine is a function from the state to an \<^typ>\<open>'a option\<close>: \<open>Some (r, s')\<close> is the
  call returning \<open>r\<close> in the state \<open>s'\<close>; \<open>None\<close> means that control does not come back to the
  caller, because the task goes to sleep and only another task could wake it, because the
  kernel panics, or because the C code runs into undefined behaviour (a null dereference, a
  write outside an array). Calls are sequenced with the \<open>do\<close> notation of the option monad.
\<close>

unbundle bit_operations_syntax

type_synonym byte = "8 word"
type_synonym u16 = "16 word"
type_synonym u32 = "32 word"

text \<open>A disk block, a sector or another byte array: the bytes by offset.\<close>

type_synonym bytes = "nat \<Rightarrow> byte"

named_theorems frame \<open>what an operation leaves unchanged\<close>
named_theorems inv_rules \<open>the operations that keep a component's invariant\<close>
named_theorems bitmap_simps \<open>reading back a bitmap\<close>

subsection \<open>Machine arithmetic\<close>

text \<open>Unsigned 32-bit arithmetic on \<open>nat\<close>: the value the machine keeps.\<close>

definition w32 :: "nat \<Rightarrow> nat" where
  "w32 n = n mod 2 ^ 32"

lemma w32_small [simp]: "n < 2 ^ 32 \<Longrightarrow> w32 n = n"
  by (simp add: w32_def)

lemma w32_less [simp]: "w32 n < 2 ^ 32"
  by (simp add: w32_def)

lemma unat_of_nat_w32: "unat (word_of_nat n :: u32) = w32 n"
  by (simp add: w32_def unat_of_nat)

text \<open>Signed 32-bit arithmetic on \<open>int\<close>: the kernel is compiled without optimisation, where \<open>int\<close> and \<open>long\<close> wrap.\<close>

definition s32 :: "int \<Rightarrow> int" where
  "s32 x = (x + 2 ^ 31) mod 2 ^ 32 - 2 ^ 31"

lemma s32_small [simp]: "- (2 ^ 31) \<le> x \<Longrightarrow> x < 2 ^ 31 \<Longrightarrow> s32 x = x"
  by (simp add: s32_def)

lemma s32_range: "- (2 ^ 31) \<le> s32 x" "s32 x < 2 ^ 31"
  using pos_mod_bound [of "2 ^ 32" "x + 2 ^ 31"] pos_mod_sign [of "2 ^ 32" "x + 2 ^ 31"] by (simp_all add: s32_def)

lemma unat_u8_less [simp]: "unat (x :: byte) < 256"
  using unsigned_less [of x] by simp

lemma unat_u16_less [simp]: "unat (x :: u16) < 65536"
  using unsigned_less [of x] by simp

lemma unat_u32_less [simp]: "unat (x :: u32) < 4294967296"
  using unsigned_less [of x] by simp

lemma unat_plus1_u8: "unat (x :: byte) < 255 \<Longrightarrow> unat (x + 1) = Suc (unat x)"
  by (simp add: unat_word_ariths)

lemma unat_minus1_u8: "x \<noteq> 0 \<Longrightarrow> unat (x - 1 :: byte) = unat x - 1"
  by (metis One_nat_def unat_minus_one)

subsection \<open>Loops\<close>

text \<open>
  \<open>for (i = lo; i < n; i++) if (p(i)) ...\<close>: the first index that satisfies \<open>p\<close>, if any.
\<close>

function scan :: "(nat \<Rightarrow> bool) \<Rightarrow> nat \<Rightarrow> nat \<Rightarrow> nat option" where
  "scan p i n = (if i < n then if p i then Some i else scan p (Suc i) n else None)"
  by pat_completeness auto
termination
  by (relation "measure (\<lambda>(p, i, n). n - i)") auto

declare scan.simps [simp del]

lemma scan_SomeD:
  assumes "scan p i n = Some k"
  shows "i \<le> k \<and> k < n \<and> p k \<and> (\<forall>j. i \<le> j \<and> j < k \<longrightarrow> \<not> p j)"
  using assms
proof (induction p i n rule: scan.induct)
  case (1 p i n)
  show ?case
  proof (cases "i < n \<and> \<not> p i")
    case True
    with 1 have IH: "Suc i \<le> k \<and> k < n \<and> p k \<and> (\<forall>j. Suc i \<le> j \<and> j < k \<longrightarrow> \<not> p j)"
      by (simp add: scan.simps [of p i n])
    have "\<not> p j" if "i \<le> j" "j < k" for j
      using that IH True by (cases "j = i") auto
    with IH show ?thesis by auto
  next
    case False
    with "1.prems" show ?thesis by (auto simp: scan.simps [of p i n] split: if_splits)
  qed
qed

lemma scan_None_iff: "scan p i n = None \<longleftrightarrow> (\<forall>j. i \<le> j \<and> j < n \<longrightarrow> \<not> p j)"
proof (induction p i n rule: scan.induct)
  case (1 p i n)
  show ?case
  proof (cases "i < n \<and> \<not> p i")
    case True
    with 1 have IH: "scan p i n = None \<longleftrightarrow> (\<forall>j. Suc i \<le> j \<and> j < n \<longrightarrow> \<not> p j)"
      by (simp add: scan.simps [of p i n])
    have "(\<forall>j. Suc i \<le> j \<and> j < n \<longrightarrow> \<not> p j) \<Longrightarrow> i \<le> j \<Longrightarrow> j < n \<Longrightarrow> \<not> p j" for j
      using True by (cases "j = i") auto
    with IH show ?thesis by auto
  next
    case False
    then show ?thesis by (auto simp: scan.simps [of p i n])
  qed
qed

lemma scan_eq_Some:
  assumes "i \<le> k" and "k < n" and "p k" and "\<And>j. i \<le> j \<Longrightarrow> j < k \<Longrightarrow> \<not> p j"
  shows "scan p i n = Some k"
proof (cases "scan p i n")
  case None
  with assms show ?thesis by (auto simp: scan_None_iff)
next
  case (Some k')
  from scan_SomeD [OF Some] assms have "\<not> k' < k" and "\<not> k < k'" by auto
  with Some show ?thesis by simp
qed

lemma scan_cong:
  assumes "\<And>j. i \<le> j \<Longrightarrow> j < n \<Longrightarrow> p j = q j"
  shows "scan p i n = scan q i n"
  using assms
proof (induction p i n rule: scan.induct)
  case (1 p i n)
  then show ?case by (simp add: scan.simps [of p i n] scan.simps [of q i n])
qed

text \<open>\<open>for (i = lo; i < n; i++) body\<close> for a body that always runs to its end.\<close>

function for_range :: "nat \<Rightarrow> nat \<Rightarrow> (nat \<Rightarrow> 's \<Rightarrow> 's option) \<Rightarrow> 's \<Rightarrow> 's option" where
  "for_range i n body s =
     (if i < n then do { s' \<leftarrow> body i s; for_range (Suc i) n body s' } else Some s)"
  by pat_completeness auto
termination
  by (relation "measure (\<lambda>(i, n, body, s). n - i)") auto

declare for_range.simps [simp del]

lemma for_range_done [simp]: "n \<le> i \<Longrightarrow> for_range i n body s = Some s"
  by (simp add: for_range.simps [of i n body s])

lemma for_range_step:
  "i < n \<Longrightarrow> for_range i n body s = do { s' \<leftarrow> body i s; for_range (Suc i) n body s' }"
  by (simp add: for_range.simps [of i n body s])

text \<open>Total correctness of such a loop: an invariant indexed by the loop counter.\<close>

lemma for_range_rule:
  assumes "I i s" and "i \<le> n"
    and "\<And>k s. i \<le> k \<Longrightarrow> k < n \<Longrightarrow> I k s \<Longrightarrow> \<exists>s'. body k s = Some s' \<and> I (Suc k) s'"
  shows "\<exists>s'. for_range i n body s = Some s' \<and> I n s'"
  using assms
proof (induction "n - i" arbitrary: i s)
  case 0
  then show ?case by simp
next
  case (Suc d)
  then have "i < n" by simp
  with Suc.prems obtain s' where b: "body i s = Some s'" and I: "I (Suc i) s'" by blast
  have "\<exists>s''. for_range (Suc i) n body s' = Some s'' \<and> I n s''"
    using Suc.hyps(2) \<open>i < n\<close> Suc.prems(3) by (intro Suc.hyps(1)) (auto intro: I)
  with \<open>i < n\<close> b show ?case by (simp add: for_range_step)
qed

text \<open>What a body never changes, the loop never changes.\<close>

lemma for_range_keeps:
  assumes "for_range i n body s = Some s'"
    and "\<And>k s s'. i \<le> k \<Longrightarrow> k < n \<Longrightarrow> body k s = Some s' \<Longrightarrow> f s' = f s"
  shows "f s' = f s"
  using assms
proof (induction "n - i" arbitrary: i s)
  case 0
  then show ?case by simp
next
  case (Suc d)
  then have "i < n" by simp
  with Suc.prems(1) obtain t where b: "body i s = Some t" and r: "for_range (Suc i) n body t = Some s'"
    by (auto simp: for_range_step bind_eq_Some_conv)
  from Suc.hyps(2) \<open>i < n\<close> have "d = n - Suc i" by simp
  from Suc.hyps(1) [OF this r] Suc.prems(2) have "f s' = f t" by (meson Suc_leD)
  with Suc.prems(2) [OF _ \<open>i < n\<close> b] show ?case by simp
qed

subsection \<open>Little-endian fields of a byte array\<close>

definition get16 :: "bytes \<Rightarrow> nat \<Rightarrow> u16" where
  "get16 d k = ucast (d k) OR push_bit 8 (ucast (d (k + 1)))"

definition put16 :: "nat \<Rightarrow> u16 \<Rightarrow> bytes \<Rightarrow> bytes" where
  "put16 k v d = d(k := ucast v, k + 1 := ucast (drop_bit 8 v))"

definition get32 :: "bytes \<Rightarrow> nat \<Rightarrow> u32" where
  "get32 d k = ucast (get16 d k) OR push_bit 16 (ucast (get16 d (k + 2)))"

definition put32 :: "nat \<Rightarrow> u32 \<Rightarrow> bytes \<Rightarrow> bytes" where
  "put32 k v d = put16 (k + 2) (ucast (drop_bit 16 v)) (put16 k (ucast v) d)"

lemma get16_put16 [simp]: "get16 (put16 k v d) k = v"
  by (rule bit_word_eqI) (auto simp: get16_def put16_def bit_simps)

lemma get16_put16_other [simp]:
  "k' + 2 \<le> k \<or> k + 2 \<le> k' \<Longrightarrow> get16 (put16 k v d) k' = get16 d k'"
  by (auto simp: get16_def put16_def)

lemma get32_put32 [simp]: "get32 (put32 k v d) k = v"
  by (rule bit_word_eqI) (auto simp: get32_def put32_def bit_simps)

lemma put16_other [simp]: "j \<noteq> k \<Longrightarrow> j \<noteq> Suc k \<Longrightarrow> put16 k v d j = d j"
  by (simp add: put16_def)

lemma put32_other [simp]: "j < k \<or> k + 4 \<le> j \<Longrightarrow> put32 k v d j = d j"
  by (auto simp: put32_def put16_def)

lemma get16_put32_other [simp]:
  "k' + 2 \<le> k \<or> k + 4 \<le> k' \<Longrightarrow> get16 (put32 k v d) k' = get16 d k'"
  by (auto simp: put32_def)

lemma get32_put16_other [simp]:
  "k' + 4 \<le> k \<or> k + 2 \<le> k' \<Longrightarrow> get32 (put16 k v d) k' = get32 d k'"
  by (auto simp: get32_def)

lemma get32_put32_other [simp]:
  "k' + 4 \<le> k \<or> k + 4 \<le> k' \<Longrightarrow> get32 (put32 k v d) k' = get32 d k'"
  by (auto simp: get32_def)

lemma get16_cong: "d k = d' k \<Longrightarrow> d (Suc k) = d' (Suc k) \<Longrightarrow> get16 d k = get16 d' k"
  by (simp add: get16_def)

subsection \<open>Bitmaps\<close>

text \<open>
  The C idiom \<open>p[j / 8] & (1 << (j % 8))\<close> and its two updates, on a byte array.
\<close>

definition tst_bit :: "bytes \<Rightarrow> nat \<Rightarrow> bool" where
  "tst_bit d j \<longleftrightarrow> d (j div 8) AND push_bit (j mod 8) 1 \<noteq> 0"

definition set_bit_at :: "nat \<Rightarrow> bytes \<Rightarrow> bytes" where
  "set_bit_at j d = d(j div 8 := d (j div 8) OR push_bit (j mod 8) 1)"

definition clr_bit_at :: "nat \<Rightarrow> bytes \<Rightarrow> bytes" where
  "clr_bit_at j d = d(j div 8 := d (j div 8) AND NOT (push_bit (j mod 8) 1))"

lemma tst_bit_iff: "tst_bit d j \<longleftrightarrow> bit (d (j div 8)) (j mod 8)"
  by (simp add: tst_bit_def and_exp_eq_0_iff_not_bit)

lemma tst_bit_set: "tst_bit (set_bit_at j d) i \<longleftrightarrow> i = j \<or> tst_bit d i"
proof -
  have "i div 8 = j div 8 \<Longrightarrow> i mod 8 = j mod 8 \<Longrightarrow> i = j"
    by (metis div_mult_mod_eq)
  then show ?thesis
    by (auto simp: tst_bit_iff set_bit_at_def bit_or_iff bit_exp_iff)
qed

lemma tst_bit_clr: "tst_bit (clr_bit_at j d) i \<longleftrightarrow> i \<noteq> j \<and> tst_bit d i"
proof -
  have "i div 8 = j div 8 \<Longrightarrow> i mod 8 = j mod 8 \<Longrightarrow> i = j"
    by (metis div_mult_mod_eq)
  then show ?thesis
    by (auto simp: tst_bit_iff clr_bit_at_def bit_and_iff bit_not_iff bit_exp_iff)
qed

end
