(* ===== verification/Task.thy ===== *)
theory Task
  imports Prelude
begin

text \<open>
  The task table: \<open>include/linux/sched.h\<close> and the wait-queue primitive \<open>wake_up\<close> of
  \<open>fs/buffer.c\<close>. A task is named by the physical address of its \<open>task_struct\<close> page, as
  in the C code, with address 0 as the null pointer; \<open>tstruct\<close> is the content of those
  pages. Inodes are named by their index in \<open>inode_table\<close>, open files by their index in
  \<open>file_table\<close> (or as the console's own \<open>tty_file\<close>).
\<close>

subsection \<open>Data\<close>

definition NR_TASKS :: nat where "NR_TASKS = 64"
definition NR_OPEN :: nat where "NR_OPEN = 64"
definition HZ :: nat where "HZ = 100"

lemmas task_consts = NR_TASKS_def NR_OPEN_def HZ_def

datatype tstate = TASK_RUNNING | TASK_INTERRUPTIBLE | TASK_UNINTERRUPTIBLE
  | TASK_ZOMBIE | TASK_STOPPED

datatype fptr = Tty_file | File_slot nat

record exe_region =
  r_va :: u32
  r_file_off :: u32
  r_filesz :: u32
  r_memsz :: u32
  r_flags :: u32

record tss_struct =
  tss_back_link :: u32
  tss_esp0 :: u32
  tss_ss0 :: u32
  tss_cr3 :: u32
  tss_eip :: u32
  tss_eflags :: u32
  tss_eax :: u32
  tss_ecx :: u32
  tss_edx :: u32
  tss_ebx :: u32
  tss_esp :: u32
  tss_ebp :: u32
  tss_esi :: u32
  tss_edi :: u32
  tss_es :: u32
  tss_cs :: u32
  tss_ss :: u32
  tss_ds :: u32
  tss_fs :: u32
  tss_gs :: u32
  tss_ldt :: u32

record task_struct =
  t_state :: tstate
  t_counter :: int
  t_priority :: int
  t_signal :: u32
  t_exit_code :: int
  t_handlers :: "nat \<Rightarrow> u32"
  t_pwd :: "nat option"
  t_root :: "nat option"
  t_uid :: u16
  t_euid :: u16
  t_suid :: u16
  t_gid :: u16
  t_egid :: u16
  t_sgid :: u16
  t_alarm :: u32
  t_umask :: u16
  t_tss :: tss_struct
  t_filp :: "nat \<Rightarrow> fptr option"
  t_pid :: nat
  t_parent :: nat
  t_pgrp :: u32
  t_session :: u32
  t_leader :: u32
  t_utime :: u32
  t_stime :: u32
  t_cutime :: u32
  t_cstime :: u32
  t_pg_dir :: u32
  t_start_code :: u32
  t_end_code :: u32
  t_start_data :: u32
  t_end_data :: u32
  t_brk :: u32
  t_start_stack :: u32
  t_exe_inode :: "nat option"
  t_exe_regions :: "nat \<Rightarrow> exe_region"
  t_nr_exe_regions :: nat

type_synonym tptr = u32

text \<open>The scheduler's globals: \<open>task[]\<close>, \<open>current\<close> and \<open>jiffies\<close>.\<close>

record task_state =
  task :: "nat \<Rightarrow> tptr"
  tstruct :: "tptr \<Rightarrow> task_struct"
  current :: tptr
  jiffies :: u32

text \<open>The content of a task page as \<open>get_free_page\<close> hands it out: all zero.\<close>

definition zero_tss :: tss_struct where
  "zero_tss = \<lparr>tss_back_link = 0, tss_esp0 = 0, tss_ss0 = 0, tss_cr3 = 0, tss_eip = 0, tss_eflags = 0,
     tss_eax = 0, tss_ecx = 0, tss_edx = 0, tss_ebx = 0, tss_esp = 0, tss_ebp = 0, tss_esi = 0,
     tss_edi = 0, tss_es = 0, tss_cs = 0, tss_ss = 0, tss_ds = 0, tss_fs = 0, tss_gs = 0, tss_ldt = 0\<rparr>"

definition zero_task :: task_struct where
  "zero_task = \<lparr>t_state = TASK_RUNNING, t_counter = 0, t_priority = 0, t_signal = 0, t_exit_code = 0,
     t_handlers = (\<lambda>_. 0), t_pwd = None, t_root = None, t_uid = 0, t_euid = 0, t_suid = 0, t_gid = 0,
     t_egid = 0, t_sgid = 0, t_alarm = 0, t_umask = 0, t_tss = zero_tss, t_filp = (\<lambda>_. None), t_pid = 0,
     t_parent = 0, t_pgrp = 0, t_session = 0, t_leader = 0, t_utime = 0, t_stime = 0, t_cutime = 0,
     t_cstime = 0, t_pg_dir = 0, t_start_code = 0, t_end_code = 0, t_start_data = 0, t_end_data = 0,
     t_brk = 0, t_start_stack = 0, t_exe_inode = None,
     t_exe_regions = (\<lambda>_. \<lparr>r_va = 0, r_file_off = 0, r_filesz = 0, r_memsz = 0, r_flags = 0\<rparr>),
     t_nr_exe_regions = 0\<rparr>"

abbreviation cur :: "'z task_state_scheme \<Rightarrow> task_struct" where
  "cur s \<equiv> tstruct s (current s)"

definition upd_task :: "tptr \<Rightarrow> (task_struct \<Rightarrow> task_struct) \<Rightarrow>
    'z task_state_scheme \<Rightarrow> 'z task_state_scheme" where
  "upd_task p f s = s\<lparr>tstruct := (tstruct s)(p := f (tstruct s p))\<rparr>"

abbreviation upd_cur :: "(task_struct \<Rightarrow> task_struct) \<Rightarrow>
    'z task_state_scheme \<Rightarrow> 'z task_state_scheme" where
  "upd_cur f s \<equiv> upd_task (current s) f s"

lemma upd_task_simps [simp]:
  "task (upd_task p f s) = task s"
  "current (upd_task p f s) = current s"
  "jiffies (upd_task p f s) = jiffies s"
  "tstruct (upd_task p f s) = (tstruct s)(p := f (tstruct s p))"
  "task_state.more (upd_task p f s) = task_state.more s"
  by (simp_all add: upd_task_def)

text \<open>
  \<open>wake_up(struct task_struct **p)\<close>: make the head of a wait queue runnable and clear the
  queue head. The queue's head is passed by value and the new head is returned.
\<close>

definition wake_up :: "tptr \<Rightarrow> 'z task_state_scheme \<Rightarrow> tptr \<times> 'z task_state_scheme" where
  "wake_up q s =
     (if q \<noteq> 0 then (0, upd_task q (\<lambda>t. t\<lparr>t_state := TASK_RUNNING\<rparr>) s) else (q, s))"

lemma wake_up_head [simp]: "fst (wake_up q s) = 0"
  by (simp add: wake_up_def)

lemma wake_up_empty [simp]: "wake_up 0 s = (0, s)"
  by (simp add: wake_up_def)

end
