(* ===== verification/Hd.thy ===== *)
theory Hd
  imports Task
begin

text \<open>
  The hard disk driver \<open>drivers/hd.c\<close>. The drive itself is hardware: its sectors are
  \<open>hd_sectors\<close>, and \<open>hd_resp k\<close> says whether the \<open>k\<close>-th wait for the drive's status
  register (\<open>hd_wait_bits\<close>) ends with the status the driver waits for (\<open>True\<close>) or with an
  error or a timeout (\<open>False\<close>). The drive addresses its sectors by cylinder, head and sector
  with 16 heads and 63 sectors per track, the geometry the driver is written for.
  The driver's lock serialises whole operations, so one operation is one step of the model.
\<close>

record hd_state = task_state +
  hd_sectors :: "nat \<Rightarrow> bytes"
  hd_resp :: "nat \<Rightarrow> bool"
  hd_waits :: nat
  root_lba :: nat

definition SECT_SIZE :: nat where "SECT_SIZE = 512"

text \<open>\<open>hd_geometry\<close>: cylinder, head and sector of a linear block address.\<close>

definition hd_geometry :: "nat \<Rightarrow> nat \<times> nat \<times> nat" where
  "hd_geometry lba = (lba div (16 * 63), (lba div 63) mod 16, lba mod 63 + 1)"

text \<open>
  The sector a drive of this geometry finds under the values \<open>hd_out\<close> puts into the
  task-file registers: the head register holds four bits, the two cylinder registers eight
  bits each.
\<close>

definition chs_sector :: "nat \<times> nat \<times> nat \<Rightarrow> nat" where
  "chs_sector r = (case r of (cyl, head, sect) \<Rightarrow>
     ((cyl mod 256 + 256 * ((cyl div 256) mod 256)) * 16 + head mod 16) * 63 + (sect - 1))"

lemma chs_sector_geometry:
  assumes "lba < 65536 * 16 * 63"
  shows "chs_sector (hd_geometry lba) = lba"
proof -
  have "lba div 1008 < 65536" using assms by (simp add: less_mult_imp_div_less)
  then have "lba div 1008 div 256 mod 256 = lba div 1008 div 256"
    by (simp add: less_mult_imp_div_less)
  then have cyl: "lba div 1008 mod 256 + 256 * (lba div 1008 div 256 mod 256) = lba div 1008"
    by (simp only: mod_mult_div_eq)
  have "lba div 1008 = lba div 63 div 16" by (simp add: div_mult2_eq [symmetric])
  then have head: "lba div 1008 * 16 + lba div 63 mod 16 = lba div 63" by simp
  have "chs_sector (hd_geometry lba) =
      ((lba div 1008 mod 256 + 256 * (lba div 1008 div 256 mod 256)) * 16 + lba div 63 mod 16) * 63
      + lba mod 63"
    by (simp add: chs_sector_def hd_geometry_def)
  also have "\<dots> = lba div 63 * 63 + lba mod 63" by (simp only: cyl head)
  finally show ?thesis by simp
qed

text \<open>\<open>hd_wait_bits\<close>: one wait for the drive; the outcome is the hardware's.\<close>

definition hd_wait_bits :: "'z hd_state_scheme \<Rightarrow> bool \<times> 'z hd_state_scheme" where
  "hd_wait_bits s = (hd_resp s (hd_waits s), s\<lparr>hd_waits := Suc (hd_waits s)\<rparr>)"

definition hd_busy :: "'z hd_state_scheme \<Rightarrow> bool \<times> 'z hd_state_scheme" where
  "hd_busy s = (let (ok, s) = hd_wait_bits s in (\<not> ok, s))"

text \<open>
  \<open>hd_out\<close>: wait until the drive is ready, then load the registers; the result says whether
  the command was issued, and with it the first sector of the transfer.
\<close>

definition hd_out :: "nat \<times> nat \<times> nat \<Rightarrow> 'z hd_state_scheme \<Rightarrow> nat option \<times> 'z hd_state_scheme" where
  "hd_out r s =
     (let (busy, s) = hd_busy s in if busy then (None, s) else (Some (chs_sector r), s))"

text \<open>
  The data phase. A drive that was given no command never raises DRQ, so the wait fails.
  A sector read by \<open>insl\<close> goes to the caller's buffer at \<open>j * 512\<close>.
\<close>

fun hd_read_loop :: "nat option \<Rightarrow> nat \<Rightarrow> nat \<Rightarrow> bytes \<Rightarrow> 'z hd_state_scheme \<Rightarrow>
    int \<times> bytes \<times> 'z hd_state_scheme" where
  "hd_read_loop cmd j 0 buf s = (0, buf, s)"
| "hd_read_loop cmd j (Suc n) buf s =
     (let (ok, s) = hd_wait_bits s in
      case cmd of None \<Rightarrow> (-1, buf, s)
      | Some first \<Rightarrow>
          if \<not> ok then (-1, buf, s)
          else hd_read_loop cmd (Suc j) n
                 (\<lambda>k. if j * 512 \<le> k \<and> k < j * 512 + 512
                      then hd_sectors s (first + j) (k - j * 512) else buf k) s)"

definition hd_read_sectors :: "nat \<Rightarrow> nat \<Rightarrow> bytes \<Rightarrow> 'z hd_state_scheme \<Rightarrow>
    int \<times> bytes \<times> 'z hd_state_scheme" where
  "hd_read_sectors lba nsects buf s =
     (let lba = w32 (lba + root_lba s);
          (busy, s) = hd_busy s
      in if busy then (-1, buf, s)
         else let (cmd, s) = hd_out (hd_geometry lba) s
              in hd_read_loop cmd 0 nsects buf s)"

fun hd_write_loop :: "nat option \<Rightarrow> nat \<Rightarrow> nat \<Rightarrow> bytes \<Rightarrow> 'z hd_state_scheme \<Rightarrow>
    int \<times> 'z hd_state_scheme" where
  "hd_write_loop cmd j 0 buf s = (0, s)"
| "hd_write_loop cmd j (Suc n) buf s =
     (let (ok, s) = hd_wait_bits s in
      case cmd of None \<Rightarrow> (-1, s)
      | Some first \<Rightarrow>
          if \<not> ok then (-1, s)
          else hd_write_loop cmd (Suc j) n buf
                 (s\<lparr>hd_sectors := (hd_sectors s)
                     (first + j := (\<lambda>k. if k < 512 then buf (j * 512 + k) else 0))\<rparr>))"

definition hd_write_sectors :: "nat \<Rightarrow> nat \<Rightarrow> bytes \<Rightarrow> 'z hd_state_scheme \<Rightarrow>
    int \<times> 'z hd_state_scheme" where
  "hd_write_sectors lba nsects buf s =
     (let lba = w32 (lba + root_lba s);
          (busy, s) = hd_busy s
      in if busy then (-1, s)
         else let (cmd, s) = hd_out (hd_geometry lba) s;
                  (ret, s) = hd_write_loop cmd 0 nsects buf s
              in if ret = 0
                 then let (ok, s) = hd_wait_bits s in (if ok then 0 else -1, s)
                 else (ret, s))"

subsection \<open>A drive that answers\<close>

text \<open>
  \<open>hd_ok\<close>: every wait is answered, as on a working drive. The geometry reaches
  \<open>65536 * 16 * 63\<close> sectors; inside that range a transfer moves exactly the requested ones.
\<close>

definition hd_ok :: "'z hd_state_scheme \<Rightarrow> bool" where
  "hd_ok s \<longleftrightarrow> (\<forall>k. hd_resp s k)"

definition HD_LIMIT :: nat where "HD_LIMIT = 65536 * 16 * 63"

lemma hd_read_loop_ok:
  assumes "hd_ok s"
  shows "hd_read_loop (Some first) j n buf s =
    (0, (\<lambda>k. if j * 512 \<le> k \<and> k < (j + n) * 512
             then hd_sectors s (first + k div 512) (k mod 512) else buf k),
     s\<lparr>hd_waits := hd_waits s + n\<rparr>)"
  using assms
proof (induction n arbitrary: j buf s)
  case 0
  then show ?case by (auto simp: fun_eq_iff)
next
  case (Suc n)
  have eq: "k div 512 = j \<and> k mod 512 = k - j * 512" if "j * 512 \<le> k" "k < j * 512 + 512" for k
  proof -
    have "k div 512 = j" using that by (intro div_nat_eqI) auto
    then show ?thesis by (simp add: modulo_nat_def)
  qed
  let ?s = "s\<lparr>hd_waits := Suc (hd_waits s)\<rparr>"
  let ?buf = "\<lambda>k. if j * 512 \<le> k \<and> k < j * 512 + 512
                 then hd_sectors s (first + j) (k - j * 512) else buf k"
  have ok: "hd_ok ?s" "hd_resp s (hd_waits s)" using Suc.prems by (simp_all add: hd_ok_def)
  have "hd_read_loop (Some first) j (Suc n) buf s = hd_read_loop (Some first) (Suc j) n ?buf ?s"
    using ok by (simp add: hd_wait_bits_def cong: if_cong)
  also have "\<dots> = (0, (\<lambda>k. if Suc j * 512 \<le> k \<and> k < (Suc j + n) * 512
      then hd_sectors ?s (first + k div 512) (k mod 512) else ?buf k),
      ?s\<lparr>hd_waits := hd_waits ?s + n\<rparr>)" by (rule Suc.IH [OF ok(1)])
  finally show ?case by (auto simp: fun_eq_iff eq)
qed

lemma hd_read_sectors_ok:
  assumes "hd_ok s" and "lba + root_lba s + n \<le> HD_LIMIT" and "0 < n"
  shows "hd_read_sectors lba n buf s =
    (0, (\<lambda>k. if k < n * 512 then hd_sectors s (lba + root_lba s + k div 512) (k mod 512) else buf k),
     s\<lparr>hd_waits := hd_waits s + 2 + n\<rparr>)"
proof -
  have "w32 (lba + root_lba s) = lba + root_lba s"
    using assms by (simp add: HD_LIMIT_def)
  moreover have "chs_sector (hd_geometry (lba + root_lba s)) = lba + root_lba s"
    using assms by (intro chs_sector_geometry) (simp add: HD_LIMIT_def)
  ultimately show ?thesis
    using assms(1) by (simp add: hd_read_sectors_def hd_busy_def hd_wait_bits_def hd_out_def
        hd_read_loop_ok hd_ok_def cong: if_cong)
qed

lemma hd_write_loop_ok:
  assumes "hd_ok s"
  shows "hd_write_loop (Some first) j n buf s =
    (0, s\<lparr>hd_waits := hd_waits s + n,
          hd_sectors := (\<lambda>i. if first + j \<le> i \<and> i < first + j + n
             then (\<lambda>k. if k < 512 then buf ((i - first) * 512 + k) else 0) else hd_sectors s i)\<rparr>)"
  using assms
proof (induction n arbitrary: j s)
  case 0
  then show ?case by (auto simp: fun_eq_iff intro!: hd_state.equality)
next
  case (Suc n)
  let ?s = "s\<lparr>hd_waits := Suc (hd_waits s), hd_sectors := (hd_sectors s)
              (first + j := (\<lambda>k. if k < 512 then buf (j * 512 + k) else 0))\<rparr>"
  have ok: "hd_ok ?s" "hd_resp s (hd_waits s)" using Suc.prems by (simp_all add: hd_ok_def)
  have "hd_write_loop (Some first) j (Suc n) buf s = hd_write_loop (Some first) (Suc j) n buf ?s"
    using ok by (simp add: hd_wait_bits_def)
  also have "\<dots> = (0, ?s\<lparr>hd_waits := hd_waits ?s + n,
          hd_sectors := (\<lambda>i. if first + Suc j \<le> i \<and> i < first + Suc j + n
             then (\<lambda>k. if k < 512 then buf ((i - first) * 512 + k) else 0)
             else hd_sectors ?s i)\<rparr>)" by (rule Suc.IH [OF ok(1)])
  finally show ?case by (auto simp: fun_eq_iff intro!: hd_state.equality)
qed

lemma hd_write_sectors_ok:
  assumes "hd_ok s" and "lba + root_lba s + n \<le> HD_LIMIT" and "0 < n"
  shows "hd_write_sectors lba n buf s =
    (0, s\<lparr>hd_waits := hd_waits s + 3 + n,
          hd_sectors := (\<lambda>i. if lba + root_lba s \<le> i \<and> i < lba + root_lba s + n
             then (\<lambda>k. if k < 512 then buf ((i - (lba + root_lba s)) * 512 + k) else 0)
             else hd_sectors s i)\<rparr>)"
proof -
  have "w32 (lba + root_lba s) = lba + root_lba s"
    using assms by (simp add: HD_LIMIT_def)
  moreover have "chs_sector (hd_geometry (lba + root_lba s)) = lba + root_lba s"
    using assms by (intro chs_sector_geometry) (simp add: HD_LIMIT_def)
  ultimately show ?thesis
    using assms(1) by (simp add: hd_write_sectors_def hd_busy_def hd_wait_bits_def hd_out_def
        hd_write_loop_ok hd_ok_def Let_def cong: if_cong)
qed

subsection \<open>Any drive\<close>

text \<open>
  Whatever the drive answers, a transfer changes nothing but the sectors it names (a write) or
  the caller's buffer (a read), and result 0 means that the whole transfer took place.
\<close>

lemma hd_write_loop_any:
  assumes "hd_write_loop (Some first) j n buf s = (ret, s')"
  shows "\<exists>w S. s' = s\<lparr>hd_waits := w, hd_sectors := S\<rparr> \<and>
    (\<forall>i. i < first + j \<or> first + j + n \<le> i \<longrightarrow> S i = hd_sectors s i) \<and>
    (ret = 0 \<longrightarrow> (\<forall>i. first + j \<le> i \<and> i < first + j + n \<longrightarrow>
       S i = (\<lambda>k. if k < 512 then buf ((i - first) * 512 + k) else 0)))"
  using assms
proof (induction n arbitrary: j s)
  case 0
  then show ?case by (intro exI [of _ "hd_waits s"] exI [of _ "hd_sectors s"]) auto
next
  case (Suc n)
  show ?case
  proof (cases "hd_resp s (hd_waits s)")
    case False
    with Suc.prems show ?thesis
      by (intro exI [of _ "Suc (hd_waits s)"] exI [of _ "hd_sectors s"])
        (auto simp: hd_wait_bits_def)
  next
    case True
    let ?s = "s\<lparr>hd_waits := Suc (hd_waits s), hd_sectors := (hd_sectors s)
              (first + j := (\<lambda>k. if k < 512 then buf (j * 512 + k) else 0))\<rparr>"
    from True Suc.prems have "hd_write_loop (Some first) (Suc j) n buf ?s = (ret, s')"
      by (simp add: hd_wait_bits_def)
    from Suc.IH [OF this] obtain w S where
      S: "s' = ?s\<lparr>hd_waits := w, hd_sectors := S\<rparr>"
        "\<forall>i. i < first + Suc j \<or> first + Suc j + n \<le> i \<longrightarrow> S i = hd_sectors ?s i"
        "ret = 0 \<longrightarrow> (\<forall>i. first + Suc j \<le> i \<and> i < first + Suc j + n \<longrightarrow>
           S i = (\<lambda>k. if k < 512 then buf ((i - first) * 512 + k) else 0))" by blast
    have eq: "s' = s\<lparr>hd_waits := w, hd_sectors := S\<rparr>" using S(1) by simp
    have out: "i < first + j \<or> first + j + Suc n \<le> i \<longrightarrow> S i = hd_sectors s i" for i
      using S(2) by auto
    have inside: "S i = (\<lambda>k. if k < 512 then buf ((i - first) * 512 + k) else 0)"
      if "ret = 0" "first + j \<le> i" "i < first + j + Suc n" for i
    proof (cases "i = first + j")
      case True
      then show ?thesis using S(2) by (auto cong: if_cong)
    next
      case False
      with that S(3) show ?thesis by auto
    qed
    show ?thesis using eq out inside by blast
  qed
qed

lemma hd_write_sectors_any:
  assumes "hd_write_sectors lba n buf s = (ret, s')" and "lba + root_lba s + n \<le> HD_LIMIT" and "0 < n"
  shows "\<exists>w S. s' = s\<lparr>hd_waits := w, hd_sectors := S\<rparr> \<and>
    (\<forall>i. i < lba + root_lba s \<or> lba + root_lba s + n \<le> i \<longrightarrow> S i = hd_sectors s i) \<and>
    (ret = 0 \<longrightarrow> (\<forall>i. lba + root_lba s \<le> i \<and> i < lba + root_lba s + n \<longrightarrow>
       S i = (\<lambda>k. if k < 512 then buf ((i - (lba + root_lba s)) * 512 + k) else 0)))"
proof -
  let ?l = "lba + root_lba s"
  have w: "w32 ?l = ?l" using assms by (simp add: HD_LIMIT_def)
  have g: "chs_sector (hd_geometry ?l) = ?l"
    using assms by (intro chs_sector_geometry) (simp add: HD_LIMIT_def)
  have triv: ?thesis if "ret \<noteq> 0" "s' = s\<lparr>hd_waits := v\<rparr>" for v
    using that by (intro exI [of _ v] exI [of _ "hd_sectors s"]) simp
  show ?thesis
  proof (cases "hd_resp s (hd_waits s) \<and> hd_resp s (Suc (hd_waits s))")
    case False
    then show ?thesis
    proof (cases "hd_resp s (hd_waits s)")
      case True
      with False assms have "ret = -1 \<and> s' = s\<lparr>hd_waits := Suc (Suc (Suc (hd_waits s)))\<rparr>"
        by (cases n) (auto simp: hd_write_sectors_def hd_busy_def hd_wait_bits_def hd_out_def w)
      then show ?thesis by (intro triv) auto
    next
      case False
      with assms have "ret = -1 \<and> s' = s\<lparr>hd_waits := Suc (hd_waits s)\<rparr>"
        by (auto simp: hd_write_sectors_def hd_busy_def hd_wait_bits_def w)
      then show ?thesis by (intro triv) auto
    qed
  next
    case True
    let ?s = "s\<lparr>hd_waits := Suc (Suc (hd_waits s))\<rparr>"
    obtain r t where t: "hd_write_loop (Some ?l) 0 n buf ?s = (r, t)" by fastforce
    from hd_write_loop_any [OF t] obtain w S where
      S: "t = ?s\<lparr>hd_waits := w, hd_sectors := S\<rparr>"
         "\<forall>i. i < ?l \<or> ?l + n \<le> i \<longrightarrow> S i = hd_sectors s i"
         "r = 0 \<longrightarrow> (\<forall>i. ?l \<le> i \<and> i < ?l + n \<longrightarrow>
            S i = (\<lambda>k. if k < 512 then buf ((i - ?l) * 512 + k) else 0))"
      by auto
    have "\<exists>w. s' = t\<lparr>hd_waits := w\<rparr> \<and> (ret = 0 \<longrightarrow> r = 0)"
      using assms(1) True t
      by (auto simp: hd_write_sectors_def hd_busy_def hd_wait_bits_def hd_out_def w g Let_def
          split: if_splits intro: exI [of _ "hd_waits s'"])
    then obtain v where "s' = t\<lparr>hd_waits := v\<rparr>" "ret = 0 \<longrightarrow> r = 0" by blast
    with S show ?thesis
      by (intro exI [of _ v] exI [of _ S]) auto
  qed
qed

lemma hd_read_loop_any:
  assumes "hd_read_loop (Some first) j n buf s = (ret, d, s')"
  shows "\<exists>w. s' = s\<lparr>hd_waits := w\<rparr> \<and>
    (ret = 0 \<longrightarrow> d = (\<lambda>k. if j * 512 \<le> k \<and> k < (j + n) * 512
       then hd_sectors s (first + k div 512) (k mod 512) else buf k))"
  using assms
proof (induction n arbitrary: j buf s)
  case 0
  then show ?case by (intro exI [of _ "hd_waits s"]) (auto simp: fun_eq_iff)
next
  case (Suc n)
  show ?case
  proof (cases "hd_resp s (hd_waits s)")
    case False
    with Suc.prems show ?thesis
      by (intro exI [of _ "Suc (hd_waits s)"]) (auto simp: hd_wait_bits_def)
  next
    case True
    have eq: "k div 512 = j \<and> k mod 512 = k - j * 512" if "j * 512 \<le> k" "k < j * 512 + 512" for k
    proof -
      have "k div 512 = j" using that by (intro div_nat_eqI) auto
      then show ?thesis by (simp add: modulo_nat_def)
    qed
    let ?s = "s\<lparr>hd_waits := Suc (hd_waits s)\<rparr>"
    let ?buf = "\<lambda>k. if j * 512 \<le> k \<and> k < j * 512 + 512
                   then hd_sectors s (first + j) (k - j * 512) else buf k"
    from True Suc.prems have "hd_read_loop (Some first) (Suc j) n ?buf ?s = (ret, d, s')"
      by (simp add: hd_wait_bits_def cong: if_cong)
    from Suc.IH [OF this] obtain w where w: "s' = ?s\<lparr>hd_waits := w\<rparr>"
      "ret = 0 \<longrightarrow> d = (\<lambda>k. if Suc j * 512 \<le> k \<and> k < (Suc j + n) * 512
         then hd_sectors ?s (first + k div 512) (k mod 512) else ?buf k)" by blast
    then show ?thesis by (intro exI [of _ w]) (auto simp: fun_eq_iff eq)
  qed
qed

lemma hd_read_sectors_any:
  assumes "hd_read_sectors lba n buf s = (ret, d, s')" and "lba + root_lba s + n \<le> HD_LIMIT" and "0 < n"
  shows "\<exists>w. s' = s\<lparr>hd_waits := w\<rparr> \<and>
    (ret = 0 \<longrightarrow> d = (\<lambda>k. if k < n * 512
       then hd_sectors s (lba + root_lba s + k div 512) (k mod 512) else buf k))"
proof -
  let ?l = "lba + root_lba s"
  have w: "w32 ?l = ?l" using assms by (simp add: HD_LIMIT_def)
  have g: "chs_sector (hd_geometry ?l) = ?l"
    using assms by (intro chs_sector_geometry) (simp add: HD_LIMIT_def)
  obtain m where m: "n = Suc m" using assms(3) by (cases n) auto
  consider "\<not> hd_resp s (hd_waits s)" | "hd_resp s (hd_waits s)" "\<not> hd_resp s (Suc (hd_waits s))"
    | "hd_resp s (hd_waits s)" "hd_resp s (Suc (hd_waits s))" by blast
  then show ?thesis
  proof cases
    case 3
    with assms(1) have "hd_read_loop (Some ?l) 0 n buf (s\<lparr>hd_waits := Suc (Suc (hd_waits s))\<rparr>) = (ret, d, s')"
      by (simp add: hd_read_sectors_def hd_busy_def hd_wait_bits_def hd_out_def w g)
    from hd_read_loop_any [OF this] show ?thesis by (auto cong: if_cong)
  qed (use assms(1) in \<open>auto simp: hd_read_sectors_def hd_busy_def hd_wait_bits_def hd_out_def w m\<close>)
qed

end
