(* ===== verification/Memory.thy ===== *)
theory Memory
  imports Hd
begin

text \<open>
  Physical pages, page tables, copy-on-write and swap: \<open>mm/memory.c\<close> without the page-fault
  entry, which needs the file layer. Physical memory is an array of 4096-byte frames; a page
  table entry is the 32-bit word at its physical address, because the kernel is identity mapped.
  Counters and the round-robin cursor are kept; the TLB is not modelled, so \<open>write_cr3\<close> with the
  directory already loaded has no effect here.
\<close>

unbundle bit_operations_syntax

subsection \<open>Constants\<close>

definition PAGE_SIZE :: nat where "PAGE_SIZE = 4096"
definition LOW_MEM :: nat where "LOW_MEM = 0x100000"
definition USED :: u32 where "USED = 100"
definition PTE_PRESENT :: u32 where "PTE_PRESENT = 0x001"
definition PTE_RW :: u32 where "PTE_RW = 0x002"
definition PTE_USER :: u32 where "PTE_USER = 0x004"
definition PTE_ACCESSED :: u32 where "PTE_ACCESSED = 0x020"
definition PTE_COW :: u32 where "PTE_COW = 0x200"
definition PTE_SWAPPED :: u32 where "PTE_SWAPPED = 0x800"
definition PT_MASK :: u32 where "PT_MASK = 0xFFFFF000"
definition PAGE_DIRECTORY :: u32 where "PAGE_DIRECTORY = 0x100000"
definition PAGE_TABLE_0 :: u32 where "PAGE_TABLE_0 = 0x101000"
definition KERNEL_PT_COUNT :: nat where "KERNEL_PT_COUNT = 4"
definition KERNEL_TABLES_END :: nat where "KERNEL_TABLES_END = 0x105000"
definition USER_BASE :: u32 where "USER_BASE = 0x08000000"
definition USER_WINDOW_SIZE :: u32 where "USER_WINDOW_SIZE = 0x400000"
definition USER_WINDOW_TOP :: u32 where "USER_WINDOW_TOP = 0x08400000"
definition USER_PDE_INDEX :: u32 where "USER_PDE_INDEX = 32"
definition USER_PROG_START :: u32 where "USER_PROG_START = 0x08000000"
definition USER_PROG_END :: u32 where "USER_PROG_END = 0x08100000"
definition USER_HEAP_START :: u32 where "USER_HEAP_START = 0x08100000"
definition USER_HEAP_END :: u32 where "USER_HEAP_END = 0x08200000"
definition USER_STACK_FLOOR :: u32 where "USER_STACK_FLOOR = 0x08300000"
definition USER_STACK_TOP :: u32 where "USER_STACK_TOP = 0x083FF000"
definition USER_TAIL_TOP :: u32 where "USER_TAIL_TOP = 0x08400000"
definition NR_SWAP_SLOTS :: nat where "NR_SWAP_SLOTS = 512"
definition SWAP_START_LBA :: nat where "SWAP_START_LBA = 2048"
definition SWAP_SLOT_SECTORS :: nat where "SWAP_SLOT_SECTORS = 8"

lemmas pte_consts = PTE_PRESENT_def PTE_RW_def PTE_USER_def PTE_ACCESSED_def PTE_COW_def
  PTE_SWAPPED_def PT_MASK_def
lemmas user_consts = USER_BASE_def USER_WINDOW_SIZE_def USER_WINDOW_TOP_def USER_PDE_INDEX_def
  USER_PROG_START_def USER_PROG_END_def USER_HEAP_START_def USER_HEAP_END_def
  USER_STACK_FLOOR_def USER_STACK_TOP_def USER_TAIL_TOP_def
lemmas swap_consts = NR_SWAP_SLOTS_def SWAP_START_LBA_def SWAP_SLOT_SECTORS_def

subsection \<open>State\<close>

record mem_state = hd_state +
  memory_end :: u32
  mem_map :: "nat \<Rightarrow> u32"
  max_map_nr :: nat
  ram :: "nat \<Rightarrow> bytes"
  swap_map :: "nat \<Rightarrow> bool"
  evict_cursor :: u32
  nr_swapouts :: u32
  nr_swapins :: u32
  nr_evicted :: u32
  nr_unmapped :: u32
  nr_page_faults :: u32
  nr_demand_pages :: u32
  nr_cow_breaks :: u32
  nr_oom :: u32
  nr_page_ins :: u32

definition MAP_NR :: "u32 \<Rightarrow> nat" where
  "MAP_NR addr = unat (addr - of_nat LOW_MEM) div PAGE_SIZE"

text \<open>One aligned 32-bit access at a physical address.\<close>

definition ram32 :: "'z mem_state_scheme \<Rightarrow> u32 \<Rightarrow> u32" where
  "ram32 s a = get32 (ram s (unat a div PAGE_SIZE)) (unat a mod PAGE_SIZE)"

definition set_ram32 :: "u32 \<Rightarrow> u32 \<Rightarrow> 'z mem_state_scheme \<Rightarrow> 'z mem_state_scheme" where
  "set_ram32 a v s = s\<lparr>ram := (ram s)(unat a div PAGE_SIZE :=
     put32 (unat a mod PAGE_SIZE) v (ram s (unat a div PAGE_SIZE)))\<rparr>"

subsection \<open>Page-table slots\<close>

definition pde_slot :: "u32 \<Rightarrow> u32 \<Rightarrow> u32" where
  "pde_slot pgdir va = pgdir + 4 * drop_bit 22 va"

definition pte_slot :: "u32 \<Rightarrow> u32 \<Rightarrow> 'z mem_state_scheme \<Rightarrow> u32 option" where
  "pte_slot pgdir va s =
     (let pde = ram32 s (pde_slot pgdir va)
      in if pde AND PTE_PRESENT = 0 then None
         else Some ((pde AND PT_MASK) + 4 * (drop_bit 12 va AND 0x3FF)))"

definition user_pt :: "u32 \<Rightarrow> 'z mem_state_scheme \<Rightarrow> u32 option" where
  "user_pt pgdir s =
     (if pgdir = 0 then None
      else let pde = ram32 s (pde_slot pgdir USER_BASE)
           in if pde AND PTE_PRESENT = 0 then None else Some (pde AND PT_MASK))"

definition user_addr_ok :: "u32 \<Rightarrow> u32 \<Rightarrow> bool" where
  "user_addr_ok addr len =
     (let e = addr + len
      in if e < addr then False
         else if addr \<ge> USER_PROG_START \<and> e \<le> USER_PROG_END then True
         else if addr \<ge> USER_HEAP_START \<and> e \<le> USER_HEAP_END then True
         else if addr \<ge> USER_STACK_FLOOR \<and> e \<le> USER_STACK_TOP then True
         else if addr \<ge> USER_STACK_TOP \<and> e \<le> USER_TAIL_TOP then True
         else False)"

subsection \<open>The page allocator\<close>

definition mark_used :: "nat \<Rightarrow> nat \<Rightarrow> (nat \<Rightarrow> u32) \<Rightarrow> nat \<Rightarrow> u32" where
  "mark_used a b m = (\<lambda>j. if a \<le> j \<and> j < b then USED else m j)"

definition mem_init :: "nat \<Rightarrow> nat \<Rightarrow> 'z mem_state_scheme \<Rightarrow> 'z mem_state_scheme" where
  "mem_init start_mem end_mem s =
     (let n = (end_mem - LOW_MEM) div PAGE_SIZE;
          map_size = n * 4;
          map_start = end_mem - map_size;
          ktables = (KERNEL_TABLES_END - LOW_MEM + PAGE_SIZE - 1) div PAGE_SIZE;
          m0 = (\<lambda>i. if i < n then 0 else mem_map s i);
          m1 = mark_used 0 (min ktables n) m0;
          first = (map_start - map_start mod PAGE_SIZE - LOW_MEM) div PAGE_SIZE;
          l = (map_start + map_size - 1 - LOW_MEM) div PAGE_SIZE;
          m2 = mark_used first (min (l + 1) n) m1;
          m3 = (if start_mem > LOW_MEM + ktables * PAGE_SIZE
                then (\<lambda>j. if ktables \<le> j \<and> j \<le> (start_mem - 1 - LOW_MEM) div PAGE_SIZE \<and> j < n \<and>
                            m2 j = 0 then USED else m2 j)
                else m2)
      in s\<lparr>memory_end := of_nat end_mem, max_map_nr := n, mem_map := m3\<rparr>)"

definition take_page :: "nat \<Rightarrow> 'z mem_state_scheme \<Rightarrow> u32 \<times> 'z mem_state_scheme" where
  "take_page i s =
     (of_nat (LOW_MEM + i * PAGE_SIZE),
      s\<lparr>mem_map := (mem_map s)(i := 1),
        ram := (ram s)((LOW_MEM + i * PAGE_SIZE) div PAGE_SIZE := (\<lambda>_. 0))\<rparr>)"

definition free_page :: "u32 \<Rightarrow> 'z mem_state_scheme \<Rightarrow> 'z mem_state_scheme" where
  "free_page addr s =
     (if unat addr < LOW_MEM then s
      else if addr \<ge> memory_end s then s
      else if addr AND 0xFFF \<noteq> 0 then s
      else let i = MAP_NR addr
           in if i \<ge> max_map_nr s then s
              else if mem_map s i = 0 then s
              else if mem_map s i \<ge> USED then s
              else s\<lparr>mem_map := (mem_map s)(i := mem_map s i - 1)\<rparr>)"

subsection \<open>Swap\<close>

definition swap_slots_free :: "'z mem_state_scheme \<Rightarrow> nat" where
  "swap_slots_free s = length (filter (\<lambda>i. \<not> swap_map s i) [0..<NR_SWAP_SLOTS])"

definition swap_free_slot :: "int \<Rightarrow> 'z mem_state_scheme \<Rightarrow> 'z mem_state_scheme" where
  "swap_free_slot slot s =
     (if slot \<ge> 0 \<and> slot < int NR_SWAP_SLOTS then s\<lparr>swap_map := (swap_map s)(nat slot := False)\<rparr> else s)"

definition swap_alloc_slot :: "'z mem_state_scheme \<Rightarrow> int \<times> 'z mem_state_scheme" where
  "swap_alloc_slot s =
     (case scan (\<lambda>i. \<not> swap_map s i) 0 NR_SWAP_SLOTS of
        None \<Rightarrow> (-1, s)
      | Some i \<Rightarrow> (int i, s\<lparr>swap_map := (swap_map s)(i := True)\<rparr>))"

definition swap_out_page :: "u32 \<Rightarrow> 'z mem_state_scheme \<Rightarrow> int \<times> 'z mem_state_scheme" where
  "swap_out_page pa s =
     (let (slot, s) = swap_alloc_slot s
      in if slot < 0 then (-1, s)
         else let (ret, s) = hd_write_sectors (SWAP_START_LBA + nat slot * SWAP_SLOT_SECTORS)
                               SWAP_SLOT_SECTORS (ram s (unat pa div PAGE_SIZE)) s
              in if ret < 0 then (-1, swap_free_slot slot s)
                 else (slot, s\<lparr>nr_swapouts := nr_swapouts s + 1\<rparr>))"

definition swap_in_page :: "int \<Rightarrow> u32 \<Rightarrow> 'z mem_state_scheme \<Rightarrow> int \<times> 'z mem_state_scheme" where
  "swap_in_page slot pa s =
     (if slot < 0 \<or> slot \<ge> int NR_SWAP_SLOTS then (-1, s)
      else let (ret, d, s) = hd_read_sectors (SWAP_START_LBA + nat slot * SWAP_SLOT_SECTORS)
                               SWAP_SLOT_SECTORS (ram s (unat pa div PAGE_SIZE)) s;
               s = s\<lparr>ram := (ram s)(unat pa div PAGE_SIZE := d)\<rparr>
           in if ret < 0 then (-1, s)
              else (0, s\<lparr>nr_swapins := nr_swapins s + 1\<rparr>))"

subsection \<open>Reclaiming a page\<close>

text \<open>
  The result of one step of the eviction scan: \<open>Found\<close> is a C \<open>return\<close>, \<open>Scan\<close> goes on with
  the remembered copy-on-write entry (its slot, its frame, its task).
\<close>

type_synonym fallback = "(u32 \<times> u32 \<times> tptr) option"

datatype 's evict = Found int 's | Scan fallback 's

primrec evict_loop :: "nat \<Rightarrow> nat \<Rightarrow> (nat \<Rightarrow> fallback \<Rightarrow> 's \<Rightarrow> 's evict) \<Rightarrow> fallback \<Rightarrow> 's \<Rightarrow> 's evict" where
  "evict_loop i 0 body fb s = Scan fb s"
| "evict_loop i (Suc k) body fb s =
     (case body i fb s of Found r s \<Rightarrow> Found r s | Scan fb s \<Rightarrow> evict_loop (Suc i) k body fb s)"

definition is_clean_text :: "task_struct \<Rightarrow> u32 \<Rightarrow> bool" where
  "is_clean_text t va =
     (if t_exe_inode t = None then False
      else case scan (\<lambda>i. let r = t_exe_regions t i
                          in \<not> (va < r_va r \<or> va \<ge> r_va r + r_memsz r)) 0 (t_nr_exe_regions t) of
             None \<Rightarrow> False
           | Some i \<Rightarrow> r_flags (t_exe_regions t i) AND 2 = 0)"

definition page_is_zero :: "u32 \<Rightarrow> 'z mem_state_scheme \<Rightarrow> bool" where
  "page_is_zero pa s \<longleftrightarrow> scan (\<lambda>i. ram32 s (pa + 4 * of_nat i) \<noteq> 0) 0 1024 = None"

text \<open>A page leaves its address space: the entry is overwritten and the frame released.\<close>

definition evict_page :: "u32 \<Rightarrow> u32 \<Rightarrow> u32 \<Rightarrow> nat \<Rightarrow> 'z mem_state_scheme \<Rightarrow> 'z mem_state_scheme" where
  "evict_page slot_addr entry pa n s =
     (let s = free_page pa (set_ram32 slot_addr entry s)
      in s\<lparr>nr_evicted := nr_evicted s + 1,
           evict_cursor := (evict_cursor s + of_nat n + 1) mod of_nat NR_TASKS\<rparr>)"

definition evict_pte :: "nat \<Rightarrow> nat \<Rightarrow> nat \<Rightarrow> nat \<Rightarrow> tptr \<Rightarrow> u32 \<Rightarrow> nat \<Rightarrow> fallback \<Rightarrow>
    'z mem_state_scheme \<Rightarrow> 'z mem_state_scheme evict" where
  "evict_pte round pass n idx t pt i fb s =
     (let slot_addr = pt + 4 * of_nat i;
          pte = ram32 s slot_addr;
          pa = pte AND PT_MASK;
          va = USER_BASE + of_nat (i * PAGE_SIZE)
      in if pte AND PTE_PRESENT = 0 \<or> pte AND PTE_USER = 0 then Scan fb s
         else if round = 0 \<and> pte AND PTE_ACCESSED \<noteq> 0
           then Scan fb (set_ram32 slot_addr (pte AND NOT PTE_ACCESSED) s)
         else if pass = 0 \<and> pte AND PTE_COW = 0 \<and> page_is_zero pa s
           then Found 1 (evict_page slot_addr 0 pa n s)
         else if pass = 1 \<and> pte AND PTE_COW = 0 \<and> is_clean_text (tstruct s t) va
           then Found 1 (evict_page slot_addr 0 pa n s)
         else if pass = 2 \<and> pte AND PTE_COW = 0
           then let pgdir_before = t_pg_dir (tstruct s t);
                    (slot, s) = swap_out_page pa s
                in if slot \<ge> 0
                   then if task s idx \<noteq> t \<or> t_pg_dir (tstruct s t) \<noteq> pgdir_before \<or>
                           ram32 s slot_addr \<noteq> pte
                        then Found 0 (swap_free_slot slot s)
                        else Found 1 (evict_page slot_addr
                               (PTE_SWAPPED OR push_bit 12 (of_int slot)) pa n s)
                   else Scan fb s
         else if pte AND PTE_COW \<noteq> 0 \<and> fb = None then Scan (Some (slot_addr, pa, t)) s
         else Scan fb s)"

definition evict_task :: "nat \<Rightarrow> nat \<Rightarrow> nat \<Rightarrow> fallback \<Rightarrow> 'z mem_state_scheme \<Rightarrow>
    'z mem_state_scheme evict" where
  "evict_task round pass n fb s =
     (let idx = unat ((evict_cursor s + of_nat n) mod of_nat NR_TASKS);
          t = task s idx
      in if t = 0 \<or> t_pg_dir (tstruct s t) = 0 \<or> t_pg_dir (tstruct s t) = PAGE_DIRECTORY
         then Scan fb s
         else case user_pt (t_pg_dir (tstruct s t)) s of
                None \<Rightarrow> Scan fb s
              | Some pt \<Rightarrow> evict_loop 0 1024 (evict_pte round pass n idx t pt) fb s)"

definition try_to_free_page :: "'z mem_state_scheme \<Rightarrow> int \<times> 'z mem_state_scheme" where
  "try_to_free_page s =
     (case evict_loop 0 2 (\<lambda>round. evict_loop 0 3 (\<lambda>pass. evict_loop 0 NR_TASKS (evict_task round pass)))
             None s of
        Found r s \<Rightarrow> (r, s)
      | Scan fb s \<Rightarrow>
          (case fb of
             None \<Rightarrow> (0, s)
           | Some (slot_addr, pa, t) \<Rightarrow>
               (1, (set_ram32 slot_addr 0 s)\<lparr>nr_unmapped := nr_unmapped s + 1\<rparr>)))"

fun reclaim_page :: "nat \<Rightarrow> 'z mem_state_scheme \<Rightarrow> u32 \<times> 'z mem_state_scheme" where
  "reclaim_page 0 s = (0, s)"
| "reclaim_page (Suc k) s =
     (let (r, s) = try_to_free_page s
      in if r = 0 then (0, s)
         else case scan (\<lambda>j. mem_map s j = 0) 0 (max_map_nr s) of
                Some j \<Rightarrow> take_page j s
              | None \<Rightarrow> reclaim_page k s)"

definition get_free_page :: "'z mem_state_scheme \<Rightarrow> u32 \<times> 'z mem_state_scheme" where
  "get_free_page s =
     (case scan (\<lambda>i. mem_map s i = 0) 0 (max_map_nr s) of
        Some i \<Rightarrow> take_page i s
      | None \<Rightarrow> reclaim_page 32 s)"

subsection \<open>Address spaces\<close>

definition alloc_user_pgdir :: "'z mem_state_scheme \<Rightarrow> u32 \<times> 'z mem_state_scheme" where
  "alloc_user_pgdir s =
     (let (pgdir, s) = get_free_page s
      in if pgdir = 0 then (0, s)
         else let (pt, s) = get_free_page s
              in if pt = 0 then (0, free_page pgdir s)
                 else let s = fold (\<lambda>i. set_ram32 (pgdir + 4 * of_nat i)
                                ((PAGE_TABLE_0 + push_bit 12 (of_nat i)) OR PTE_PRESENT OR PTE_RW))
                              [0..<KERNEL_PT_COUNT] s;
                          s = set_ram32 (pgdir + 4 * USER_PDE_INDEX)
                                (pt OR PTE_PRESENT OR PTE_RW OR PTE_USER) s
                      in (pgdir, s))"

definition alloc_user_page :: "u32 \<Rightarrow> u32 \<Rightarrow> 'z mem_state_scheme \<Rightarrow> u32 \<times> 'z mem_state_scheme" where
  "alloc_user_page pgdir va s =
     (let (pa, s) = get_free_page s
      in if pa = 0 then (0, s)
         else case pte_slot pgdir va s of
                None \<Rightarrow> (0, free_page pa s)
              | Some slot \<Rightarrow> (pa, set_ram32 slot (pa OR PTE_PRESENT OR PTE_RW OR PTE_USER) s))"

definition map_user_page :: "u32 \<Rightarrow> u32 \<Rightarrow> u32 \<Rightarrow> u32 \<Rightarrow> 'z mem_state_scheme \<Rightarrow> 'z mem_state_scheme" where
  "map_user_page pgdir va pa flags s =
     (case pte_slot pgdir va s of
        None \<Rightarrow> s
      | Some slot \<Rightarrow> set_ram32 slot ((pa AND PT_MASK) OR flags) s)"

text \<open>
  The loop of \<open>copy_page_tables\<close> from entry \<open>i\<close> on: the result is the number of shared pages, or
  \<open>-1\<close> from one of the two early returns. First the entry is brought back from swap if need be.
\<close>

definition unswap_pte :: "u32 \<Rightarrow> 'z mem_state_scheme \<Rightarrow> bool \<times> 'z mem_state_scheme" where
  "unswap_pte slot_addr s =
     (let pte = ram32 s slot_addr
      in if pte AND PTE_PRESENT = 0 \<and> pte AND PTE_SWAPPED \<noteq> 0
         then let (frame, s) = get_free_page s;
                  slot = int (unat (drop_bit 12 pte))
              in if frame = 0 then (False, s)
                 else let (r, s) = swap_in_page slot frame s
                      in if r < 0 then (False, free_page frame s)
                         else (True, set_ram32 slot_addr (frame OR PTE_PRESENT OR PTE_RW OR PTE_USER)
                                       (swap_free_slot slot s))
         else (True, s))"

definition share_pte :: "u32 \<Rightarrow> u32 \<Rightarrow> 'z mem_state_scheme \<Rightarrow> bool \<times> 'z mem_state_scheme" where
  "share_pte src dst s =
     (let pte = ram32 s src; k = MAP_NR (pte AND PT_MASK)
      in if pte AND PTE_PRESENT = 0 then (False, s)
         else let s = (if mem_map s k < USED then s\<lparr>mem_map := (mem_map s)(k := mem_map s k + 1)\<rparr> else s);
                  s = set_ram32 src ((pte AND NOT PTE_RW) OR PTE_COW) s;
                  s = set_ram32 dst ((pte AND NOT PTE_RW) OR PTE_COW) s
              in (True, s))"

fun copy_ptes :: "u32 \<Rightarrow> u32 \<Rightarrow> nat \<Rightarrow> nat \<Rightarrow> int \<Rightarrow> 'z mem_state_scheme \<Rightarrow> int \<times> 'z mem_state_scheme" where
  "copy_ptes spt dpt i 0 shared s = (shared, s)"
| "copy_ptes spt dpt i (Suc k) shared s =
     (let (ok, s) = unswap_pte (spt + 4 * of_nat i) s
      in if \<not> ok then (-1, s)
         else let (b, s) = share_pte (spt + 4 * of_nat i) (dpt + 4 * of_nat i) s
              in copy_ptes spt dpt (Suc i) k (if b then shared + 1 else shared) s)"

definition copy_page_tables :: "u32 \<Rightarrow> u32 \<Rightarrow> 'z mem_state_scheme \<Rightarrow> int \<times> 'z mem_state_scheme" where
  "copy_page_tables from_pgdir to_pgdir s =
     (case (user_pt from_pgdir s, user_pt to_pgdir s) of
        (Some spt, Some dpt) \<Rightarrow> copy_ptes spt dpt 0 1024 0 s
      | _ \<Rightarrow> (-1, s))"

definition un_wp_page :: "u32 \<Rightarrow> 'z mem_state_scheme \<Rightarrow> int \<times> 'z mem_state_scheme" where
  "un_wp_page address s =
     (if t_pg_dir (cur s) = 0 then (-1, s)
      else case pte_slot (t_pg_dir (cur s)) address s of
             None \<Rightarrow> (-1, s)
           | Some slot \<Rightarrow>
               if ram32 s slot AND PTE_PRESENT = 0 then (-1, s)
               else let old = ram32 s slot AND PT_MASK;
                        (new, s) = get_free_page s
                    in if new = 0 then (-1, s)
                       else let s = s\<lparr>ram := (ram s)(unat new div PAGE_SIZE := ram s (unat old div PAGE_SIZE))\<rparr>;
                                s = set_ram32 slot (new OR PTE_PRESENT OR PTE_RW OR PTE_USER) s
                            in (0, free_page old s))"

definition free_pte :: "u32 \<Rightarrow> 'z mem_state_scheme \<Rightarrow> 'z mem_state_scheme" where
  "free_pte slot_addr s =
     (let pte = ram32 s slot_addr;
          s = (if pte AND PTE_PRESENT \<noteq> 0 then free_page (pte AND PT_MASK) s
               else if pte AND PTE_SWAPPED \<noteq> 0 then swap_free_slot (int (unat (drop_bit 12 pte))) s
               else s)
      in set_ram32 slot_addr 0 s)"

definition free_page_tables :: "u32 \<Rightarrow> u32 \<Rightarrow> u32 \<Rightarrow> 'z mem_state_scheme \<Rightarrow> (int \<times> 'z mem_state_scheme) option" where
  "free_page_tables pgdir from sz s =
     (if pgdir = 0 then Some (-1, s)
      else if from < USER_BASE \<or> from + sz > USER_WINDOW_TOP then None
      else case user_pt pgdir s of
             None \<Rightarrow> Some (0, s)
           | Some pt \<Rightarrow>
               let s = fold (\<lambda>i. free_pte (pt + 4 * of_nat i)) [0..<1024] s;
                   s = free_page pt s;
                   s = set_ram32 (pde_slot pgdir from) 0 s
               in Some (0, s))"

definition free_user_space :: "u32 \<Rightarrow> 'z mem_state_scheme \<Rightarrow> 'z mem_state_scheme option" where
  "free_user_space pgdir s =
     (if pgdir = 0 then Some s
      else do { (r, s) \<leftarrow> free_page_tables pgdir USER_BASE USER_WINDOW_SIZE s;
                Some (free_page pgdir s) })"

function load_flat_pages :: "u32 \<Rightarrow> bytes \<Rightarrow> nat \<Rightarrow> nat \<Rightarrow> 'z mem_state_scheme \<Rightarrow>
    (u32 \<times> 'z mem_state_scheme) option" where
  "load_flat_pages pgdir img len off s =
     (if off < len
      then let (pa, s) = alloc_user_page pgdir (USER_PROG_START + of_nat off) s;
               n = min (len - off) PAGE_SIZE
           in if pa = 0 then do { s \<leftarrow> free_user_space pgdir s; Some (0, s) }
              else load_flat_pages pgdir img len (off + PAGE_SIZE)
                     (s\<lparr>ram := (ram s)(unat pa div PAGE_SIZE :=
                          (\<lambda>k. if k < n then img (off + k) else ram s (unat pa div PAGE_SIZE) k))\<rparr>)
      else Some (pgdir, s))"
  by pat_completeness auto
termination
  by (relation "measure (\<lambda>(_, _, len, off, _). len - off)") (auto simp: PAGE_SIZE_def)

declare load_flat_pages.simps [simp del]

definition load_flat_image :: "bytes \<Rightarrow> nat \<Rightarrow> 'z mem_state_scheme \<Rightarrow> (u32 \<times> u32 \<times> 'z mem_state_scheme) option" where
  "load_flat_image img len s =
     (if len = 0 \<or> len > unat (USER_PROG_END - USER_PROG_START) then Some (0, 0, s)
      else let (pgdir, s) = alloc_user_pgdir s
           in if pgdir = 0 then Some (0, 0, s)
              else do { (r, s) \<leftarrow> load_flat_pages pgdir img len 0 s;
                        Some (r, if r = 0 then 0 else USER_PROG_START, s) })"

definition count_free_pages :: "'z mem_state_scheme \<Rightarrow> nat" where
  "count_free_pages s = length (filter (\<lambda>i. mem_map s i = 0) [0..<max_map_nr s])"

end
