(* ===== verification/Buffer.thy ===== *)
theory Buffer
  imports Memory
begin

text \<open>
  The block cache: \<open>fs/buffer.c\<close>. A buffer head is named by its index in the array that
  \<open>buffer_init\<close> lays out, a null pointer is \<open>None\<close>, and \<open>b_data\<close> holds the block's bytes.
  An operation that would sleep until another task acts yields \<open>None\<close>.

  The cache keeps three structures over the same 256 heads: the circular list through
  \<open>b_next_free\<close>/\<open>b_prev_free\<close> that \<open>getblk\<close> searches and \<open>brelse\<close> reorders, the doubly linked hash
  chains, and the reference counts.
\<close>

unbundle bit_operations_syntax

subsection \<open>Data and state\<close>

definition BLOCK_SIZE :: nat where "BLOCK_SIZE = 1024"
definition NR_BUFFERS :: nat where "NR_BUFFERS = 256"
definition READ :: nat where "READ = 0"
definition WRITE :: nat where "WRITE = 1"
definition BUFFER_CACHE_FLOOR :: nat where "BUFFER_CACHE_FLOOR = 0x350000"
definition SIZEOF_BUFFER_HEAD :: nat where "SIZEOF_BUFFER_HEAD = 36"

record buffer_head =
  b_data :: bytes
  b_blocknr :: nat
  b_dev :: u16
  b_uptodate :: bool
  b_dirt :: bool
  b_count :: byte
  b_lock :: bool
  b_wait :: tptr
  b_prev :: "nat option"
  b_next :: "nat option"
  b_prev_free :: "nat option"
  b_next_free :: "nat option"

record buf_state = mem_state +
  heads :: "nat \<Rightarrow> buffer_head"
  hash_table :: "nat \<Rightarrow> nat option"
  free_list :: "nat option"
  nr_buffers :: nat
  buf_mem_start :: nat
  buffer_cache_end :: nat

definition upd_head :: "nat \<Rightarrow> (buffer_head \<Rightarrow> buffer_head) \<Rightarrow> 'z buf_state_scheme \<Rightarrow> 'z buf_state_scheme" where
  "upd_head b f s = s\<lparr>heads := (heads s)(b := f (heads s b))\<rparr>"

definition buf_hash :: "u16 \<Rightarrow> nat \<Rightarrow> nat" where
  "buf_hash dev block = (unat dev XOR block) AND (NR_BUFFERS - 1)"

subsection \<open>Operations\<close>

text \<open>
  \<open>buffer_init\<close>: the heads sit below \<open>buffer_end\<close>, the data below the heads. The fields \<open>b_prev\<close>
  and \<open>b_next\<close> keep what the memory held before.
\<close>

definition buffer_init :: "nat \<Rightarrow> 'z buf_state_scheme \<Rightarrow> 'z buf_state_scheme option" where
  "buffer_init buffer_end s =
     (let total_bh_size = NR_BUFFERS * SIZEOF_BUFFER_HEAD;
          total_data_size = NR_BUFFERS * BLOCK_SIZE;
          data_start = buffer_end - total_bh_size - total_data_size
      in if data_start < BUFFER_CACHE_FLOOR then None
         else let h = (\<lambda>i. if i < NR_BUFFERS
                          then (heads s i)\<lparr>b_dev := 0, b_blocknr := 0, b_uptodate := False,
                                 b_dirt := False, b_count := 0, b_lock := False, b_wait := 0,
                                 b_prev_free := Some (if i = 0 then NR_BUFFERS - 1 else i - 1),
                                 b_next_free := Some (if i = NR_BUFFERS - 1 then 0 else i + 1)\<rparr>
                          else heads s i);
                  first = (data_start - data_start mod PAGE_SIZE - LOW_MEM) div PAGE_SIZE;
                  l = (buffer_end - 1 - LOW_MEM) div PAGE_SIZE
              in Some (s\<lparr>heads := h, free_list := Some 0, nr_buffers := NR_BUFFERS,
                         buf_mem_start := data_start, buffer_cache_end := buffer_end,
                         hash_table := (\<lambda>i. if i < NR_BUFFERS then None else hash_table s i),
                         mem_map := mark_used first (min (l + 1) (max_map_nr s)) (mem_map s)\<rparr>))"

definition ll_rw_block :: "nat \<Rightarrow> nat \<Rightarrow> 'z buf_state_scheme \<Rightarrow> 'z buf_state_scheme" where
  "ll_rw_block rw b s =
     (if rw \<noteq> READ \<and> rw \<noteq> WRITE then s
      else let s = upd_head b (b_lock_update (\<lambda>_. True)) s;
               lba = w32 (b_blocknr (heads s b) * (BLOCK_SIZE div 512));
               nsects = BLOCK_SIZE div 512;
               s = (if rw = READ
                    then let (ret, d, s) = hd_read_sectors lba nsects (b_data (heads s b)) s;
                             s = upd_head b (b_data_update (\<lambda>_. d)) s
                         in if ret = 0 then upd_head b (b_uptodate_update (\<lambda>_. True)) s else s
                    else let (ret, s) = hd_write_sectors lba nsects (b_data (heads s b)) s
                         in if ret = 0
                            then upd_head b (\<lambda>h. h\<lparr>b_dirt := False, b_uptodate := True\<rparr>) s else s);
               s = upd_head b (b_lock_update (\<lambda>_. False)) s;
               (q, s) = wake_up (b_wait (heads s b)) s
           in upd_head b (b_wait_update (\<lambda>_. q)) s)"

partial_function (option) hash_find :: "(nat \<Rightarrow> buffer_head) \<Rightarrow> u16 \<Rightarrow> nat \<Rightarrow> nat option \<Rightarrow> nat option option" where
  "hash_find h dev block p =
     (if p = None then Some None
      else let b = the p
           in if b_dev (h b) = dev \<and> b_blocknr (h b) = block then Some (Some b)
              else hash_find h dev block (b_next (h b)))"

partial_function (option) find_free :: "(nat \<Rightarrow> buffer_head) \<Rightarrow> nat option \<Rightarrow> nat option \<Rightarrow> nat option option" where
  "find_free h fl p =
     (if p = None then Some None
      else let b = the p
           in if b_count (h b) = 0 then Some (Some b)
              else if b_next_free (h b) = fl then Some None
              else find_free h fl (b_next_free (h b)))"

definition unlink_hash :: "nat \<Rightarrow> 'z buf_state_scheme \<Rightarrow> 'z buf_state_scheme" where
  "unlink_hash b s =
     (let old_i = buf_hash (b_dev (heads s b)) (b_blocknr (heads s b));
          s = (case b_prev (heads s b) of
                 Some p \<Rightarrow> upd_head p (b_next_update (\<lambda>_. b_next (heads s b))) s
               | None \<Rightarrow> if hash_table s old_i = Some b
                         then s\<lparr>hash_table := (hash_table s)(old_i := b_next (heads s b))\<rparr> else s)
      in case b_next (heads s b) of
           Some q \<Rightarrow> upd_head q (b_prev_update (\<lambda>_. b_prev (heads s b))) s
         | None \<Rightarrow> s)"

definition link_hash :: "u16 \<Rightarrow> nat \<Rightarrow> nat \<Rightarrow> 'z buf_state_scheme \<Rightarrow> 'z buf_state_scheme" where
  "link_hash dev block b s =
     (let i = buf_hash dev block;
          s = upd_head b (\<lambda>h. h\<lparr>b_count := 1, b_dev := dev, b_blocknr := block,
                              b_uptodate := False, b_dirt := False\<rparr>) s;
          s = upd_head b (\<lambda>h. h\<lparr>b_prev := None, b_next := hash_table s i\<rparr>) s;
          s = (case hash_table s i of
                 Some q \<Rightarrow> upd_head q (b_prev_update (\<lambda>_. Some b)) s
               | None \<Rightarrow> s)
      in s\<lparr>hash_table := (hash_table s)(i := Some b)\<rparr>)"

definition getblk :: "u16 \<Rightarrow> nat \<Rightarrow> 'z buf_state_scheme \<Rightarrow> (nat \<times> 'z buf_state_scheme) option" where
  "getblk dev block s = do {
     hit \<leftarrow> hash_find (heads s) dev block (hash_table s (buf_hash dev block));
     case hit of
       Some b \<Rightarrow> Some (b, upd_head b (b_count_update (\<lambda>c. c + 1)) s)
     | None \<Rightarrow> do {
         fr \<leftarrow> find_free (heads s) (free_list s) (free_list s);
         case fr of
           None \<Rightarrow> None
         | Some b \<Rightarrow>
             let s = (if b_dirt (heads s b)
                      then upd_head b (b_count_update (\<lambda>_. 0))
                             (ll_rw_block WRITE b (upd_head b (b_count_update (\<lambda>_. 1)) s))
                      else s)
             in Some (b, link_hash dev block b (unlink_hash b s)) } }"

definition brelse :: "nat option \<Rightarrow> 'z buf_state_scheme \<Rightarrow> 'z buf_state_scheme option" where
  "brelse buf s =
     (case buf of None \<Rightarrow> Some s
      | Some b \<Rightarrow>
          let s = upd_head b (b_count_update (\<lambda>c. c - 1)) s
          in if b_count (heads s b) \<noteq> 0 then Some s
             else if free_list s = Some b then Some s
             else let s = (case (b_prev_free (heads s b), b_next_free (heads s b)) of
                             (Some p, Some n) \<Rightarrow>
                                let s = upd_head p (b_next_free_update (\<lambda>_. b_next_free (heads s b))) s
                                in upd_head n (b_prev_free_update (\<lambda>_. b_prev_free (heads s b))) s
                           | _ \<Rightarrow> s)
                  in do {
                       f \<leftarrow> free_list s;
                       let s = upd_head b (\<lambda>h. h\<lparr>b_prev_free := Some f,
                                               b_next_free := b_next_free (heads s f)\<rparr>) s;
                       n \<leftarrow> b_next_free (heads s f);
                       let s = upd_head n (b_prev_free_update (\<lambda>_. Some b)) s;
                       let s = upd_head f (b_next_free_update (\<lambda>_. Some b)) s;
                       Some (s\<lparr>free_list := Some b\<rparr>) })"

definition wait_on_buffer :: "nat \<Rightarrow> 'z buf_state_scheme \<Rightarrow> 'z buf_state_scheme option" where
  "wait_on_buffer b s = (if b_lock (heads s b) then None else Some s)"

definition bread :: "u16 \<Rightarrow> nat \<Rightarrow> 'z buf_state_scheme \<Rightarrow> (nat option \<times> 'z buf_state_scheme) option" where
  "bread dev block s = do {
     (b, s) \<leftarrow> getblk dev block s;
     if b_uptodate (heads s b) then Some (Some b, s)
     else if b_lock (heads s b) then None
     else do {
       s \<leftarrow> wait_on_buffer b (ll_rw_block READ b s);
       if b_uptodate (heads s b) then Some (Some b, s)
       else do { s \<leftarrow> brelse (Some b) s; Some (None, s) } } }"

text \<open>The loop of \<open>sync_dev\<close>, which flushes the buffers; \<open>sync_inodes\<close> follows it.\<close>

fun sync_buffers :: "u16 \<Rightarrow> nat \<Rightarrow> nat option \<Rightarrow> nat \<Rightarrow> 'z buf_state_scheme \<Rightarrow> (nat \<times> 'z buf_state_scheme) option" where
  "sync_buffers dev 0 p written s = Some (written, s)"
| "sync_buffers dev (Suc k) p written s = do {
     b \<leftarrow> p;
     if b_dev (heads s b) = dev \<and> b_dirt (heads s b)
     then let s = upd_head b (b_count_update (\<lambda>c. c + 1)) s;
              s = ll_rw_block WRITE b s;
              s = upd_head b (b_count_update (\<lambda>c. c - 1)) s
          in sync_buffers dev k (b_next_free (heads s b)) (written + 1) s
     else sync_buffers dev k (b_next_free (heads s b)) written s }"

end
