(* ===== verification/Cache.thy ===== *)
theory Cache
  imports Buffer
begin

text \<open>
  The block cache works: its pointer structures stay well formed under every operation, the
  search loops end, and the blocks seen through it are a faithful view of the disk.
\<close>

subsection \<open>Doubly linked sequences\<close>

text \<open>
  \<open>lnk nf pf p q\<close>: the forward link of \<open>p\<close> is \<open>q\<close> and the backward link of \<open>q\<close> is \<open>p\<close>, where \<open>None\<close>
  is a list end. A list is a sequence whose neighbours are linked: a null-terminated chain
  starts and ends with \<open>None\<close>, a ring starts and ends with the same node.
\<close>

definition lnk :: "(nat \<Rightarrow> nat option) \<Rightarrow> (nat \<Rightarrow> nat option) \<Rightarrow> nat option \<Rightarrow> nat option \<Rightarrow> bool" where
  "lnk nf pf p q \<longleftrightarrow> (\<forall>x. p = Some x \<longrightarrow> nf x = q) \<and> (\<forall>y. q = Some y \<longrightarrow> pf y = p)"

abbreviation linked :: "(nat \<Rightarrow> nat option) \<Rightarrow> (nat \<Rightarrow> nat option) \<Rightarrow> nat option list \<Rightarrow> bool" where
  "linked nf pf \<equiv> successively (lnk nf pf)"

lemma linked_cong:
  assumes "linked nf pf xs"
    and "\<And>x. Some x \<in> set (butlast xs) \<Longrightarrow> nf' x = nf x"
    and "\<And>y. Some y \<in> set (tl xs) \<Longrightarrow> pf' y = pf y"
  shows "linked nf' pf' xs"
  using assms
proof (induction xs rule: induct_list012)
  case (3 x y zs)
  have "linked nf' pf' (y # zs)"
  proof (rule "3.IH"(2))
    show "linked nf pf (y # zs)" using "3.prems"(1) by simp
    show "nf' x = nf x" if "Some x \<in> set (butlast (y # zs))" for x
      using that "3.prems"(2) by simp
    show "pf' z = pf z" if "Some z \<in> set (tl (y # zs))" for z
      using that "3.prems"(3) by simp
  qed
  moreover have "lnk nf' pf' x y"
    using "3.prems" by (auto simp: lnk_def)
  ultimately show ?case by simp
qed simp_all

lemma linked_append:
  "linked nf pf (xs @ y # ys) \<longleftrightarrow> linked nf pf (xs @ [y]) \<and> linked nf pf (y # ys)"
  by (auto simp: successively_append_iff)

lemma linked_mid:
  assumes "linked nf pf (map Some (us @ b # vs))"
  shows "us \<noteq> [] \<Longrightarrow> pf b = Some (last us)" "vs \<noteq> [] \<Longrightarrow> nf b = Some (hd vs)"
  using assms by (cases us rule: rev_cases; cases vs; auto simp: successively_append_iff lnk_def)+

text \<open>Taking a node out: its two neighbours are linked to each other.\<close>

definition relink :: "nat option \<Rightarrow> nat option \<Rightarrow> (nat \<Rightarrow> nat option) \<Rightarrow> nat \<Rightarrow> nat option" where
  "relink p q f = (case p of Some x \<Rightarrow> f(x := q) | None \<Rightarrow> f)"

lemma linked_unlink:
  assumes "linked nf pf (us @ p # Some b # q # vs)"
    and "\<And>x. p = Some x \<Longrightarrow> p \<notin> set us \<and> p \<notin> set (butlast (q # vs))"
    and "\<And>y. q = Some y \<Longrightarrow> q \<notin> set (tl (us @ [p])) \<and> q \<notin> set vs"
  shows "linked (relink p q nf) (relink q p pf) (us @ p # q # vs)"
proof -
  have "linked nf pf (us @ [p])" "linked nf pf (q # vs)"
    using assms(1) by (simp_all add: linked_append [of _ _ us p] linked_append [of _ _ "us @ [p, Some b]" q]
        successively_append_iff)
  then have "linked (relink p q nf) (relink q p pf) (us @ [p])"
    "linked (relink p q nf) (relink q p pf) (q # vs)"
    using assms(2,3)
    by (auto intro!: linked_cong [of nf pf] simp: relink_def butlast_append split: option.splits if_splits)
  moreover have "lnk (relink p q nf) (relink q p pf) p q"
    by (auto simp: lnk_def relink_def)
  ultimately show ?thesis
    by (auto simp: successively_append_iff)
qed

subsection \<open>The ring of all buffers\<close>

definition ROOT_DEV :: u16 where "ROOT_DEV = 0x301"

abbreviation nfree :: "'z buf_state_scheme \<Rightarrow> nat \<Rightarrow> nat option" where
  "nfree s \<equiv> \<lambda>b. b_next_free (heads s b)"

abbreviation pfree :: "'z buf_state_scheme \<Rightarrow> nat \<Rightarrow> nat option" where
  "pfree s \<equiv> \<lambda>b. b_prev_free (heads s b)"

abbreviation bnext :: "'z buf_state_scheme \<Rightarrow> nat \<Rightarrow> nat option" where
  "bnext s \<equiv> \<lambda>b. b_next (heads s b)"

abbreviation bprev :: "'z buf_state_scheme \<Rightarrow> nat \<Rightarrow> nat option" where
  "bprev s \<equiv> \<lambda>b. b_prev (heads s b)"

definition ring :: "'z buf_state_scheme \<Rightarrow> nat list \<Rightarrow> bool" where
  "ring s xs \<longleftrightarrow> xs \<noteq> [] \<and> distinct xs \<and> set xs = {..<NR_BUFFERS} \<and> free_list s = Some (hd xs) \<and>
     linked (nfree s) (pfree s) (map Some (xs @ [hd xs]))"

lemma find_free_suffix:
  assumes "linked (\<lambda>b. b_next_free (h b)) pf (map Some (ys @ [z]))" and "z \<notin> set (tl ys)" and "ys \<noteq> []"
  shows "find_free h (Some z) (Some (hd ys)) = Some (find (\<lambda>b. b_count (h b) = 0) ys)"
  using assms
proof (induction ys)
  case (Cons y ys)
  show ?case
  proof (cases ys)
    case Nil
    with Cons.prems show ?thesis
      by (simp add: find_free.simps [of h _ "Some y"] lnk_def)
  next
    case (Cons y' ys')
    with Cons.prems have n: "b_next_free (h y) = Some y'" and z: "z \<noteq> y'" "z \<notin> set (tl ys)"
      by (auto simp: lnk_def)
    from Cons Cons.prems have "linked (\<lambda>b. b_next_free (h b)) pf (map Some (ys @ [z]))" by simp
    with Cons.IH z Cons have "find_free h (Some z) (Some y') = Some (find (\<lambda>b. b_count (h b) = 0) ys)"
      by simp
    with n z show ?thesis by (simp add: find_free.simps [of h _ "Some y"])
  qed
qed simp

lemma find_free_ring:
  assumes "ring s xs"
  shows "find_free (heads s) (free_list s) (free_list s) = Some (find (\<lambda>b. b_count (heads s b) = 0) xs)"
proof -
  obtain y ys where xs: "xs = y # ys" using assms by (cases xs) (auto simp: ring_def)
  then show ?thesis
    using assms find_free_suffix [of "heads s" "pfree s" xs y] by (simp add: ring_def)
qed

subsection \<open>The hash chains\<close>

definition bucket :: "'z buf_state_scheme \<Rightarrow> nat set \<Rightarrow> nat \<Rightarrow> nat list \<Rightarrow> bool" where
  "bucket s H i ys \<longleftrightarrow> linked (bnext s) (bprev s) (None # map Some ys @ [None]) \<and>
     hash_table s i = hd (map Some ys @ [None]) \<and> distinct ys \<and>
     set ys = {b \<in> H. buf_hash (b_dev (heads s b)) (b_blocknr (heads s b)) = i}"

definition hash_chains :: "'z buf_state_scheme \<Rightarrow> nat set \<Rightarrow> bool" where
  "hash_chains s H \<longleftrightarrow> (\<forall>i<NR_BUFFERS. \<exists>ys. bucket s H i ys)"

lemma hash_find_chain:
  assumes "linked (\<lambda>b. b_next (h b)) bp (p # map Some ys @ [None])"
  shows "hash_find h dev blk (hd (map Some ys @ [None])) =
    Some (find (\<lambda>b. b_dev (h b) = dev \<and> b_blocknr (h b) = blk) ys)"
  using assms
proof (induction ys arbitrary: p)
  case Nil
  then show ?case by (simp add: hash_find.simps)
next
  case (Cons y ys)
  have "b_next (h y) = hd (map Some ys @ [None])"
    using Cons.prems by (cases ys) (auto simp: lnk_def)
  with Cons.IH [of "Some y"] Cons.prems show ?case
    by (simp add: hash_find.simps [of h _ _ "Some y"])
qed

lemma buf_hash_less: "buf_hash dev blk < NR_BUFFERS"
proof -
  have "(unat dev XOR blk) AND (2 ^ 8 - 1) = (unat dev XOR blk) mod 2 ^ 8"
    by (simp only: and_nat_def take_bit_eq_mod [symmetric] mask_eq_exp_minus_1 [symmetric] take_bit_eq_mask)
  then show ?thesis by (simp add: buf_hash_def NR_BUFFERS_def)
qed

lemma hash_find_bucket:
  assumes "hash_chains s H"
  obtains ys where "bucket s H (buf_hash dev blk) ys"
    "hash_find (heads s) dev blk (hash_table s (buf_hash dev blk)) =
       Some (find (\<lambda>b. b_dev (heads s b) = dev \<and> b_blocknr (heads s b) = blk) ys)"
proof -
  obtain ys where ys: "bucket s H (buf_hash dev blk) ys"
    using assms buf_hash_less [of dev blk] unfolding hash_chains_def by blast
  then have "hash_find (heads s) dev blk (hash_table s (buf_hash dev blk)) =
       Some (find (\<lambda>b. b_dev (heads s b) = dev \<and> b_blocknr (heads s b) = blk) ys)"
    using hash_find_chain [of "heads s" "bprev s" None ys dev blk] by (simp add: bucket_def)
  with ys that show ?thesis by blast
qed

lemma hash_find_hit:
  assumes "hash_chains s H" and "b \<in> H" and "b_dev (heads s b) = dev" "b_blocknr (heads s b) = blk"
    and "\<And>c. c \<in> H \<Longrightarrow> b_dev (heads s c) = dev \<Longrightarrow> b_blocknr (heads s c) = blk \<Longrightarrow> c = b"
  shows "hash_find (heads s) dev blk (hash_table s (buf_hash dev blk)) = Some (Some b)"
proof -
  let ?P = "\<lambda>b. b_dev (heads s b) = dev \<and> b_blocknr (heads s b) = blk"
  obtain ys where ys: "bucket s H (buf_hash dev blk) ys"
    "hash_find (heads s) dev blk (hash_table s (buf_hash dev blk)) = Some (find ?P ys)"
    using hash_find_bucket [OF assms(1)] by blast
  have "b \<in> set ys" using ys(1) assms(2-4) by (auto simp: bucket_def)
  then obtain c where c: "find ?P ys = Some c" using assms(3,4)
    by (cases "find ?P ys") (auto simp: find_None_iff)
  then have "?P c" "c \<in> set ys" by (auto simp: find_Some_iff)
  with ys(1) assms(5) have "c = b" by (auto simp: bucket_def)
  with ys(2) c show ?thesis by simp
qed

lemma hash_find_miss:
  assumes "hash_chains s H" and "\<And>c. c \<in> H \<Longrightarrow> b_dev (heads s c) = dev \<Longrightarrow> b_blocknr (heads s c) \<noteq> blk"
  shows "hash_find (heads s) dev blk (hash_table s (buf_hash dev blk)) = Some None"
proof -
  let ?P = "\<lambda>b. b_dev (heads s b) = dev \<and> b_blocknr (heads s b) = blk"
  obtain ys where ys: "bucket s H (buf_hash dev blk) ys"
    "hash_find (heads s) dev blk (hash_table s (buf_hash dev blk)) = Some (find ?P ys)"
    using hash_find_bucket [OF assms(1)] by blast
  from ys(1) assms(2) have "find ?P ys = None" by (auto simp: bucket_def find_None_iff)
  with ys(2) show ?thesis by simp
qed

subsection \<open>Unlinking and linking a buffer\<close>

lemma heads_upd_head [simp]: "heads (upd_head b f s) = (heads s)(b := f (heads s b))"
  by (simp add: upd_head_def)

lemma upd_head_other [simp]:
  "hash_table (upd_head b f s) = hash_table s"
  "free_list (upd_head b f s) = free_list s"
  "hd_sectors (upd_head b f s) = hd_sectors s"
  "hd_waits (upd_head b f s) = hd_waits s"
  "hd_resp (upd_head b f s) = hd_resp s"
  "root_lba (upd_head b f s) = root_lba s"
  by (simp_all add: upd_head_def)

text \<open>Where a node of a chain sits, and what its link fields hold there.\<close>

lemma bucket_split:
  assumes "bucket s H i ys" and "b \<in> set ys"
  obtains us vs U p q V where "ys = us @ b # vs" "b \<notin> set us" "b \<notin> set vs"
    "None # map Some us = U @ [p]" "map Some vs @ [None] = q # V"
    "bprev s b = p" "bnext s b = q" "linked (bnext s) (bprev s) (U @ p # Some b # q # V)"
proof -
  from assms(2) obtain us vs where ys: "ys = us @ b # vs" by (auto simp: in_set_conv_decomp)
  obtain U p where U: "None # map Some us = U @ [p]" by (metis list.distinct(1) rev_exhaust)
  obtain q V where V: "map Some vs @ [None] = q # V" by (cases vs) auto
  have "None # map Some ys @ [None] = (None # map Some us) @ Some b # (map Some vs @ [None])"
    by (simp add: ys)
  then have "None # map Some ys @ [None] = U @ p # Some b # q # V"
    unfolding U V by simp
  then have l: "linked (bnext s) (bprev s) (U @ p # Some b # q # V)"
    using assms(1) by (simp add: bucket_def)
  then have "lnk (bnext s) (bprev s) p (Some b)" "lnk (bnext s) (bprev s) (Some b) q"
    by (simp_all add: successively_append_iff)
  then have "bprev s b = p" "bnext s b = q" by (auto simp: lnk_def)
  with that [OF ys _ _ U V _ _ l] assms(1) ys show ?thesis by (auto simp: bucket_def)
qed

lemma unlink_hash_links:
  fixes s :: "'z buf_state_scheme"
  assumes "b_prev (heads s b) = p" "b_next (heads s b) = q" "p \<noteq> Some b" "q \<noteq> Some b"
  defines "i \<equiv> buf_hash (b_dev (heads s b)) (b_blocknr (heads s b))"
  defines "s' \<equiv> unlink_hash b s"
  shows "bnext s' = relink p q (bnext s)" "bprev s' = relink q p (bprev s)"
    "hash_table s' = (if p = None \<and> hash_table s i = Some b then (hash_table s)(i := q) else hash_table s)"
    "heads s' x = (heads s x)\<lparr>b_prev := bprev s' x, b_next := bnext s' x\<rparr>"
    "s' = s\<lparr>heads := heads s', hash_table := hash_table s'\<rparr>"
proof -
  have neq: "\<And>x. p = Some x \<Longrightarrow> x \<noteq> b" "\<And>x. q = Some x \<Longrightarrow> x \<noteq> b"
    using assms by auto
  show "bnext s' = relink p q (bnext s)" "bprev s' = relink q p (bprev s)"
    "hash_table s' = (if p = None \<and> hash_table s i = Some b then (hash_table s)(i := q) else hash_table s)"
    using neq unfolding s'_def unlink_hash_def i_def
    by (auto simp: assms(1,2) relink_def Let_def fun_eq_iff split: option.splits)
  show "heads s' x = (heads s x)\<lparr>b_prev := bprev s' x, b_next := bnext s' x\<rparr>"
    using neq unfolding s'_def unlink_hash_def
    by (auto simp: assms(1,2) Let_def split: option.splits)
  show "s' = s\<lparr>heads := heads s', hash_table := hash_table s'\<rparr>"
    using neq unfolding s'_def unlink_hash_def
    by (auto simp: assms(1,2) upd_head_def Let_def split: option.splits)
qed

lemma unlink_hash_chains:
  assumes "hash_chains s H" and "b \<in> H"
  shows "hash_chains (unlink_hash b s) (H - {b})"
  unfolding hash_chains_def
proof (intro allI impI)
  fix j assume j: "j < NR_BUFFERS"
  let ?i = "buf_hash (b_dev (heads s b)) (b_blocknr (heads s b))"
  let ?s = "unlink_hash b s"
  obtain ys where ys: "bucket s H ?i ys"
    using assms(1) buf_hash_less unfolding hash_chains_def by blast
  then have "b \<in> set ys" using assms(2) by (auto simp: bucket_def)
  from bucket_split [OF ys this] obtain us vs U p q V where
    dec: "ys = us @ b # vs" "b \<notin> set us" "b \<notin> set vs"
    and U: "None # map Some us = U @ [p]" and V: "map Some vs @ [None] = q # V"
    and pq: "bprev s b = p" "bnext s b = q"
    and l: "linked (bnext s) (bprev s) (U @ p # Some b # q # V)" .
  have setU: "set (U @ [p]) = {None} \<union> Some ` set us" and setV: "set (q # V) = {None} \<union> Some ` set vs"
    unfolding U [symmetric] V [symmetric] by auto
  then have pset: "\<And>x. p = Some x \<Longrightarrow> x \<in> set us" and qset: "\<And>x. q = Some x \<Longrightarrow> x \<in> set vs"
    by auto
  have neq: "p \<noteq> Some b" "q \<noteq> Some b" using dec pset qset by auto
  note L = unlink_hash_links [OF pq neq]
  have keys: "b_dev (heads ?s x) = b_dev (heads s x)" "b_blocknr (heads ?s x) = b_blocknr (heads s x)" for x
    using arg_cong [OF L(4) [of x], of b_dev] arg_cong [OF L(4) [of x], of b_blocknr] by simp_all
  show "\<exists>zs. bucket ?s (H - {b}) j zs"
  proof (cases "j = ?i")
    case True
    have d: "distinct (us @ vs)" using ys by (auto simp: bucket_def dec)
    then have "distinct (U @ [p])" "distinct (q # V)"
      unfolding U [symmetric] V [symmetric] by (auto simp: distinct_map)
    then have pU: "p \<notin> set U" and qV: "q \<notin> set V" by auto
    have tU: "x \<in> set us" if "Some x \<in> set (tl (U @ [p]))" for x
      using that unfolding U [symmetric] by auto
    have bV: "x \<in> set vs" if "Some x \<in> set (butlast (q # V))" for x
      using that unfolding V [symmetric] by auto
    have disj: "x \<notin> set vs" if "x \<in> set us" for x using d that by auto
    have "linked (bnext ?s) (bprev ?s) (U @ p # q # V)"
      unfolding L(1,2) using l
    proof (rule linked_unlink)
      show "p \<notin> set U \<and> p \<notin> set (butlast (q # V))" if "p = Some x" for x
        using pU pset [OF that] bV [of x] disj that by blast
      show "q \<notin> set (tl (U @ [p])) \<and> q \<notin> set V" if "q = Some y" for y
        using qV qset [OF that] tU [of y] disj that by blast
    qed
    moreover have "None # map Some (us @ vs) @ [None] = (None # map Some us) @ (map Some vs @ [None])" by simp
    then have "None # map Some (us @ vs) @ [None] = U @ p # q # V" unfolding U V by simp
    ultimately have "linked (bnext ?s) (bprev ?s) (None # map Some (us @ vs) @ [None])" by simp
    moreover have "hash_table ?s j = hd (map Some (us @ vs) @ [None])"
    proof (cases us)
      case Nil
      with U have "p = None" by (cases U) auto
      moreover have "hd (map Some vs @ [None]) = q" by (simp add: V)
      ultimately show ?thesis using Nil ys True by (simp add: L(3) bucket_def dec)
    next
      case (Cons u us')
      with U pset have "p \<noteq> None" by (cases us' rule: rev_cases) auto
      with Cons ys True show ?thesis by (simp add: L(3) bucket_def dec)
    qed
    ultimately have "bucket ?s (H - {b}) j (us @ vs)"
      using ys True by (auto simp: bucket_def dec keys)
    then show ?thesis ..
  next
    case False
    obtain zs where zs: "bucket s H j zs" using assms(1) j unfolding hash_chains_def by blast
    have disj: "x \<notin> set zs" if "x \<in> set ys" for x
      using that zs ys False by (auto simp: bucket_def)
    have "linked (bnext ?s) (bprev ?s) (None # map Some zs @ [None])"
      unfolding L(1,2)
    proof (rule linked_cong [of "bnext s" "bprev s"])
      show "linked (bnext s) (bprev s) (None # map Some zs @ [None])" using zs by (simp add: bucket_def)
      show "relink p q (bnext s) x = bnext s x" if "Some x \<in> set (butlast (None # map Some zs @ [None]))" for x
        using that pset disj dec by (auto simp: relink_def butlast_append split: option.splits)
      show "relink q p (bprev s) x = bprev s x" if "Some x \<in> set (tl (None # map Some zs @ [None]))" for x
        using that qset disj dec by (auto simp: relink_def split: option.splits)
    qed
    moreover have "hash_table ?s j = hash_table s j" using False by (simp add: L(3))
    moreover have "b \<notin> set zs" using disj dec by simp
    ultimately have "bucket ?s (H - {b}) j zs"
      using zs by (auto simp: bucket_def keys)
    then show ?thesis ..
  qed
qed

lemma unlink_hash_frame:
  assumes "hash_chains s H" and "b \<in> H"
  shows "heads (unlink_hash b s) x =
      (heads s x)\<lparr>b_prev := bprev (unlink_hash b s) x, b_next := bnext (unlink_hash b s) x\<rparr>"
    "unlink_hash b s = s\<lparr>heads := heads (unlink_hash b s), hash_table := hash_table (unlink_hash b s)\<rparr>"
    "y \<notin> H \<Longrightarrow> heads (unlink_hash b s) y = heads s y"
proof -
  let ?i = "buf_hash (b_dev (heads s b)) (b_blocknr (heads s b))"
  obtain ys where ys: "bucket s H ?i ys"
    using assms(1) buf_hash_less unfolding hash_chains_def by blast
  then have "b \<in> set ys" using assms(2) by (auto simp: bucket_def)
  from bucket_split [OF ys this] obtain us vs U p q V where
    dec: "ys = us @ b # vs" "b \<notin> set us" "b \<notin> set vs"
    and U: "None # map Some us = U @ [p]" and V: "map Some vs @ [None] = q # V"
    and pq: "bprev s b = p" "bnext s b = q" by metis
  have in_ys: "x \<in> set us \<union> set vs" if "p = Some x \<or> q = Some x" for x
    using that arg_cong [OF U, of set] arg_cong [OF V, of set] by auto
  then have ne: "p \<noteq> Some b" "q \<noteq> Some b" using dec by blast+
  show "heads (unlink_hash b s) y = heads s y" if "y \<notin> H"
  proof -
    have "p \<noteq> Some y" "q \<noteq> Some y" using in_ys [of y] that ys dec by (auto simp: bucket_def)
    then have "bnext (unlink_hash b s) y = bnext s y" "bprev (unlink_hash b s) y = bprev s y"
      using fun_cong [OF unlink_hash_links(1) [OF pq ne], of y] fun_cong [OF unlink_hash_links(2) [OF pq ne], of y]
      by (auto simp: relink_def split: option.splits)
    with unlink_hash_links(4) [OF pq ne, of y] show ?thesis by simp
  qed
  from unlink_hash_links(4,5) [OF pq ne]
  show "heads (unlink_hash b s) x =
      (heads s x)\<lparr>b_prev := bprev (unlink_hash b s) x, b_next := bnext (unlink_hash b s) x\<rparr>"
    "unlink_hash b s = s\<lparr>heads := heads (unlink_hash b s), hash_table := hash_table (unlink_hash b s)\<rparr>"
    by blast+
qed

lemma hash_head_in:
  assumes "hash_chains s H" and "hash_table s (buf_hash dev blk) = Some b"
  shows "b \<in> H"
proof -
  obtain ys where ys: "bucket s H (buf_hash dev blk) ys"
    using assms(1) buf_hash_less unfolding hash_chains_def by blast
  with assms(2) show ?thesis by (cases ys) (auto simp: bucket_def)
qed

lemma unlink_hash_unhashed:
  assumes "hash_chains s H" and "b \<notin> H" and "b_prev (heads s b) = None" "b_next (heads s b) = None"
  shows "unlink_hash b s = s"
proof -
  let ?i = "buf_hash (b_dev (heads s b)) (b_blocknr (heads s b))"
  obtain ys where ys: "bucket s H ?i ys"
    using assms(1) buf_hash_less unfolding hash_chains_def by blast
  with assms(2) have "hash_table s ?i \<noteq> Some b" by (cases ys) (auto simp: bucket_def)
  with assms(3,4) show ?thesis by (simp add: unlink_hash_def)
qed

lemma link_hash_heads:
  assumes "hash_table s (buf_hash dev blk) \<noteq> Some b"
  shows "heads (link_hash dev blk b s) = (\<lambda>x.
      if x = b then (heads s b)\<lparr>b_count := 1, b_dev := dev, b_blocknr := blk, b_uptodate := False,
          b_dirt := False, b_prev := None, b_next := hash_table s (buf_hash dev blk)\<rparr>
      else if hash_table s (buf_hash dev blk) = Some x then (heads s x)\<lparr>b_prev := Some b\<rparr>
      else heads s x)"
    "hash_table (link_hash dev blk b s) = (hash_table s)(buf_hash dev blk := Some b)"
    "free_list (link_hash dev blk b s) = free_list s"
    "link_hash dev blk b s = s\<lparr>heads := heads (link_hash dev blk b s), hash_table := hash_table (link_hash dev blk b s)\<rparr>"
  using assms by (auto simp: link_hash_def Let_def fun_eq_iff upd_head_def split: option.splits)

lemma link_hash_chains:
  assumes "hash_chains s H" and "b \<notin> H"
  shows "hash_chains (link_hash dev blk b s) (insert b H)"
  unfolding hash_chains_def
proof (intro allI impI)
  fix j assume j: "j < NR_BUFFERS"
  let ?i = "buf_hash dev blk" and ?s = "link_hash dev blk b s"
  obtain ys where ys: "bucket s H ?i ys"
    using assms(1) buf_hash_less unfolding hash_chains_def by blast
  with assms(2) have ne: "hash_table s ?i \<noteq> Some b" by (cases ys) (auto simp: bucket_def)
  note L = link_hash_heads(1-3) [OF ne]
  obtain zs where zs: "bucket s H j zs" using assms(1) j unfolding hash_chains_def by blast
  have nb: "b \<notin> set zs" using zs assms(2) by (auto simp: bucket_def)
  have l: "linked (bnext s) (bprev s) (None # map Some zs @ [None])" using zs by (simp add: bucket_def)
  show "\<exists>ws. bucket ?s (insert b H) j ws"
  proof (cases "j = ?i")
    case True
    have "linked (bnext ?s) (bprev ?s) (map Some zs @ [None])"
    proof (rule linked_cong [of "bnext s" "bprev s"])
      show "linked (bnext s) (bprev s) (map Some zs @ [None])" using l by (cases zs) simp_all
      show "bnext ?s x = bnext s x" if "Some x \<in> set (butlast (map Some zs @ [None]))" for x
        using that nb by (auto simp: L butlast_append)
      show "bprev ?s x = bprev s x" if "Some x \<in> set (tl (map Some zs @ [None]))" for x
        using that nb zs True by (cases zs) (auto simp: L bucket_def)
    qed
    moreover have "lnk (bnext ?s) (bprev ?s) (Some b) (hd (map Some zs @ [None]))"
      using zs True nb by (cases zs) (auto simp: L lnk_def bucket_def)
    moreover have "lnk (bnext ?s) (bprev ?s) None (Some b)" by (simp add: L lnk_def)
    ultimately have "linked (bnext ?s) (bprev ?s) (None # map Some (b # zs) @ [None])"
      by (cases zs) simp_all
    moreover have "set (b # zs) = {x \<in> insert b H. buf_hash (b_dev (heads ?s x)) (b_blocknr (heads ?s x)) = j}"
      using zs True assms(2) by (auto simp: L bucket_def)
    ultimately have "bucket ?s (insert b H) j (b # zs)"
      using zs nb True by (simp add: bucket_def L(2))
    then show ?thesis ..
  next
    case False
    have nq: "hash_table s ?i \<noteq> Some x" if "x \<in> set zs" for x
      using that zs ys False by (cases ys) (auto simp: bucket_def)
    have "linked (bnext ?s) (bprev ?s) (None # map Some zs @ [None])"
      by (rule linked_cong [OF l]) (use nb nq in \<open>auto simp: L butlast_append\<close>)
    moreover have "set zs = {x \<in> insert b H. buf_hash (b_dev (heads ?s x)) (b_blocknr (heads ?s x)) = j}"
      using zs False assms(2) by (auto simp: L bucket_def)
    ultimately have "bucket ?s (insert b H) j zs"
      using zs False by (simp add: bucket_def L(2))
    then show ?thesis ..
  qed
qed

subsection \<open>What a release does to the ring\<close>

text \<open>
  \<open>brelse\<close> of a buffer that is not the head moves it to the front and the old head to the back.
\<close>

lemma ring_move:
  assumes "linked nf pf (map Some (f # ys @ b # zs @ [f]))" and "distinct (f # ys @ b # zs)"
    and "pf b = p" "nf b = q"
    and "nf1 = relink p q nf" "pf1 = relink q p pf"
    and "nf2 = (nf1(b := nf1 f))(f := Some b)"
    and "pf2 = relink (nf1 f) (Some b) (pf1(b := Some f))"
  shows "linked nf2 pf2 (map Some (b # (ys @ zs @ [f]) @ [b]))"
proof -
  obtain U p' where U: "map Some (f # ys) = U @ [p']" by (metis list.distinct(1) list.map_disc_iff rev_exhaust)
  obtain q' V where V: "map Some (zs @ [f]) = q' # V" by (cases zs) auto
  have "map Some (f # ys @ b # zs @ [f]) = map Some (f # ys) @ Some b # map Some (zs @ [f])" by simp
  then have l: "linked nf pf (U @ p' # Some b # q' # V)"
    using assms(1) unfolding U V by simp
  then have "lnk nf pf p' (Some b)" "lnk nf pf (Some b) q'" by (simp_all add: successively_append_iff)
  with assms(3,4) have pq: "p = p'" "q = q'" by (auto simp: lnk_def)
  have tU: "x \<in> set ys" if "Some x \<in> set (tl (U @ [p]))" for x
    using that unfolding pq U [symmetric] by auto
  have bV: "x \<in> set zs" if "Some x \<in> set (butlast (q # V))" for x
    using that unfolding pq V [symmetric] by (auto simp: butlast_append)
  have "distinct (U @ [p])" "distinct (q # V)"
    unfolding pq U [symmetric] V [symmetric] using assms(2) by (auto simp: distinct_map)
  then have pU: "p \<notin> set U" and qV: "q \<notin> set V" by auto
  have pset: "x \<in> set (f # ys)" if "p = Some x" for x
    using arg_cong [OF U, of set] that pq by auto
  have qset: "x \<in> set (zs @ [f])" if "q = Some x" for x
    using arg_cong [OF V, of set] that pq by auto
  have "linked nf1 pf1 (U @ p # q # V)"
    unfolding assms(5,6)
  proof (rule linked_unlink)
    show "linked nf pf (U @ p # Some b # q # V)" using l pq by simp
    show "p \<notin> set U \<and> p \<notin> set (butlast (q # V))" if "p = Some x" for x
      using pU pset [OF that] bV [of x] that assms(2) by auto
    show "q \<notin> set (tl (U @ [p])) \<and> q \<notin> set V" if "q = Some y" for y
      using qV qset [OF that] tU [of y] that assms(2) by auto
  qed
  moreover have "map Some (f # ys @ zs @ [f]) = map Some (f # ys) @ map Some (zs @ [f])" by simp
  then have "map Some (f # ys @ zs @ [f]) = U @ p # q # V" unfolding U V pq by simp
  ultimately have l1: "linked nf1 pf1 (map Some (f # ys @ zs @ [f]))" by metis
  obtain n W where W: "ys @ zs @ [f] = n # W" by (cases "ys @ zs @ [f]") auto
  have n: "nf1 f = Some n" "linked nf1 pf1 (map Some (n # W))"
    using l1 unfolding W by (simp_all add: lnk_def)
  have dW: "distinct (n # W)" "b \<notin> set (n # W)" "f = last (n # W)"
    unfolding W [symmetric] using assms(2) by auto
  have e: "f \<noteq> x" if "x \<in> set (butlast (n # W))" for x
    using that dW append_butlast_last_id [of "n # W"] by (metis distinct_butlast list.distinct(1)
        not_distinct_conv_prefix)
  have "linked nf2 pf2 (map Some (n # W))"
    using n(2)
  proof (rule linked_cong)
    show "nf2 x = nf1 x" if "Some x \<in> set (butlast (map Some (n # W)))" for x
    proof -
      from that have x: "x \<in> set (butlast (n # W))" by (auto simp: map_butlast [symmetric] simp del: butlast.simps list.map)
      then have "x \<noteq> b" using dW(2) by (metis in_set_butlastD)
      with e [OF x] show ?thesis by (simp add: assms(7))
    qed
    show "pf2 y = pf1 y" if "Some y \<in> set (tl (map Some (n # W)))" for y
      using that dW(1,2) by (auto simp: assms(8) n(1) relink_def)
  qed
  moreover have "lnk nf2 pf2 (Some b) (Some n)"
    using dW(1,2) assms(2) by (auto simp: lnk_def assms(7,8) n(1) relink_def)
  moreover have "lnk nf2 pf2 (Some f) (Some b)"
    using dW(1,2) by (auto simp: lnk_def assms(7,8) n(1) relink_def)
  moreover have "last (map Some (n # W)) = Some f" using dW(3) by (simp add: last_map)
  ultimately have "linked nf2 pf2 (map Some (n # W) @ [Some b])" "lnk nf2 pf2 (Some b) (Some n)"
    unfolding successively_append_iff by (simp_all del: list.map)
  then have "linked nf2 pf2 (Some b # map Some (n # W) @ [Some b])" by simp
  then show ?thesis unfolding W by simp
qed

lemma ring_cong:
  assumes "\<And>b. nfree s' b = nfree s b" "\<And>b. pfree s' b = pfree s b" "free_list s' = free_list s"
  shows "ring s' xs \<longleftrightarrow> ring s xs"
  by (simp only: ring_def assms)

lemma hash_chains_cong:
  assumes "\<And>b. bnext s' b = bnext s b" "\<And>b. bprev s' b = bprev s b" "hash_table s' = hash_table s"
    "\<And>b. b_dev (heads s' b) = b_dev (heads s b)" "\<And>b. b_blocknr (heads s' b) = b_blocknr (heads s b)"
  shows "hash_chains s' H \<longleftrightarrow> hash_chains s H"
  by (simp only: hash_chains_def bucket_def assms)

lemma ring_neighbours:
  assumes "ring s xs" and "b \<in> set xs"
  obtains x y where "b_prev_free (heads s b) = Some x" "b_next_free (heads s b) = Some y"
proof -
  obtain us vs where xs: "xs = us @ b # vs" using assms(2) by (auto simp: in_set_conv_decomp)
  have l: "linked (nfree s) (pfree s) (map Some us @ Some b # map Some (vs @ [hd xs]))"
    using assms(1) xs by (simp add: ring_def)
  obtain y W where y: "vs @ [hd xs] = y # W" by (cases vs) auto
  have "nfree s b = Some y"
    using l unfolding y by (simp add: successively_append_iff lnk_def)
  moreover have "\<exists>x. pfree s b = Some x"
  proof (cases us rule: rev_cases)
    case Nil
    have "linked (nfree s) (pfree s) (map Some xs @ [Some (hd xs)])" using assms(1) by (simp add: ring_def)
    with assms(1) have "lnk (nfree s) (pfree s) (last (map Some xs)) (Some (hd xs))"
      by (simp add: successively_append_iff ring_def)
    with Nil xs show ?thesis by (auto simp: lnk_def last_map)
  next
    case (snoc us' u)
    with l show ?thesis by (auto simp: successively_append_iff lnk_def)
  qed
  ultimately show ?thesis using that by blast
qed

definition to_front :: "'z buf_state_scheme \<Rightarrow> nat \<Rightarrow> nat list \<Rightarrow> nat list" where
  "to_front s b xs =
     (if b_count (heads s b) = 1 \<and> b \<noteq> hd xs then b # remove1 b (tl xs) @ [hd xs] else xs)"

lemma brelse_ring:
  assumes "ring s xs" and "b < NR_BUFFERS"
  shows "\<exists>s'. brelse (Some b) s = Some s' \<and> ring s' (to_front s b xs) \<and>
    s' = s\<lparr>heads := heads s', free_list := free_list s'\<rparr> \<and>
    (\<forall>c. heads s' c = (heads s c)\<lparr>b_count := (if c = b then b_count (heads s b) - 1 else b_count (heads s c)),
       b_prev_free := pfree s' c, b_next_free := nfree s' c\<rparr>)"
proof -
  let ?s = "upd_head b (b_count_update (\<lambda>c. c - 1)) s"
  have r0: "ring ?s xs" using assms(1) by (simp add: ring_cong [of ?s s xs])
  have bin: "b \<in> set xs" using assms by (simp add: ring_def)
  have c1: "b_count (heads s b) - 1 = 0 \<longleftrightarrow> b_count (heads s b) = 1" by auto
  have fl: "free_list s = Some (hd xs)" using assms(1) by (simp add: ring_def)
  show ?thesis
  proof (cases "b_count (heads s b) = 1 \<and> b \<noteq> hd xs")
    case False
    then have "brelse (Some b) s = Some ?s"
      using fl by (simp add: brelse_def Let_def)
    with r0 False show ?thesis
      by (intro exI [of _ ?s]) (auto simp: to_front_def upd_head_def)
  next
    case True
    obtain f rest where xs: "xs = f # rest" using assms(1) by (cases xs) (auto simp: ring_def)
    with True bin have "b \<in> set rest" "b \<noteq> f" by auto
    then obtain ys zs where rest: "rest = ys @ b # zs" by (auto simp: in_set_conv_decomp)
    have d: "distinct (f # ys @ b # zs)" using assms(1) by (auto simp: ring_def xs rest)
    have l: "linked (nfree ?s) (pfree ?s) (map Some (f # ys @ b # zs @ [f]))"
      using r0 by (simp add: ring_def xs rest)
    obtain x y where xy: "b_prev_free (heads s b) = Some x" "b_next_free (heads s b) = Some y"
      using ring_neighbours [OF assms(1) bin] .
    have xb: "x \<noteq> b" "y \<noteq> b"
      using linked_mid [of "nfree ?s" "pfree ?s" "f # ys" b "zs @ [f]"] l d xy
      by (cases ys rule: rev_cases; cases zs; auto)+
    let ?nf = "(nfree s)(x := Some y)" and ?pf = "(pfree s)(y := Some x)"
    have "b \<noteq> f" using d by auto
    have rl: "linked ((?nf(b := ?nf f))(f := Some b)) (relink (?nf f) (Some b) (?pf(b := Some f)))
        (map Some (b # (ys @ zs @ [f]) @ [b]))"
      by (rule ring_move [OF l d, of "Some x" "Some y"])
        (use xy in \<open>auto simp: relink_def fun_upd_def\<close>)
    have "f \<in> set xs" by (simp add: xs)
    from ring_neighbours [OF assms(1) this] obtain x' n' where
      f': "b_prev_free (heads s f) = Some x'" "b_next_free (heads s f) = Some n'" .
    then obtain n where n: "?nf f = Some n" by (cases "f = x") auto
    define s1 where "s1 = upd_head y (b_prev_free_update (\<lambda>_. Some x)) (upd_head x (b_next_free_update (\<lambda>_. Some y)) ?s)"
    define s2 where "s2 = upd_head b (\<lambda>h. h\<lparr>b_prev_free := Some f, b_next_free := ?nf f\<rparr>) s1"
    define s3 where "s3 = upd_head f (b_next_free_update (\<lambda>_. Some b)) (upd_head n (b_prev_free_update (\<lambda>_. Some b)) s2)"
    have n1: "nfree s1 = ?nf" "pfree s1 = ?pf"
      by (auto simp: s1_def fun_eq_iff)
    have n2: "nfree s2 = ?nf(b := ?nf f)" "pfree s2 = ?pf(b := Some f)"
      using n1 by (auto simp: s2_def fun_eq_iff)
    have n3: "nfree s3 = (?nf(b := ?nf f))(f := Some b)" "pfree s3 = relink (?nf f) (Some b) (?pf(b := Some f))"
      using n2 n by (auto simp: s3_def fun_eq_iff relink_def)
    have "brelse (Some b) s = Some (s3\<lparr>free_list := Some b\<rparr>)"
      using True xy xb fl \<open>b \<noteq> f\<close> n n1(1) n2(1) xs
      by (simp add: brelse_def s3_def s2_def s1_def fun_eq_iff)
    moreover have "ring (s3\<lparr>free_list := Some b\<rparr>) (to_front s b xs)"
    proof -
      have "to_front s b xs = b # ys @ zs @ [f]"
        using True xs rest d by (simp add: to_front_def remove1_append)
      moreover have "set (b # ys @ zs @ [f]) = {..<NR_BUFFERS}"
        using assms(1) by (auto simp: ring_def xs rest)
      ultimately show ?thesis using rl d by (simp add: ring_def n3)
    qed
    moreover have "s3\<lparr>free_list := Some b\<rparr> = s\<lparr>heads := heads s3, free_list := Some b\<rparr>"
      by (simp add: s3_def s2_def s1_def upd_head_def)
    moreover have "heads s3 c = (heads s c)\<lparr>b_count := (if c = b then b_count (heads s b) - 1 else b_count (heads s c)),
       b_prev_free := pfree s3 c, b_next_free := nfree s3 c\<rparr>" for c
      by (simp add: s3_def s2_def s1_def)
    ultimately show ?thesis
      by (intro exI [of _ "s3\<lparr>free_list := Some b\<rparr>"]) simp
  qed
qed

end
