(* ===== verification/Block_Store.thy ===== *)
theory Block_Store
  imports Cache
begin

text \<open>
  The block cache as a block store: the invariant of the cache, what its operations do to the
  blocks as a client sees them (\<open>view\<close>), and the contract the file system relies on.
\<close>

subsection \<open>Blocks on the disk and blocks as seen\<close>

definition blk_of :: "bytes \<Rightarrow> bytes" where
  "blk_of d = (\<lambda>k. if k < BLOCK_SIZE then d k else 0)"

definition disk_block :: "'z hd_state_scheme \<Rightarrow> nat \<Rightarrow> bytes" where
  "disk_block s blk = (\<lambda>k. if k < BLOCK_SIZE
     then hd_sectors s (2 * blk + root_lba s + k div 512) (k mod 512) else 0)"

definition blk_ok :: "'z hd_state_scheme \<Rightarrow> nat \<Rightarrow> bool" where
  "blk_ok s blk \<longleftrightarrow> 2 * blk + 2 + root_lba s \<le> HD_LIMIT"

definition holds_block :: "'z buf_state_scheme \<Rightarrow> nat \<Rightarrow> nat \<Rightarrow> bool" where
  "holds_block s blk b \<longleftrightarrow> b_dev (heads s b) = ROOT_DEV \<and> b_blocknr (heads s b) = blk \<and> b_uptodate (heads s b)"

definition view :: "'z buf_state_scheme \<Rightarrow> nat \<Rightarrow> bytes" where
  "view s blk =
     (case find (holds_block s blk) [0..<NR_BUFFERS] of
        Some b \<Rightarrow> blk_of (b_data (heads s b))
      | None \<Rightarrow> disk_block s blk)"

lemma blk_of_idem [simp]: "blk_of (blk_of d) = blk_of d"
  by (auto simp: blk_of_def)

lemma blk_of_less [simp]: "k < BLOCK_SIZE \<Longrightarrow> blk_of d k = d k"
  by (simp add: blk_of_def)

lemma blk_of_disk_block [simp]: "blk_of (disk_block s blk) = disk_block s blk"
  by (auto simp: blk_of_def disk_block_def)

lemma blk_of_view [simp]: "blk_of (view s blk) = view s blk"
  by (simp add: view_def split: option.split)

lemma disk_block_cong:
  "hd_sectors s' = hd_sectors s \<Longrightarrow> root_lba s' = root_lba s \<Longrightarrow> disk_block s' = disk_block s"
  by (simp add: disk_block_def fun_eq_iff)

subsection \<open>One transfer\<close>

lemma w32_blk: "blk_ok s blk \<Longrightarrow> w32 (blk * 2) = 2 * blk"
  by (simp add: blk_ok_def BLOCK_SIZE_def HD_LIMIT_def)

lemma ll_rw_write:
  assumes "b_wait (heads s b) = 0" and "blk_ok s (b_blocknr (heads s b))"
  obtains w S d u where
    "ll_rw_block WRITE b s = s\<lparr>hd_waits := w, hd_sectors := S, heads := (heads s)
       (b := (heads s b)\<lparr>b_dirt := d, b_uptodate := u, b_lock := False, b_wait := 0\<rparr>)\<rparr>"
    "\<And>blk. blk \<noteq> b_blocknr (heads s b) \<Longrightarrow> disk_block (s\<lparr>hd_sectors := S\<rparr>) blk = disk_block s blk"
    "\<not> d \<and> u \<and> disk_block (s\<lparr>hd_sectors := S\<rparr>) (b_blocknr (heads s b)) = blk_of (b_data (heads s b))
     \<or> d = b_dirt (heads s b) \<and> u = b_uptodate (heads s b) \<and> \<not> hd_ok s"
proof -
  let ?blk = "b_blocknr (heads s b)" and ?d = "b_data (heads s b)"
  let ?s = "upd_head b (b_lock_update (\<lambda>_. True)) s"
  obtain ret t where rt: "hd_write_sectors (2 * ?blk) 2 ?d ?s = (ret, t)" by fastforce
  have lim: "2 * ?blk + root_lba ?s + 2 \<le> HD_LIMIT"
    using assms(2) by (simp add: blk_ok_def)
  have "(0::nat) < 2" by simp
  from hd_write_sectors_any [OF rt lim this] obtain w S where
    t: "t = ?s\<lparr>hd_waits := w, hd_sectors := S\<rparr>"
    and out: "\<forall>i. i < 2 * ?blk + root_lba s \<or> 2 * ?blk + root_lba s + 2 \<le> i \<longrightarrow> S i = hd_sectors s i"
    and ins: "ret = 0 \<longrightarrow> (\<forall>i. 2 * ?blk + root_lba s \<le> i \<and> i < 2 * ?blk + root_lba s + 2 \<longrightarrow>
       S i = (\<lambda>k. if k < 512 then ?d ((i - (2 * ?blk + root_lba s)) * 512 + k) else 0))"
    unfolding upd_head_other by blast
  have ok: "ret = 0" if "hd_ok s"
    using hd_write_sectors_ok [of ?s "2 * ?blk" 2 ?d] that lim rt by (simp add: hd_ok_def)
  have other: "disk_block (s\<lparr>hd_sectors := S\<rparr>) blk = disk_block s blk" if "blk \<noteq> ?blk" for blk
  proof -
    have "S (2 * blk + root_lba s + k div 512) = hd_sectors s (2 * blk + root_lba s + k div 512)"
      if "k < 1024" for k :: nat
    proof -
      have "k div 512 < 2" using that by auto
      then have "2 * blk + root_lba s + k div 512 < 2 * ?blk + root_lba s \<or>
          2 * ?blk + root_lba s + 2 \<le> 2 * blk + root_lba s + k div 512"
        using \<open>blk \<noteq> ?blk\<close> by linarith
      then show ?thesis using out by blast
    qed
    then show ?thesis by (auto simp: disk_block_def BLOCK_SIZE_def fun_eq_iff)
  qed
  have same: "disk_block (s\<lparr>hd_sectors := S\<rparr>) ?blk = blk_of ?d" if "ret = 0"
  proof
    fix k
    have "S (2 * ?blk + root_lba s + k div 512) (k mod 512) = ?d k" if "k < 1024"
    proof -
      have "k div 512 < 2" using that by auto
      with ins \<open>ret = 0\<close> have "S (2 * ?blk + root_lba s + k div 512) =
          (\<lambda>j. if j < 512 then ?d (k div 512 * 512 + j) else 0)" by (simp cong: if_cong)
      then show ?thesis by simp
    qed
    then show "disk_block (s\<lparr>hd_sectors := S\<rparr>) ?blk k = blk_of ?d k"
      by (simp add: disk_block_def blk_of_def BLOCK_SIZE_def)
  qed
  let ?h = "\<lambda>d u. (heads s b)\<lparr>b_dirt := d, b_uptodate := u, b_lock := False, b_wait := 0\<rparr>"
  have "ll_rw_block WRITE b s = s\<lparr>hd_waits := w, hd_sectors := S, heads := (heads s)
       (b := if ret = 0 then ?h False True else ?h (b_dirt (heads s b)) (b_uptodate (heads s b)))\<rparr>"
    using rt assms by (auto simp: ll_rw_block_def READ_def WRITE_def w32_blk BLOCK_SIZE_def t upd_head_def)
  note L = this
  show ?thesis
  proof (cases "ret = 0")
    case True
    show ?thesis
      by (rule that [where w = w and S = S and d = False and u = True])
        (simp add: L True, erule other, simp add: same True)
  next
    case False
    show ?thesis
      by (rule that [where w = w and S = S and d = "b_dirt (heads s b)" and u = "b_uptodate (heads s b)"])
        (simp add: L False, erule other, use ok False in blast)
  qed
qed

lemma ll_rw_read:
  assumes "b_wait (heads s b) = 0" and "blk_ok s (b_blocknr (heads s b))"
  obtains w d u where
    "ll_rw_block READ b s = s\<lparr>hd_waits := w, heads := (heads s)
       (b := (heads s b)\<lparr>b_data := d, b_uptodate := u, b_lock := False, b_wait := 0\<rparr>)\<rparr>"
    "u \<and> blk_of d = disk_block s (b_blocknr (heads s b)) \<or> u = b_uptodate (heads s b) \<and> \<not> hd_ok s"
proof -
  let ?blk = "b_blocknr (heads s b)" and ?d = "b_data (heads s b)"
  let ?s = "upd_head b (b_lock_update (\<lambda>_. True)) s"
  obtain ret d t where rt: "hd_read_sectors (2 * ?blk) 2 ?d ?s = (ret, d, t)" by (metis prod_cases3)
  have lim: "2 * ?blk + root_lba ?s + 2 \<le> HD_LIMIT"
    using assms(2) by (simp add: blk_ok_def)
  have "(0::nat) < 2" by simp
  from hd_read_sectors_any [OF rt lim this] obtain w where
    t: "t = ?s\<lparr>hd_waits := w\<rparr>"
    and d: "ret = 0 \<longrightarrow> d = (\<lambda>k. if k < 2 * 512
       then hd_sectors s (2 * ?blk + root_lba s + k div 512) (k mod 512) else ?d k)"
    unfolding upd_head_other by blast
  have ok: "ret = 0" if "hd_ok s"
    using hd_read_sectors_ok [of ?s "2 * ?blk" 2 ?d] that lim rt by (simp add: hd_ok_def)
  have same: "blk_of d = disk_block s ?blk" if "ret = 0"
    using d that by (auto simp: blk_of_def disk_block_def BLOCK_SIZE_def fun_eq_iff)
  let ?h = "\<lambda>u. (heads s b)\<lparr>b_data := d, b_uptodate := u, b_lock := False, b_wait := 0\<rparr>"
  have "ll_rw_block READ b s = s\<lparr>hd_waits := w, heads := (heads s)
       (b := if ret = 0 then ?h True else ?h (b_uptodate (heads s b)))\<rparr>"
    using rt assms by (auto simp: ll_rw_block_def READ_def WRITE_def w32_blk BLOCK_SIZE_def t upd_head_def)
  note L = this
  show ?thesis
  proof (cases "ret = 0")
    case True
    show ?thesis
      by (rule that [where w = w and d = d and u = True]) (simp add: L True, simp add: same True)
  next
    case False
    show ?thesis
      by (rule that [where w = w and d = d and u = "b_uptodate (heads s b)"])
        (simp add: L False, use ok False in blast)
  qed
qed

subsection \<open>The invariant\<close>

definition hashed :: "'z buf_state_scheme \<Rightarrow> nat set" where
  "hashed s = {b. b < NR_BUFFERS \<and> b_dev (heads s b) = ROOT_DEV}"

definition coherent :: "'z buf_state_scheme \<Rightarrow> nat \<Rightarrow> bool" where
  "coherent s b \<longleftrightarrow> (b_dirt (heads s b) \<longrightarrow> b_uptodate (heads s b)) \<and>
     (b_uptodate (heads s b) \<and> \<not> b_dirt (heads s b) \<longrightarrow>
        blk_of (b_data (heads s b)) = disk_block s (b_blocknr (heads s b)))"

definition cache_inv :: "'z buf_state_scheme \<Rightarrow> bool" where
  "cache_inv s \<longleftrightarrow> (\<exists>xs. ring s xs) \<and> hash_chains s (hashed s) \<and>
     inj_on (\<lambda>b. b_blocknr (heads s b)) (hashed s) \<and>
     (\<forall>b<NR_BUFFERS. b \<notin> hashed s \<longrightarrow>
        b_prev (heads s b) = None \<and> b_next (heads s b) = None \<and> \<not> b_dirt (heads s b)) \<and>
     (\<forall>b<NR_BUFFERS. \<not> b_lock (heads s b) \<and> b_wait (heads s b) = 0) \<and>
     (\<forall>b\<in>hashed s. blk_ok s (b_blocknr (heads s b)) \<and> coherent s b)"

lemma cache_invD:
  assumes "cache_inv s"
  shows "\<exists>xs. ring s xs" "hash_chains s (hashed s)"
    "\<And>b c. b \<in> hashed s \<Longrightarrow> c \<in> hashed s \<Longrightarrow> b_blocknr (heads s b) = b_blocknr (heads s c) \<Longrightarrow> b = c"
    "\<And>b. b < NR_BUFFERS \<Longrightarrow> b \<notin> hashed s \<Longrightarrow> b_prev (heads s b) = None \<and> b_next (heads s b) = None \<and> \<not> b_dirt (heads s b)"
    "\<And>b. b < NR_BUFFERS \<Longrightarrow> \<not> b_lock (heads s b) \<and> b_wait (heads s b) = 0"
    "\<And>b. b \<in> hashed s \<Longrightarrow> blk_ok s (b_blocknr (heads s b))"
    "\<And>b. b \<in> hashed s \<Longrightarrow> coherent s b"
  using assms by (auto simp: cache_inv_def inj_on_def)

text \<open>The fields of a head the invariant and the view do not look at: only the reference count.\<close>

lemma hashed_cong: "(\<And>b. b_dev (heads s' b) = b_dev (heads s b)) \<Longrightarrow> hashed s' = hashed s"
  by (simp add: hashed_def)

lemma cache_inv_count:
  assumes "\<And>b. heads s' b = (heads s b)\<lparr>b_count := c b\<rparr>"
    and "hash_table s' = hash_table s" "free_list s' = free_list s"
    and "hd_sectors s' = hd_sectors s" "root_lba s' = root_lba s"
  shows "cache_inv s' \<longleftrightarrow> cache_inv s"
proof -
  have "hashed s' = hashed s" by (rule hashed_cong) (simp add: assms)
  moreover have "ring s' xs \<longleftrightarrow> ring s xs" for xs by (rule ring_cong) (simp_all add: assms)
  moreover have "hash_chains s' H \<longleftrightarrow> hash_chains s H" for H by (rule hash_chains_cong) (simp_all add: assms)
  moreover have "disk_block s' = disk_block s" using assms(4,5) by (rule disk_block_cong)
  ultimately show ?thesis
    by (simp add: cache_inv_def assms coherent_def blk_ok_def)
qed

lemma view_eqI:
  assumes "\<And>b. b < NR_BUFFERS \<Longrightarrow> holds_block s' blk b \<longleftrightarrow> holds_block s blk b"
    and "\<And>b. holds_block s blk b \<Longrightarrow> b_data (heads s' b) = b_data (heads s b)"
    and "disk_block s' blk = disk_block s blk"
  shows "view s' blk = view s blk"
proof -
  have eq: "find (holds_block s' blk) [0..<NR_BUFFERS] = find (holds_block s blk) [0..<NR_BUFFERS]"
    by (rule find_cong) (auto simp: assms(1))
  show ?thesis
  proof (cases "find (holds_block s blk) [0..<NR_BUFFERS]")
    case (Some b)
    then have "holds_block s blk b" by (auto simp: find_Some_iff)
    with Some eq assms(2) show ?thesis by (simp add: view_def)
  qed (use eq assms(3) in \<open>simp add: view_def\<close>)
qed

lemma view_cong:
  assumes "\<And>b. b_dev (heads s' b) = b_dev (heads s b) \<and> b_blocknr (heads s' b) = b_blocknr (heads s b)
      \<and> b_uptodate (heads s' b) = b_uptodate (heads s b) \<and> b_data (heads s' b) = b_data (heads s b)"
    and "disk_block s' blk = disk_block s blk"
  shows "view s' blk = view s blk"
  by (rule view_eqI) (simp_all add: holds_block_def assms)

lemma view_hit:
  assumes "cache_inv s" and "b \<in> hashed s" and "b_uptodate (heads s b)"
  shows "view s (b_blocknr (heads s b)) = blk_of (b_data (heads s b))"
proof -
  let ?P = "holds_block s (b_blocknr (heads s b))"
  have P: "?P b" "b \<in> set [0..<NR_BUFFERS]" using assms by (auto simp: holds_block_def hashed_def)
  then obtain c where c: "find ?P [0..<NR_BUFFERS] = Some c"
    by (cases "find ?P [0..<NR_BUFFERS]") (auto simp: find_None_iff)
  then have "?P c" "c < NR_BUFFERS" by (auto simp: find_Some_iff)
  then have "c = b" using assms cache_invD(3) [OF assms(1), of c b]
    by (auto simp: holds_block_def hashed_def)
  with c show ?thesis by (simp add: view_def)
qed

lemma view_miss:
  assumes "\<And>b. b \<in> hashed s \<Longrightarrow> b_blocknr (heads s b) = blk \<Longrightarrow> \<not> b_uptodate (heads s b)"
  shows "view s blk = disk_block s blk"
proof -
  have "find (holds_block s blk) [0..<NR_BUFFERS] = None"
    using assms by (auto simp: find_None_iff holds_block_def hashed_def)
  then show ?thesis by (simp add: view_def)
qed

subsection \<open>Writing a buffer back\<close>

lemma ll_rw_write_inv:
  assumes inv: "cache_inv s" and b: "b \<in> hashed s" and dirt: "b_dirt (heads s b)"
  shows "cache_inv (ll_rw_block WRITE b s)" "view (ll_rw_block WRITE b s) = view s"
    "hd_ok s \<Longrightarrow> \<not> b_dirt (heads (ll_rw_block WRITE b s) b)"
proof -
  let ?s = "ll_rw_block WRITE b s" and ?blk = "b_blocknr (heads s b)"
  have bn: "b < NR_BUFFERS" using b by (simp add: hashed_def)
  have up: "b_uptodate (heads s b)" using cache_invD(7) [OF inv b] dirt by (simp add: coherent_def)
  have w0: "b_wait (heads s b) = 0" using cache_invD(5) [OF inv bn] by simp
  obtain w S d u where
    eq: "?s = s\<lparr>hd_waits := w, hd_sectors := S, heads := (heads s)
       (b := (heads s b)\<lparr>b_dirt := d, b_uptodate := u, b_lock := False, b_wait := 0\<rparr>)\<rparr>"
    and other: "\<And>blk. blk \<noteq> ?blk \<Longrightarrow> disk_block (s\<lparr>hd_sectors := S\<rparr>) blk = disk_block s blk"
    and res: "\<not> d \<and> u \<and> disk_block (s\<lparr>hd_sectors := S\<rparr>) ?blk = blk_of (b_data (heads s b))
     \<or> d = b_dirt (heads s b) \<and> u = b_uptodate (heads s b) \<and> \<not> hd_ok s"
    by (rule ll_rw_write [OF w0 cache_invD(6) [OF inv b]]) (rule that)
  have u: "u" using res up by auto
  have H: "hashed ?s = hashed s" by (rule hashed_cong) (simp add: eq)
  have db: "disk_block ?s = disk_block (s\<lparr>hd_sectors := S\<rparr>)"
    by (rule disk_block_cong) (simp_all add: eq)
  have coh: "coherent ?s c" if c: "c \<in> hashed s" for c
  proof (cases "c = b")
    case True
    then show ?thesis using res u dirt by (auto simp: coherent_def db) (auto simp: eq)
  next
    case False
    with cache_invD(3) [OF inv c b] have "b_blocknr (heads s c) \<noteq> ?blk" by blast
    with False cache_invD(7) [OF inv c] other show ?thesis
      by (simp add: coherent_def db) (simp add: eq)
  qed
  have r: "ring ?s xs \<longleftrightarrow> ring s xs" for xs by (rule ring_cong) (simp_all add: eq)
  have ch: "hash_chains ?s (hashed s) \<longleftrightarrow> hash_chains s (hashed s)"
    by (rule hash_chains_cong) (simp_all add: eq)
  have "\<not> b_lock (heads ?s c) \<and> b_wait (heads ?s c) = 0" if "c < NR_BUFFERS" for c
    using cache_invD(5) [OF inv that] by (simp add: eq)
  moreover have "b_prev (heads ?s c) = None \<and> b_next (heads ?s c) = None \<and> \<not> b_dirt (heads ?s c)"
    if "c < NR_BUFFERS" "c \<notin> hashed s" for c
    using cache_invD(4) [OF inv that] that b by (auto simp: eq)
  moreover have "blk_ok ?s (b_blocknr (heads ?s c))" if "c \<in> hashed s" for c
    using cache_invD(6) [OF inv that] by (auto simp: eq blk_ok_def)
  moreover have "b_blocknr (heads ?s c) = b_blocknr (heads s c)" for c by (simp add: eq)
  ultimately show inv': "cache_inv ?s"
    using coh inv unfolding cache_inv_def H r ch by simp
  show "view ?s = view s"
  proof
    fix blk
    show "view ?s blk = view s blk"
    proof (cases "blk = ?blk")
      case True
      have "view ?s (b_blocknr (heads ?s b)) = blk_of (b_data (heads ?s b))"
        using inv' b H u by (intro view_hit) (simp_all add: eq)
      with True view_hit [OF inv b up] show ?thesis by (simp add: eq)
    next
      case False
      then show ?thesis using up u other db by (intro view_cong) (auto simp: eq)
    qed
  qed
  show "hd_ok s \<Longrightarrow> \<not> b_dirt (heads ?s b)" using res by (auto simp: eq)
qed

subsection \<open>Recycling a buffer\<close>

text \<open>
  What the cache never touches: \<open>keep\<close> blanks the fields of the cache and of the drive, so two
  states with equal \<open>keep\<close> agree on everything else. \<open>core\<close> is a buffer without its links.
\<close>

definition keep :: "'z buf_state_scheme \<Rightarrow> 'z buf_state_scheme" where
  "keep s = s\<lparr>hd_sectors := (\<lambda>_ _. 0), hd_waits := 0, heads := (\<lambda>_. undefined),
     hash_table := (\<lambda>_. None), free_list := None\<rparr>"

definition core :: "buffer_head \<Rightarrow> bytes \<times> nat \<times> u16 \<times> bool \<times> bool \<times> byte" where
  "core h = (b_data h, b_blocknr h, b_dev h, b_uptodate h, b_dirt h, b_count h)"

lemma keepD:
  assumes "keep s' = keep s"
  shows "hd_resp s' = hd_resp s" "root_lba s' = root_lba s" "task s' = task s" "tstruct s' = tstruct s"
    "current s' = current s" "jiffies s' = jiffies s" "mem_map s' = mem_map s" "max_map_nr s' = max_map_nr s"
    "ram s' = ram s" "memory_end s' = memory_end s" "swap_map s' = swap_map s" "buf_state.more s' = buf_state.more s"
  using arg_cong [OF assms, of hd_resp] arg_cong [OF assms, of root_lba] arg_cong [OF assms, of task]
    arg_cong [OF assms, of tstruct] arg_cong [OF assms, of current] arg_cong [OF assms, of jiffies]
    arg_cong [OF assms, of mem_map] arg_cong [OF assms, of max_map_nr] arg_cong [OF assms, of ram]
    arg_cong [OF assms, of memory_end] arg_cong [OF assms, of swap_map] arg_cong [OF assms, of buf_state.more]
  by (simp_all add: keep_def)

lemma keep_upd_head [simp]: "keep (upd_head b f s) = keep s"
  by (simp add: keep_def upd_head_def)

lemma keep_simps [simp]:
  "keep (s\<lparr>hd_sectors := S\<rparr>) = keep s" "keep (s\<lparr>hd_waits := w\<rparr>) = keep s"
  "keep (s\<lparr>heads := h\<rparr>) = keep s" "keep (s\<lparr>hash_table := g\<rparr>) = keep s" "keep (s\<lparr>free_list := f\<rparr>) = keep s"
  by (simp_all add: keep_def)

definition recycle :: "nat \<Rightarrow> nat \<Rightarrow> 'z buf_state_scheme \<Rightarrow> 'z buf_state_scheme" where
  "recycle blk b s = link_hash ROOT_DEV blk b (unlink_hash b s)"

lemma recycle_heads:
  assumes inv: "cache_inv s" and b: "b < NR_BUFFERS"
  shows "hash_chains (recycle blk b s) (insert b (hashed s))"
    "c \<noteq> b \<Longrightarrow> heads (recycle blk b s) c =
       (heads s c)\<lparr>b_prev := bprev (recycle blk b s) c, b_next := bnext (recycle blk b s) c\<rparr>"
    "heads (recycle blk b s) b =
       (heads s b)\<lparr>b_count := 1, b_dev := ROOT_DEV, b_blocknr := blk, b_uptodate := False, b_dirt := False,
         b_prev := bprev (recycle blk b s) b, b_next := bnext (recycle blk b s) b\<rparr>"
    "recycle blk b s = s\<lparr>heads := heads (recycle blk b s), hash_table := hash_table (recycle blk b s)\<rparr>"
    "d \<notin> insert b (hashed s) \<Longrightarrow> heads (recycle blk b s) d = heads s d"
proof -
  let ?u = "unlink_hash b s"
  have u: "hash_chains ?u (hashed s - {b}) \<and>
    (\<forall>x. heads ?u x = (heads s x)\<lparr>b_prev := bprev ?u x, b_next := bnext ?u x\<rparr>) \<and>
    ?u = s\<lparr>heads := heads ?u, hash_table := hash_table ?u\<rparr> \<and>
    (d \<notin> hashed s \<longrightarrow> heads ?u d = heads s d)"
  proof (cases "b \<in> hashed s")
    case True
    with unlink_hash_chains [OF cache_invD(2) [OF inv] True] unlink_hash_frame [OF cache_invD(2) [OF inv] True]
    show ?thesis by blast
  next
    case False
    then have "?u = s"
      using unlink_hash_unhashed [OF cache_invD(2) [OF inv] False] cache_invD(4) [OF inv b False] by simp
    with False cache_invD(2) [OF inv] show ?thesis by simp
  qed
  then have ch: "hash_chains ?u (hashed s - {b})" and f1: "?u = s\<lparr>heads := heads ?u, hash_table := hash_table ?u\<rparr>"
    and f2: "\<And>x. heads ?u x = (heads s x)\<lparr>b_prev := bprev ?u x, b_next := bnext ?u x\<rparr>"
    and f3: "d \<notin> hashed s \<Longrightarrow> heads ?u d = heads s d" by blast+
  have ne: "hash_table ?u (buf_hash ROOT_DEV blk) \<noteq> Some b"
    using hash_head_in [OF ch] by blast
  note L = link_hash_heads [OF ne]
  show "heads (recycle blk b s) d = heads s d" if "d \<notin> insert b (hashed s)"
    using f3 that hash_head_in [OF ch, of ROOT_DEV blk d] unfolding recycle_def L(1) by auto
  have "insert b (hashed s - {b}) = insert b (hashed s)" by blast
  with link_hash_chains [OF ch, of b ROOT_DEV blk]
  show "hash_chains (recycle blk b s) (insert b (hashed s))" by (simp add: recycle_def)
  show "heads (recycle blk b s) c =
       (heads s c)\<lparr>b_prev := bprev (recycle blk b s) c, b_next := bnext (recycle blk b s) c\<rparr>" if "c \<noteq> b"
    using that f2 [of c] unfolding recycle_def L(1) by (cases "heads s c"; cases "heads ?u c") auto
  show "heads (recycle blk b s) b =
       (heads s b)\<lparr>b_count := 1, b_dev := ROOT_DEV, b_blocknr := blk, b_uptodate := False, b_dirt := False,
         b_prev := bprev (recycle blk b s) b, b_next := bnext (recycle blk b s) b\<rparr>"
    using f2 [of b] unfolding recycle_def L(1) by (cases "heads s b"; cases "heads ?u b") auto
  show "recycle blk b s = s\<lparr>heads := heads (recycle blk b s), hash_table := hash_table (recycle blk b s)\<rparr>"
  proof -
    have abs: "v\<lparr>heads := h, hash_table := g\<rparr> = s\<lparr>heads := h, hash_table := g\<rparr>"
      if "v = s\<lparr>heads := heads v, hash_table := hash_table v\<rparr>" for v h g
      using arg_cong [OF that, of "\<lambda>v. v\<lparr>heads := h, hash_table := g\<rparr>"] by simp
    show ?thesis
      using L(4) abs [OF f1] unfolding recycle_def by (rule trans)
  qed
qed

lemma recycle_inv:
  assumes inv: "cache_inv s" and b: "b < NR_BUFFERS" and blk: "blk_ok s blk"
    and new: "\<And>c. c \<in> hashed s \<Longrightarrow> b_blocknr (heads s c) \<noteq> blk"
  shows "cache_inv (recycle blk b s)"
    "\<And>c. c \<noteq> b \<Longrightarrow> core (heads (recycle blk b s) c) = core (heads s c)"
    "core (heads (recycle blk b s) b) = (b_data (heads s b), blk, ROOT_DEV, False, False, 1)"
    "keep (recycle blk b s) = keep s"
    "\<not> b_dirt (heads s b) \<Longrightarrow> view (recycle blk b s) = view s"
    "hashed (recycle blk b s) = insert b (hashed s)" "hd_sectors (recycle blk b s) = hd_sectors s"
proof -
  let ?s = "recycle blk b s"
  note R = recycle_heads [OF inv b, where blk = blk]
  have fr: "hd_sectors ?s = hd_sectors s" "root_lba ?s = root_lba s" "free_list ?s = free_list s"
    using arg_cong [OF R(4), of hd_sectors] arg_cong [OF R(4), of root_lba] arg_cong [OF R(4), of free_list]
    by simp_all
  show keep: "keep ?s = keep s" using arg_cong [OF R(4), of keep] by (simp add: keep_def)
  have c: "b_dev (heads ?s c) = b_dev (heads s c)" "b_blocknr (heads ?s c) = b_blocknr (heads s c)"
    "b_uptodate (heads ?s c) = b_uptodate (heads s c)" "b_dirt (heads ?s c) = b_dirt (heads s c)"
    "b_data (heads ?s c) = b_data (heads s c)" "b_count (heads ?s c) = b_count (heads s c)"
    if "c \<noteq> b" for c
    using R(2) [OF that] by (cases "heads ?s c"; cases "heads s c"; simp)+
  have bb: "b_dev (heads ?s b) = ROOT_DEV" "b_blocknr (heads ?s b) = blk" "\<not> b_uptodate (heads ?s b)"
    "\<not> b_dirt (heads ?s b)" "b_data (heads ?s b) = b_data (heads s b)" "b_count (heads ?s b) = 1"
    using R(3) by (cases "heads ?s b"; cases "heads s b"; simp)+
  have lw: "b_lock (heads ?s x) = b_lock (heads s x)" "b_wait (heads ?s x) = b_wait (heads s x)"
    "b_next_free (heads ?s x) = b_next_free (heads s x)" "b_prev_free (heads ?s x) = b_prev_free (heads s x)" for x
    using R(2) [of x] R(3) by (cases "x = b"; cases "heads ?s x"; cases "heads s x"; simp)+
  show "core (heads ?s c) = core (heads s c)" if "c \<noteq> b" for c using c [OF that] by (simp add: core_def)
  show "core (heads ?s b) = (b_data (heads s b), blk, ROOT_DEV, False, False, 1)" using bb by (simp add: core_def)
  have "x \<in> hashed ?s \<longleftrightarrow> x \<in> insert b (hashed s)" for x
    using b bb(1) c(1) [of x] by (cases "x = b") (auto simp: hashed_def)
  then show H: "hashed ?s = insert b (hashed s)" by blast
  show "hd_sectors ?s = hd_sectors s" by (rule fr)
  have db: "disk_block ?s = disk_block s" by (rule disk_block_cong) (simp_all add: fr)
  have "b_prev (heads ?s x) = None \<and> b_next (heads ?s x) = None \<and> \<not> b_dirt (heads ?s x)"
    if "x < NR_BUFFERS" "x \<notin> insert b (hashed s)" for x
    using that cache_invD(4) [OF inv that(1)] R(5) [OF that(2)] by simp
  moreover have "\<exists>xs. ring ?s xs"
    using cache_invD(1) [OF inv] ring_cong [of ?s s] lw fr by auto
  moreover have "inj_on (\<lambda>b. b_blocknr (heads ?s b)) (insert b (hashed s))"
  proof (rule inj_onI)
    fix x y assume "x \<in> insert b (hashed s)" "y \<in> insert b (hashed s)"
      "b_blocknr (heads ?s x) = b_blocknr (heads ?s y)"
    then show "x = y" using new c(2) bb(2) cache_invD(3) [OF inv] by (metis insertE)
  qed
  moreover have "blk_ok ?s (b_blocknr (heads ?s x)) \<and> coherent ?s x" if "x \<in> insert b (hashed s)" for x
    using that cache_invD(6,7) [OF inv] c [of x] bb blk
    by (cases "x = b") (auto simp: blk_ok_def fr coherent_def db)
  ultimately show inv': "cache_inv ?s"
    using R(1) cache_invD(5) [OF inv] unfolding cache_inv_def H lw by blast
  show "view ?s = view s" if nd: "\<not> b_dirt (heads s b)"
  proof
    fix k
    show "view ?s k = view s k"
    proof (cases "\<exists>x\<in>hashed s. x \<noteq> b \<and> b_blocknr (heads s x) = k \<and> b_uptodate (heads s x)")
      case True
      then obtain x where x: "x \<in> hashed s" "x \<noteq> b" "b_blocknr (heads s x) = k" "b_uptodate (heads s x)" by blast
      have "view ?s (b_blocknr (heads ?s x)) = blk_of (b_data (heads ?s x))"
        using x H c(3) [of x] by (intro view_hit [OF inv']) auto
      with view_hit [OF inv x(1,4)] x c [of x] show ?thesis by simp
    next
      case False
      have "view ?s k = disk_block ?s k"
        using False H bb(3) c by (intro view_miss) (metis insertE)
      moreover have "view s k = disk_block s k"
      proof (cases "b \<in> hashed s \<and> b_blocknr (heads s b) = k \<and> b_uptodate (heads s b)")
        case True
        with nd cache_invD(7) [OF inv, of b] view_hit [OF inv, of b] show ?thesis
          by (auto simp: coherent_def)
      next
        case nb: False
        with False show ?thesis by (intro view_miss) metis
      qed
      ultimately show ?thesis by (simp add: db)
    qed
  qed
qed

subsection \<open>The operations\<close>

abbreviation cnt :: "'z buf_state_scheme \<Rightarrow> nat \<Rightarrow> byte" where
  "cnt s b \<equiv> b_count (heads s b)"

lemma upd_count_inv [simp]:
  "cache_inv (upd_head b (b_count_update f) s) \<longleftrightarrow> cache_inv s"
  "view (upd_head b (b_count_update f) s) = view s"
  "hashed (upd_head b (b_count_update f) s) = hashed s"
proof -
  show "cache_inv (upd_head b (b_count_update f) s) \<longleftrightarrow> cache_inv s"
    by (rule cache_inv_count [where c = "\<lambda>x. if x = b then f (cnt s x) else cnt s x"]) auto
  show "view (upd_head b (b_count_update f) s) = view s"
    by (rule ext, rule view_cong) (auto intro!: fun_cong [OF disk_block_cong])
  show "hashed (upd_head b (b_count_update f) s) = hashed s"
    by (rule hashed_cong) auto
qed

lemma getblk_hit:
  assumes "cache_inv s" and "b \<in> hashed s"
  shows "getblk ROOT_DEV (b_blocknr (heads s b)) s = Some (b, upd_head b (b_count_update (\<lambda>c. c + 1)) s)"
proof -
  have "hash_find (heads s) ROOT_DEV (b_blocknr (heads s b)) (hash_table s (buf_hash ROOT_DEV (b_blocknr (heads s b)))) =
      Some (Some b)"
    using assms cache_invD(3) [OF assms(1)]
    by (intro hash_find_hit [OF cache_invD(2) [OF assms(1)] assms(2)]) (auto simp: hashed_def)
  then show ?thesis by (simp add: getblk_def)
qed

lemma flush_dirty:
  fixes f g :: "byte \<Rightarrow> byte"
  assumes inv: "cache_inv s" and bh: "b \<in> hashed s" and dirt: "b_dirt (heads s b)"
  defines "s' \<equiv> upd_head b (b_count_update g) (ll_rw_block WRITE b (upd_head b (b_count_update f) s))"
  shows "cache_inv s'" "view s' = view s" "hashed s' = hashed s" "keep s' = keep s"
    "\<And>c. c \<noteq> b \<Longrightarrow> heads s' c = heads s c"
    "cnt s' b = g (f (cnt s b))" "b_blocknr (heads s' b) = b_blocknr (heads s b)"
    "b_next_free (heads s' b) = b_next_free (heads s b)" "b_prev_free (heads s' b) = b_prev_free (heads s b)"
    "blk_ok s' = blk_ok s" "hd_ok s \<Longrightarrow> \<not> b_dirt (heads s' b)"
proof -
  let ?t = "upd_head b (b_count_update f) s"
  have b: "b < NR_BUFFERS" using bh by (simp add: hashed_def)
  have t: "cache_inv ?t" "b \<in> hashed ?t" "b_dirt (heads ?t b)" "b_wait (heads ?t b) = 0"
    "blk_ok ?t (b_blocknr (heads ?t b))"
    using inv bh dirt cache_invD(5) [OF inv b] cache_invD(6) [OF inv bh] by (simp_all add: blk_ok_def)
  note W = ll_rw_write_inv [OF t(1-3)]
  obtain w S d u where eq: "ll_rw_block WRITE b ?t = ?t\<lparr>hd_waits := w, hd_sectors := S, heads := (heads ?t)
     (b := (heads ?t b)\<lparr>b_dirt := d, b_uptodate := u, b_lock := False, b_wait := 0\<rparr>)\<rparr>"
    by (rule ll_rw_write [OF t(4,5)]) (rule that)
  show "cache_inv s'" "view s' = view s" using W(1,2) by (simp_all add: s'_def)
  show "hashed s' = hashed s" by (rule hashed_cong) (simp add: s'_def eq)
  show "keep s' = keep s" by (simp add: s'_def eq)
  show "\<not> b_dirt (heads s' b)" if "hd_ok s" using W(3) that by (simp add: s'_def hd_ok_def)
  show "blk_ok s' = blk_ok s" by (simp add: s'_def eq blk_ok_def fun_eq_iff)
  show "heads s' c = heads s c" if "c \<noteq> b" for c using that by (simp add: s'_def eq)
  show "cnt s' b = g (f (cnt s b))" "b_blocknr (heads s' b) = b_blocknr (heads s b)"
    "b_next_free (heads s' b) = b_next_free (heads s b)" "b_prev_free (heads s' b) = b_prev_free (heads s b)"
    by (simp_all add: s'_def eq)
qed

lemma flush_victim:
  assumes inv: "cache_inv s" and b: "b < NR_BUFFERS" and c0: "cnt s b = 0"
  defines "s' \<equiv> (if b_dirt (heads s b)
     then upd_head b (b_count_update (\<lambda>_. 0)) (ll_rw_block WRITE b (upd_head b (b_count_update (\<lambda>_. 1)) s))
     else s)"
  shows "cache_inv s'" "view s' = view s" "hashed s' = hashed s" "keep s' = keep s"
    "\<And>c. c \<noteq> b \<Longrightarrow> heads s' c = heads s c"
    "cnt s' b = 0" "b_blocknr (heads s' b) = b_blocknr (heads s b)" "blk_ok s' = blk_ok s"
    "hd_ok s \<Longrightarrow> \<not> b_dirt (heads s' b)"
proof -
  have *: "b \<in> hashed s" if "b_dirt (heads s b)" using cache_invD(4) [OF inv b] that by blast
  show "cache_inv s'" "view s' = view s" "hashed s' = hashed s" "keep s' = keep s"
    "\<And>c. c \<noteq> b \<Longrightarrow> heads s' c = heads s c"
    "cnt s' b = 0" "b_blocknr (heads s' b) = b_blocknr (heads s b)" "blk_ok s' = blk_ok s"
    "hd_ok s \<Longrightarrow> \<not> b_dirt (heads s' b)"
    using inv c0 flush_dirty [OF inv *] by (simp_all add: s'_def)
qed

lemma getblk_miss:
  assumes inv: "cache_inv s" and free: "\<exists>b<NR_BUFFERS. cnt s b = 0" and blk: "blk_ok s blk"
    and new: "\<And>c. c \<in> hashed s \<Longrightarrow> b_blocknr (heads s c) \<noteq> blk"
  obtains b s' where "getblk ROOT_DEV blk s = Some (b, s')" "cache_inv s'" "b < NR_BUFFERS" "cnt s b = 0"
    "\<exists>d. core (heads s' b) = (d, blk, ROOT_DEV, False, False, 1)"
    "\<And>c. c \<noteq> b \<Longrightarrow> core (heads s' c) = core (heads s c)" "keep s' = keep s" "hd_ok s \<Longrightarrow> view s' = view s"
proof -
  obtain xs where xs: "ring s xs" using cache_invD(1) [OF inv] by blast
  obtain b where b: "find (\<lambda>b. cnt s b = 0) xs = Some b"
    using free xs by (cases "find (\<lambda>b. cnt s b = 0) xs") (auto simp: find_None_iff ring_def)
  then have c0: "cnt s b = 0" and bin: "b \<in> set xs" by (auto simp: find_Some_iff)
  then have bn: "b < NR_BUFFERS" using xs by (auto simp: ring_def)
  define t where "t = (if b_dirt (heads s b)
     then upd_head b (b_count_update (\<lambda>_. 0)) (ll_rw_block WRITE b (upd_head b (b_count_update (\<lambda>_. 1)) s))
     else s)"
  note F = flush_victim [OF inv bn c0, folded t_def]
  have new': "\<And>c. c \<in> hashed t \<Longrightarrow> b_blocknr (heads t c) \<noteq> blk"
    using new F(3,5,7) by metis
  have blk': "blk_ok t blk" using blk F(8) by simp
  note R = recycle_inv [OF F(1) bn blk' new']
  have "hash_find (heads s) ROOT_DEV blk (hash_table s (buf_hash ROOT_DEV blk)) = Some None"
    using new by (intro hash_find_miss [OF cache_invD(2) [OF inv]]) auto
  then have "getblk ROOT_DEV blk s = Some (b, recycle blk b t)"
    using find_free_ring [OF xs] b by (simp add: getblk_def t_def recycle_def)
  then show ?thesis
    by (rule that) (use R F bn c0 in auto)
qed

lemma ll_rw_read_inv:
  assumes inv: "cache_inv s" and b: "b \<in> hashed s" and nu: "\<not> b_uptodate (heads s b)"
  defines "s' \<equiv> ll_rw_block READ b s"
  shows "cache_inv s'" "view s' = view s" "hashed s' = hashed s" "keep s' = keep s"
    "\<And>c. c \<noteq> b \<Longrightarrow> heads s' c = heads s c"
    "cnt s' b = cnt s b" "b_blocknr (heads s' b) = b_blocknr (heads s b)"
    "\<not> b_lock (heads s' b)" "\<not> b_dirt (heads s' b)"
    "hd_ok s \<Longrightarrow> b_uptodate (heads s' b)"
    "b_uptodate (heads s' b) \<Longrightarrow> blk_of (b_data (heads s' b)) = view s (b_blocknr (heads s b))"
proof -
  let ?blk = "b_blocknr (heads s b)"
  have bn: "b < NR_BUFFERS" using b by (simp add: hashed_def)
  have w0: "b_wait (heads s b) = 0" using cache_invD(5) [OF inv bn] by simp
  have nd: "\<not> b_dirt (heads s b)" using cache_invD(7) [OF inv b] nu by (simp add: coherent_def)
  obtain w d u where eq: "ll_rw_block READ b s = s\<lparr>hd_waits := w, heads := (heads s)
       (b := (heads s b)\<lparr>b_data := d, b_uptodate := u, b_lock := False, b_wait := 0\<rparr>)\<rparr>"
    and res: "u \<and> blk_of d = disk_block s ?blk \<or> u = b_uptodate (heads s b) \<and> \<not> hd_ok s"
    by (rule ll_rw_read [OF w0 cache_invD(6) [OF inv b]]) (rule that)
  note eq = eq [folded s'_def]
  have db: "disk_block s' = disk_block s" by (rule disk_block_cong) (simp_all add: eq)
  have vb: "view s ?blk = disk_block s ?blk"
    using nu cache_invD(3) [OF inv b] by (intro view_miss) metis
  show H: "hashed s' = hashed s" by (rule hashed_cong) (simp add: eq)
  show "keep s' = keep s" by (simp add: eq)
  show "heads s' c = heads s c" if "c \<noteq> b" for c using that by (simp add: eq)
  show "cnt s' b = cnt s b" "b_blocknr (heads s' b) = ?blk" "\<not> b_lock (heads s' b)" "\<not> b_dirt (heads s' b)"
    using nd by (simp_all add: eq)
  show "b_uptodate (heads s' b)" if "hd_ok s" using res that by (auto simp: eq)
  show data: "blk_of (b_data (heads s' b)) = view s ?blk" if "b_uptodate (heads s' b)"
    using that res nu vb by (auto simp: eq)
  have r: "ring s' xs \<longleftrightarrow> ring s xs" for xs by (rule ring_cong) (simp_all add: eq)
  have ch: "hash_chains s' (hashed s) \<longleftrightarrow> hash_chains s (hashed s)"
    by (rule hash_chains_cong) (simp_all add: eq)
  have "blk_ok s' (b_blocknr (heads s' c)) \<and> coherent s' c" if "c \<in> hashed s" for c
    using cache_invD(6,7) [OF inv that] res nd nu
    by (cases "c = b") (auto simp: coherent_def db blk_ok_def, auto simp: eq)
  moreover have "\<not> b_lock (heads s' c) \<and> b_wait (heads s' c) = 0" if "c < NR_BUFFERS" for c
    using cache_invD(5) [OF inv that] by (simp add: eq)
  moreover have "b_prev (heads s' c) = None \<and> b_next (heads s' c) = None \<and> \<not> b_dirt (heads s' c)"
    if "c < NR_BUFFERS" "c \<notin> hashed s" for c
    using cache_invD(4) [OF inv that] that b by (auto simp: eq)
  moreover have "b_blocknr (heads s' c) = b_blocknr (heads s c)" for c by (simp add: eq)
  ultimately show inv': "cache_inv s'"
    using inv unfolding cache_inv_def H r ch by simp
  show "view s' = view s"
  proof
    fix blk
    show "view s' blk = view s blk"
    proof (cases "blk = ?blk")
      case False
      have "holds_block s' blk = holds_block s blk"
        using False by (auto simp: holds_block_def eq fun_eq_iff)
      moreover have "b_data (heads s' c) = b_data (heads s c)" if "holds_block s blk c" for c
        using that False by (auto simp: holds_block_def eq)
      ultimately show ?thesis by (intro view_eqI) (simp_all add: db)
    next
      case True
      show ?thesis
      proof (cases "b_uptodate (heads s' b)")
        case up: True
        with view_hit [OF inv', of b] b H data show ?thesis by (simp add: True eq)
      next
        case False
        have "view s' ?blk = disk_block s' ?blk"
          using False nu cache_invD(3) [OF inv b] unfolding H [symmetric]
          by (intro view_miss) (metis H \<open>\<And>c. c \<noteq> b \<Longrightarrow> heads s' c = heads s c\<close>)
        with vb True show ?thesis by (simp add: db)
      qed
    qed
  qed
qed

lemma brelse_spec:
  assumes inv: "cache_inv s" and b: "b < NR_BUFFERS"
  obtains s' where "brelse (Some b) s = Some s'" "cache_inv s'" "view s' = view s" "keep s' = keep s"
    "cnt s' b = cnt s b - 1" "\<And>c. c \<noteq> b \<Longrightarrow> core (heads s' c) = core (heads s c)"
    "hashed s' = hashed s" "b_blocknr (heads s' b) = b_blocknr (heads s b)"
    "b_uptodate (heads s' b) = b_uptodate (heads s b)" "b_data (heads s' b) = b_data (heads s b)"
    "b_dirt (heads s' b) = b_dirt (heads s b)" "hd_sectors s' = hd_sectors s"
proof -
  obtain xs where xs: "ring s xs" using cache_invD(1) [OF inv] by blast
  from brelse_ring [OF xs b] obtain s' where r: "brelse (Some b) s = Some s'" "ring s' (to_front s b xs)"
    and f: "s' = s\<lparr>heads := heads s', free_list := free_list s'\<rparr>"
    and h: "\<And>c. heads s' c = (heads s c)\<lparr>b_count := (if c = b then b_count (heads s b) - 1 else b_count (heads s c)),
       b_prev_free := pfree s' c, b_next_free := nfree s' c\<rparr>" by blast
  have fr: "hd_sectors s' = hd_sectors s" "root_lba s' = root_lba s" "hash_table s' = hash_table s"
    using arg_cong [OF f, of hd_sectors] arg_cong [OF f, of root_lba] arg_cong [OF f, of hash_table] by simp_all
  have k: "keep s' = keep s" using arg_cong [OF f, of keep] by simp
  have hc: "b_dev (heads s' c) = b_dev (heads s c)" "b_blocknr (heads s' c) = b_blocknr (heads s c)"
    "b_uptodate (heads s' c) = b_uptodate (heads s c)" "b_dirt (heads s' c) = b_dirt (heads s c)"
    "b_data (heads s' c) = b_data (heads s c)" "b_lock (heads s' c) = b_lock (heads s c)"
    "b_wait (heads s' c) = b_wait (heads s c)" "b_prev (heads s' c) = b_prev (heads s c)"
    "b_next (heads s' c) = b_next (heads s c)"
    "b_count (heads s' c) = (if c = b then b_count (heads s b) - 1 else b_count (heads s c))" for c
    using h [of c] by (cases "heads s' c"; cases "heads s c"; simp)+
  have H: "hashed s' = hashed s" by (rule hashed_cong) (simp add: hc)
  have db: "disk_block s' = disk_block s" by (rule disk_block_cong) (simp_all add: fr)
  have ch: "hash_chains s' (hashed s) \<longleftrightarrow> hash_chains s (hashed s)"
    by (rule hash_chains_cong) (simp_all add: hc fr)
  have "cache_inv s'"
    using inv r(2) unfolding cache_inv_def H ch coherent_def db hc blk_ok_def fr by blast
  moreover have "view s' = view s"
    by (rule ext, rule view_cong) (simp_all add: hc db)
  ultimately show ?thesis
    by (rule that [OF r(1)]) (simp_all add: k hc core_def H fr)
qed

text \<open>
  \<open>getblk\<close> in both cases. A buffer in use is never recycled: every other buffer keeps its
  contents, and so does the one returned if somebody holds it already.
\<close>

lemma getblk_spec:
  assumes inv: "cache_inv s" and free: "\<exists>b<NR_BUFFERS. cnt s b = 0" and blk: "blk_ok s blk"
  obtains b s' where "getblk ROOT_DEV blk s = Some (b, s')" "cache_inv s'" "b \<in> hashed s'"
    "b_blocknr (heads s' b) = blk" "cnt s' b = cnt s b + 1" "keep s' = keep s"
    "\<And>c. c \<noteq> b \<Longrightarrow> core (heads s' c) = core (heads s c)" "hd_ok s \<Longrightarrow> view s' = view s"
    "cnt s b \<noteq> 0 \<Longrightarrow> b \<in> hashed s \<and> b_blocknr (heads s b) = blk \<and>
       b_uptodate (heads s' b) = b_uptodate (heads s b) \<and> b_data (heads s' b) = b_data (heads s b) \<and>
       b_dirt (heads s' b) = b_dirt (heads s b)"
proof (cases "\<exists>b\<in>hashed s. b_blocknr (heads s b) = blk")
  case True
  then obtain b where b: "b \<in> hashed s" "b_blocknr (heads s b) = blk" by blast
  let ?s = "upd_head b (b_count_update (\<lambda>c. c + 1)) s"
  have "getblk ROOT_DEV blk s = Some (b, ?s)" using getblk_hit [OF inv b(1)] b(2) by simp
  then show ?thesis by (rule that) (use inv b in auto)
next
  case False
  then have new: "\<And>c. c \<in> hashed s \<Longrightarrow> b_blocknr (heads s c) \<noteq> blk" by blast
  obtain b s' d where "getblk ROOT_DEV blk s = Some (b, s')" "cache_inv s'" "b < NR_BUFFERS" "cnt s b = 0"
    "core (heads s' b) = (d, blk, ROOT_DEV, False, False, 1)"
    "\<And>c. c \<noteq> b \<Longrightarrow> core (heads s' c) = core (heads s c)" "keep s' = keep s" "hd_ok s \<Longrightarrow> view s' = view s"
    using getblk_miss [OF inv free blk new] by metis
  then show ?thesis by (intro that [of b s']) (auto simp: core_def hashed_def)
qed

lemma bread_spec:
  assumes inv: "cache_inv s" and free: "\<exists>b<NR_BUFFERS. cnt s b = 0" and blk: "blk_ok s blk"
  obtains r s' where "bread ROOT_DEV blk s = Some (r, s')" "cache_inv s'" "keep s' = keep s"
    "hd_ok s \<Longrightarrow> view s' = view s" "hd_ok s \<Longrightarrow> r \<noteq> None"
    "r = None \<Longrightarrow> (\<forall>c. cnt s' c = cnt s c)"
    "\<And>b. r = Some b \<Longrightarrow> b \<in> hashed s' \<and> b_blocknr (heads s' b) = blk \<and> b_uptodate (heads s' b) \<and>
       cnt s' b = cnt s b + 1 \<and> (\<forall>c. c \<noteq> b \<longrightarrow> core (heads s' c) = core (heads s c)) \<and>
       blk_of (b_data (heads s' b)) = view s' blk \<and>
       (cnt s b \<noteq> 0 \<longrightarrow> b_blocknr (heads s b) = blk \<and> (b_uptodate (heads s b) \<longrightarrow>
          b_data (heads s' b) = b_data (heads s b) \<and> b_dirt (heads s' b) = b_dirt (heads s b)))"
    "\<And>c. cnt s c \<noteq> 0 \<Longrightarrow> b_uptodate (heads s c) \<Longrightarrow> b_dev (heads s' c) = b_dev (heads s c) \<and>
       b_blocknr (heads s' c) = b_blocknr (heads s c) \<and> b_data (heads s' c) = b_data (heads s c) \<and>
       b_uptodate (heads s' c) \<and> b_dirt (heads s' c) = b_dirt (heads s c)"
proof -
  obtain b t where g: "getblk ROOT_DEV blk s = Some (b, t)" "cache_inv t" "b \<in> hashed t"
    "b_blocknr (heads t b) = blk" "cnt t b = cnt s b + 1" "keep t = keep s"
    "\<And>c. c \<noteq> b \<Longrightarrow> core (heads t c) = core (heads s c)" "hd_ok s \<Longrightarrow> view t = view s"
    "cnt s b \<noteq> 0 \<Longrightarrow> b \<in> hashed s \<and> b_blocknr (heads s b) = blk \<and>
       b_uptodate (heads t b) = b_uptodate (heads s b) \<and> b_data (heads t b) = b_data (heads s b) \<and>
       b_dirt (heads t b) = b_dirt (heads s b)"
    by (rule getblk_spec [OF assms]) (rule that)
  have bn: "b < NR_BUFFERS" using g(3) by (simp add: hashed_def)
  have pin: "b_dev (heads t c) = b_dev (heads s c) \<and> b_blocknr (heads t c) = b_blocknr (heads s c) \<and>
      b_data (heads t c) = b_data (heads s c) \<and> b_uptodate (heads t c) \<and> b_dirt (heads t c) = b_dirt (heads s c)"
    if "cnt s c \<noteq> 0" "b_uptodate (heads s c)" for c
    using that g(3,4,7,9) by (cases "c = b") (auto simp: core_def hashed_def)
  show ?thesis
  proof (cases "b_uptodate (heads t b)")
    case True
    then have "bread ROOT_DEV blk s = Some (Some b, t)" using g(1) by (simp add: bread_def)
    then show ?thesis
      by (rule that) (use g True view_hit [OF g(2,3)] pin in auto)
  next
    case False
    let ?u = "ll_rw_block READ b t"
    note L = ll_rw_read_inv [OF g(2,3) False]
    have nl: "\<not> b_lock (heads t b)" using cache_invD(5) [OF g(2) bn] by simp
    have ok: "hd_ok t = hd_ok s" using keepD(1) [OF g(6)] by (simp add: hd_ok_def)
    show ?thesis
    proof (cases "b_uptodate (heads ?u b)")
      case True
      then have "bread ROOT_DEV blk s = Some (Some b, ?u)"
        using g(1) False nl L(8) by (simp add: bread_def wait_on_buffer_def)
      moreover have "c \<noteq> b" if "cnt s c \<noteq> 0" "b_uptodate (heads s c)" for c
        using that pin [of c] False by auto
      ultimately show ?thesis
        using g True False L pin by (intro that [of "Some b" ?u]) (auto simp: ok)
    next
      case nu: False
      have bn': "b < NR_BUFFERS" by (rule bn)
      obtain v where v: "brelse (Some b) ?u = Some v" "cache_inv v" "view v = view ?u" "keep v = keep ?u"
        "cnt v b = cnt ?u b - 1" "\<And>c. c \<noteq> b \<Longrightarrow> core (heads v c) = core (heads ?u c)"
        by (rule brelse_spec [OF L(1) bn]) (rule that)
      have "bread ROOT_DEV blk s = Some (None, v)"
        using g(1) False nl L(8) nu v(1) by (simp add: bread_def wait_on_buffer_def)
      moreover have "cnt v c = cnt s c" for c
      proof (cases "c = b")
        case True
        then show ?thesis using v(5) L(6) g(5) by simp
      next
        case False
        then show ?thesis using v(6) [OF False] L(5) [OF False] g(7) [OF False] by (simp add: core_def)
      qed
      moreover have "b_dev (heads v c) = b_dev (heads s c) \<and>
          b_blocknr (heads v c) = b_blocknr (heads s c) \<and> b_data (heads v c) = b_data (heads s c) \<and>
          b_uptodate (heads v c) \<and> b_dirt (heads v c) = b_dirt (heads s c)"
        if c: "cnt s c \<noteq> 0" "b_uptodate (heads s c)" for c
      proof -
        have "c \<noteq> b" using pin [OF c] False by auto
        with v(6) [OF this] L(5) [OF this] pin [OF c] show ?thesis by (simp add: core_def)
      qed
      ultimately show ?thesis
        using v g L nu by (intro that [of None v]) (auto simp: ok)
    qed
  qed
qed

subsection \<open>The contract\<close>

text \<open>
  What a client of the cache may rely on while the drive answers: \<open>bc_ok\<close> is the invariant,
  \<open>cnts\<close> the reference counts, \<open>held s b blk\<close> says that buffer \<open>b\<close> is referenced and holds block
  \<open>blk\<close>. At most 255 references in total leave a buffer free and no count near its 8-bit limit.
\<close>

definition bc_ok :: "'z buf_state_scheme \<Rightarrow> bool" where
  "bc_ok s \<longleftrightarrow> cache_inv s \<and> hd_ok s"

definition cnts :: "'z buf_state_scheme \<Rightarrow> nat \<Rightarrow> nat" where
  "cnts s = (\<lambda>b. unat (cnt s b))"

definition pins :: "(nat \<Rightarrow> nat) \<Rightarrow> nat" where
  "pins c = (\<Sum>b<NR_BUFFERS. c b)"

definition held :: "'z buf_state_scheme \<Rightarrow> nat \<Rightarrow> nat \<Rightarrow> bool" where
  "held s b blk \<longleftrightarrow> b \<in> hashed s \<and> b_blocknr (heads s b) = blk \<and> b_uptodate (heads s b) \<and> 0 < cnts s b"

definition bput :: "nat \<Rightarrow> bytes \<Rightarrow> 'z buf_state_scheme \<Rightarrow> 'z buf_state_scheme" where
  "bput b d s = upd_head b (\<lambda>h. h\<lparr>b_data := d, b_dirt := True\<rparr>) s"

lemma pins_upd: "b < NR_BUFFERS \<Longrightarrow> pins (c(b := n)) + c b = pins c + n"
  by (simp add: pins_def sum.remove [of "{..<NR_BUFFERS}" b])

lemma pins_member: "b < NR_BUFFERS \<Longrightarrow> c b \<le> pins c"
  unfolding pins_def by (rule member_le_sum) auto

lemma pins_free:
  assumes "pins (cnts s) < 255"
  shows "\<exists>b<NR_BUFFERS. cnt s b = 0"
proof (rule ccontr)
  assume "\<not> ?thesis"
  then have "1 \<le> cnts s b" if "b < NR_BUFFERS" for b
    using that by (auto simp: cnts_def unat_gt_0 Suc_le_eq)
  then have "(\<Sum>b<NR_BUFFERS. 1) \<le> pins (cnts s)" unfolding pins_def by (intro sum_mono) auto
  then show False using assms by (simp add: NR_BUFFERS_def)
qed

lemma held_less: "held s b blk \<Longrightarrow> b < NR_BUFFERS"
  by (simp add: held_def hashed_def)

lemma held_data: "bc_ok s \<Longrightarrow> held s b blk \<Longrightarrow> blk_of (b_data (heads s b)) = view s blk"
  using view_hit [of s b] by (auto simp: held_def bc_ok_def)

lemma bread_client:
  assumes "bc_ok s" and "pins (cnts s) < 255" and "blk_ok s blk"
  obtains b s' where "bread ROOT_DEV blk s = Some (Some b, s')" "bc_ok s'" "view s' = view s" "keep s' = keep s"
    "held s' b blk" "cnts s' = (cnts s)(b := cnts s b + 1)" "\<And>c k. held s c k \<Longrightarrow> held s' c k"
proof -
  have ok: "hd_ok s" "cache_inv s" using assms(1) by (auto simp: bc_ok_def)
  obtain r s' where b: "bread ROOT_DEV blk s = Some (r, s')" "cache_inv s'" "keep s' = keep s"
    "hd_ok s \<Longrightarrow> view s' = view s" "hd_ok s \<Longrightarrow> r \<noteq> None"
    "\<And>b. r = Some b \<Longrightarrow> b \<in> hashed s' \<and> b_blocknr (heads s' b) = blk \<and> b_uptodate (heads s' b) \<and>
       cnt s' b = cnt s b + 1 \<and> (\<forall>c. c \<noteq> b \<longrightarrow> core (heads s' c) = core (heads s c)) \<and>
       blk_of (b_data (heads s' b)) = view s' blk \<and>
       (cnt s b \<noteq> 0 \<longrightarrow> b_blocknr (heads s b) = blk \<and> (b_uptodate (heads s b) \<longrightarrow>
          b_data (heads s' b) = b_data (heads s b) \<and> b_dirt (heads s' b) = b_dirt (heads s b)))"
    by (rule bread_spec [OF ok(2) pins_free [OF assms(2)] assms(3)]) (rule that)
  obtain b where r: "r = Some b" using b(5) ok by auto
  note B = b(6) [OF r]
  have bn: "b < NR_BUFFERS" using B by (simp add: hashed_def)
  have small: "cnts s b < 255" using pins_member [OF bn, of "cnts s"] assms(2) by simp
  then have cb: "cnts s' b = cnts s b + 1"
    using B by (simp add: cnts_def unat_plus1_u8)
  have cc: "cnts s' c = cnts s c \<and> b_dev (heads s' c) = b_dev (heads s c) \<and>
      b_blocknr (heads s' c) = b_blocknr (heads s c) \<and> b_uptodate (heads s' c) = b_uptodate (heads s c)" if "c \<noteq> b" for c
    using B that by (auto simp: core_def cnts_def)
  show ?thesis
  proof (rule that)
    show "bread ROOT_DEV blk s = Some (Some b, s')" using b(1) r by simp
    show "bc_ok s'" using b(2) ok keepD(1) [OF b(3)] by (simp add: bc_ok_def hd_ok_def)
    show "view s' = view s" using b(4) ok by simp
    show "keep s' = keep s" by (rule b(3))
    show "held s' b blk" using B cb by (simp add: held_def)
    show "cnts s' = (cnts s)(b := cnts s b + 1)" using cb cc by (auto simp: fun_eq_iff)
    show "held s' c k" if "held s c k" for c k
    proof (cases "c = b")
      case False
      with that cc [OF False] show ?thesis by (simp add: held_def hashed_def)
    next
      case True
      have "cnt s b \<noteq> 0" using that True by (auto simp: held_def cnts_def)
      then have "k = blk" using B that True by (auto simp: held_def)
      with True B cb show ?thesis by (simp add: held_def)
    qed
  qed
qed

lemma bput_client:
  assumes "bc_ok s" and "held s b blk"
  shows "bc_ok (bput b d s)" "view (bput b d s) = (view s)(blk := blk_of d)"
    "cnts (bput b d s) = cnts s" "keep (bput b d s) = keep s" "held (bput b d s) c k = held s c k"
proof -
  let ?s = "bput b d s"
  have inv: "cache_inv s" using assms(1) by (simp add: bc_ok_def)
  have b: "b \<in> hashed s" "b_blocknr (heads s b) = blk" "b_uptodate (heads s b)" using assms(2) by (auto simp: held_def)
  have hc: "b_dev (heads ?s c) = b_dev (heads s c)" "b_blocknr (heads ?s c) = b_blocknr (heads s c)"
    "b_uptodate (heads ?s c) = b_uptodate (heads s c)" "b_lock (heads ?s c) = b_lock (heads s c)"
    "b_wait (heads ?s c) = b_wait (heads s c)" "b_prev (heads ?s c) = b_prev (heads s c)"
    "b_next (heads ?s c) = b_next (heads s c)" "b_prev_free (heads ?s c) = b_prev_free (heads s c)"
    "b_next_free (heads ?s c) = b_next_free (heads s c)" "b_count (heads ?s c) = b_count (heads s c)"
    "c \<noteq> b \<Longrightarrow> heads ?s c = heads s c" for c
    by (auto simp: bput_def)
  have bd: "b_data (heads ?s b) = d" "b_dirt (heads ?s b)" by (simp_all add: bput_def)
  have fr: "hd_sectors ?s = hd_sectors s" "root_lba ?s = root_lba s" "hash_table ?s = hash_table s"
    "free_list ?s = free_list s" "hd_resp ?s = hd_resp s"
    by (simp_all add: bput_def)
  have H: "hashed ?s = hashed s" by (rule hashed_cong) (simp add: hc)
  have db: "disk_block ?s = disk_block s" by (rule disk_block_cong) (simp_all add: fr)
  have ch: "hash_chains ?s (hashed s) \<longleftrightarrow> hash_chains s (hashed s)"
    by (rule hash_chains_cong) (simp_all add: hc fr)
  have r: "ring ?s xs \<longleftrightarrow> ring s xs" for xs by (rule ring_cong) (simp_all add: hc fr)
  have "blk_ok ?s (b_blocknr (heads s c)) \<and> coherent ?s c" if "c \<in> hashed s" for c
    using cache_invD(6,7) [OF inv that] b bd
    by (cases "c = b") (auto simp: coherent_def db blk_ok_def fr hc)
  moreover have "\<not> b_dirt (heads ?s c)" if "c < NR_BUFFERS" "c \<notin> hashed s" for c
    using cache_invD(4) [OF inv that] that b(1) hc(11) [of c] by (cases "c = b") auto
  ultimately have inv': "cache_inv ?s"
    using inv unfolding cache_inv_def H ch r hc by blast
  then show "bc_ok ?s" using assms(1) by (simp add: bc_ok_def hd_ok_def fr)
  show "cnts ?s = cnts s" by (simp add: cnts_def hc)
  then show "held ?s c k = held s c k" by (simp add: held_def H hc)
  show "keep ?s = keep s" by (simp add: bput_def)
  show "view ?s = (view s)(blk := blk_of d)"
  proof
    fix k
    show "view ?s k = ((view s)(blk := blk_of d)) k"
    proof (cases "k = blk")
      case True
      then show ?thesis using view_hit [OF inv', of b] b H by (simp add: hc bd)
    next
      case False
      have "holds_block s k c \<Longrightarrow> c \<noteq> b" for c using False b by (auto simp: holds_block_def)
      then have "view ?s k = view s k"
        by (intro view_eqI) (auto simp: holds_block_def hc db)
      then show ?thesis using False by simp
    qed
  qed
qed

lemma brelse_client:
  assumes "bc_ok s" and "held s b blk"
  obtains s' where "brelse (Some b) s = Some s'" "bc_ok s'" "view s' = view s" "keep s' = keep s"
    "cnts s' = (cnts s)(b := cnts s b - 1)"
    "\<And>c k. held s c k \<Longrightarrow> c \<noteq> b \<or> 1 < cnts s b \<Longrightarrow> held s' c k"
proof -
  have inv: "cache_inv s" using assms(1) by (simp add: bc_ok_def)
  have bn: "b < NR_BUFFERS" using held_less [OF assms(2)] .
  obtain s' where r: "brelse (Some b) s = Some s'" "cache_inv s'" "view s' = view s" "keep s' = keep s"
    "cnt s' b = cnt s b - 1" "\<And>c. c \<noteq> b \<Longrightarrow> core (heads s' c) = core (heads s c)"
    "hashed s' = hashed s" "b_blocknr (heads s' b) = b_blocknr (heads s b)"
    "b_uptodate (heads s' b) = b_uptodate (heads s b)" by (rule brelse_spec [OF inv bn]) (rule that)
  have pos: "0 < cnts s b" using assms(2) by (simp add: held_def)
  then have cb: "cnts s' b = cnts s b - 1" using r(5) by (simp add: cnts_def unat_minus1_u8 unat_gt_0)
  have cc: "cnts s' c = cnts s c" "b_blocknr (heads s' c) = b_blocknr (heads s c)"
    "b_uptodate (heads s' c) = b_uptodate (heads s c)" if "c \<noteq> b" for c
    using r(6) [OF that] by (auto simp: core_def cnts_def)
  show ?thesis
  proof (rule that)
    show "brelse (Some b) s = Some s'" "view s' = view s" "keep s' = keep s" by fact+
    show "bc_ok s'" using r(2) assms(1) keepD(1) [OF r(4)] by (simp add: bc_ok_def hd_ok_def)
    show "cnts s' = (cnts s)(b := cnts s b - 1)" using cb cc by (auto simp: fun_eq_iff)
    show "held s' c k" if "held s c k" "c \<noteq> b \<or> 1 < cnts s b" for c k
      using that r cb cc [of c] by (cases "c = b") (auto simp: held_def)
  qed
qed

text \<open>
  The interface itself. \<open>rd\<close>, \<open>put\<close> and \<open>rel\<close> are the client's three operations; \<open>kept\<close> is the part
  of the state they never change. The derived laws cover the two shapes every client has: read
  a block and release it, and read it, change it and release it.
\<close>

locale block_store =
  fixes ok :: "'s \<Rightarrow> bool" and vw :: "'s \<Rightarrow> nat \<Rightarrow> bytes" and valid :: "'s \<Rightarrow> nat \<Rightarrow> bool"
    and refs :: "'s \<Rightarrow> nat \<Rightarrow> nat" and has :: "'s \<Rightarrow> nat \<Rightarrow> nat \<Rightarrow> bool"
    and bdata :: "'s \<Rightarrow> nat \<Rightarrow> bytes" and kept :: "'s \<Rightarrow> 'k"
    and rd :: "nat \<Rightarrow> 's \<Rightarrow> (nat option \<times> 's) option"
    and put :: "nat \<Rightarrow> bytes \<Rightarrow> 's \<Rightarrow> 's"
    and rel :: "nat option \<Rightarrow> 's \<Rightarrow> 's option"
  assumes rd: "ok s \<Longrightarrow> pins (refs s) < 255 \<Longrightarrow> valid s blk \<Longrightarrow>
      \<exists>b s'. rd blk s = Some (Some b, s') \<and> ok s' \<and> vw s' = vw s \<and> kept s' = kept s \<and> has s' b blk \<and>
        refs s' = (refs s)(b := refs s b + 1) \<and> (\<forall>c k. has s c k \<longrightarrow> has s' c k)"
    and put: "ok s \<Longrightarrow> has s b blk \<Longrightarrow> ok (put b d s) \<and> vw (put b d s) = (vw s)(blk := blk_of d) \<and>
        kept (put b d s) = kept s \<and> refs (put b d s) = refs s \<and> has (put b d s) = has s"
    and rel: "ok s \<Longrightarrow> has s b blk \<Longrightarrow>
      \<exists>s'. rel (Some b) s = Some s' \<and> ok s' \<and> vw s' = vw s \<and> kept s' = kept s \<and>
        refs s' = (refs s)(b := refs s b - 1) \<and>
        (\<forall>c k. has s c k \<longrightarrow> c \<noteq> b \<or> 1 < refs s b \<longrightarrow> has s' c k)"
    and has_data: "ok s \<Longrightarrow> has s b blk \<Longrightarrow> blk_of (bdata s b) = vw s blk"
    and has_ref: "has s b blk \<Longrightarrow> 0 < refs s b"
begin

definition settles :: "'s \<Rightarrow> 's \<Rightarrow> (nat \<Rightarrow> bytes) \<Rightarrow> bool" where
  "settles s s' V \<longleftrightarrow> ok s' \<and> vw s' = V \<and> kept s' = kept s \<and> refs s' = refs s \<and> (\<forall>c k. has s c k \<longrightarrow> has s' c k)"

lemma settles_trans: "settles s t V \<Longrightarrow> settles t u W \<Longrightarrow> settles s u W"
  by (simp add: settles_def)

lemma release:
  assumes "ok s1" "vw s1 = V" "kept s1 = kept s" "has s1 b blk" "refs s1 = (refs s)(b := refs s b + 1)"
    and "\<And>c k. has s c k \<Longrightarrow> has s1 c k"
  shows "\<exists>s2. rel (Some b) s1 = Some s2 \<and> settles s s2 V"
proof -
  from rel [OF assms(1,4)] obtain s2 where s2: "rel (Some b) s1 = Some s2" "ok s2" "vw s2 = V" "kept s2 = kept s"
    "refs s2 = (refs s1)(b := refs s1 b - 1)" "\<And>c k. has s1 c k \<Longrightarrow> c \<noteq> b \<or> 1 < refs s1 b \<Longrightarrow> has s2 c k"
    using assms(2,3) by auto
  have "has s2 c k" if "has s c k" for c k
    using s2(6) [OF assms(6) [OF that]] has_ref [OF that] assms(5) by (cases "c = b") auto
  with s2 show ?thesis by (auto simp: settles_def assms(5))
qed

lemma access:
  assumes "ok s" and "pins (refs s) < 255" and "valid s blk"
  obtains b s1 where "rd blk s = Some (Some b, s1)" "blk_of (bdata s1 b) = vw s blk"
    "ok s1" "vw s1 = vw s" "kept s1 = kept s" "has s1 b blk" "refs s1 = (refs s)(b := refs s b + 1)"
    "\<And>c k. has s c k \<Longrightarrow> has s1 c k"
    "\<exists>s2. rel (Some b) s1 = Some s2 \<and> settles s s2 (vw s)"
    "\<And>d. \<exists>s2. rel (Some b) (put b d s1) = Some s2 \<and> settles s s2 ((vw s)(blk := blk_of d))"
proof -
  from rd [OF assms] obtain b s1 where r: "rd blk s = Some (Some b, s1)" "ok s1" "vw s1 = vw s" "kept s1 = kept s"
    "has s1 b blk" "refs s1 = (refs s)(b := refs s b + 1)" "\<And>c k. has s c k \<Longrightarrow> has s1 c k" by auto
  have "\<exists>s2. rel (Some b) s1 = Some s2 \<and> settles s s2 (vw s)"
    using r by (intro release) auto
  moreover have "\<exists>s2. rel (Some b) (put b d s1) = Some s2 \<and> settles s s2 ((vw s)(blk := blk_of d))" for d
    using put [OF r(2,5), of d] r by (intro release) auto
  ultimately show ?thesis
    using r has_data [OF r(2,5)] by (intro that) auto
qed

end

interpretation bc: block_store bc_ok view blk_ok cnts held "\<lambda>s b. b_data (heads s b)" keep
  "bread ROOT_DEV" bput brelse
proof unfold_locales
  fix s :: "'a buf_state_scheme" and blk b :: nat and d :: bytes
  show "\<exists>b s'. bread ROOT_DEV blk s = Some (Some b, s') \<and> bc_ok s' \<and> view s' = view s \<and> keep s' = keep s \<and>
      held s' b blk \<and> cnts s' = (cnts s)(b := cnts s b + 1) \<and> (\<forall>c k. held s c k \<longrightarrow> held s' c k)"
    if "bc_ok s" "pins (cnts s) < 255" "blk_ok s blk"
    using bread_client [OF that] by metis
  show "bc_ok (bput b d s) \<and> view (bput b d s) = (view s)(blk := blk_of d) \<and> keep (bput b d s) = keep s \<and>
      cnts (bput b d s) = cnts s \<and> held (bput b d s) = held s" if "bc_ok s" "held s b blk"
    using bput_client [OF that] by (simp add: fun_eq_iff)
  show "\<exists>s'. brelse (Some b) s = Some s' \<and> bc_ok s' \<and> view s' = view s \<and> keep s' = keep s \<and>
      cnts s' = (cnts s)(b := cnts s b - 1) \<and> (\<forall>c k. held s c k \<longrightarrow> c \<noteq> b \<or> 1 < cnts s b \<longrightarrow> held s' c k)"
    if "bc_ok s" "held s b blk"
    using brelse_client [OF that] by metis
  show "blk_of (b_data (heads s b)) = view s blk" if "bc_ok s" "held s b blk"
    using that by (rule held_data)
  show "0 < cnts s b" if "held s b blk" using that by (simp add: held_def)
qed

end
