(* ===== verification/Cache_Run.thy ===== *)
theory Cache_Run
  imports Block_Store
begin

text \<open>
  The cache from boot to any later point: \<open>buffer_init\<close> establishes the invariant, every
  sequence of client operations behaves like reads and writes of one array of blocks, and
  \<open>sync_dev\<close> brings that array to the disk.
\<close>

subsection \<open>Boot\<close>

lemma init_ring:
  assumes "\<And>b. b < NR_BUFFERS \<Longrightarrow> b_next_free (heads s b) = Some (if b = NR_BUFFERS - 1 then 0 else b + 1)"
    and "\<And>b. b < NR_BUFFERS \<Longrightarrow> b_prev_free (heads s b) = Some (if b = 0 then NR_BUFFERS - 1 else b - 1)"
    and "free_list s = Some 0"
  shows "ring s [0..<NR_BUFFERS]"
proof -
  let ?xs = "[0..<NR_BUFFERS]"
  have pos: "0 < NR_BUFFERS" by (simp add: NR_BUFFERS_def)
  then have hd: "hd ?xs = 0" by simp
  have "lnk (nfree s) (pfree s) (map Some (?xs @ [0]) ! i) (map Some (?xs @ [0]) ! Suc i)"
    if "Suc i < length (map Some (?xs @ [0]))" for i
  proof -
    from that have "i < NR_BUFFERS" by simp
    then show ?thesis
      using assms(1,2) [of i] assms(2) [of "Suc i"] assms(2) [of 0] pos
      by (cases "i = NR_BUFFERS - 1") (auto simp: lnk_def nth_append)
  qed
  then have "linked (nfree s) (pfree s) (map Some (?xs @ [0]))"
    by (simp only: successively_conv_nth) blast
  with pos show ?thesis by (simp add: ring_def assms(3) hd atLeast0LessThan)
qed

lemma buffer_init_frame:
  assumes "buffer_init e s = Some s'"
  shows "hd_resp s' = hd_resp s" "root_lba s' = root_lba s" "hd_sectors s' = hd_sectors s" "hd_waits s' = hd_waits s"
    "free_list s' = Some 0"
  using assms by (auto simp: buffer_init_def Let_def split: if_splits)

lemma buffer_init_inv:
  assumes "buffer_init e s = Some s'"
    and "\<And>b. b < NR_BUFFERS \<Longrightarrow> b_prev (heads s b) = None \<and> b_next (heads s b) = None"
  shows "cache_inv s'" "view s' = disk_block s" "\<And>b. b < NR_BUFFERS \<Longrightarrow> cnt s' b = 0" "hashed s' = {}"
proof -
  have h: "b_dev (heads s' b) = 0" "\<not> b_dirt (heads s' b)" "\<not> b_lock (heads s' b)" "b_wait (heads s' b) = 0"
    "b_prev (heads s' b) = None" "b_next (heads s' b) = None" "cnt s' b = 0"
    "b_next_free (heads s' b) = Some (if b = NR_BUFFERS - 1 then 0 else b + 1)"
    "b_prev_free (heads s' b) = Some (if b = 0 then NR_BUFFERS - 1 else b - 1)" if "b < NR_BUFFERS" for b
    using assms(1) assms(2) [OF that] that by (auto simp: buffer_init_def Let_def split: if_splits)
  have g: "hash_table s' i = None" if "i < NR_BUFFERS" for i
    using assms(1) that by (auto simp: buffer_init_def Let_def split: if_splits)
  have f: "free_list s' = Some 0" "hd_sectors s' = hd_sectors s" "root_lba s' = root_lba s"
    using assms(1) by (auto simp: buffer_init_def Let_def split: if_splits)
  show H: "hashed s' = {}" using h(1) by (auto simp: hashed_def ROOT_DEV_def)
  have "bucket s' {} i []" if "i < NR_BUFFERS" for i
    using g [OF that] by (simp add: bucket_def lnk_def)
  then have "hash_chains s' {}" by (auto simp: hash_chains_def)
  moreover have "ring s' [0..<NR_BUFFERS]" by (rule init_ring) (simp_all add: h f)
  ultimately show "cache_inv s'"
    using h by (auto simp: cache_inv_def H)
  show "view s' = disk_block s"
  proof
    fix k
    have "view s' k = disk_block s' k" by (rule view_miss) (simp add: H)
    also have "disk_block s' = disk_block s" using f(2,3) by (rule disk_block_cong)
    finally show "view s' k = disk_block s k" .
  qed
  show "cnt s' b = 0" if "b < NR_BUFFERS" for b by (rule h(7) [OF that])
qed

subsection \<open>Sync\<close>

lemma sync_buffers_walk:
  assumes "cache_inv s" and "linked (nfree s) pf (map Some (ys @ [z]))" and "set ys \<subseteq> {..<NR_BUFFERS}" and "distinct ys"
  shows "\<exists>s'. sync_buffers ROOT_DEV (length ys) (Some (hd (ys @ [z]))) w s =
      Some (w + card {b \<in> set ys. b \<in> hashed s \<and> b_dirt (heads s b)}, s') \<and>
    cache_inv s' \<and> view s' = view s \<and> hashed s' = hashed s \<and> keep s' = keep s \<and>
    cnts s' = cnts s \<and>
    (\<forall>b. b \<notin> set ys \<longrightarrow> heads s' b = heads s b) \<and>
    (hd_ok s \<longrightarrow> (\<forall>b\<in>set ys. \<not> b_dirt (heads s' b)))"
  using assms
proof (induction ys arbitrary: s w)
  case Nil
  then show ?case by simp
next
  case (Cons b ys)
  have bn: "b < NR_BUFFERS" and bys: "b \<notin> set ys" and dys: "distinct ys" and sys: "set ys \<subseteq> {..<NR_BUFFERS}"
    using Cons.prems by auto
  have nx: "b_next_free (heads s b) = Some (hd (ys @ [z]))" and lk: "linked (nfree s) pf (map Some (ys @ [z]))"
    using Cons.prems(2) by (cases ys; simp add: lnk_def)+
  show ?case
  proof (cases "b \<in> hashed s \<and> b_dirt (heads s b)")
    case True
    let ?t = "upd_head b (b_count_update (\<lambda>c. c - 1)) (ll_rw_block WRITE b (upd_head b (b_count_update (\<lambda>c. c + 1)) s))"
    note F = flush_dirty [OF Cons.prems(1), where b = b and g = "\<lambda>c. c - 1" and f = "\<lambda>c. c + 1"]
    have t: "cache_inv ?t" "view ?t = view s" "hashed ?t = hashed s" "keep ?t = keep s"
      "\<And>c. c \<noteq> b \<Longrightarrow> heads ?t c = heads s c" "cnt ?t b = cnt s b" "b_next_free (heads ?t b) = b_next_free (heads s b)"
      "hd_ok s \<Longrightarrow> \<not> b_dirt (heads ?t b)"
      using F True by simp_all
    have "linked (nfree ?t) pf (map Some (ys @ [z]))"
    proof (rule linked_cong [OF lk])
      show "nfree ?t c = nfree s c" for c using t(5) [of c] t(7) by (cases "c = b") simp_all
    qed simp
    from Cons.IH [OF t(1) this sys dys, of "w + 1"] obtain s' where
      s': "sync_buffers ROOT_DEV (length ys) (Some (hd (ys @ [z]))) (w + 1) ?t =
        Some (w + 1 + card {c \<in> set ys. c \<in> hashed ?t \<and> b_dirt (heads ?t c)}, s')"
      "cache_inv s'" "view s' = view ?t" "hashed s' = hashed ?t" "keep s' = keep ?t" "cnts s' = cnts ?t"
      "\<And>c. c \<notin> set ys \<Longrightarrow> heads s' c = heads ?t c"
      "hd_ok ?t \<Longrightarrow> (\<forall>b\<in>set ys. \<not> b_dirt (heads s' b))" by auto
    have "{c \<in> set ys. c \<in> hashed ?t \<and> b_dirt (heads ?t c)} = {c \<in> set ys. c \<in> hashed s \<and> b_dirt (heads s c)}"
      using bys t(3,5) by auto
    moreover have "{c \<in> set (b # ys). c \<in> hashed s \<and> b_dirt (heads s c)} =
        insert b {c \<in> set ys. c \<in> hashed s \<and> b_dirt (heads s c)}" using True by auto
    ultimately have "w + 1 + card {c \<in> set ys. c \<in> hashed ?t \<and> b_dirt (heads ?t c)} =
        w + card {c \<in> set (b # ys). c \<in> hashed s \<and> b_dirt (heads s c)}" using bys by simp
    moreover have "sync_buffers ROOT_DEV (length (b # ys)) (Some (hd ((b # ys) @ [z]))) w s =
        sync_buffers ROOT_DEV (length ys) (Some (hd (ys @ [z]))) (w + 1) ?t"
      using True t(7) nx by (simp add: hashed_def)
    moreover have "cnts ?t = cnts s" using t(5,6) by (auto simp: cnts_def fun_eq_iff split: if_splits)
    moreover have "hd_ok ?t = hd_ok s" using keepD(1) [OF t(4)] by (simp add: hd_ok_def)
    ultimately show ?thesis
      using s' t bys by (intro exI [of _ s']) auto
  next
    case False
    have c: "{c \<in> set (b # ys). c \<in> hashed s \<and> b_dirt (heads s c)} = {c \<in> set ys. c \<in> hashed s \<and> b_dirt (heads s c)}"
      using False by auto
    have nd: "\<not> b_dirt (heads s b)" using False cache_invD(4) [OF Cons.prems(1) bn] by blast
    from Cons.IH [OF Cons.prems(1) lk sys dys, of w] nd bys
    show ?thesis unfolding c by (auto simp: hashed_def nx)
  qed
qed

lemma sync_buffers_spec:
  assumes "cache_inv s"
  obtains s' where "sync_buffers ROOT_DEV NR_BUFFERS (free_list s) 0 s =
      Some (card {b \<in> hashed s. b_dirt (heads s b)}, s')"
    "cache_inv s'" "view s' = view s" "keep s' = keep s" "cnts s' = cnts s" "hashed s' = hashed s"
    "hd_ok s \<Longrightarrow> (\<forall>b<NR_BUFFERS. \<not> b_dirt (heads s' b))" "hd_ok s \<Longrightarrow> disk_block s' = view s"
proof -
  obtain xs where xs: "ring s xs" using cache_invD(1) [OF assms] by blast
  then have len: "length xs = NR_BUFFERS" "set xs = {..<NR_BUFFERS}" "distinct xs"
    "free_list s = Some (hd (xs @ [hd xs]))" "linked (nfree s) (pfree s) (map Some (xs @ [hd xs]))"
    using distinct_card [of xs] by (auto simp: ring_def)
  have "{b \<in> set xs. b \<in> hashed s \<and> b_dirt (heads s b)} = {b \<in> hashed s. b_dirt (heads s b)}"
    using len(2) by (auto simp: hashed_def)
  with sync_buffers_walk [OF assms len(5) _ len(3), of 0] len obtain s' where
    s': "sync_buffers ROOT_DEV NR_BUFFERS (free_list s) 0 s = Some (card {b \<in> hashed s. b_dirt (heads s b)}, s')"
    "cache_inv s'" "view s' = view s" "keep s' = keep s" "cnts s' = cnts s" "hashed s' = hashed s"
    "hd_ok s \<Longrightarrow> (\<forall>b<NR_BUFFERS. \<not> b_dirt (heads s' b))" by auto
  have "disk_block s' = view s" if "hd_ok s"
  proof
    fix k
    show "disk_block s' k = view s k"
    proof (cases "\<exists>b\<in>hashed s'. b_blocknr (heads s' b) = k \<and> b_uptodate (heads s' b)")
      case True
      then obtain b where b: "b \<in> hashed s'" "b_blocknr (heads s' b) = k" "b_uptodate (heads s' b)" by blast
      with s'(7) [OF that] cache_invD(7) [OF s'(2) b(1)] view_hit [OF s'(2) b(1,3)] s'(3)
      show ?thesis by (auto simp: coherent_def hashed_def)
    next
      case False
      then have "view s' k = disk_block s' k" by (intro view_miss) blast
      with s'(3) show ?thesis by simp
    qed
  qed
  with s' that show ?thesis by blast
qed

subsection \<open>Sequences of client operations\<close>

text \<open>
  The operations a client may perform on the cache. A write needs a reference to the block, a
  release gives one up. The block store they implement is an array of blocks.
\<close>

datatype cache_op = Op_bread nat | Op_write nat bytes | Op_brelse nat | Op_sync

inductive cache_step :: "'z buf_state_scheme \<Rightarrow> cache_op \<Rightarrow> 'z buf_state_scheme \<Rightarrow> bool" where
  step_bread: "pins (cnts s) < 255 \<Longrightarrow> blk_ok s blk \<Longrightarrow> bread ROOT_DEV blk s = Some (r, s') \<Longrightarrow>
    cache_step s (Op_bread blk) s'"
| step_write: "held s b blk \<Longrightarrow> cache_step s (Op_write blk d) (bput b d s)"
| step_brelse: "held s b blk \<Longrightarrow> brelse (Some b) s = Some s' \<Longrightarrow> cache_step s (Op_brelse blk) s'"
| step_sync: "sync_buffers ROOT_DEV NR_BUFFERS (free_list s) 0 s = Some (n, s') \<Longrightarrow> cache_step s Op_sync s'"

inductive_cases cache_stepE: "cache_step s op s'"

inductive cache_run :: "'z buf_state_scheme \<Rightarrow> cache_op list \<Rightarrow> 'z buf_state_scheme \<Rightarrow> bool" where
  run_nil: "cache_run s [] s"
| run_cons: "cache_step s op t \<Longrightarrow> cache_run t ops u \<Longrightarrow> cache_run s (op # ops) u"

inductive_cases cache_run_consE: "cache_run s (op # ops) u"

fun store_op :: "cache_op \<Rightarrow> (nat \<Rightarrow> bytes) \<Rightarrow> nat \<Rightarrow> bytes" where
  "store_op (Op_write blk d) V = V(blk := blk_of d)"
| "store_op _ V = V"

lemma cache_step_refines:
  assumes "cache_step s op s'" and "bc_ok s"
  shows "bc_ok s' \<and> view s' = store_op op (view s) \<and> keep s' = keep s"
  using assms
proof (cases rule: cache_step.cases)
  case (step_bread blk r)
  from bread_client [OF assms(2) step_bread(2,3)] step_bread(4)
  show ?thesis unfolding step_bread(1) by (metis Pair_inject option.inject store_op.simps(2))
next
  case (step_write b blk d)
  from bput_client [OF assms(2) step_write(3)] show ?thesis unfolding step_write(1,2) by simp
next
  case (step_brelse b blk)
  from brelse_client [OF assms(2) step_brelse(2)] step_brelse(3)
  show ?thesis unfolding step_brelse(1) by (metis option.inject store_op.simps(3))
next
  case (step_sync n)
  have inv: "cache_inv s" "hd_ok s" using assms(2) by (auto simp: bc_ok_def)
  obtain t where t: "sync_buffers ROOT_DEV NR_BUFFERS (free_list s) 0 s =
      Some (card {b \<in> hashed s. b_dirt (heads s b)}, t)" "cache_inv t" "view t = view s" "keep t = keep s"
    by (rule sync_buffers_spec [OF inv(1)]) (rule that)
  with step_sync inv keepD(1) [OF t(4)] show ?thesis by (simp add: bc_ok_def hd_ok_def)
qed

lemma cache_run_refines:
  assumes "cache_run s ops s'" and "bc_ok s"
  shows "bc_ok s' \<and> view s' = fold store_op ops (view s) \<and> keep s' = keep s"
  using assms
proof induction
  case (run_cons s op t ops u)
  then show ?case using cache_step_refines [OF run_cons(1)] by simp
qed simp

subsection \<open>A concrete machine\<close>

text \<open>A machine with blank memory and disk and an answering drive, and its cache after boot.\<close>

definition blank :: "'z \<Rightarrow> 'z buf_state_scheme" where
  "blank m = \<lparr>task = (\<lambda>_. 0), tstruct = (\<lambda>_. zero_task), current = 0, jiffies = 0,
     hd_sectors = (\<lambda>_ _. 0), hd_resp = (\<lambda>_. True), hd_waits = 0, root_lba = 0,
     memory_end = 0x400000, mem_map = (\<lambda>_. 0), max_map_nr = 768, ram = (\<lambda>_ _. 0), swap_map = (\<lambda>_. False),
     evict_cursor = 0, nr_swapouts = 0, nr_swapins = 0, nr_evicted = 0, nr_unmapped = 0, nr_page_faults = 0,
     nr_demand_pages = 0, nr_cow_breaks = 0, nr_oom = 0, nr_page_ins = 0,
     heads = (\<lambda>_. \<lparr>b_data = (\<lambda>_. 0), b_blocknr = 0, b_dev = 0, b_uptodate = False, b_dirt = False, b_count = 0,
       b_lock = False, b_wait = 0, b_prev = None, b_next = None, b_prev_free = None, b_next_free = None\<rparr>),
     hash_table = (\<lambda>_. None), free_list = None, nr_buffers = 0, buf_mem_start = 0, buffer_cache_end = 0, \<dots> = m\<rparr>"

definition boot :: "'z \<Rightarrow> 'z buf_state_scheme" where
  "boot m = the (buffer_init 0x3F0000 (blank m))"

lemma boot_init: "buffer_init 0x3F0000 (blank m) = Some (boot m)"
  by (simp add: boot_def buffer_init_def NR_BUFFERS_def SIZEOF_BUFFER_HEAD_def BLOCK_SIZE_def
      BUFFER_CACHE_FLOOR_def Let_def)

lemma blank_links: "\<And>b. b < NR_BUFFERS \<Longrightarrow> b_prev (heads (blank m) b) = None \<and> b_next (heads (blank m) b) = None"
  by (simp add: blank_def)

lemma boot_facts:
  "bc_ok (boot m)" "view (boot m) = (\<lambda>_ _. 0)" "pins (cnts (boot m)) = 0" "root_lba (boot m) = 0"
  "\<exists>b<NR_BUFFERS. cnt (boot m) b = 0" "hd_ok (blank m)" "blk_ok (boot m) 5" "blk_ok (blank m) 5"
proof -
  note I = buffer_init_inv [OF boot_init [of m] blank_links]
  have r: "root_lba (boot m) = 0" "hd_resp (boot m) = (\<lambda>_. True)"
    using buffer_init_frame [OF boot_init] by (simp_all add: blank_def)
  show "root_lba (boot m) = 0" by fact
  show "bc_ok (boot m)" using I(1) r by (simp add: bc_ok_def hd_ok_def)
  show "view (boot m) = (\<lambda>_ _. 0)" by (simp add: I(2) disk_block_def blank_def fun_eq_iff)
  show "pins (cnts (boot m)) = 0" using I(3) by (simp add: pins_def cnts_def)
  show "\<exists>b<NR_BUFFERS. cnt (boot m) b = 0" using I(3) [of 0] by (intro exI [of _ 0]) (simp add: NR_BUFFERS_def)
  show "hd_ok (blank m)" by (simp add: hd_ok_def blank_def)
  show "blk_ok (boot m) 5" "blk_ok (blank m) 5" using r by (simp_all add: blk_ok_def HD_LIMIT_def blank_def)
qed

lemma boot_blk_ok: "k \<le> 1000000 \<Longrightarrow> blk_ok (boot m) k"
  using boot_facts(4) [of m] by (simp add: blk_ok_def HD_LIMIT_def)

text \<open>A run of three operations: read block 5, fill it with ones, release it.\<close>

lemma boot_run_exists:
  "\<exists>t. cache_run (boot m) [Op_bread 5, Op_write 5 (\<lambda>_. 1), Op_brelse 5] t \<and> pins (cnts t) = 0 \<and> keep t = keep (boot m)"
proof -
  have p: "pins (cnts (boot m)) < 255" using boot_facts(3) [of m] by simp
  obtain b s1 where b: "bread ROOT_DEV 5 (boot m) = Some (Some b, s1)" "held s1 b 5" "bc_ok s1"
    "cnts s1 = (cnts (boot m))(b := cnts (boot m) b + 1)" "keep s1 = keep (boot m)"
    by (rule bread_client [OF boot_facts(1) [of m] p boot_facts(7) [of m]]) (rule that)
  let ?s2 = "bput b (\<lambda>_. 1) s1"
  note P = bput_client [OF b(3,2), of "\<lambda>_. 1"]
  have h2: "held ?s2 b 5" using P(5) b(2) by simp
  obtain s3 where s3: "brelse (Some b) ?s2 = Some s3" "cnts s3 = (cnts ?s2)(b := cnts ?s2 b - 1)" "keep s3 = keep ?s2"
    by (rule brelse_client [OF P(1) h2]) (rule that)
  have "cache_run (boot m) [Op_bread 5, Op_write 5 (\<lambda>_. 1), Op_brelse 5] s3"
    by (intro run_nil run_cons [OF step_bread [OF p boot_facts(7) [of m] b(1)]] run_cons [OF step_write [OF b(2)]]
        run_cons [OF step_brelse [OF h2 s3(1)]])
  moreover have "cnts s3 = cnts (boot m)" using s3(2) P(3) b(4) by auto
  ultimately show ?thesis using boot_facts(3) [of m] s3(3) P(4) b(5) by (intro exI [of _ s3]) simp
qed

subsection \<open>Properties\<close>

text \<open>
  C1. The cache implements an array of blocks. Start the machine with \<open>buffer_init\<close> on zeroed
  memory with a working drive, perform any sequence of reads, writes, releases and syncs, and then
  read a block: \<open>bread\<close> returns, and the buffer holds the last value written to that block, or what the disk held at boot
  if it was never written, whatever was evicted and reloaded in between.
\<close>

theorem cache_reads_last_write:
  assumes "buffer_init e s = Some s0"
    and "\<forall>b<NR_BUFFERS. b_prev (heads s b) = None \<and> b_next (heads s b) = None" and "hd_ok s"
    and "cache_run s0 ops s1" and "pins (cnts s1) < 255" and "blk_ok s blk"
  shows "\<exists>b s2. bread ROOT_DEV blk s1 = Some (Some b, s2) \<and>
    blk_of (b_data (heads s2 b)) = fold store_op ops (disk_block s) blk"
proof -
  have i: "cache_inv s0" "view s0 = disk_block s"
    using buffer_init_inv [OF assms(1)] assms(2) by blast+
  note f = buffer_init_frame(1,2) [OF assms(1)]
  have ok: "bc_ok s0" using i(1) assms(3) f by (simp add: bc_ok_def hd_ok_def)
  from cache_run_refines [OF assms(4) ok] i(2)
  have r: "bc_ok s1" "view s1 = fold store_op ops (disk_block s)" "keep s1 = keep s0" by auto
  have "blk_ok s1 blk" using assms(6) keepD(2) [OF r(3)] f by (simp add: blk_ok_def)
  from bc.access [OF r(1) assms(5) this] r(2) show ?thesis by metis
qed

theorem cache_reads_last_write_witness:
  "\<exists>s1 b s2. cache_run (boot ()) [Op_bread 5, Op_write 5 (\<lambda>_. 1), Op_brelse 5] s1 \<and>
     bread ROOT_DEV 5 s1 = Some (Some b, s2) \<and> blk_of (b_data (heads s2 b)) 7 = 1"
proof -
  obtain t where t: "cache_run (boot ()) [Op_bread 5, Op_write 5 (\<lambda>_. 1), Op_brelse 5] t" "pins (cnts t) = 0"
    using boot_run_exists [of "()"] by blast
  have lk: "\<forall>b<NR_BUFFERS. b_prev (heads (blank ()) b) = None \<and> b_next (heads (blank ()) b) = None"
    by (simp add: blank_links)
  have p: "pins (cnts t) < 255" using t(2) by simp
  from cache_reads_last_write [OF boot_init [of "()"] lk boot_facts(6) [of "()"] t(1) p boot_facts(8) [of "()"]]
  obtain b s2 where r: "bread ROOT_DEV 5 t = Some (Some b, s2)"
    and eq: "blk_of (b_data (heads s2 b)) =
       fold store_op [Op_bread 5, Op_write 5 (\<lambda>_. 1), Op_brelse 5] (disk_block (blank ())) 5" by blast
  have "blk_of (b_data (heads s2 b)) 7 = 1" unfolding eq by (simp add: BLOCK_SIZE_def)
  with r t(1) show ?thesis by blast
qed

text \<open>
  C5. \<open>bread\<close> on any drive, including one that fails: as long as one buffer is unreferenced it
  returns, the ring and the hash chains stay well formed, a null result leaves every reference
  count as it was, a buffer it returns holds the requested block, is up to date and gains one
  reference, and no referenced buffer is recycled under its holder.
\<close>

theorem bread_any_drive:
  assumes "cache_inv s" and "\<exists>b<NR_BUFFERS. cnt s b = 0" and "blk_ok s blk"
  shows "\<exists>r s'. bread ROOT_DEV blk s = Some (r, s') \<and> cache_inv s' \<and>
    (r = None \<longrightarrow> (\<forall>c. cnt s' c = cnt s c)) \<and>
    (\<forall>b. r = Some b \<longrightarrow> b < NR_BUFFERS \<and> b_dev (heads s' b) = ROOT_DEV \<and> b_blocknr (heads s' b) = blk \<and>
       b_uptodate (heads s' b) \<and> cnt s' b = cnt s b + 1) \<and>
    (\<forall>c. cnt s c \<noteq> 0 \<longrightarrow> b_uptodate (heads s c) \<longrightarrow> b_dev (heads s' c) = b_dev (heads s c) \<and>
       b_blocknr (heads s' c) = b_blocknr (heads s c) \<and> b_data (heads s' c) = b_data (heads s c))"
  by (rule bread_spec [OF assms]) (force simp: hashed_def)

theorem bread_any_drive_witness:
  "\<exists>r s'. bread ROOT_DEV 5 (boot ()) = Some (r, s') \<and> cache_inv s'"
  using bread_any_drive [OF _ boot_facts(5,7) [of "()"]] boot_facts(1) [of "()"] by (auto simp: bc_ok_def)



text \<open>The head of the ring is the first candidate for recycling.\<close>

lemma getblk_takes_head:
  assumes "cache_inv s" and "free_list s = Some b" and "cnt s b = 0"
    and "\<And>c. c \<in> hashed s \<Longrightarrow> b_blocknr (heads s c) \<noteq> blk"
  shows "getblk ROOT_DEV blk s = Some (b, recycle blk b (if b_dirt (heads s b)
     then upd_head b (b_count_update (\<lambda>_. 0)) (ll_rw_block WRITE b (upd_head b (b_count_update (\<lambda>_. 1)) s)) else s))"
proof -
  have "hash_find (heads s) ROOT_DEV blk (hash_table s (buf_hash ROOT_DEV blk)) = Some None"
    using assms(4) by (intro hash_find_miss [OF cache_invD(2) [OF assms(1)]]) auto
  moreover have "find_free (heads s) (free_list s) (free_list s) = Some (Some b)"
    using assms(2,3) by (simp add: find_free.simps)
  ultimately show ?thesis by (simp add: getblk_def recycle_def)
qed

lemma brelse_head:
  assumes "cache_inv s" and "b < NR_BUFFERS" and "cnt s b = 1" and "brelse (Some b) s = Some s'"
  shows "free_list s' = Some b"
proof -
  obtain xs where "ring s xs" using cache_invD(1) [OF assms(1)] by blast
  from brelse_ring [OF this assms(2)] assms(4) have "ring s' (to_front s b xs)" by auto
  then have "free_list s' = Some (hd (to_front s b xs))" by (simp add: ring_def)
  then show ?thesis using assms(3) by (auto simp: to_front_def)
qed

text \<open>
  C7. Replacement is most-recently-used: releasing the last reference makes a buffer the head of
  the ring, and the next miss recycles exactly that buffer (and not the least recently used one).
\<close>

theorem released_buffer_is_next_victim:
  assumes "cache_inv s" and "b < NR_BUFFERS" and "cnt s b = 1" and "brelse (Some b) s = Some s'"
    and "\<forall>c\<in>hashed s. b_blocknr (heads s c) \<noteq> blk"
  shows "\<exists>s''. getblk ROOT_DEV blk s' = Some (b, s'')"
proof -
  have fl: "free_list s' = Some b" by (rule brelse_head [OF assms(1-4)])
  obtain t where t: "brelse (Some b) s = Some t" "cache_inv t" "cnt t b = cnt s b - 1"
    "\<And>c. c \<noteq> b \<Longrightarrow> core (heads t c) = core (heads s c)" "hashed t = hashed s"
    "b_blocknr (heads t b) = b_blocknr (heads s b)"
    by (rule brelse_spec [OF assms(1,2)]) (rule that)
  then have "t = s'" using assms(4) by simp
  with t assms(3) have s': "cache_inv s'" "cnt s' b = 0" by auto
  have "b_blocknr (heads s' c) \<noteq> blk" if "c \<in> hashed s'" for c
    using that assms(5) t(4) [of c] t(5,6) \<open>t = s'\<close> by (cases "c = b") (auto simp: core_def)
  from getblk_takes_head [OF s'(1) fl s'(2) this] show ?thesis by blast
qed

lemma boot_head: "free_list (boot ()) = Some 0" "hashed (boot ()) = {}" "cnt (boot ()) 0 = 0" "0 < NR_BUFFERS"
  using buffer_init_frame(5) [OF boot_init [of "()"]] buffer_init_inv(3,4) [OF boot_init [of "()"] blank_links [where m = "()"]]
  by (simp_all add: NR_BUFFERS_def)

lemma boot_getblk:
  "getblk ROOT_DEV 5 (boot ()) = Some (0, recycle 5 0 (boot ()))" "cache_inv (recycle 5 0 (boot ()))"
  "cnt (recycle 5 0 (boot ())) 0 = 1" "hashed (recycle 5 0 (boot ())) = {0}"
  "b_blocknr (heads (recycle 5 0 (boot ())) 0) = 5"
proof -
  have inv: "cache_inv (boot ())" using boot_facts(1) [of "()"] by (simp add: bc_ok_def)
  have "\<not> b_dirt (heads (boot ()) 0)" using cache_invD(4) [OF inv boot_head(4)] boot_head(2) by simp
  then show "getblk ROOT_DEV 5 (boot ()) = Some (0, recycle 5 0 (boot ()))"
    using getblk_takes_head [OF inv boot_head(1,3)] boot_head(2) by simp
  note R = recycle_inv [OF inv boot_head(4) boot_facts(7) [of "()"]]
  show "cache_inv (recycle 5 0 (boot ()))" "hashed (recycle 5 0 (boot ())) = {0}" "cnt (recycle 5 0 (boot ())) 0 = 1"
    "b_blocknr (heads (recycle 5 0 (boot ())) 0) = 5"
    using R(1,3,6) boot_head(2) by (simp_all add: core_def)
qed

theorem released_buffer_is_next_victim_witness:
  "\<exists>s' s''. brelse (Some 0) (recycle 5 0 (boot ())) = Some s' \<and> getblk ROOT_DEV 6 s' = Some (0, s'')"
proof -
  obtain s' where "brelse (Some 0) (recycle 5 0 (boot ())) = Some s'"
    by (rule brelse_spec [OF boot_getblk(2) boot_head(4)]) (rule that)
  with released_buffer_is_next_victim [OF boot_getblk(2) boot_head(4) boot_getblk(3), of s' 6]
  show ?thesis by (auto simp: boot_getblk)
qed

text \<open>
  C8. A dirty buffer is recycled even when writing it back failed. If the drive does not become
  ready when \<open>getblk\<close> evicts it, the block's last written contents are gone: afterwards the block
  reads as the old disk contents, although before the call it read as the buffer's data.
\<close>

theorem failed_eviction_loses_data:
  assumes "cache_inv s" and "getblk ROOT_DEV blk s = Some (b, s')" and "b < NR_BUFFERS" and "b_dirt (heads s b)"
    and "b_blocknr (heads s b) \<noteq> blk" and "blk_ok s blk" and "\<not> hd_resp s (hd_waits s)"
  shows "view s (b_blocknr (heads s b)) = blk_of (b_data (heads s b)) \<and>
    view s' (b_blocknr (heads s b)) = disk_block s (b_blocknr (heads s b))"
proof -
  let ?old = "b_blocknr (heads s b)"
  have bh: "b \<in> hashed s" using cache_invD(4) [OF assms(1,3)] assms(4) by blast
  have up: "b_uptodate (heads s b)" using cache_invD(7) [OF assms(1) bh] assms(4) by (simp add: coherent_def)
  have new: "b_blocknr (heads s c) \<noteq> blk" if "c \<in> hashed s" for c
    using getblk_hit [OF assms(1) that] assms(2,5) by auto
  obtain xs where xs: "ring s xs" using cache_invD(1) [OF assms(1)] by blast
  define t where "t = upd_head b (b_count_update (\<lambda>_. 0)) (ll_rw_block WRITE b (upd_head b (b_count_update (\<lambda>_. 1)) s))"
  have "hash_find (heads s) ROOT_DEV blk (hash_table s (buf_hash ROOT_DEV blk)) = Some None"
    using new by (intro hash_find_miss [OF cache_invD(2) [OF assms(1)]]) auto
  then have s': "s' = recycle blk b t" and c0: "cnt s b = 0"
    using assms(2,4) find_free_ring [OF xs]
    by (auto simp: getblk_def recycle_def t_def find_Some_iff split: option.splits)
  note F = flush_victim [OF assms(1,3) c0]
  have ti: "cache_inv t" "hashed t = hashed s" "b_blocknr (heads t b) = ?old" "blk_ok t = blk_ok s"
    "\<And>c. c \<noteq> b \<Longrightarrow> heads t c = heads s c"
    using F assms(4) by (simp_all add: t_def)
  have sect: "hd_sectors t = hd_sectors s" "root_lba t = root_lba s"
    using assms(7) cache_invD(5) [OF assms(1,3)]
    by (auto simp: t_def ll_rw_block_def READ_def WRITE_def hd_write_sectors_def hd_busy_def hd_wait_bits_def
        Let_def upd_head_def)
  have new': "b_blocknr (heads t c) \<noteq> blk" if "c \<in> hashed t" for c
    using that ti new by (cases "c = b") auto
  note R = recycle_inv [OF ti(1) assms(3), where blk = blk]
  have "view s' ?old = disk_block s' ?old"
  proof (rule view_miss)
    fix c assume c: "c \<in> hashed s'" "b_blocknr (heads s' c) = ?old"
    show "\<not> b_uptodate (heads s' c)"
    proof (cases "c = b")
      case True
      then show ?thesis using R(3) assms(6) ti(4) new' s' by (simp add: core_def)
    next
      case False
      then have "b_blocknr (heads s c) = ?old" "c \<in> hashed s"
        using c R(2,6) assms(6) ti new' s' by (auto simp: core_def)
      with cache_invD(3) [OF assms(1) _ bh] False show ?thesis by blast
    qed
  qed
  also have "disk_block s' = disk_block s"
    using R(4,7) assms(6) ti(4) new' s' sect keepD(2) [of s' t] by (intro disk_block_cong) auto
  finally show ?thesis using view_hit [OF assms(1) bh up] by simp
qed

text \<open>A machine whose buffer 0 is free but dirty (block 5 holds ones) and whose drive is dead.\<close>

lemma dead_drive_state:
  obtains s :: buf_state where "cache_inv s" "cnt s 0 = 0" "b_dirt (heads s 0)" "hashed s = {0}"
    "b_blocknr (heads s 0) = 5" "free_list s = Some 0" "\<not> hd_resp s (hd_waits s)" "blk_ok s 6"
proof -
  let ?u = "recycle 5 0 (boot ())"
  have inv: "cache_inv (boot ())" using boot_facts(1) [of "()"] by (simp add: bc_ok_def)
  note R = recycle_inv [OF inv boot_head(4) boot_facts(7) [of "()"]]
  have u: "\<not> b_uptodate (heads ?u 0)" "keep ?u = keep (boot ())" using R(3,4) boot_head(2) by (simp_all add: core_def)
  have hd: "hd_ok ?u" using keepD(1) [OF u(2)] boot_facts(1) [of "()"] by (simp add: bc_ok_def hd_ok_def)
  let ?v = "ll_rw_block READ 0 ?u"
  have z: "0 \<in> hashed ?u" by (simp add: boot_getblk)
  note L = ll_rw_read_inv [OF boot_getblk(2) z u(1)]
  have v: "bc_ok ?v" "held ?v 0 5"
    using L boot_getblk hd keepD(1) [OF L(4)] by (simp_all add: bc_ok_def hd_ok_def held_def cnts_def)
  let ?w = "bput 0 (\<lambda>_. 1) ?v"
  note P = bput_client [OF v, of "\<lambda>_. 1"]
  have w: "cache_inv ?w" "cnt ?w 0 = 1" "b_dirt (heads ?w 0)" "b_blocknr (heads ?w 0) = 5" "hashed ?w = {0}"
    using P(1) L(3,6,7) boot_getblk by (simp_all add: bc_ok_def bput_def hashed_cong [of ?w ?v] hashed_def)
      (auto simp: hashed_def bput_def)
  obtain x where x: "brelse (Some 0) ?w = Some x" "cache_inv x" "cnt x 0 = cnt ?w 0 - 1" "hashed x = hashed ?w"
    "b_blocknr (heads x 0) = b_blocknr (heads ?w 0)" "b_dirt (heads x 0) = b_dirt (heads ?w 0)" "keep x = keep ?w"
    by (rule brelse_spec [OF w(1) boot_head(4)]) (rule that)
  let ?y = "x\<lparr>hd_resp := \<lambda>_. False\<rparr>"
  have "cache_inv ?y \<longleftrightarrow> cache_inv x" by (rule cache_inv_count [where c = "cnt x"]) simp_all
  moreover have "free_list x = Some 0" using brelse_head [OF w(1) boot_head(4) w(2) x(1)] .
  moreover have "root_lba x = 0"
    using keepD(2) [OF x(7)] keepD(2) [OF P(4)] keepD(2) [OF L(4)] keepD(2) [OF u(2)] boot_facts(4) [of "()"] by simp
  ultimately show ?thesis
    using x w by (intro that [of ?y]) (simp_all add: hashed_def blk_ok_def HD_LIMIT_def)
qed

theorem failed_eviction_loses_data_witness:
  "\<exists>(s :: buf_state) s'. getblk ROOT_DEV 6 s = Some (0, s') \<and> view s 5 = blk_of (b_data (heads s 0)) \<and>
     view s' 5 = disk_block s 5"
proof -
  obtain s :: buf_state where s: "cache_inv s" "cnt s 0 = 0" "b_dirt (heads s 0)" "hashed s = {0}"
    "b_blocknr (heads s 0) = 5" "free_list s = Some 0" "\<not> hd_resp s (hd_waits s)" "blk_ok s 6"
    by (rule dead_drive_state)
  from getblk_takes_head [OF s(1,6,2), of 6] s(4,5) obtain s' where g: "getblk ROOT_DEV 6 s = Some (0, s')" by auto
  from failed_eviction_loses_data [OF s(1) g boot_head(4) s(3) _ s(8,7)] s(5) g show ?thesis by auto
qed

end
