(* ===== verification/Bitmap.thy ===== *)
theory Bitmap
  imports Cache_Run
begin

text \<open>
  The super block and the two allocation bitmaps: \<open>fs/minix.c\<close> and the block half of
  \<open>fs/bitmap.c\<close>. The state gains the in-core tables of the file system.
\<close>

unbundle bit_operations_syntax

subsection \<open>In-core tables\<close>

definition NR_SUPER :: nat where "NR_SUPER = 8"
definition NR_INODE :: nat where "NR_INODE = 64"
definition SUPER_MAGIC :: u16 where "SUPER_MAGIC = 0x137F"
definition DCACHE_SIZE :: nat where "DCACHE_SIZE = 64"

record super_block =
  s_ninodes :: u16
  s_nzones :: u16
  s_imap_blocks :: u16
  s_zmap_blocks :: u16
  s_firstdatazone :: u16
  s_log_zone_size :: u16
  s_max_size :: u32
  s_magic :: u16
  s_dev :: u16

record m_inode =
  i_mode :: u16
  i_uid :: u16
  i_size :: u32
  i_mtime :: u32
  i_gid :: byte
  i_nlinks :: byte
  i_zone :: "nat \<Rightarrow> u16"
  i_wait :: tptr
  i_dev :: u16
  i_num :: u32
  i_count :: byte
  i_lock :: bool
  i_dirt :: bool
  i_pipe :: bool
  i_mount :: byte
  i_seek :: byte
  i_update :: byte

record dcache_entry =
  d_dev :: u16
  d_dir_ino :: u16
  d_target_ino :: u16
  d_name :: bytes
  d_valid :: bool

record fs_state = buf_state +
  super_tab :: "nat \<Rightarrow> super_block"
  inode_table :: "nat \<Rightarrow> m_inode"
  dcache :: "nat \<Rightarrow> dcache_entry"

definition get_super :: "u16 \<Rightarrow> 'z fs_state_scheme \<Rightarrow> nat option" where
  "get_super dev s = scan (\<lambda>i. s_dev (super_tab s i) = dev) 0 NR_SUPER"

subsection \<open>Mounting the root\<close>

text \<open>\<open>struct minix_superblock\<close> is packed: the fields sit at these offsets of block 1.\<close>

definition read_super :: "u16 \<Rightarrow> bytes \<Rightarrow> super_block" where
  "read_super dev d = \<lparr>s_ninodes = get16 d 0, s_nzones = get16 d 2, s_imap_blocks = get16 d 4,
     s_zmap_blocks = get16 d 6, s_firstdatazone = get16 d 8, s_log_zone_size = get16 d 10,
     s_max_size = get32 d 12, s_magic = get16 d 16, s_dev = dev\<rparr>"

definition sys_setup :: "'z fs_state_scheme \<Rightarrow> (int \<times> 'z fs_state_scheme) option" where
  "sys_setup s = do {
     (bh, s) \<leftarrow> bread ROOT_DEV 1 s;
     case bh of
       None \<Rightarrow> Some (-1, s)
     | Some b \<Rightarrow>
         let sb = read_super ROOT_DEV (b_data (heads s b))
         in if s_magic sb \<noteq> SUPER_MAGIC
            then do { s \<leftarrow> brelse (Some b) s; Some (-1, s) }
            else do {
              s \<leftarrow> brelse (Some b) (s\<lparr>super_tab := (super_tab s)(0 := sb)\<rparr>);
              Some (0, s) } }"

subsection \<open>The bitmaps\<close>

definition BITS_PER_BLOCK :: nat where "BITS_PER_BLOCK = BLOCK_SIZE * 8"

definition free_block :: "u16 \<Rightarrow> nat \<Rightarrow> 'z fs_state_scheme \<Rightarrow> 'z fs_state_scheme option" where
  "free_block dev block s =
     (case get_super dev s of
        None \<Rightarrow> Some s
      | Some k \<Rightarrow>
          let sb = super_tab s k
          in if block < unat (s_firstdatazone sb) \<or> block \<ge> unat (s_nzones sb) then Some s
             else let bit = block - unat (s_firstdatazone sb)
                  in do {
                       (bh, s) \<leftarrow> bread dev (2 + unat (s_imap_blocks sb) + bit div BITS_PER_BLOCK) s;
                       case bh of
                         None \<Rightarrow> Some s
                       | Some b \<Rightarrow>
                           let j = bit mod BITS_PER_BLOCK;
                               s = (if tst_bit (b_data (heads s b)) j
                                    then bput b (clr_bit_at j (b_data (heads s b))) s else s)
                           in brelse (Some b) s })"

text \<open>
  The search both allocators make: the bitmap blocks \<open>first + i\<close> in turn, the first clear bit of
  each; an unreadable block is skipped. The result is the number of the bit that was set.
\<close>

fun claim_bit :: "u16 \<Rightarrow> nat \<Rightarrow> nat \<Rightarrow> nat \<Rightarrow> 'z fs_state_scheme \<Rightarrow> (nat option \<times> 'z fs_state_scheme) option" where
  "claim_bit dev first i 0 s = Some (None, s)"
| "claim_bit dev first i (Suc k) s = do {
     (bh, s) \<leftarrow> bread dev (first + i) s;
     case bh of
       None \<Rightarrow> claim_bit dev first (Suc i) k s
     | Some b \<Rightarrow>
         (case scan (\<lambda>j. \<not> tst_bit (b_data (heads s b)) j) 0 BITS_PER_BLOCK of
            None \<Rightarrow> do { s \<leftarrow> brelse (Some b) s; claim_bit dev first (Suc i) k s }
          | Some j \<Rightarrow> do {
              s \<leftarrow> brelse (Some b) (bput b (set_bit_at j (b_data (heads s b))) s);
              Some (Some (i * BITS_PER_BLOCK + j), s) }) }"

definition new_block :: "u16 \<Rightarrow> 'z fs_state_scheme \<Rightarrow> (nat \<times> 'z fs_state_scheme) option" where
  "new_block dev s =
     (case get_super dev s of
        None \<Rightarrow> Some (0, s)
      | Some k \<Rightarrow>
          let sb = super_tab s k
          in do {
               (r, s) \<leftarrow> claim_bit dev (2 + unat (s_imap_blocks sb)) 0 (unat (s_zmap_blocks sb)) s;
               case r of
                 None \<Rightarrow> Some (0, s)
               | Some n \<Rightarrow> Some (unat (s_firstdatazone sb) + n, s) })"

definition free_inode :: "nat option \<Rightarrow> 'z fs_state_scheme \<Rightarrow> 'z fs_state_scheme option" where
  "free_inode inode s =
     (case inode of None \<Rightarrow> Some s
      | Some n \<Rightarrow>
          let ip = inode_table s n
          in if i_dev ip = 0 then Some s
             else case get_super (i_dev ip) s of
                    None \<Rightarrow> Some s
                  | Some k \<Rightarrow>
                      let nr = unat (i_num ip - 1)
                      in do {
                           (bh, s) \<leftarrow> bread (i_dev ip) (2 + nr div BITS_PER_BLOCK) s;
                           case bh of
                             None \<Rightarrow> Some s
                           | Some b \<Rightarrow>
                               brelse (Some b) (bput b (clr_bit_at (nr mod BITS_PER_BLOCK) (b_data (heads s b))) s) })"

subsection \<open>The block store under the file system\<close>

lemma bc_frame:
  fixes s s' :: "'z buf_state_scheme"
  assumes "heads s' = heads s" "hash_table s' = hash_table s" "free_list s' = free_list s"
    "hd_sectors s' = hd_sectors s" "root_lba s' = root_lba s" "hd_resp s' = hd_resp s"
  shows "bc_ok s' \<longleftrightarrow> bc_ok s" "view s' = view s" "cnts s' = cnts s" "held s' = held s" "blk_ok s' = blk_ok s"
proof -
  have "cache_inv s' \<longleftrightarrow> cache_inv s" by (rule cache_inv_count [where c = "cnt s"]) (simp_all add: assms)
  then show "bc_ok s' \<longleftrightarrow> bc_ok s" by (simp add: bc_ok_def hd_ok_def assms)
  have "disk_block s' = disk_block s" using assms(4,5) by (rule disk_block_cong)
  then show "view s' = view s" by (intro ext view_cong) (simp_all add: assms)
  show "cnts s' = cnts s" by (simp add: cnts_def assms)
  then show "held s' = held s" by (simp add: held_def hashed_def assms fun_eq_iff)
  show "blk_ok s' = blk_ok s" by (simp add: blk_ok_def assms fun_eq_iff)
qed

lemma bc_tables [simp]:
  fixes s :: "'z fs_state_scheme"
  shows "bc_ok (s\<lparr>super_tab := a\<rparr>) \<longleftrightarrow> bc_ok s" "view (s\<lparr>super_tab := a\<rparr>) = view s"
    "cnts (s\<lparr>super_tab := a\<rparr>) = cnts s" "held (s\<lparr>super_tab := a\<rparr>) = held s" "blk_ok (s\<lparr>super_tab := a\<rparr>) = blk_ok s"
    "bc_ok (s\<lparr>inode_table := b\<rparr>) \<longleftrightarrow> bc_ok s" "view (s\<lparr>inode_table := b\<rparr>) = view s"
    "cnts (s\<lparr>inode_table := b\<rparr>) = cnts s" "held (s\<lparr>inode_table := b\<rparr>) = held s" "blk_ok (s\<lparr>inode_table := b\<rparr>) = blk_ok s"
    "bc_ok (s\<lparr>dcache := c\<rparr>) \<longleftrightarrow> bc_ok s" "view (s\<lparr>dcache := c\<rparr>) = view s"
    "cnts (s\<lparr>dcache := c\<rparr>) = cnts s" "held (s\<lparr>dcache := c\<rparr>) = held s" "blk_ok (s\<lparr>dcache := c\<rparr>) = blk_ok s"
  by (rule bc_frame; simp)+

lemma keep_tables [simp]:
  fixes s :: "'z fs_state_scheme"
  shows "keep (s\<lparr>super_tab := a\<rparr>) = (keep s)\<lparr>super_tab := a\<rparr>"
    "keep (s\<lparr>inode_table := b\<rparr>) = (keep s)\<lparr>inode_table := b\<rparr>" "keep (s\<lparr>dcache := c\<rparr>) = (keep s)\<lparr>dcache := c\<rparr>"
    "super_tab (keep s) = super_tab s" "inode_table (keep s) = inode_table s" "dcache (keep s) = dcache s"
  by (simp_all add: keep_def)

lemma keep_tablesD:
  fixes s s' :: "'z fs_state_scheme"
  assumes "keep s' = keep s"
  shows "super_tab s' = super_tab s" "inode_table s' = inode_table s" "dcache s' = dcache s"
    "fs_state.more s' = fs_state.more s"
  using arg_cong [OF assms, of super_tab] arg_cong [OF assms, of inode_table] arg_cong [OF assms, of dcache]
    arg_cong [OF assms, of fs_state.more]
  by (simp_all add: keep_def)

text \<open>The drive is large enough for every block number the file system computes.\<close>

definition disk_fits :: "'z hd_state_scheme \<Rightarrow> bool" where
  "disk_fits s \<longleftrightarrow> blk_ok s 200000"

lemma disk_fits_blk: "disk_fits s \<Longrightarrow> k \<le> 200000 \<Longrightarrow> blk_ok s k"
  by (simp add: disk_fits_def blk_ok_def)

lemma disk_fits_keep: "keep s' = keep s \<Longrightarrow> disk_fits s' = disk_fits s"
  using keepD(2) [of s' s] by (simp add: disk_fits_def blk_ok_def)

lemma disk_fits_tables [simp]:
  fixes s :: "'z fs_state_scheme"
  shows "disk_fits (s\<lparr>super_tab := a\<rparr>) = disk_fits s" "disk_fits (s\<lparr>inode_table := b\<rparr>) = disk_fits s"
    "disk_fits (s\<lparr>dcache := c\<rparr>) = disk_fits s"
  by (simp_all add: disk_fits_def)

lemma settlesD:
  assumes "bc.settles s s' V"
  shows "bc_ok s'" "view s' = V" "cnts s' = cnts s" "keep s' = keep s" "\<And>c k. held s c k \<Longrightarrow> held s' c k"
  using assms by (auto simp: bc.settles_def)

subsection \<open>A bitmap spread over blocks\<close>

definition bmap_bit :: "(nat \<Rightarrow> bytes) \<Rightarrow> nat \<Rightarrow> nat \<Rightarrow> bool" where
  "bmap_bit V first n = tst_bit (V (first + n div BITS_PER_BLOCK)) (n mod BITS_PER_BLOCK)"

definition bmap_set :: "nat \<Rightarrow> nat \<Rightarrow> (nat \<Rightarrow> bytes) \<Rightarrow> nat \<Rightarrow> bytes" where
  "bmap_set first n V = (let k = first + n div BITS_PER_BLOCK in V(k := set_bit_at (n mod BITS_PER_BLOCK) (V k)))"

definition bmap_clr :: "nat \<Rightarrow> nat \<Rightarrow> (nat \<Rightarrow> bytes) \<Rightarrow> nat \<Rightarrow> bytes" where
  "bmap_clr first n V = (let k = first + n div BITS_PER_BLOCK in V(k := clr_bit_at (n mod BITS_PER_BLOCK) (V k)))"

lemma bits_pos: "0 < BITS_PER_BLOCK"
  by (simp add: BITS_PER_BLOCK_def BLOCK_SIZE_def)

lemma div_mod_inj: "m div k = n div k \<Longrightarrow> m mod k = n mod k \<Longrightarrow> m = (n :: nat)"
  by (metis div_mult_mod_eq)

lemma bmap_bit_set: "bmap_bit (bmap_set first n V) first m \<longleftrightarrow> m = n \<or> bmap_bit V first m"
  using div_mod_inj [of m BITS_PER_BLOCK n] by (auto simp: bmap_bit_def bmap_set_def Let_def tst_bit_set)

lemma bmap_bit_clr: "bmap_bit (bmap_clr first n V) first m \<longleftrightarrow> m \<noteq> n \<and> bmap_bit V first m"
  using div_mod_inj [of m BITS_PER_BLOCK n] by (auto simp: bmap_bit_def bmap_clr_def Let_def tst_bit_clr)

lemma bmap_other: "k < first \<or> first + n div BITS_PER_BLOCK < k \<Longrightarrow> bmap_set first n V k = V k"
  "k < first \<or> first + n div BITS_PER_BLOCK < k \<Longrightarrow> bmap_clr first n V k = V k"
  by (auto simp: bmap_set_def bmap_clr_def Let_def)

lemma clr_set_bit: "\<not> tst_bit d j \<Longrightarrow> clr_bit_at j (set_bit_at j d) = d"
  by (rule ext, rule bit_word_eqI)
    (auto simp: clr_bit_at_def set_bit_at_def tst_bit_iff bit_simps)

lemma bmap_clr_set: "\<not> bmap_bit V first n \<Longrightarrow> bmap_clr first n (bmap_set first n V) = V"
  by (auto simp: bmap_bit_def bmap_clr_def bmap_set_def Let_def clr_set_bit)

lemma tst_bit_blk_of [simp]: "j < BITS_PER_BLOCK \<Longrightarrow> tst_bit (blk_of d) j = tst_bit d j"
  by (auto simp: tst_bit_def blk_of_def BITS_PER_BLOCK_def BLOCK_SIZE_def)

lemma blk_of_bit_at:
  assumes "j < BITS_PER_BLOCK"
  shows "blk_of (set_bit_at j d) = set_bit_at j (blk_of d)" "blk_of (clr_bit_at j d) = clr_bit_at j (blk_of d)"
proof -
  have "j div 8 < BLOCK_SIZE" using assms by (auto simp: BITS_PER_BLOCK_def)
  then show "blk_of (set_bit_at j d) = set_bit_at j (blk_of d)" "blk_of (clr_bit_at j d) = clr_bit_at j (blk_of d)"
    by (auto simp: set_bit_at_def clr_bit_at_def blk_of_def fun_eq_iff)
qed

subsection \<open>Claiming and returning a bit\<close>

lemma bmap_in_block:
  assumes "j < BITS_PER_BLOCK"
  shows "bmap_bit V first (i * BITS_PER_BLOCK + j) = tst_bit (V (first + i)) j"
    "bmap_set first (i * BITS_PER_BLOCK + j) V = V(first + i := set_bit_at j (V (first + i)))"
  using assms by (simp_all add: bmap_bit_def bmap_set_def Let_def)

lemma block_range:
  assumes "i * BITS_PER_BLOCK \<le> m" "m < i * BITS_PER_BLOCK + BITS_PER_BLOCK"
  obtains j where "m = i * BITS_PER_BLOCK + j" "j < BITS_PER_BLOCK"
  using assms that [of "m - i * BITS_PER_BLOCK"] by auto

lemma claim_bit_spec:
  fixes s :: "'z fs_state_scheme"
  assumes "bc_ok s" and "pins (cnts s) < 255" and "disk_fits s" and "first + i + k \<le> 200000"
  shows "\<exists>r s'. claim_bit ROOT_DEV first i k s = Some (r, s') \<and>
    (r = None \<longrightarrow> bc.settles s s' (view s) \<and>
       (\<forall>m. i * BITS_PER_BLOCK \<le> m \<and> m < (i + k) * BITS_PER_BLOCK \<longrightarrow> bmap_bit (view s) first m)) \<and>
    (\<forall>n. r = Some n \<longrightarrow> bc.settles s s' (bmap_set first n (view s)) \<and>
       i * BITS_PER_BLOCK \<le> n \<and> n < (i + k) * BITS_PER_BLOCK \<and> \<not> bmap_bit (view s) first n \<and>
       (\<forall>m. i * BITS_PER_BLOCK \<le> m \<and> m < n \<longrightarrow> bmap_bit (view s) first m))"
  using assms
proof (induction k arbitrary: i s)
  case 0
  then show ?case by (auto simp: bc.settles_def)
next
  case (Suc k)
  have ok: "blk_ok s (first + i)" using Suc.prems(3,4) by (intro disk_fits_blk) auto
  obtain b s1 where rd: "bread ROOT_DEV (first + i) s = Some (Some b, s1)"
    and dat: "blk_of (b_data (heads s1 b)) = view s (first + i)"
    and rel: "\<exists>s2. brelse (Some b) s1 = Some s2 \<and> bc.settles s s2 (view s)"
    and wr: "\<And>d. \<exists>s2. brelse (Some b) (bput b d s1) = Some s2 \<and> bc.settles s s2 ((view s)(first + i := blk_of d))"
    by (rule bc.access [OF Suc.prems(1,2) ok]) (rule that)
  have bit: "tst_bit (b_data (heads s1 b)) j = bmap_bit (view s) first (i * BITS_PER_BLOCK + j)"
    if "j < BITS_PER_BLOCK" for j
    using that dat tst_bit_blk_of [OF that, of "b_data (heads s1 b)"] by (simp add: bmap_in_block)
  show ?case
  proof (cases "scan (\<lambda>j. \<not> tst_bit (b_data (heads s1 b)) j) 0 BITS_PER_BLOCK")
    case None
    then have full: "bmap_bit (view s) first m" if "i * BITS_PER_BLOCK \<le> m" "m < i * BITS_PER_BLOCK + BITS_PER_BLOCK" for m
      using block_range [OF that] bit by (metis scan_None_iff zero_le)
    obtain s2 where s2: "brelse (Some b) s1 = Some s2" "bc.settles s s2 (view s)" using rel by blast
    note S = settlesD [OF s2(2)]
    have prems: "bc_ok s2" "pins (cnts s2) < 255" "disk_fits s2" "first + Suc i + k \<le> 200000"
      using S Suc.prems disk_fits_keep [OF S(4)] by simp_all
    have step: "claim_bit ROOT_DEV first i (Suc k) s = claim_bit ROOT_DEV first (Suc i) k s2"
      using rd None s2(1) by simp
    from Suc.IH [OF prems] obtain r s' where r: "claim_bit ROOT_DEV first (Suc i) k s2 = Some (r, s')"
      "r = None \<Longrightarrow> bc.settles s2 s' (view s)"
      "\<And>m. r = None \<Longrightarrow> Suc i * BITS_PER_BLOCK \<le> m \<Longrightarrow> m < (Suc i + k) * BITS_PER_BLOCK \<Longrightarrow> bmap_bit (view s) first m"
      "\<And>n. r = Some n \<Longrightarrow> bc.settles s2 s' (bmap_set first n (view s)) \<and> Suc i * BITS_PER_BLOCK \<le> n \<and>
         n < (Suc i + k) * BITS_PER_BLOCK \<and> \<not> bmap_bit (view s) first n"
      "\<And>n m. r = Some n \<Longrightarrow> Suc i * BITS_PER_BLOCK \<le> m \<Longrightarrow> m < n \<Longrightarrow> bmap_bit (view s) first m"
      unfolding S(2) by blast
    have all: "bmap_bit (view s) first m"
      if "i * BITS_PER_BLOCK \<le> m" "Suc i * BITS_PER_BLOCK \<le> m \<Longrightarrow> bmap_bit (view s) first m" for m
      using that full [of m] by (cases "m < i * BITS_PER_BLOCK + BITS_PER_BLOCK") auto
    show ?thesis
      unfolding step r(1)
    proof (intro exI [of _ r] exI [of _ s'] conjI refl impI allI)
      show "bc.settles s s' (view s)" if "r = None" using bc.settles_trans [OF s2(2) r(2) [OF that]] .
      show "bmap_bit (view s) first m" if "r = None" "i * BITS_PER_BLOCK \<le> m \<and> m < (i + Suc k) * BITS_PER_BLOCK" for m
        by (rule all) (use that r(3) [OF that(1), of m] in simp_all)
      fix n assume n: "r = Some n"
      show "bc.settles s s' (bmap_set first n (view s))" using bc.settles_trans [OF s2(2)] r(4) [OF n] by blast
      show "i * BITS_PER_BLOCK \<le> n" "n < (i + Suc k) * BITS_PER_BLOCK" "\<not> bmap_bit (view s) first n"
        using r(4) [OF n] by auto
      show "bmap_bit (view s) first m" if "i * BITS_PER_BLOCK \<le> m \<and> m < n" for m
        by (rule all) (use that r(5) [OF n, of m] in simp_all)
    qed
  next
    case (Some j)
    then have j: "j < BITS_PER_BLOCK" "\<not> tst_bit (b_data (heads s1 b)) j"
      "\<And>l. l < j \<Longrightarrow> tst_bit (b_data (heads s1 b)) l"
      using scan_SomeD [OF Some] by auto
    let ?n = "i * BITS_PER_BLOCK + j"
    obtain s2 where s2: "brelse (Some b) (bput b (set_bit_at j (b_data (heads s1 b))) s1) = Some s2"
      "bc.settles s s2 ((view s)(first + i := blk_of (set_bit_at j (b_data (heads s1 b)))))" using wr by blast
    have "(view s)(first + i := blk_of (set_bit_at j (b_data (heads s1 b)))) = bmap_set first ?n (view s)"
      using j(1) dat by (simp add: bmap_in_block blk_of_bit_at)
    with s2(2) have st: "bc.settles s s2 (bmap_set first ?n (view s))" by simp
    have low: "bmap_bit (view s) first m" if "i * BITS_PER_BLOCK \<le> m" "m < ?n" for m
    proof -
      have l: "m - i * BITS_PER_BLOCK < j" "m = i * BITS_PER_BLOCK + (m - i * BITS_PER_BLOCK)" using that by auto
      then have "tst_bit (b_data (heads s1 b)) (m - i * BITS_PER_BLOCK)" by (intro j(3))
      then show ?thesis using bit [of "m - i * BITS_PER_BLOCK"] l j(1) by simp
    qed
    have "claim_bit ROOT_DEV first i (Suc k) s = Some (Some ?n, s2)" using rd Some s2(1) by simp
    moreover have "\<not> bmap_bit (view s) first ?n" using bit [OF j(1)] j(2) by simp
    moreover have "?n < (i + Suc k) * BITS_PER_BLOCK" using j(1) by (simp add: algebra_simps)
    ultimately show ?thesis using st low by (intro exI [of _ "Some ?n"] exI [of _ s2]) auto
  qed
qed

text \<open>
  A mounted file system: the root's super block is in the table, data zones do not start at 0.
  \<open>zmap_at\<close> is the block where its zone bitmap starts.
\<close>

definition mounted :: "'z fs_state_scheme \<Rightarrow> bool" where
  "mounted s \<longleftrightarrow> bc_ok s \<and> disk_fits s \<and> s_dev (super_tab s 0) = ROOT_DEV \<and> s_firstdatazone (super_tab s 0) \<noteq> 0"

definition zmap_at :: "super_block \<Rightarrow> nat" where
  "zmap_at sb = 2 + unat (s_imap_blocks sb)"

lemma mounted_super: "mounted s \<Longrightarrow> get_super ROOT_DEV s = Some 0"
  by (simp add: mounted_def get_super_def NR_SUPER_def scan_eq_Some)

lemma mounted_keep:
  fixes s s' :: "'z fs_state_scheme"
  assumes "mounted s" and "bc_ok s'" and "keep s' = keep s"
  shows "mounted s'"
  using assms keep_tablesD [OF assms(3)] disk_fits_keep [OF assms(3)] by (simp add: mounted_def)

lemma new_block_spec:
  fixes s :: "'z fs_state_scheme"
  assumes "mounted s" and "pins (cnts s) < 255"
  defines "sb \<equiv> super_tab s 0"
  obtains z s' where "new_block ROOT_DEV s = Some (z, s')"
    "z = 0 \<Longrightarrow> bc.settles s s' (view s) \<and> (\<forall>n < unat (s_zmap_blocks sb) * BITS_PER_BLOCK. bmap_bit (view s) (zmap_at sb) n)"
    "z \<noteq> 0 \<Longrightarrow> unat (s_firstdatazone sb) \<le> z \<and>
       z - unat (s_firstdatazone sb) < unat (s_zmap_blocks sb) * BITS_PER_BLOCK \<and>
       \<not> bmap_bit (view s) (zmap_at sb) (z - unat (s_firstdatazone sb)) \<and>
       bc.settles s s' (bmap_set (zmap_at sb) (z - unat (s_firstdatazone sb)) (view s)) \<and>
       (\<forall>n < z - unat (s_firstdatazone sb). bmap_bit (view s) (zmap_at sb) n)"
proof -
  have m: "bc_ok s" "disk_fits s" "s_firstdatazone sb \<noteq> 0" using assms(1) by (auto simp: mounted_def sb_def)
  then have fz: "0 < unat (s_firstdatazone sb)" by (simp add: unat_gt_0)
  have lim: "zmap_at sb + 0 + unat (s_zmap_blocks sb) \<le> 200000"
    unfolding zmap_at_def using unat_u16_less [of "s_imap_blocks sb"] unat_u16_less [of "s_zmap_blocks sb"] by linarith
  obtain r s' where r: "claim_bit ROOT_DEV (zmap_at sb) 0 (unat (s_zmap_blocks sb)) s = Some (r, s')"
    "r = None \<longrightarrow> bc.settles s s' (view s) \<and>
       (\<forall>m. 0 * BITS_PER_BLOCK \<le> m \<and> m < (0 + unat (s_zmap_blocks sb)) * BITS_PER_BLOCK \<longrightarrow> bmap_bit (view s) (zmap_at sb) m)"
    "\<forall>n. r = Some n \<longrightarrow> bc.settles s s' (bmap_set (zmap_at sb) n (view s)) \<and>
       0 * BITS_PER_BLOCK \<le> n \<and> n < (0 + unat (s_zmap_blocks sb)) * BITS_PER_BLOCK \<and> \<not> bmap_bit (view s) (zmap_at sb) n \<and>
       (\<forall>m. 0 * BITS_PER_BLOCK \<le> m \<and> m < n \<longrightarrow> bmap_bit (view s) (zmap_at sb) m)"
    using claim_bit_spec [OF m(1) assms(2) m(2) lim] by blast
  show ?thesis
  proof (cases r)
    case None
    then have "new_block ROOT_DEV s = Some (0, s')"
      using r(1) mounted_super [OF assms(1)] by (simp add: new_block_def zmap_at_def sb_def)
    with r(2) None show ?thesis by (intro that) auto
  next
    case (Some n)
    then have "new_block ROOT_DEV s = Some (unat (s_firstdatazone sb) + n, s')"
      using r(1) mounted_super [OF assms(1)] by (simp add: new_block_def zmap_at_def sb_def)
    with r(3) Some fz show ?thesis by (intro that) auto
  qed
qed

lemma free_block_spec:
  fixes s :: "'z fs_state_scheme"
  assumes "mounted s" and "pins (cnts s) < 255"
  defines "sb \<equiv> super_tab s 0"
  obtains s' where "free_block ROOT_DEV z s = Some s'"
    "bc.settles s s' (if unat (s_firstdatazone sb) \<le> z \<and> z < unat (s_nzones sb)
       then bmap_clr (zmap_at sb) (z - unat (s_firstdatazone sb)) (view s) else view s)"
proof (cases "unat (s_firstdatazone sb) \<le> z \<and> z < unat (s_nzones sb)")
  case False
  then have "free_block ROOT_DEV z s = Some s"
    using mounted_super [OF assms(1)] by (auto simp: free_block_def sb_def Let_def)
  moreover have "bc.settles s s (view s)" using assms(1) by (simp add: bc.settles_def mounted_def)
  ultimately show ?thesis using False by (intro that [of s]) auto
next
  case True
  let ?n = "z - unat (s_firstdatazone sb)"
  let ?blk = "zmap_at sb + ?n div BITS_PER_BLOCK" and ?j = "?n mod BITS_PER_BLOCK"
  have m: "bc_ok s" "disk_fits s" using assms(1) by (auto simp: mounted_def)
  have "?n div BITS_PER_BLOCK \<le> ?n" by (rule div_le_dividend)
  then have "?blk \<le> 200000"
    unfolding zmap_at_def using True unat_u16_less [of "s_nzones sb"] unat_u16_less [of "s_imap_blocks sb"] by linarith
  then have "blk_ok s ?blk" by (rule disk_fits_blk [OF m(2)])
  then obtain b s1 where rd: "bread ROOT_DEV ?blk s = Some (Some b, s1)"
    and dat: "blk_of (b_data (heads s1 b)) = view s ?blk"
    and rel: "\<exists>s2. brelse (Some b) s1 = Some s2 \<and> bc.settles s s2 (view s)"
    and wr: "\<And>d. \<exists>s2. brelse (Some b) (bput b d s1) = Some s2 \<and> bc.settles s s2 ((view s)(?blk := blk_of d))"
    by (rule bc.access [OF m(1) assms(2)]) (rule that)
  have j: "?j < BITS_PER_BLOCK" using bits_pos by simp
  have bit: "tst_bit (b_data (heads s1 b)) ?j = bmap_bit (view s) (zmap_at sb) ?n"
    using dat tst_bit_blk_of [OF j, of "b_data (heads s1 b)"] by (simp add: bmap_bit_def)
  have step: "free_block ROOT_DEV z s = brelse (Some b) (if tst_bit (b_data (heads s1 b)) ?j
      then bput b (clr_bit_at ?j (b_data (heads s1 b))) s1 else s1)"
    using rd True mounted_super [OF assms(1)] by (simp add: free_block_def Let_def zmap_at_def sb_def)
  show ?thesis
  proof (cases "tst_bit (b_data (heads s1 b)) ?j")
    case t: True
    obtain s2 where s2: "brelse (Some b) (bput b (clr_bit_at ?j (b_data (heads s1 b))) s1) = Some s2"
      "bc.settles s s2 ((view s)(?blk := blk_of (clr_bit_at ?j (b_data (heads s1 b)))))" using wr by blast
    have "(view s)(?blk := blk_of (clr_bit_at ?j (b_data (heads s1 b)))) = bmap_clr (zmap_at sb) ?n (view s)"
      using dat by (simp add: bmap_clr_def Let_def blk_of_bit_at [OF j])
    with s2 step t True show ?thesis by (intro that [of s2]) auto
  next
    case f: False
    have "clr_bit_at ?j (view s ?blk) = view s ?blk"
      using f bit by (rule_tac ext, rule_tac bit_word_eqI) (auto simp: clr_bit_at_def bmap_bit_def tst_bit_iff bit_simps)
    then have "bmap_clr (zmap_at sb) ?n (view s) = view s" by (simp add: bmap_clr_def Let_def)
    with rel step f True show ?thesis using that by auto
  qed
qed

subsection \<open>A mounted machine\<close>

definition zero_super :: super_block where
  "zero_super = \<lparr>s_ninodes = 0, s_nzones = 0, s_imap_blocks = 0, s_zmap_blocks = 0, s_firstdatazone = 0,
     s_log_zone_size = 0, s_max_size = 0, s_magic = 0, s_dev = 0\<rparr>"

definition zero_inode :: m_inode where
  "zero_inode = \<lparr>i_mode = 0, i_uid = 0, i_size = 0, i_mtime = 0, i_gid = 0, i_nlinks = 0, i_zone = (\<lambda>_. 0),
     i_wait = 0, i_dev = 0, i_num = 0, i_count = 0, i_lock = False, i_dirt = False, i_pipe = False,
     i_mount = 0, i_seek = 0, i_update = 0\<rparr>"

definition zero_dentry :: dcache_entry where
  "zero_dentry = \<lparr>d_dev = 0, d_dir_ino = 0, d_target_ino = 0, d_name = (\<lambda>_. 0), d_valid = False\<rparr>"

definition small_super :: super_block where
  "small_super = zero_super\<lparr>s_ninodes := 96, s_nzones := 360, s_imap_blocks := 1, s_zmap_blocks := 1,
     s_firstdatazone := 7, s_magic := SUPER_MAGIC, s_dev := ROOT_DEV\<rparr>"

text \<open>A freshly booted machine on a blank disk, with the super block of a 360-block file system.\<close>

definition boot_fs :: "'z \<Rightarrow> 'z fs_state_scheme" where
  "boot_fs m = boot \<lparr>super_tab = (\<lambda>_. zero_super)(0 := small_super), inode_table = (\<lambda>_. zero_inode),
     dcache = (\<lambda>_. zero_dentry), \<dots> = m\<rparr>"

lemma boot_more: "buf_state.more (boot m) = m"
proof -
  have "buf_state.more s' = buf_state.more s" if "buffer_init e s = Some s'" for e and s s' :: "'a buf_state_scheme"
    using that by (auto simp: buffer_init_def Let_def split: if_splits)
  from this [OF boot_init [of m]] show ?thesis by (simp add: blank_def)
qed

lemma fs_more:
  fixes s :: "'z fs_state_scheme"
  assumes "buf_state.more s = \<lparr>super_tab = a, inode_table = b, dcache = c, \<dots> = m\<rparr>"
  shows "super_tab s = a" "inode_table s = b" "dcache s = c" "fs_state.more s = m"
  using assms by (cases s; simp)+

lemma boot_fs_tables:
  "super_tab (boot_fs m) 0 = small_super" "inode_table (boot_fs m) = (\<lambda>_. zero_inode)"
  "dcache (boot_fs m) = (\<lambda>_. zero_dentry)" "fs_state.more (boot_fs m) = m"
proof -
  have "buf_state.more (boot_fs m) = \<lparr>super_tab = (\<lambda>_. zero_super)(0 := small_super),
      inode_table = (\<lambda>_. zero_inode), dcache = (\<lambda>_. zero_dentry), \<dots> = m\<rparr>"
    by (simp add: boot_fs_def boot_more)
  from fs_more [OF this] show "super_tab (boot_fs m) 0 = small_super" "inode_table (boot_fs m) = (\<lambda>_. zero_inode)"
    "dcache (boot_fs m) = (\<lambda>_. zero_dentry)" "fs_state.more (boot_fs m) = m" by simp_all
qed

lemma boot_fs_facts:
  "mounted (boot_fs m)" "pins (cnts (boot_fs m)) = 0" "view (boot_fs m) = (\<lambda>_ _. 0)"
proof -
  have "bc_ok (boot_fs m)" "disk_fits (boot_fs m)"
    by (simp_all add: boot_fs_def boot_facts(1) disk_fits_def boot_blk_ok)
  then show "mounted (boot_fs m)" by (simp add: mounted_def boot_fs_tables small_super_def)
  show "pins (cnts (boot_fs m)) = 0" "view (boot_fs m) = (\<lambda>_ _. 0)" by (simp_all add: boot_fs_def boot_facts)
qed

text \<open>The same machine with a file system that has a single data zone.\<close>

definition tiny_fs :: "'z \<Rightarrow> 'z fs_state_scheme" where
  "tiny_fs m = (boot_fs m)\<lparr>super_tab := (\<lambda>_. zero_super)(0 := small_super\<lparr>s_nzones := 8\<rparr>)\<rparr>"

lemma tiny_fs_facts:
  "mounted (tiny_fs m)" "pins (cnts (tiny_fs m)) = 0" "view (tiny_fs m) = (\<lambda>_ _. 0)"
  "super_tab (tiny_fs m) 0 = small_super\<lparr>s_nzones := 8\<rparr>"
  using boot_fs_facts [of m] by (simp_all add: tiny_fs_def mounted_def small_super_def)

lemma first_new_block:
  fixes s :: "'z fs_state_scheme"
  assumes "mounted s" and "pins (cnts s) < 255" and "\<not> bmap_bit (view s) (zmap_at (super_tab s 0)) 0"
    and "s_firstdatazone (super_tab s 0) = 7" and "s_zmap_blocks (super_tab s 0) = 1"
  obtains s' where "new_block ROOT_DEV s = Some (7, s')" "bc.settles s s' (bmap_set (zmap_at (super_tab s 0)) 0 (view s))"
proof -
  let ?sb = "super_tab s 0"
  obtain z s' where nb: "new_block ROOT_DEV s = Some (z, s')"
    "z = 0 \<Longrightarrow> bc.settles s s' (view s) \<and> (\<forall>n < unat (s_zmap_blocks ?sb) * BITS_PER_BLOCK. bmap_bit (view s) (zmap_at ?sb) n)"
    "z \<noteq> 0 \<Longrightarrow> unat (s_firstdatazone ?sb) \<le> z \<and>
       z - unat (s_firstdatazone ?sb) < unat (s_zmap_blocks ?sb) * BITS_PER_BLOCK \<and>
       \<not> bmap_bit (view s) (zmap_at ?sb) (z - unat (s_firstdatazone ?sb)) \<and>
       bc.settles s s' (bmap_set (zmap_at ?sb) (z - unat (s_firstdatazone ?sb)) (view s)) \<and>
       (\<forall>n < z - unat (s_firstdatazone ?sb). bmap_bit (view s) (zmap_at ?sb) n)"
    by (rule new_block_spec [OF assms(1,2)]) (rule that)
  note b = assms(3)
  have "z \<noteq> 0"
  proof
    assume "z = 0"
    from nb(2) [OF this] b have "\<not> 0 < unat (s_zmap_blocks (super_tab s 0)) * BITS_PER_BLOCK" by blast
    then show False using bits_pos by (simp add: assms(5))
  qed
  from nb(3) [OF this] b have "7 \<le> z" "\<not> 0 < z - 7" "bc.settles s s' (bmap_set (zmap_at (super_tab s 0)) (z - 7) (view s))"
    by (auto simp: assms(4))
  then have "z = 7" by simp
  with \<open>bc.settles s s' (bmap_set _ (z - 7) (view s))\<close> nb(1) show ?thesis by (intro that [of s']) simp_all
qed

subsection \<open>Properties\<close>

text \<open>
  C9. \<open>new_block\<close> on a mounted file system returns. Result 0 means that every bit of the zone
  bitmap was set and nothing changed. Any other result is the zone of the lowest clear bit: that
  bit is now set, every other bit and every other block of the disk is as before, and no buffer
  reference is left behind.
\<close>

theorem new_block_allocates:
  fixes s :: "'z fs_state_scheme"
  assumes "mounted s" and "pins (cnts s) < 255"
  defines "sb \<equiv> super_tab s 0"
  shows "\<exists>z s'. new_block ROOT_DEV s = Some (z, s') \<and> mounted s' \<and> cnts s' = cnts s \<and> inode_table s' = inode_table s \<and>
    (z = 0 \<longrightarrow> view s' = view s \<and> (\<forall>n < unat (s_zmap_blocks sb) * BITS_PER_BLOCK. bmap_bit (view s) (zmap_at sb) n)) \<and>
    (z \<noteq> 0 \<longrightarrow> (let n = z - unat (s_firstdatazone sb) in
       unat (s_firstdatazone sb) \<le> z \<and> n < unat (s_zmap_blocks sb) * BITS_PER_BLOCK \<and>
       \<not> bmap_bit (view s) (zmap_at sb) n \<and> (\<forall>m<n. bmap_bit (view s) (zmap_at sb) m) \<and>
       (\<forall>m. bmap_bit (view s') (zmap_at sb) m \<longleftrightarrow> m = n \<or> bmap_bit (view s) (zmap_at sb) m) \<and>
       (\<forall>k. k \<noteq> zmap_at sb + n div BITS_PER_BLOCK \<longrightarrow> view s' k = view s k)))"
proof -
  obtain z s' where nb: "new_block ROOT_DEV s = Some (z, s')"
    "z = 0 \<Longrightarrow> bc.settles s s' (view s) \<and> (\<forall>n < unat (s_zmap_blocks sb) * BITS_PER_BLOCK. bmap_bit (view s) (zmap_at sb) n)"
    "z \<noteq> 0 \<Longrightarrow> unat (s_firstdatazone sb) \<le> z \<and>
       z - unat (s_firstdatazone sb) < unat (s_zmap_blocks sb) * BITS_PER_BLOCK \<and>
       \<not> bmap_bit (view s) (zmap_at sb) (z - unat (s_firstdatazone sb)) \<and>
       bc.settles s s' (bmap_set (zmap_at sb) (z - unat (s_firstdatazone sb)) (view s)) \<and>
       (\<forall>n < z - unat (s_firstdatazone sb). bmap_bit (view s) (zmap_at sb) n)"
    by (rule new_block_spec [OF assms(1,2), folded sb_def]) (rule that)
  have *: "mounted s' \<and> cnts s' = cnts s \<and> inode_table s' = inode_table s \<and> view s' = V" if "bc.settles s s' V" for V
    using settlesD [OF that] mounted_keep [OF assms(1)] keep_tablesD by blast
  show ?thesis
  proof (cases "z = 0")
    case True
    with nb * show ?thesis by blast
  next
    case False
    note S = nb(3) [OF False]
    let ?n = "z - unat (s_firstdatazone sb)"
    have "view s' = bmap_set (zmap_at sb) ?n (view s)" using S * by blast
    note v = this
    have "bmap_bit (view s') (zmap_at sb) m \<longleftrightarrow> m = ?n \<or> bmap_bit (view s) (zmap_at sb) m" for m
      unfolding v by (rule bmap_bit_set)
    moreover have "k \<noteq> zmap_at sb + ?n div BITS_PER_BLOCK \<Longrightarrow> view s' k = view s k" for k
      unfolding v by (simp add: bmap_set_def Let_def)
    ultimately have "bmap_bit (view s') (zmap_at sb) m \<longleftrightarrow> m = ?n \<or> bmap_bit (view s) (zmap_at sb) m"
      "k \<noteq> zmap_at sb + ?n div BITS_PER_BLOCK \<Longrightarrow> view s' k = view s k" for m k by blast+
    with S * nb(1) False show ?thesis by (simp add: Let_def) blast
  qed
qed

theorem new_block_allocates_witness:
  "\<exists>z s'. new_block ROOT_DEV (boot_fs ()) = Some (z, s') \<and> z = 7"
proof -
  have p: "pins (cnts (boot_fs ())) < 255" by (simp add: boot_fs_facts)
  from new_block_allocates [OF boot_fs_facts(1) p] obtain z s' where
    nb: "new_block ROOT_DEV (boot_fs ()) = Some (z, s')"
    and "z = 0 \<longrightarrow> (\<forall>n < 8192. bmap_bit (view (boot_fs ())) 3 n)"
    and "z \<noteq> 0 \<longrightarrow> 7 \<le> z \<and> (\<forall>m < z - 7. bmap_bit (view (boot_fs ())) 3 m)"
    by (auto simp: Let_def boot_fs_tables small_super_def zmap_at_def BITS_PER_BLOCK_def BLOCK_SIZE_def)
  moreover have "\<not> bmap_bit (view (boot_fs ())) 3 0" by (simp add: bmap_bit_def boot_fs_facts tst_bit_def)
  ultimately have "z = 7" by (metis diff_is_0_eq le_antisym not_gr_zero zero_less_numeral)
  with nb show ?thesis by blast
qed

text \<open>
  C10. Freeing a zone that \<open>new_block\<close> just returned restores the file system exactly, provided the
  zone lies below \<open>s_nzones\<close>: the whole disk reads as before the allocation.
\<close>

theorem free_block_undoes_new_block:
  fixes s :: "'z fs_state_scheme"
  assumes "mounted s" and "pins (cnts s) < 255" and "new_block ROOT_DEV s = Some (z, s1)" and "z \<noteq> 0"
    and "z < unat (s_nzones (super_tab s 0))"
  shows "\<exists>s2. free_block ROOT_DEV z s1 = Some s2 \<and> view s2 = view s \<and> cnts s2 = cnts s \<and> mounted s2"
proof -
  let ?sb = "super_tab s 0"
  let ?n = "z - unat (s_firstdatazone ?sb)"
  have nb: "unat (s_firstdatazone ?sb) \<le> z \<and> \<not> bmap_bit (view s) (zmap_at ?sb) ?n \<and>
      bc.settles s s1 (bmap_set (zmap_at ?sb) ?n (view s))"
    by (rule new_block_spec [OF assms(1,2)]) (use assms(3,4) in auto)
  then have nb: "unat (s_firstdatazone ?sb) \<le> z" "\<not> bmap_bit (view s) (zmap_at ?sb) ?n"
    "bc.settles s s1 (bmap_set (zmap_at ?sb) ?n (view s))" by auto
  note S = settlesD [OF nb(3)]
  have m1: "mounted s1" and t1: "super_tab s1 = super_tab s"
    using mounted_keep [OF assms(1) S(1,4)] keep_tablesD [OF S(4)] by auto
  have "pins (cnts s1) < 255" using S(3) assms(2) by simp
  from free_block_spec [OF m1 this, of z] obtain s2 where f: "free_block ROOT_DEV z s1 = Some s2"
    "bc.settles s1 s2 (bmap_clr (zmap_at ?sb) ?n (view s1))"
    using nb(1) assms(5) t1 by auto
  note S2 = settlesD [OF f(2)]
  have "view s2 = view s" using S2(2) S(2) bmap_clr_set [OF nb(2)] by simp
  moreover have "mounted s2" using mounted_keep [OF m1 S2(1,4)] .
  ultimately show ?thesis using f(1) S2(3) S(3) by auto
qed

theorem free_block_undoes_new_block_witness:
  "\<exists>s1 s2. new_block ROOT_DEV (boot_fs ()) = Some (7, s1) \<and> free_block ROOT_DEV 7 s1 = Some s2 \<and>
     view s2 = view (boot_fs ())"
proof -
  have p: "pins (cnts (boot_fs ())) < 255" by (simp add: boot_fs_facts)
  obtain s1 where s1: "new_block ROOT_DEV (boot_fs ()) = Some (7, s1)"
    by (rule first_new_block [OF boot_fs_facts(1) p])
      (simp_all add: boot_fs_tables small_super_def boot_fs_facts bmap_bit_def tst_bit_def)
  from free_block_undoes_new_block [OF boot_fs_facts(1) p this] show ?thesis
    using s1 by (auto simp: boot_fs_tables small_super_def)
qed

text \<open>
  C11. \<open>new_block\<close> does not stop at \<open>s_nzones\<close>. When every zone of the file system is in use and the bitmap
  block has a clear bit beyond them, it returns zone number \<open>s_nzones\<close>, which lies outside the file system;
  and \<open>free_block\<close> refuses that number, so the bit stays set for ever.
\<close>

theorem new_block_beyond_nzones:
  fixes s :: "'z fs_state_scheme"
  assumes "mounted s" and "pins (cnts s) < 255"
    and "unat (s_firstdatazone (super_tab s 0)) \<le> unat (s_nzones (super_tab s 0))"
  defines "n \<equiv> unat (s_nzones (super_tab s 0)) - unat (s_firstdatazone (super_tab s 0))"
  assumes "n < unat (s_zmap_blocks (super_tab s 0)) * BITS_PER_BLOCK"
    and "\<forall>m<n. bmap_bit (view s) (zmap_at (super_tab s 0)) m"
    and "\<not> bmap_bit (view s) (zmap_at (super_tab s 0)) n"
  shows "\<exists>s1 s2. new_block ROOT_DEV s = Some (unat (s_nzones (super_tab s 0)), s1) \<and>
    free_block ROOT_DEV (unat (s_nzones (super_tab s 0))) s1 = Some s2 \<and>
    bmap_bit (view s2) (zmap_at (super_tab s 0)) n"
proof -
  let ?sb = "super_tab s 0"
  obtain z s1 where nb: "new_block ROOT_DEV s = Some (z, s1)"
    "z = 0 \<Longrightarrow> (\<forall>m < unat (s_zmap_blocks ?sb) * BITS_PER_BLOCK. bmap_bit (view s) (zmap_at ?sb) m)"
    "z \<noteq> 0 \<Longrightarrow> unat (s_firstdatazone ?sb) \<le> z \<and>
       \<not> bmap_bit (view s) (zmap_at ?sb) (z - unat (s_firstdatazone ?sb)) \<and>
       bc.settles s s1 (bmap_set (zmap_at ?sb) (z - unat (s_firstdatazone ?sb)) (view s)) \<and>
       (\<forall>m < z - unat (s_firstdatazone ?sb). bmap_bit (view s) (zmap_at ?sb) m)"
    by (rule new_block_spec [OF assms(1,2)]) (use that in blast)
  have z0: "z \<noteq> 0" using nb(2) assms(5,7) by blast
  note N = nb(3) [OF z0]
  have "z - unat (s_firstdatazone ?sb) = n"
    using N assms(6,7) by (metis linorder_neqE_nat)
  then have z: "z = unat (s_nzones ?sb)" using N assms(3) unfolding n_def by linarith
  have st: "bc.settles s s1 (bmap_set (zmap_at ?sb) n (view s))" using N z by (simp add: n_def)
  note S = settlesD [OF st]
  have m1: "mounted s1" and t1: "super_tab s1 = super_tab s"
    using mounted_keep [OF assms(1) S(1,4)] keep_tablesD [OF S(4)] by auto
  have "free_block ROOT_DEV z s1 = Some s1"
    using mounted_super [OF m1] t1 z by (simp add: free_block_def Let_def)
  moreover have "bmap_bit (view s1) (zmap_at ?sb) n" by (simp add: S(2) bmap_bit_set)
  ultimately show ?thesis using nb(1) z by blast
qed

theorem new_block_beyond_nzones_witness:
  "\<exists>s s1. new_block ROOT_DEV (tiny_fs ()) = Some (7, s) \<and> new_block ROOT_DEV s = Some (8, s1)"
proof -
  have p: "pins (cnts (tiny_fs ())) < 255" by (simp add: tiny_fs_facts)
  obtain s where s: "new_block ROOT_DEV (tiny_fs ()) = Some (7, s)"
    "bc.settles (tiny_fs ()) s (bmap_set (zmap_at (super_tab (tiny_fs ()) 0)) 0 (view (tiny_fs ())))"
    by (rule first_new_block [OF tiny_fs_facts(1) p])
      (simp_all add: tiny_fs_facts small_super_def bmap_bit_def tst_bit_def)
  note S = settlesD [OF s(2)]
  have m: "mounted s" and t: "super_tab s 0 = small_super\<lparr>s_nzones := 8\<rparr>"
    using mounted_keep [OF tiny_fs_facts(1) S(1,4)] keep_tablesD(1) [OF S(4)] by (simp_all add: tiny_fs_facts)
  have b: "bmap_bit (view s) (zmap_at (super_tab s 0)) k \<longleftrightarrow> k = 0" for k
    unfolding S(2) by (simp add: t tiny_fs_facts bmap_bit_set zmap_at_def) (simp add: bmap_bit_def tst_bit_def)
  have "\<exists>s1 s2. new_block ROOT_DEV s = Some (unat (s_nzones (super_tab s 0)), s1) \<and>
    free_block ROOT_DEV (unat (s_nzones (super_tab s 0))) s1 = Some s2 \<and>
    bmap_bit (view s2) (zmap_at (super_tab s 0)) (unat (s_nzones (super_tab s 0)) - unat (s_firstdatazone (super_tab s 0)))"
    by (rule new_block_beyond_nzones [OF m])
      (use p S(3) in \<open>simp_all only: b\<close>, simp_all add: t small_super_def BITS_PER_BLOCK_def BLOCK_SIZE_def)
  with s(1) show ?thesis by (auto simp: t small_super_def)
qed

end
