(* ===== verification/Inode.thy ===== *)
theory Inode
  imports Bitmap
begin

text \<open>
  The in-core inode table: \<open>fs/inode.c\<close> and \<open>new_inode\<close> of \<open>fs/bitmap.c\<close>. An inode is named by its
  index in \<open>inode_table\<close>. The last part shows that the table is a write-back cache of the inode
  blocks: \<open>abs_inode s nr\<close> is the inode a client sees, wherever its current copy is.
\<close>

subsection \<open>Inodes on disk\<close>

record d_inode =
  di_mode :: u16
  di_uid :: u16
  di_size :: u32
  di_time :: u32
  di_gid :: byte
  di_nlinks :: byte
  di_zone :: "u16 list"

definition SIZEOF_D_INODE :: nat where "SIZEOF_D_INODE = 32"

text \<open>\<open>struct d_inode\<close> at byte offset \<open>p\<close> of a block.\<close>

definition get_dinode :: "bytes \<Rightarrow> nat \<Rightarrow> d_inode" where
  "get_dinode d p = \<lparr>di_mode = get16 d p, di_uid = get16 d (p + 2), di_size = get32 d (p + 4),
     di_time = get32 d (p + 8), di_gid = d (p + 12), di_nlinks = d (p + 13),
     di_zone = map (\<lambda>i. get16 d (p + 14 + 2 * i)) [0..<9]\<rparr>"

definition put_dinode :: "d_inode \<Rightarrow> nat \<Rightarrow> bytes \<Rightarrow> bytes" where
  "put_dinode di p d =
     (let d = put16 p (di_mode di) d;
          d = put16 (p + 2) (di_uid di) d;
          d = put32 (p + 4) (di_size di) d;
          d = put32 (p + 8) (di_time di) d;
          d = d(p + 12 := di_gid di, p + 13 := di_nlinks di)
      in fold (\<lambda>i. put16 (p + 14 + 2 * i) (di_zone di ! i)) [0..<9] d)"

definition dinode_of :: "m_inode \<Rightarrow> d_inode" where
  "dinode_of ip = \<lparr>di_mode = i_mode ip, di_uid = i_uid ip, di_size = i_size ip, di_time = i_mtime ip,
     di_gid = i_gid ip, di_nlinks = i_nlinks ip, di_zone = map (i_zone ip) [0..<9]\<rparr>"

definition load_dinode :: "d_inode \<Rightarrow> m_inode \<Rightarrow> m_inode" where
  "load_dinode di ip = ip\<lparr>i_mode := di_mode di, i_uid := di_uid di, i_size := di_size di,
     i_mtime := di_time di, i_gid := di_gid di, i_nlinks := di_nlinks di,
     i_zone := (\<lambda>k. if k < 9 then di_zone di ! k else i_zone ip k)\<rparr>"

definition upd_inode :: "nat \<Rightarrow> (m_inode \<Rightarrow> m_inode) \<Rightarrow> 'z fs_state_scheme \<Rightarrow> 'z fs_state_scheme" where
  "upd_inode n f s = s\<lparr>inode_table := (inode_table s)(n := f (inode_table s n))\<rparr>"

definition inode_block :: "super_block \<Rightarrow> u32 \<Rightarrow> nat" where
  "inode_block sb num = 2 + unat (s_imap_blocks sb) + unat (s_zmap_blocks sb) +
     unat (num - 1) div (BLOCK_SIZE div SIZEOF_D_INODE)"

definition inode_offset :: "u32 \<Rightarrow> nat" where
  "inode_offset num = unat (num - 1) mod (BLOCK_SIZE div SIZEOF_D_INODE)"

subsection \<open>Reading and writing back\<close>

definition read_inode :: "nat \<Rightarrow> 'z fs_state_scheme \<Rightarrow> 'z fs_state_scheme option" where
  "read_inode n s =
     (let ip = inode_table s n
      in if i_dev ip = 0 then Some s
         else case get_super (i_dev ip) s of
                None \<Rightarrow> Some (upd_inode n (\<lambda>ip. ip\<lparr>i_dev := 0, i_count := 0\<rparr>) s)
              | Some k \<Rightarrow> do {
                  (bh, s) \<leftarrow> bread (i_dev ip) (inode_block (super_tab s k) (i_num ip)) s;
                  case bh of
                    None \<Rightarrow> Some (upd_inode n (\<lambda>ip. ip\<lparr>i_dev := 0, i_count := 0\<rparr>) s)
                  | Some b \<Rightarrow>
                      let di = get_dinode (b_data (heads s b)) (SIZEOF_D_INODE * inode_offset (i_num ip))
                      in brelse (Some b) (upd_inode n (load_dinode di) s) })"

definition write_inode :: "nat \<Rightarrow> 'z fs_state_scheme \<Rightarrow> 'z fs_state_scheme option" where
  "write_inode n s =
     (let ip = inode_table s n
      in if i_dev ip = 0 \<or> \<not> i_dirt ip then Some s
         else case get_super (i_dev ip) s of
                None \<Rightarrow> Some s
              | Some k \<Rightarrow> do {
                  (bh, s) \<leftarrow> bread (i_dev ip) (inode_block (super_tab s k) (i_num ip)) s;
                  case bh of
                    None \<Rightarrow> Some s
                  | Some b \<Rightarrow> do {
                      let d = put_dinode (dinode_of (inode_table s n))
                                (SIZEOF_D_INODE * inode_offset (i_num ip)) (b_data (heads s b));
                      s \<leftarrow> brelse (Some b) (ll_rw_block WRITE b (bput b d s));
                      Some (upd_inode n (\<lambda>ip. ip\<lparr>i_dirt := False\<rparr>) s) } })"

definition sync_inodes :: "u16 \<Rightarrow> 'z fs_state_scheme \<Rightarrow> 'z fs_state_scheme option" where
  "sync_inodes dev = for_range 0 NR_INODE (\<lambda>i s.
     if i_dev (inode_table s i) = dev \<and> i_dirt (inode_table s i) then write_inode i s else Some s)"

definition truncate_inode :: "nat option \<Rightarrow> 'z fs_state_scheme \<Rightarrow> 'z fs_state_scheme option" where
  "truncate_inode inode s =
     (case inode of None \<Rightarrow> Some s
      | Some n \<Rightarrow> do {
          s \<leftarrow> for_range 0 7 (\<lambda>i s.
                 if i_zone (inode_table s n) i \<noteq> 0
                 then do { s \<leftarrow> free_block (i_dev (inode_table s n)) (unat (i_zone (inode_table s n) i)) s;
                           Some (upd_inode n (\<lambda>ip. ip\<lparr>i_zone := (i_zone ip)(i := 0)\<rparr>) s) }
                 else Some s) s;
          s \<leftarrow> (if i_zone (inode_table s n) 7 \<noteq> 0
                then do {
                  (bh, s) \<leftarrow> bread (i_dev (inode_table s n)) (unat (i_zone (inode_table s n) 7)) s;
                  s \<leftarrow> (case bh of
                          None \<Rightarrow> Some s
                        | Some b \<Rightarrow> do {
                            s \<leftarrow> for_range 0 (BLOCK_SIZE div 2) (\<lambda>i s.
                                   let z = get16 (b_data (heads s b)) (2 * i)
                                   in if z \<noteq> 0 then free_block (i_dev (inode_table s n)) (unat z) s
                                      else Some s) s;
                            brelse (Some b) s });
                  s \<leftarrow> free_block (i_dev (inode_table s n)) (unat (i_zone (inode_table s n) 7)) s;
                  Some (upd_inode n (\<lambda>ip. ip\<lparr>i_zone := (i_zone ip)(7 := 0)\<rparr>) s) }
                else Some s);
          Some (upd_inode n (\<lambda>ip. ip\<lparr>i_size := 0, i_dirt := True\<rparr>) s) })"

subsection \<open>Getting and putting\<close>

text \<open>A task that finds the inode being loaded sleeps until another task has loaded it.\<close>

definition wait_on_inode :: "nat \<Rightarrow> 'z fs_state_scheme \<Rightarrow> 'z fs_state_scheme option" where
  "wait_on_inode n s = (if i_lock (inode_table s n) then None else Some s)"

definition find_inode :: "u16 \<Rightarrow> u32 \<Rightarrow> 'z fs_state_scheme \<Rightarrow> nat option" where
  "find_inode dev nr s = scan (\<lambda>i. i_dev (inode_table s i) = dev \<and> i_num (inode_table s i) = nr) 0 NR_INODE"

definition free_slot :: "'z fs_state_scheme \<Rightarrow> nat option" where
  "free_slot s = scan (\<lambda>i. i_count (inode_table s i) = 0) 0 NR_INODE"

definition iget :: "u16 \<Rightarrow> u32 \<Rightarrow> 'z fs_state_scheme \<Rightarrow> (nat option \<times> 'z fs_state_scheme) option" where
  "iget dev nr s =
     (case find_inode dev nr s of
        Some i \<Rightarrow> do {
          s \<leftarrow> wait_on_inode i s;
          Some (Some i, upd_inode i (\<lambda>ip. ip\<lparr>i_count := i_count ip + 1\<rparr>) s) }
      | None \<Rightarrow>
          (case free_slot s of
             None \<Rightarrow> Some (None, s)
           | Some i \<Rightarrow> do {
               s \<leftarrow> (if i_dirt (inode_table s i) then write_inode i s else Some s);
               let s = upd_inode i (\<lambda>ip. ip\<lparr>i_count := 1, i_dev := dev, i_num := nr, i_lock := True,
                         i_dirt := False, i_wait := 0, i_pipe := False, i_mount := 0, i_seek := 0,
                         i_update := 0\<rparr>) s;
               s \<leftarrow> read_inode i s;
               let s = upd_inode i (\<lambda>ip. ip\<lparr>i_lock := False\<rparr>) s;
               let (w, s) = wake_up (i_wait (inode_table s i)) s;
               let s = upd_inode i (\<lambda>ip. ip\<lparr>i_wait := w\<rparr>) s;
               if i_dev (inode_table s i) \<noteq> dev then Some (None, s) else Some (Some i, s) }))"

definition iget_used :: "'z fs_state_scheme \<Rightarrow> nat" where
  "iget_used s = length (filter (\<lambda>i. i_count (inode_table s i) \<noteq> 0) [0..<NR_INODE])"

definition get_empty_inode :: "'z fs_state_scheme \<Rightarrow> nat option \<times> 'z fs_state_scheme" where
  "get_empty_inode s =
     (case free_slot s of
        None \<Rightarrow> (None, s)
      | Some i \<Rightarrow>
          (Some i, upd_inode i (\<lambda>ip. ip\<lparr>i_count := 1, i_dev := 0, i_num := 0, i_dirt := False,
             i_lock := False, i_wait := 0, i_pipe := False, i_mount := 0, i_seek := 0, i_update := 0,
             i_nlinks := 0, i_size := 0\<rparr>) s))"

definition iput :: "nat option \<Rightarrow> 'z fs_state_scheme \<Rightarrow> 'z fs_state_scheme option" where
  "iput inode s =
     (case inode of None \<Rightarrow> Some s
      | Some n \<Rightarrow>
          let s = upd_inode n (\<lambda>ip. ip\<lparr>i_count := i_count ip - 1\<rparr>) s; ip = inode_table s n
          in if i_pipe ip
             then if i_count ip = 0
                  then Some (upd_inode n (\<lambda>ip. ip\<lparr>i_pipe := False, i_size := 0\<rparr>) (free_page (i_size ip) s))
                  else Some s
             else if i_count ip \<noteq> 0 then Some s
             else if i_nlinks ip \<noteq> 0 then Some s
             else free_inode (Some n) s)"

definition new_inode :: "u16 \<Rightarrow> 'z fs_state_scheme \<Rightarrow> (nat option \<times> 'z fs_state_scheme) option" where
  "new_inode dev s =
     (case get_super dev s of
        None \<Rightarrow> Some (None, s)
      | Some k \<Rightarrow> do {
          (r, s) \<leftarrow> claim_bit dev 2 0 (unat (s_imap_blocks (super_tab s k))) s;
          case r of
            None \<Rightarrow> Some (None, s)
          | Some j \<Rightarrow> do {
              (inode, s) \<leftarrow> iget dev (of_nat (j + 1)) s;
              case inode of
                None \<Rightarrow> Some (None, s)
              | Some n \<Rightarrow>
                  Some (Some n, upd_inode n (\<lambda>ip. ip\<lparr>i_mode := 0, i_uid := 0, i_size := 0, i_mtime := 0,
                    i_gid := 0, i_nlinks := 1, i_zone := (\<lambda>k. if k < 9 then 0 else i_zone ip k),
                    i_dirt := True\<rparr>) s) } })"

subsection \<open>Decoding what was encoded\<close>

lemma get16_blk_of [simp]: "k + 2 \<le> BLOCK_SIZE \<Longrightarrow> get16 (blk_of d) k = get16 d k"
  by (simp add: get16_def)

lemma get32_blk_of [simp]: "k + 4 \<le> BLOCK_SIZE \<Longrightarrow> get32 (blk_of d) k = get32 d k"
  by (simp add: get32_def)

lemma get_dinode_blk_of: "p + 32 \<le> BLOCK_SIZE \<Longrightarrow> get_dinode (blk_of d) p = get_dinode d p"
  by (simp add: get_dinode_def)

lemma blk_of_put16: "k + 2 \<le> BLOCK_SIZE \<Longrightarrow> blk_of (put16 k v d) = put16 k v (blk_of d)"
  by (auto simp: put16_def blk_of_def fun_eq_iff)

lemma blk_of_put32: "k + 4 \<le> BLOCK_SIZE \<Longrightarrow> blk_of (put32 k v d) = put32 k v (blk_of d)"
  by (simp add: put32_def blk_of_put16)

lemma blk_of_upd: "k < BLOCK_SIZE \<Longrightarrow> blk_of (d(k := v)) = (blk_of d)(k := v)"
  by (auto simp: blk_of_def fun_eq_iff)

lemma blk_of_put_dinode: "p + 32 \<le> BLOCK_SIZE \<Longrightarrow> blk_of (put_dinode di p d) = put_dinode di p (blk_of d)"
  by (simp add: put_dinode_def Let_def blk_of_put16 blk_of_put32 blk_of_upd upt_rec)

lemma length_9: "length zs = 9 \<Longrightarrow> map ((!) zs) [0..<9] = zs"
  by (metis map_nth)

lemma fold_put16_get:
  assumes "i < n"
  shows "get16 (fold (\<lambda>i. put16 (p + 2 * i) (f i)) [0..<n] d) (p + 2 * i) = f i"
  using assms by (induction n) (auto simp: less_Suc_eq)

lemma fold_put16_other:
  "j < p \<or> p + 2 * n \<le> j \<Longrightarrow> fold (\<lambda>i. put16 (p + 2 * i) (f i)) [0..<n] d j = d j"
  by (induction n) auto

lemma get16_eqI: "d k = d' k \<Longrightarrow> d (k + 1) = d' (k + 1) \<Longrightarrow> get16 d k = get16 d' k"
  by (simp add: get16_def)

lemma get32_eqI: "(\<And>j. k \<le> j \<Longrightarrow> j < k + 4 \<Longrightarrow> d j = d' j) \<Longrightarrow> get32 d k = get32 d' k"
  by (simp add: get32_def get16_def)

lemma get_dinode_eqI: "(\<And>j. p \<le> j \<Longrightarrow> j < p + 32 \<Longrightarrow> d j = d' j) \<Longrightarrow> get_dinode d p = get_dinode d' p"
  by (auto simp: get_dinode_def intro!: get16_eqI get32_eqI)

lemma get16_upd_other [simp]: "j \<noteq> k \<Longrightarrow> j \<noteq> Suc k \<Longrightarrow> get16 (d(j := v)) k = get16 d k"
  by (simp add: get16_def)

lemma get32_upd_other [simp]: "j < k \<or> k + 4 \<le> j \<Longrightarrow> get32 (d(j := v)) k = get32 d k"
  by (auto simp: get32_def)

lemma get_put_dinode:
  assumes "length (di_zone di) = 9"
  shows "get_dinode (put_dinode di p d) p = di"
proof -
  let ?d = "(put32 (p + 8) (di_time di) (put32 (p + 4) (di_size di) (put16 (p + 2) (di_uid di)
    (put16 p (di_mode di) d))))(p + 12 := di_gid di, p + 13 := di_nlinks di)"
  let ?e = "put_dinode di p d"
  have e: "?e = fold (\<lambda>i. put16 (p + 14 + 2 * i) (di_zone di ! i)) [0..<9] ?d"
    by (simp add: put_dinode_def Let_def)
  have lo: "?e j = ?d j" if "j < p + 14" for j
    unfolding e by (rule fold_put16_other) (use that in simp)
  have z: "get16 ?e (p + 14 + 2 * i) = di_zone di ! i" if "i < 9" for i
    unfolding e by (rule fold_put16_get [OF that])
  have "get16 ?e p = di_mode di" "get16 ?e (p + 2) = di_uid di" "get32 ?e (p + 4) = di_size di"
    "get32 ?e (p + 8) = di_time di" "?e (p + 12) = di_gid di" "?e (p + 13) = di_nlinks di"
  proof -
    have "get16 ?e k = get16 ?d k" if "k + 2 \<le> p + 14" for k by (rule get16_eqI) (use that lo in simp_all)
    moreover have "get32 ?e k = get32 ?d k" if "k + 4 \<le> p + 14" for k by (rule get32_eqI) (use that lo in simp)
    ultimately show "get16 ?e p = di_mode di" "get16 ?e (p + 2) = di_uid di" "get32 ?e (p + 4) = di_size di"
      "get32 ?e (p + 8) = di_time di" "?e (p + 12) = di_gid di" "?e (p + 13) = di_nlinks di"
      using lo by (simp_all add: get16_upd_other get32_upd_other)
  qed
  moreover have "map (\<lambda>i. get16 ?e (p + 14 + 2 * i)) [0..<9] = di_zone di"
    using z length_9 [OF assms] by (metis (no_types, lifting) atLeastLessThan_iff map_cong set_upt)
  ultimately show ?thesis unfolding get_dinode_def by (simp add: d_inode.equality)
qed

lemma put_dinode_other: "j < p \<or> p + 32 \<le> j \<Longrightarrow> put_dinode di p d j = d j"
  unfolding put_dinode_def Let_def by (subst fold_put16_other) auto

subsection \<open>Inodes through the block cache\<close>

text \<open>Writing a dirty referenced buffer through to the disk changes nothing a client can see.\<close>

lemma write_through_client:
  assumes "bc_ok s" and "held s b blk" and "b_dirt (heads s b)"
  shows "bc_ok (ll_rw_block WRITE b s)" "view (ll_rw_block WRITE b s) = view s" "keep (ll_rw_block WRITE b s) = keep s"
    "cnts (ll_rw_block WRITE b s) = cnts s" "held (ll_rw_block WRITE b s) = held s"
proof -
  let ?s = "ll_rw_block WRITE b s"
  have inv: "cache_inv s" and hd: "hd_ok s" using assms(1) by (auto simp: bc_ok_def)
  have b: "b \<in> hashed s" "b < NR_BUFFERS" "b_uptodate (heads s b)" using assms(2) by (auto simp: held_def hashed_def)
  have "b_wait (heads s b) = 0" using cache_invD(5) [OF inv b(2)] by simp
  then obtain w S d u where
    eq: "?s = s\<lparr>hd_waits := w, hd_sectors := S, heads := (heads s)
       (b := (heads s b)\<lparr>b_dirt := d, b_uptodate := u, b_lock := False, b_wait := 0\<rparr>)\<rparr>"
    and res: "\<not> d \<and> u \<and> disk_block (s\<lparr>hd_sectors := S\<rparr>) (b_blocknr (heads s b)) = blk_of (b_data (heads s b))
     \<or> d = b_dirt (heads s b) \<and> u = b_uptodate (heads s b) \<and> \<not> hd_ok s"
    by (rule ll_rw_write [OF _ cache_invD(6) [OF inv b(1)]]) (rule that)
  show "keep ?s = keep s" by (simp add: eq)
  have "hd_resp ?s = hd_resp s" by (simp add: eq)
  then show "bc_ok ?s" using ll_rw_write_inv(1) [OF inv b(1) assms(3)] hd by (simp add: bc_ok_def hd_ok_def)
  show "view ?s = view s" by (rule ll_rw_write_inv(2) [OF inv b(1) assms(3)])
  show "cnts ?s = cnts s" by (simp add: eq cnts_def fun_eq_iff)
  then show "held ?s = held s" using res b(3) by (auto simp: held_def hashed_def fun_eq_iff eq)
qed

text \<open>A block without unwritten changes: what clients see of it is what the disk has.\<close>

definition clean_blk :: "'z buf_state_scheme \<Rightarrow> nat \<Rightarrow> bool" where
  "clean_blk s k \<longleftrightarrow> (\<forall>b\<in>hashed s. b_blocknr (heads s b) = k \<longrightarrow> \<not> b_dirt (heads s b))"

lemma clean_disk:
  assumes inv: "cache_inv s" and c: "clean_blk s k"
  shows "disk_block s k = view s k"
proof (cases "\<exists>b\<in>hashed s. b_blocknr (heads s b) = k \<and> b_uptodate (heads s b)")
  case True
  then obtain b where b: "b \<in> hashed s" "b_blocknr (heads s b) = k" "b_uptodate (heads s b)" by blast
  then show ?thesis using view_hit [OF inv b(1,3)] cache_invD(7) [OF inv b(1)] c by (auto simp: clean_blk_def coherent_def)
next
  case False
  then show ?thesis by (intro view_miss [symmetric]) blast
qed

lemma clean_transfer:
  assumes "clean_blk s k" and "\<And>b. b \<in> hashed s' \<Longrightarrow> b_blocknr (heads s' b) = k \<Longrightarrow> b_dirt (heads s' b) \<Longrightarrow>
      b \<in> hashed s \<and> b_blocknr (heads s b) = k \<and> b_dirt (heads s b)"
  shows "clean_blk s' k"
  using assms unfolding clean_blk_def by blast

lemma getblk_clean:
  assumes inv: "cache_inv s" and free: "\<exists>b<NR_BUFFERS. cnt s b = 0" and blk: "blk_ok s blk"
    and g: "getblk ROOT_DEV blk s = Some (b, t)" and c: "clean_blk s k"
  shows "clean_blk t k"
proof (cases "\<exists>b\<in>hashed s. b_blocknr (heads s b) = blk")
  case True
  then obtain d where d: "d \<in> hashed s" "b_blocknr (heads s d) = blk" by blast
  have "t = upd_head d (b_count_update (\<lambda>c. c + 1)) s" using getblk_hit [OF inv d(1)] d(2) g by simp
  then show ?thesis using c by (auto simp: clean_blk_def hashed_def split: if_splits)
next
  case False
  then have new: "\<And>c. c \<in> hashed s \<Longrightarrow> b_blocknr (heads s c) \<noteq> blk" by blast
  obtain b' t' d where m: "getblk ROOT_DEV blk s = Some (b', t')" "core (heads t' b') = (d, blk, ROOT_DEV, False, False, 1)"
    "\<And>c. c \<noteq> b' \<Longrightarrow> core (heads t' c) = core (heads s c)"
    using getblk_miss [OF inv free blk new] by metis
  have e: "b' = b" "t' = t" using m(1) g by auto
  show ?thesis
  proof (rule clean_transfer [OF c])
    fix x assume x: "x \<in> hashed t" "b_blocknr (heads t x) = k" "b_dirt (heads t x)"
    then have "x \<noteq> b" using m(2) e by (auto simp: core_def)
    with m(3) [of x] e x show "x \<in> hashed s \<and> b_blocknr (heads s x) = k \<and> b_dirt (heads s x)" by (auto simp: core_def hashed_def)
  qed
qed

lemma bread_clean:
  assumes "bc_ok s" and "pins (cnts s) < 255" and blk: "blk_ok s blk" and r: "bread ROOT_DEV blk s = Some (Some b, s')" and c: "clean_blk s k"
  shows "clean_blk s' k"
proof -
  have inv: "cache_inv s" using assms(1) by (simp add: bc_ok_def)
  note free = pins_free [OF assms(2)]
  obtain b' t where g: "getblk ROOT_DEV blk s = Some (b', t)" "cache_inv t" "b' \<in> hashed t"
    by (rule getblk_spec [OF inv free blk]) (rule that)
  have ct: "clean_blk t k" by (rule getblk_clean [OF inv free blk g(1) c])
  show ?thesis
  proof (cases "b_uptodate (heads t b')")
    case True
    then have "s' = t" using r g(1) by (simp add: bread_def)
    with ct show ?thesis by simp
  next
    case False
    note L = ll_rw_read_inv [OF g(2,3) False]
    have "s' = ll_rw_block READ b' t" using r g(1) False
      by (auto simp: bread_def wait_on_buffer_def bind_eq_Some_conv split: if_splits)
    moreover have "clean_blk (ll_rw_block READ b' t) k"
    proof (rule clean_transfer [OF ct])
      fix x assume x: "x \<in> hashed (ll_rw_block READ b' t)" "b_blocknr (heads (ll_rw_block READ b' t) x) = k"
        "b_dirt (heads (ll_rw_block READ b' t) x)"
      then have "x \<noteq> b'" using L(9) by auto
      with L(3) L(5) [of x] x show "x \<in> hashed t \<and> b_blocknr (heads t x) = k \<and> b_dirt (heads t x)" by simp
    qed
    ultimately show ?thesis by simp
  qed
qed

lemma brelse_clean:
  assumes "bc_ok s" and "b < NR_BUFFERS" and "brelse (Some b) s = Some s'" and c: "clean_blk s k"
  shows "clean_blk s' k"
proof -
  have inv: "cache_inv s" using assms(1) by (simp add: bc_ok_def)
  obtain t where t: "brelse (Some b) s = Some t" "\<And>c. c \<noteq> b \<Longrightarrow> core (heads t c) = core (heads s c)" "hashed t = hashed s"
    "b_blocknr (heads t b) = b_blocknr (heads s b)" "b_dirt (heads t b) = b_dirt (heads s b)"
    by (rule brelse_spec [OF inv assms(2)]) (rule that)
  have e: "s' = t" using t(1) assms(3) by simp
  show ?thesis unfolding e
  proof (rule clean_transfer [OF c])
    fix x assume x: "x \<in> hashed t" "b_blocknr (heads t x) = k" "b_dirt (heads t x)"
    with t(2) [of x] t(3-5) show "x \<in> hashed s \<and> b_blocknr (heads s x) = k \<and> b_dirt (heads s x)" by (cases "x = b") (auto simp: core_def)
  qed
qed

text \<open>Writing a block through leaves it clean, whatever was stored into it before.\<close>

lemma write_through_clean:
  assumes "bc_ok s" and "held s b blk" and "k = blk \<or> clean_blk s k"
  shows "clean_blk (ll_rw_block WRITE b (bput b d s)) k"
proof -
  let ?t = "bput b d s" and ?u = "ll_rw_block WRITE b (bput b d s)"
  note P = bput_client [OF assms(1,2), of d]
  have inv: "cache_inv ?t" "hd_ok ?t" using P(1) by (auto simp: bc_ok_def)
  have b: "b \<in> hashed ?t" "b_blocknr (heads ?t b) = blk" "b_dirt (heads ?t b)" "b < NR_BUFFERS"
    using assms(2) by (auto simp: held_def hashed_def bput_def)
  have nb: "\<not> b_dirt (heads ?u b)" by (rule ll_rw_write_inv(3) [OF inv(1) b(1,3) inv(2)])
  have "b_wait (heads ?t b) = 0" using cache_invD(5) [OF inv(1) b(4)] by simp
  then obtain w S e u where eq: "?u = ?t\<lparr>hd_waits := w, hd_sectors := S, heads := (heads ?t)
     (b := (heads ?t b)\<lparr>b_dirt := e, b_uptodate := u, b_lock := False, b_wait := 0\<rparr>)\<rparr>"
    by (rule ll_rw_write [OF _ cache_invD(6) [OF inv(1) b(1)]]) (rule that)
  have ho: "heads ?u x = heads s x" if "x \<noteq> b" for x using that by (simp add: eq) (simp add: bput_def)
  have "x \<in> hashed s \<and> b_blocknr (heads s x) = k \<and> b_dirt (heads s x) \<and> x \<noteq> b"
    if "x \<in> hashed ?u" "b_blocknr (heads ?u x) = k" "b_dirt (heads ?u x)" for x
    using that nb ho [of x] by (cases "x = b") (auto simp: hashed_def)
  moreover have "x = b" if "x \<in> hashed s" "b_blocknr (heads s x) = blk" for x
    using cache_invD(3) [of s x b] that assms(1,2) by (auto simp: bc_ok_def held_def)
  ultimately show ?thesis using assms(3) unfolding clean_blk_def by blast
qed

definition num_ok :: "u32 \<Rightarrow> bool" where
  "num_ok nr \<longleftrightarrow> nr \<noteq> 0 \<and> nr \<le> 0x10000"

definition disk_inode :: "(nat \<Rightarrow> bytes) \<Rightarrow> super_block \<Rightarrow> u32 \<Rightarrow> d_inode" where
  "disk_inode V sb nr = get_dinode (V (inode_block sb nr)) (SIZEOF_D_INODE * inode_offset nr)"

lemma num_ok_block: "num_ok nr \<Longrightarrow> inode_block sb nr \<le> 200000"
proof -
  assume "num_ok nr"
  then have "unat (nr - 1) = unat nr - 1" "unat nr \<le> 65536"
    by (auto simp: num_ok_def unat_minus_one word_le_nat_alt)
  moreover have "unat (nr - 1) div (BLOCK_SIZE div SIZEOF_D_INODE) \<le> unat (nr - 1)" by simp
  ultimately show ?thesis
    unfolding inode_block_def using unat_u16_less [of "s_imap_blocks sb"] unat_u16_less [of "s_zmap_blocks sb"] by linarith
qed

lemma inode_offset_fits: "SIZEOF_D_INODE * inode_offset nr + 32 \<le> BLOCK_SIZE"
proof -
  have "inode_offset nr < 32" unfolding inode_offset_def SIZEOF_D_INODE_def BLOCK_SIZE_def by simp
  then show ?thesis by (simp add: SIZEOF_D_INODE_def BLOCK_SIZE_def)
qed

lemma inode_place_inj:
  assumes "inode_block sb m = inode_block sb n" "inode_offset m = inode_offset n"
  shows "m = n"
proof -
  have "unat (m - 1) = unat (n - 1)"
    using assms by (auto simp: inode_block_def inode_offset_def intro: div_mod_inj)
  then show ?thesis by (metis diff_add_cancel word_unat_eq_iff)
qed

definition put_inode :: "super_block \<Rightarrow> u32 \<Rightarrow> d_inode \<Rightarrow> (nat \<Rightarrow> bytes) \<Rightarrow> nat \<Rightarrow> bytes" where
  "put_inode sb nr di V = V(inode_block sb nr :=
     put_dinode di (SIZEOF_D_INODE * inode_offset nr) (V (inode_block sb nr)))"

lemma disk_inode_put:
  assumes "length (di_zone di) = 9"
  shows "disk_inode (put_inode sb nr di V) sb nr' = (if nr' = nr then di else disk_inode V sb nr')"
proof (cases "nr' = nr")
  case True
  then show ?thesis using assms by (simp add: disk_inode_def put_inode_def get_put_dinode)
next
  case False
  have "disk_inode (put_inode sb nr di V) sb nr' = disk_inode V sb nr'"
  proof (cases "inode_block sb nr' = inode_block sb nr")
    case b: True
    then have "inode_offset nr' \<noteq> inode_offset nr" using False inode_place_inj by blast
    then have "SIZEOF_D_INODE * inode_offset nr' + 32 \<le> SIZEOF_D_INODE * inode_offset nr \<or>
        SIZEOF_D_INODE * inode_offset nr + 32 \<le> SIZEOF_D_INODE * inode_offset nr'"
      by (simp add: SIZEOF_D_INODE_def) linarith
    then show ?thesis unfolding disk_inode_def put_inode_def b
      by (intro get_dinode_eqI) (auto intro!: put_dinode_other)
  next
    case b: False
    then show ?thesis by (simp add: disk_inode_def put_inode_def)
  qed
  with False show ?thesis by simp
qed

lemma upd_inode_simps [simp]:
  fixes s :: "'z fs_state_scheme"
  shows "inode_table (upd_inode n f s) = (inode_table s)(n := f (inode_table s n))"
    "super_tab (upd_inode n f s) = super_tab s" "dcache (upd_inode n f s) = dcache s"
    "bc_ok (upd_inode n f s) = bc_ok s" "view (upd_inode n f s) = view s" "cnts (upd_inode n f s) = cnts s"
    "held (upd_inode n f s) = held s" "blk_ok (upd_inode n f s) = blk_ok s" "disk_fits (upd_inode n f s) = disk_fits s"
    "heads (upd_inode n f s) = heads s" "mounted (upd_inode n f s) = mounted s" "get_super dev (upd_inode n f s) = get_super dev s"
    "current (upd_inode n f s) = current s" "tstruct (upd_inode n f s) = tstruct s" "fs_state.more (upd_inode n f s) = fs_state.more s"
    "keep (upd_inode n f s) = upd_inode n f (keep s)" "clean_blk (upd_inode n f s) = clean_blk s"
  by (simp_all add: upd_inode_def mounted_def get_super_def clean_blk_def hashed_def fun_eq_iff)

lemma length_dinode_zone [simp]: "length (di_zone (dinode_of ip)) = 9"
  by (simp add: dinode_of_def)

lemma dinode_of_load [simp]:
  assumes "length (di_zone di) = 9"
  shows "dinode_of (load_dinode di ip) = di"
proof -
  have "map (\<lambda>k. if k < 9 then di_zone di ! k else i_zone ip k) [0..<9] = map ((!) (di_zone di)) [0..<9]" by simp
  then show ?thesis using length_9 [OF assms] by (simp add: dinode_of_def load_dinode_def)
qed

lemma length_disk_inode [simp]: "length (di_zone (disk_inode V sb nr)) = 9"
  by (simp add: disk_inode_def get_dinode_def)

lemma write_inode_spec:
  fixes s :: "'z fs_state_scheme"
  assumes "mounted s" and "pins (cnts s) < 255" and "i_dev (inode_table s n) = ROOT_DEV"
    and "num_ok (i_num (inode_table s n))" and "i_dirt (inode_table s n)"
  defines "ip \<equiv> inode_table s n"
  obtains s' where "write_inode n s = Some s'" "mounted s'" "cnts s' = cnts s"
    "view s' = put_inode (super_tab s 0) (i_num ip) (dinode_of ip) (view s)"
    "keep s' = keep (upd_inode n (\<lambda>ip. ip\<lparr>i_dirt := False\<rparr>) s)"
    "\<And>c k. held s c k \<Longrightarrow> held s' c k"
    "\<And>k. k = inode_block (super_tab s 0) (i_num ip) \<or> clean_blk s k \<Longrightarrow> clean_blk s' k"
proof -
  let ?blk = "inode_block (super_tab s 0) (i_num ip)" and ?p = "SIZEOF_D_INODE * inode_offset (i_num ip)"
  have m: "bc_ok s" "disk_fits s" using assms(1) by (auto simp: mounted_def)
  have bk: "blk_ok s ?blk" using num_ok_block assms(4) ip_def by (intro disk_fits_blk [OF m(2)]) auto
  then obtain b s1 where rd: "bread ROOT_DEV ?blk s = Some (Some b, s1)"
    and dat: "blk_of (b_data (heads s1 b)) = view s ?blk"
    and a: "bc_ok s1" "view s1 = view s" "keep s1 = keep s" "held s1 b ?blk" "cnts s1 = (cnts s)(b := cnts s b + 1)"
      "\<And>c k. held s c k \<Longrightarrow> held s1 c k"
    by (rule bc.access [OF m(1) assms(2)]) (rule that)
  let ?d = "put_dinode (dinode_of (inode_table s1 n)) ?p (b_data (heads s1 b))"
  have t1: "inode_table s1 = inode_table s" using keep_tablesD [OF a(3)] by simp
  note P = bc.put [OF a(1,4), of ?d, simplified]
  have dirt: "b_dirt (heads (bput b ?d s1) b)" by (simp add: bput_def)
  have h: "held (bput b ?d s1) b ?blk" using P a(4) by simp
  note W = write_through_client [OF conjunct1 [OF P] h dirt]
  let ?s2 = "ll_rw_block WRITE b (bput b ?d s1)"
  have "\<exists>s3. brelse (Some b) ?s2 = Some s3 \<and> bc.settles s s3 ((view s)(?blk := blk_of ?d))"
    using W P a by (intro bc.release [where blk = ?blk]) auto
  then obtain s3 where s3: "brelse (Some b) ?s2 = Some s3" "bc.settles s s3 ((view s)(?blk := blk_of ?d))" by blast
  note S = settlesD [OF s3(2)]
  have cl: "clean_blk s3 k" if "k = ?blk \<or> clean_blk s k" for k
    using that bread_clean [OF m(1) assms(2) bk rd, of k] write_through_clean [OF a(1,4), of k ?d]
    by (intro brelse_clean [OF W(1) held_less [OF h] s3(1)]) blast
  have "write_inode n s = Some (upd_inode n (\<lambda>ip. ip\<lparr>i_dirt := False\<rparr>) s3)"
    using rd s3(1) assms(3,5) mounted_super [OF assms(1)] by (simp add: write_inode_def ip_def ROOT_DEV_def)
  then show ?thesis
  proof (rule that)
    show "mounted (upd_inode n (\<lambda>ip. ip\<lparr>i_dirt := False\<rparr>) s3)" using mounted_keep [OF assms(1) S(1,4)] by simp
    show "view (upd_inode n (\<lambda>ip. ip\<lparr>i_dirt := False\<rparr>) s3) = put_inode (super_tab s 0) (i_num ip) (dinode_of ip) (view s)"
      using S(2) dat t1 by (simp add: put_inode_def blk_of_put_dinode [OF inode_offset_fits] ip_def)
    show "keep (upd_inode n (\<lambda>ip. ip\<lparr>i_dirt := False\<rparr>) s3) = keep (upd_inode n (\<lambda>ip. ip\<lparr>i_dirt := False\<rparr>) s)"
      using S(4) by simp
    show "clean_blk (upd_inode n (\<lambda>ip. ip\<lparr>i_dirt := False\<rparr>) s3) k"
      if "k = inode_block (super_tab s 0) (i_num ip) \<or> clean_blk s k" for k using cl [OF that] by simp
  qed (use S in simp_all)
qed

lemma read_inode_spec:
  fixes s :: "'z fs_state_scheme"
  assumes "mounted s" and "pins (cnts s) < 255" and "i_dev (inode_table s n) = ROOT_DEV"
    and "num_ok (i_num (inode_table s n))"
  defines "ip \<equiv> inode_table s n"
  obtains s' where "read_inode n s = Some s'" "mounted s'" "cnts s' = cnts s" "view s' = view s"
    "keep s' = keep (upd_inode n (load_dinode (disk_inode (view s) (super_tab s 0) (i_num ip))) s)"
    "\<And>c k. held s c k \<Longrightarrow> held s' c k"
proof -
  let ?blk = "inode_block (super_tab s 0) (i_num ip)" and ?p = "SIZEOF_D_INODE * inode_offset (i_num ip)"
  have m: "bc_ok s" "disk_fits s" using assms(1) by (auto simp: mounted_def)
  have "blk_ok s ?blk" using num_ok_block assms(4) ip_def by (intro disk_fits_blk [OF m(2)]) auto
  then obtain b s1 where rd: "bread ROOT_DEV ?blk s = Some (Some b, s1)"
    and dat: "blk_of (b_data (heads s1 b)) = view s ?blk"
    and a: "bc_ok s1" "view s1 = view s" "keep s1 = keep s" "held s1 b ?blk" "cnts s1 = (cnts s)(b := cnts s b + 1)"
      "\<And>c k. held s c k \<Longrightarrow> held s1 c k"
    by (rule bc.access [OF m(1) assms(2)]) (rule that)
  let ?f = "load_dinode (get_dinode (b_data (heads s1 b)) ?p)"
  have f: "?f = load_dinode (disk_inode (view s) (super_tab s 0) (i_num ip))"
    using get_dinode_blk_of [OF inode_offset_fits, of "b_data (heads s1 b)" "i_num ip"] dat by (simp add: disk_inode_def)
  have "\<exists>s3. brelse (Some b) (upd_inode n ?f s1) = Some s3 \<and> bc.settles (upd_inode n ?f s) s3 (view s)"
    using a by (intro bc.release [where blk = ?blk]) auto
  then obtain s3 where s3: "brelse (Some b) (upd_inode n ?f s1) = Some s3" "bc.settles (upd_inode n ?f s) s3 (view s)" by blast
  note S = settlesD [OF s3(2)]
  have "read_inode n s = Some s3"
    using rd s3(1) assms(3) mounted_super [OF assms(1)] by (simp add: read_inode_def ip_def ROOT_DEV_def)
  then show ?thesis
  proof (rule that)
    show "mounted s3" using mounted_keep [OF _ S(1,4)] assms(1) by simp
    show "keep s3 = keep (upd_inode n (load_dinode (disk_inode (view s) (super_tab s 0) (i_num ip))) s)"
      using S(4) f by simp
  qed (use S in simp_all)
qed

subsection \<open>The inode table as a write-back cache\<close>

abbreviation holds_inode :: "'z fs_state_scheme \<Rightarrow> nat \<Rightarrow> u32 \<Rightarrow> bool" where
  "holds_inode s i nr \<equiv> i_dev (inode_table s i) = ROOT_DEV \<and> i_num (inode_table s i) = nr"

definition abs_inode :: "'z fs_state_scheme \<Rightarrow> u32 \<Rightarrow> d_inode" where
  "abs_inode s nr = (case find_inode ROOT_DEV nr s of
     Some i \<Rightarrow> dinode_of (inode_table s i) | None \<Rightarrow> disk_inode (view s) (super_tab s 0) nr)"

definition slot_ok :: "(nat \<Rightarrow> bytes) \<Rightarrow> super_block \<Rightarrow> m_inode \<Rightarrow> bool" where
  "slot_ok V sb ip \<longleftrightarrow> (i_dev ip \<noteq> 0 \<longrightarrow> i_dev ip = ROOT_DEV \<and> num_ok (i_num ip) \<and> \<not> i_lock ip \<and>
     (\<not> i_dirt ip \<longrightarrow> dinode_of ip = disk_inode V sb (i_num ip)))"

definition itable_ok :: "'z fs_state_scheme \<Rightarrow> bool" where
  "itable_ok s \<longleftrightarrow> mounted s \<and> (\<forall>i<NR_INODE. slot_ok (view s) (super_tab s 0) (inode_table s i)) \<and>
     (\<forall>i<NR_INODE. \<forall>j<NR_INODE. \<forall>nr. holds_inode s i nr \<and> holds_inode s j nr \<longrightarrow> i = j)"

lemma itable_okD:
  assumes "itable_ok s"
  shows "mounted s" "\<And>i. i < NR_INODE \<Longrightarrow> slot_ok (view s) (super_tab s 0) (inode_table s i)"
    "\<And>i j. i < NR_INODE \<Longrightarrow> j < NR_INODE \<Longrightarrow> holds_inode s i nr \<Longrightarrow> holds_inode s j nr \<Longrightarrow> i = j"
  using assms unfolding itable_ok_def by blast+

lemma find_inode_SomeD:
  "find_inode dev nr s = Some i \<Longrightarrow> i < NR_INODE \<and> i_dev (inode_table s i) = dev \<and> i_num (inode_table s i) = nr"
  unfolding find_inode_def by (auto dest: scan_SomeD)

lemma find_inode_NoneD:
  "find_inode dev nr s = None \<Longrightarrow> i < NR_INODE \<Longrightarrow> \<not> (i_dev (inode_table s i) = dev \<and> i_num (inode_table s i) = nr)"
  unfolding find_inode_def by (simp add: scan_None_iff)

lemma abs_inode_slot: "itable_ok s \<Longrightarrow> i < NR_INODE \<Longrightarrow> holds_inode s i nr \<Longrightarrow> abs_inode s nr = dinode_of (inode_table s i)"
proof (cases "find_inode ROOT_DEV nr s")
  case None
  assume "i < NR_INODE" "holds_inode s i nr"
  with find_inode_NoneD [OF None] show ?thesis by blast
next
  case (Some j)
  assume "itable_ok s" "i < NR_INODE" "holds_inode s i nr"
  with find_inode_SomeD [OF Some] have "j = i" by (intro itable_okD(3) [of s]) auto
  with Some show ?thesis by (simp add: abs_inode_def)
qed

lemma abs_inode_disk: "(\<And>i. i < NR_INODE \<Longrightarrow> \<not> holds_inode s i nr) \<Longrightarrow> abs_inode s nr = disk_inode (view s) (super_tab s 0) nr"
  by (cases "find_inode ROOT_DEV nr s") (auto simp: abs_inode_def dest: find_inode_SomeD)

text \<open>
  The two changes the table makes: a slot is written back, and a clean slot is given to another inode.
\<close>

lemma slot_written:
  fixes s s' :: "'z fs_state_scheme"
  assumes "itable_ok s" "i < NR_INODE" "holds_inode s i nr" "mounted s'" "super_tab s' = super_tab s"
    and v: "view s' = put_inode (super_tab s 0) nr (dinode_of (inode_table s i)) (view s)"
    and t: "inode_table s' = (inode_table s)(i := (inode_table s i)\<lparr>i_dirt := False\<rparr>)"
  shows "itable_ok s'" "abs_inode s' m = abs_inode s m"
proof -
  let ?sb = "super_tab s 0"
  have same: "dinode_of (inode_table s' j) = dinode_of (inode_table s j)" "i_dev (inode_table s' j) = i_dev (inode_table s j)"
    "i_num (inode_table s' j) = i_num (inode_table s j)" "i_lock (inode_table s' j) = i_lock (inode_table s j)" for j
    by (simp_all add: t dinode_of_def)
  have disk: "disk_inode (view s') ?sb k = (if k = nr then dinode_of (inode_table s i) else disk_inode (view s) ?sb k)" for k
    by (simp add: v disk_inode_put)
  have "slot_ok (view s') ?sb (inode_table s' j)" if "j < NR_INODE" for j
  proof (cases "j = i")
    case True
    then show ?thesis using itable_okD(2) [OF assms(1,2)] assms(3) same [of i] by (auto simp: slot_ok_def disk)
  next
    case False
    have "i_num (inode_table s j) \<noteq> nr" if "i_dev (inode_table s j) = ROOT_DEV"
      using itable_okD(3) [OF assms(1) \<open>j < NR_INODE\<close> assms(2) _ assms(3)] that False by blast
    with False itable_okD(2) [OF assms(1) that] show ?thesis by (auto simp: slot_ok_def disk t)
  qed
  then show ok': "itable_ok s'"
    using assms(1,4) unfolding itable_ok_def same assms(5) by blast
  show "abs_inode s' m = abs_inode s m"
  proof (cases "\<exists>j<NR_INODE. holds_inode s j m")
    case True
    then obtain j where j: "j < NR_INODE" "holds_inode s j m" by blast
    then have "holds_inode s' j m" by (simp add: same)
    with j ok' assms(1) show ?thesis by (simp add: abs_inode_slot same)
  next
    case False
    then have "m \<noteq> nr" using assms(2,3) by blast
    with False show ?thesis by (simp add: abs_inode_disk same disk assms(5))
  qed
qed

lemma slot_reused:
  fixes s s' :: "'z fs_state_scheme"
  assumes "itable_ok s" "i < NR_INODE" "num_ok nr" "mounted s'" "super_tab s' = super_tab s" "view s' = view s"
    and free: "\<And>j. j < NR_INODE \<Longrightarrow> \<not> holds_inode s j nr"
    and clean: "i_dev (inode_table s i) \<noteq> 0 \<Longrightarrow> \<not> i_dirt (inode_table s i)"
    and t: "inode_table s' = (inode_table s)(i := ip)" "i_dev ip = ROOT_DEV" "i_num ip = nr" "\<not> i_lock ip"
    and d: "dinode_of ip = disk_inode (view s) (super_tab s 0) nr"
  shows "itable_ok s'" "abs_inode s' m = abs_inode s m"
proof -
  have "slot_ok (view s') (super_tab s' 0) (inode_table s' j)" if "j < NR_INODE" for j
    using itable_okD(2) [OF assms(1) that] assms(3,5,6) d t(2,3,4) by (auto simp: slot_ok_def t(1))
  moreover have "j = k" if "j < NR_INODE" "k < NR_INODE" "holds_inode s' j n" "holds_inode s' k n" for j k n
    using that free [of j] free [of k] itable_okD(3) [OF assms(1) that(1,2)] t by (auto split: if_splits)
  ultimately show ok': "itable_ok s'" using assms(4) unfolding itable_ok_def by blast
  show "abs_inode s' m = abs_inode s m"
  proof (cases "m = nr")
    case True
    have "abs_inode s' nr = dinode_of ip" using abs_inode_slot [OF ok' assms(2), of nr] t by simp
    moreover have "abs_inode s nr = dinode_of ip" using abs_inode_disk [of s nr] free d by simp
    ultimately show ?thesis using True by simp
  next
    case False
    show ?thesis
    proof (cases "\<exists>j<NR_INODE. holds_inode s j m")
      case True
      then obtain j where j: "j < NR_INODE" "holds_inode s j m" by blast
      show ?thesis
      proof (cases "j = i")
        case ji: True
        have "\<not> holds_inode s' k m" if "k < NR_INODE" for k
          using that j ji itable_okD(3) [OF assms(1) that j(1)] t False by auto
        then have "abs_inode s' m = disk_inode (view s) (super_tab s 0) m" by (simp add: abs_inode_disk assms(5,6))
        moreover have "dinode_of (inode_table s j) = disk_inode (view s) (super_tab s 0) (i_num (inode_table s j))"
        proof -
          have "i_dev (inode_table s j) \<noteq> 0" using j by (simp add: ROOT_DEV_def)
          with itable_okD(2) [OF assms(1) j(1)] clean ji show ?thesis unfolding slot_ok_def by blast
        qed
        then have "abs_inode s m = disk_inode (view s) (super_tab s 0) m"
          using abs_inode_slot [OF assms(1) j] j by simp
        with calculation show ?thesis by simp
      next
        case ji: False
        then have "holds_inode s' j m" using j t by simp
        with j ji ok' assms(1) show ?thesis by (simp add: abs_inode_slot t(1))
      qed
    next
      case none: False
      then have "\<not> holds_inode s' k m" if "k < NR_INODE" for k using that t False by auto
      with none show ?thesis by (simp add: abs_inode_disk assms(5,6))
    qed
  qed
qed

lemma flush_slot:
  fixes s :: "'z fs_state_scheme"
  assumes "itable_ok s" "pins (cnts s) < 255" "i < NR_INODE"
  obtains s' where "(if i_dirt (inode_table s i) then write_inode i s else Some s) = Some s'" "itable_ok s'"
    "\<And>m. abs_inode s' m = abs_inode s m" "cnts s' = cnts s" "super_tab s' = super_tab s"
    "\<And>j. j \<noteq> i \<Longrightarrow> inode_table s' j = inode_table s j"
    "i_dev (inode_table s' i) \<noteq> 0 \<Longrightarrow> \<not> i_dirt (inode_table s' i)"
    "i_dev (inode_table s' i) = i_dev (inode_table s i)" "i_num (inode_table s' i) = i_num (inode_table s i)"
    "\<exists>f. keep s' = keep (upd_inode i f s)"
    "\<And>c k. held s c k \<Longrightarrow> held s' c k"
    "\<And>k. i_dirt (inode_table s i) \<and> i_dev (inode_table s i) \<noteq> 0 \<and> k = inode_block (super_tab s 0) (i_num (inode_table s i)) \<or>
       clean_blk s k \<Longrightarrow> clean_blk s' k"
proof (cases "i_dirt (inode_table s i) \<and> i_dev (inode_table s i) \<noteq> 0")
  case True
  note ok = itable_okD [OF assms(1)]
  have sl: "i_dev (inode_table s i) = ROOT_DEV" "num_ok (i_num (inode_table s i))"
    using ok(2) [OF assms(3)] True by (auto simp: slot_ok_def)
  obtain s' where w: "write_inode i s = Some s'" "mounted s'" "cnts s' = cnts s"
    "view s' = put_inode (super_tab s 0) (i_num (inode_table s i)) (dinode_of (inode_table s i)) (view s)"
    "keep s' = keep (upd_inode i (\<lambda>ip. ip\<lparr>i_dirt := False\<rparr>) s)" "\<And>c k. held s c k \<Longrightarrow> held s' c k"
    "\<And>k. k = inode_block (super_tab s 0) (i_num (inode_table s i)) \<or> clean_blk s k \<Longrightarrow> clean_blk s' k"
    by (rule write_inode_spec [OF ok(1) assms(2) sl]) (use True in blast, rule that)
  have k: "inode_table s' = (inode_table s)(i := (inode_table s i)\<lparr>i_dirt := False\<rparr>)" "super_tab s' = super_tab s"
    using keep_tablesD [OF w(5)] by simp_all
  have h: "holds_inode s i (i_num (inode_table s i))" using sl by simp
  note sw = slot_written [OF assms(1,3) h w(2) k(2) w(4) k(1)]
  show ?thesis by (rule that [of s']) (use True w sw k in auto)
next
  case False
  then have "(if i_dirt (inode_table s i) then write_inode i s else Some s) = Some s" by (auto simp: write_inode_def)
  moreover have "\<exists>f. keep s = keep (upd_inode i f s)" by (rule exI [of _ id]) (simp add: upd_inode_def)
  ultimately show ?thesis using False assms(1) by (intro that [of s]) auto
qed

lemma iget_spec:
  fixes s :: "'z fs_state_scheme"
  assumes "itable_ok s" "pins (cnts s) < 255" "num_ok nr"
  obtains r s' where "iget ROOT_DEV nr s = Some (r, s')" "itable_ok s'" "\<And>m. abs_inode s' m = abs_inode s m"
    "cnts s' = cnts s" "super_tab s' = super_tab s" "\<And>c k. held s c k \<Longrightarrow> held s' c k"
    "r = None \<Longrightarrow> s' = s \<and> find_inode ROOT_DEV nr s = None \<and> (\<forall>i<NR_INODE. i_count (inode_table s i) \<noteq> 0)"
    "\<And>i. r = Some i \<Longrightarrow> i < NR_INODE \<and> holds_inode s' i nr \<and> dinode_of (inode_table s' i) = abs_inode s nr \<and>
       (\<forall>j. j \<noteq> i \<longrightarrow> inode_table s' j = inode_table s j) \<and> (\<exists>f. keep s' = keep (upd_inode i f s)) \<and>
       (if holds_inode s i nr then inode_table s' i = (inode_table s i)\<lparr>i_count := i_count (inode_table s i) + 1\<rparr> \<and> view s' = view s
        else i_count (inode_table s i) = 0 \<and> i_count (inode_table s' i) = 1)"
proof (cases "find_inode ROOT_DEV nr s")
  case (Some i)
  let ?s' = "upd_inode i (\<lambda>ip. ip\<lparr>i_count := i_count ip + 1\<rparr>) s"
  note F = find_inode_SomeD [OF Some]
  have lock: "\<not> i_lock (inode_table s i)"
    using itable_okD(2) [OF assms(1), of i] F by (auto simp: slot_ok_def ROOT_DEV_def)
  have same: "dinode_of (inode_table ?s' j) = dinode_of (inode_table s j)" "i_dev (inode_table ?s' j) = i_dev (inode_table s j)"
    "i_num (inode_table ?s' j) = i_num (inode_table s j)" "i_lock (inode_table ?s' j) = i_lock (inode_table s j)"
    "i_dirt (inode_table ?s' j) = i_dirt (inode_table s j)" for j
    by (simp_all add: dinode_of_def)
  have ok: "itable_ok ?s'" using assms(1) unfolding itable_ok_def slot_ok_def same by simp
  have "find_inode ROOT_DEV m ?s' = find_inode ROOT_DEV m s" for m unfolding find_inode_def same ..
  then have ab: "abs_inode ?s' m = abs_inode s m" for m
    unfolding abs_inode_def same(1) by (simp split: option.split)
  have "iget ROOT_DEV nr s = Some (Some i, ?s')" using Some lock by (simp add: iget_def wait_on_inode_def)
  moreover have "dinode_of (inode_table ?s' i) = abs_inode s nr" unfolding same(1) using Some by (simp add: abs_inode_def)
  ultimately show ?thesis using F ok ab by (intro that [of "Some i" ?s']) auto
next
  case None
  note N = find_inode_NoneD [OF None]
  show ?thesis
  proof (cases "free_slot s")
    case full: None
    then have "\<forall>i<NR_INODE. i_count (inode_table s i) \<noteq> 0" by (simp add: free_slot_def scan_None_iff)
    moreover have "iget ROOT_DEV nr s = Some (None, s)" using None full by (simp add: iget_def)
    ultimately show ?thesis using None assms(1) by (intro that [of None s]) auto
  next
    case (Some i)
    then have i: "i < NR_INODE" "i_count (inode_table s i) = 0" unfolding free_slot_def by (auto dest: scan_SomeD)
    obtain s1 f where s1: "(if i_dirt (inode_table s i) then write_inode i s else Some s) = Some s1" "itable_ok s1"
      "\<And>m. abs_inode s1 m = abs_inode s m" "cnts s1 = cnts s" "super_tab s1 = super_tab s"
      "\<And>j. j \<noteq> i \<Longrightarrow> inode_table s1 j = inode_table s j"
      "i_dev (inode_table s1 i) \<noteq> 0 \<Longrightarrow> \<not> i_dirt (inode_table s1 i)"
      "i_dev (inode_table s1 i) = i_dev (inode_table s i)" "i_num (inode_table s1 i) = i_num (inode_table s i)"
      "keep s1 = keep (upd_inode i f s)" "\<And>c k. held s c k \<Longrightarrow> held s1 c k"
      by (rule flush_slot [OF assms(1,2) i(1)]) (erule exE, rule that)
    let ?g = "\<lambda>ip. ip\<lparr>i_count := 1, i_dev := ROOT_DEV, i_num := nr, i_lock := True,
       i_dirt := False, i_wait := 0, i_pipe := False, i_mount := 0, i_seek := 0, i_update := 0\<rparr>"
    let ?s2 = "upd_inode i ?g s1"
    have p2: "mounted ?s2" "pins (cnts ?s2) < 255" "i_dev (inode_table ?s2 i) = ROOT_DEV" "num_ok (i_num (inode_table ?s2 i))"
      using itable_okD(1) [OF s1(2)] s1(4) assms(2,3) by simp_all
    let ?di = "disk_inode (view s1) (super_tab s1 0) nr"
    obtain s3 where s3': "read_inode i ?s2 = Some s3" "mounted s3" "cnts s3 = cnts ?s2" "view s3 = view ?s2"
      "keep s3 = keep (upd_inode i (load_dinode (disk_inode (view ?s2) (super_tab ?s2 0) (i_num (inode_table ?s2 i)))) ?s2)"
      "\<And>c k. held ?s2 c k \<Longrightarrow> held s3 c k"
      by (rule read_inode_spec [OF p2]) (rule that)
    then have s3: "read_inode i ?s2 = Some s3" "mounted s3" "cnts s3 = cnts s" "view s3 = view s1"
      "keep s3 = keep (upd_inode i (load_dinode ?di) ?s2)" "\<And>c k. held s1 c k \<Longrightarrow> held s3 c k"
      using s1(4) by simp_all
    have t3: "inode_table s3 = (inode_table s1)(i := load_dinode ?di (?g (inode_table s1 i)))" "super_tab s3 = super_tab s1"
      using keep_tablesD [OF s3(5)] by simp_all
    let ?h = "\<lambda>ip. ip\<lparr>i_lock := False, i_wait := 0\<rparr>"
    let ?s4 = "upd_inode i ?h s3"
    have s4: "upd_inode i (\<lambda>ip. ip\<lparr>i_wait := 0\<rparr>) (upd_inode i (\<lambda>ip. ip\<lparr>i_lock := False\<rparr>) s3) = ?s4"
      by (simp add: upd_inode_def)
    have get: "iget ROOT_DEV nr s = Some (Some i, ?s4)"
      using None Some s1(1) s3(1) t3(1) by (simp add: iget_def Let_def s4 load_dinode_def)
    have t4: "inode_table ?s4 = (inode_table s1)(i := ?h (load_dinode ?di (?g (inode_table s1 i))))" by (simp add: t3)
    have free: "\<not> holds_inode s1 j nr" if "j < NR_INODE" for j
      using N [OF that] s1(6) [of j] s1(8,9) by (cases "j = i") auto
    have di: "dinode_of (?h (load_dinode ?di (?g (inode_table s1 i)))) = ?di"
    proof -
      have "dinode_of (?h ip) = dinode_of ip" for ip by (simp add: dinode_of_def)
      then show ?thesis by (simp add: dinode_of_load)
    qed
    have m4: "mounted ?s4" using s3(2) by simp
    have st4: "super_tab ?s4 = super_tab s1" "view ?s4 = view s1" using t3(2) s3(4) by simp_all
    have ip4: "i_dev (?h (load_dinode ?di (?g (inode_table s1 i)))) = ROOT_DEV"
      "i_num (?h (load_dinode ?di (?g (inode_table s1 i)))) = nr" "\<not> i_lock (?h (load_dinode ?di (?g (inode_table s1 i))))"
      by (simp_all add: load_dinode_def)
    have R: "itable_ok ?s4" "\<And>m. abs_inode ?s4 m = abs_inode s1 m"
      using slot_reused [OF s1(2) i(1) assms(3) m4 st4 free s1(7) t4 ip4 di] by blast+
    have "holds_inode ?s4 i nr" unfolding t4 using ip4(1,2) by simp
    from abs_inode_slot [OF R(1) i(1) this] have "abs_inode s nr = dinode_of (inode_table ?s4 i)"
      unfolding R(2) s1(3) .
    note ab = this
    have ke: "\<exists>f. keep ?s4 = keep (upd_inode i f s)"
    proof -
      have "keep ?s4 = upd_inode i ?h (upd_inode i (load_dinode ?di) (upd_inode i ?g (upd_inode i f (keep s))))"
        using s3(5) s1(10) by simp
      then have "keep ?s4 = keep (upd_inode i (?h \<circ> load_dinode ?di \<circ> ?g \<circ> f) s)" by (simp add: upd_inode_def)
      then show ?thesis by blast
    qed
    have other: "\<forall>j. j \<noteq> i \<longrightarrow> inode_table ?s4 j = inode_table s j" unfolding t4 using s1(6) by simp
    have c4: "i_count (inode_table ?s4 i) = 1" unfolding t4 by (simp add: load_dinode_def)
    show ?thesis
    proof (rule that)
      show "iget ROOT_DEV nr s = Some (Some i, ?s4)" by (rule get)
      show "itable_ok ?s4" by (rule R(1))
      show "abs_inode ?s4 m = abs_inode s m" for m unfolding R(2) by (rule s1(3))
      show "cnts ?s4 = cnts s" "super_tab ?s4 = super_tab s" using s3(3) t3(2) s1(5) by simp_all
      show "held s c k \<Longrightarrow> held ?s4 c k" for c k using s3(6) s1(11) by simp
      show "Some i = None \<Longrightarrow> ?s4 = s \<and> find_inode ROOT_DEV nr s = None \<and> (\<forall>i<NR_INODE. i_count (inode_table s i) \<noteq> 0)" by simp
      fix j assume "Some i = Some j"
      then have j: "j = i" by simp
      show "j < NR_INODE \<and> holds_inode ?s4 j nr \<and> dinode_of (inode_table ?s4 j) = abs_inode s nr \<and>
         (\<forall>k. k \<noteq> j \<longrightarrow> inode_table ?s4 k = inode_table s k) \<and> (\<exists>f. keep ?s4 = keep (upd_inode j f s)) \<and>
         (if holds_inode s j nr then inode_table ?s4 j = (inode_table s j)\<lparr>i_count := i_count (inode_table s j) + 1\<rparr> \<and> view ?s4 = view s
          else i_count (inode_table s j) = 0 \<and> i_count (inode_table ?s4 j) = 1)"
        unfolding j using N [OF i(1)] i \<open>holds_inode ?s4 i nr\<close> ab [symmetric] ke other c4 by (simp only: if_False simp_thms)
    qed
  qed
qed

lemma ROOT_DEV_nonzero: "ROOT_DEV \<noteq> 0"
  by (simp add: ROOT_DEV_def)

lemma sync_inodes_spec:
  fixes s :: "'z fs_state_scheme"
  assumes "itable_ok s" "pins (cnts s) < 255"
  obtains s' where "sync_inodes ROOT_DEV s = Some s'" "itable_ok s'" "\<And>m. abs_inode s' m = abs_inode s m" "cnts s' = cnts s"
    "\<And>i. i < NR_INODE \<Longrightarrow> i_dev (inode_table s' i) = ROOT_DEV \<Longrightarrow> \<not> i_dirt (inode_table s' i)" "super_tab s' = super_tab s"
    "\<And>i. i < NR_INODE \<Longrightarrow> i_dev (inode_table s i) = ROOT_DEV \<Longrightarrow> i_dirt (inode_table s i) \<Longrightarrow>
       clean_blk s' (inode_block (super_tab s 0) (i_num (inode_table s i)))"
    "\<And>k. clean_blk s k \<Longrightarrow> clean_blk s' k"
proof -
  let ?body = "\<lambda>i (s :: 'z fs_state_scheme).
     if i_dev (inode_table s i) = ROOT_DEV \<and> i_dirt (inode_table s i) then write_inode i s else Some s"
  let ?I = "\<lambda>k t. itable_ok t \<and> (\<forall>m. abs_inode t m = abs_inode s m) \<and> cnts t = cnts s \<and>
     (\<forall>i<k. i_dev (inode_table t i) = ROOT_DEV \<longrightarrow> \<not> i_dirt (inode_table t i)) \<and> super_tab t = super_tab s \<and>
     (\<forall>i\<ge>k. inode_table t i = inode_table s i) \<and> (\<forall>j. clean_blk s j \<longrightarrow> clean_blk t j) \<and>
     (\<forall>i<k. i_dev (inode_table s i) = ROOT_DEV \<longrightarrow> i_dirt (inode_table s i) \<longrightarrow>
        clean_blk t (inode_block (super_tab s 0) (i_num (inode_table s i))))"
  have "\<exists>s'. for_range 0 NR_INODE ?body s = Some s' \<and> ?I NR_INODE s'"
  proof (rule for_range_rule [where I = ?I])
    show "?I 0 s" "0 \<le> NR_INODE" using assms(1) by simp_all
    fix k and t :: "'z fs_state_scheme" assume k: "k < NR_INODE" and I: "?I k t"
    then have i: "itable_ok t" "\<forall>m. abs_inode t m = abs_inode s m" "cnts t = cnts s"
      "\<forall>i<k. i_dev (inode_table t i) = ROOT_DEV \<longrightarrow> \<not> i_dirt (inode_table t i)" "super_tab t = super_tab s"
      "\<forall>i\<ge>k. inode_table t i = inode_table s i" "\<forall>j. clean_blk s j \<longrightarrow> clean_blk t j"
      "\<forall>i<k. i_dev (inode_table s i) = ROOT_DEV \<longrightarrow> i_dirt (inode_table s i) \<longrightarrow>
        clean_blk t (inode_block (super_tab s 0) (i_num (inode_table s i)))" by blast+
    have t: "itable_ok t" "pins (cnts t) < 255" using i(1,3) assms(2) by simp_all
    obtain t' f where t': "(if i_dirt (inode_table t k) then write_inode k t else Some t) = Some t'" "itable_ok t'"
      "\<And>m. abs_inode t' m = abs_inode t m" "cnts t' = cnts t" "super_tab t' = super_tab t"
      "\<And>j. j \<noteq> k \<Longrightarrow> inode_table t' j = inode_table t j"
      "i_dev (inode_table t' k) \<noteq> 0 \<Longrightarrow> \<not> i_dirt (inode_table t' k)"
      "i_dev (inode_table t' k) = i_dev (inode_table t k)" "i_num (inode_table t' k) = i_num (inode_table t k)"
      "keep t' = keep (upd_inode k f t)" "\<And>c k. held t c k \<Longrightarrow> held t' c k"
      "\<And>j. i_dirt (inode_table t k) \<and> i_dev (inode_table t k) \<noteq> 0 \<and> j = inode_block (super_tab t 0) (i_num (inode_table t k)) \<or>
         clean_blk t j \<Longrightarrow> clean_blk t' j"
      by (rule flush_slot [OF t k]) (erule exE, rule that)
    have dev: "i_dev (inode_table t k) = 0 \<or> i_dev (inode_table t k) = ROOT_DEV"
      using itable_okD(2) [OF t(1) k] by (auto simp: slot_ok_def)
    have "?body k t = Some t'"
      using t'(1) dev by (auto simp: write_inode_def ROOT_DEV_def split: if_splits)
    moreover have "?I (Suc k) t'"
    proof (intro conjI)
      have tk: "inode_table t k = inode_table s k" using i(6) by simp
      show "itable_ok t'" by (rule t'(2))
      show "\<forall>m. abs_inode t' m = abs_inode s m" "cnts t' = cnts s" "super_tab t' = super_tab s" using i(2,3,5) t'(3-5) by simp_all
      show "\<forall>i<Suc k. i_dev (inode_table t' i) = ROOT_DEV \<longrightarrow> \<not> i_dirt (inode_table t' i)"
        using i(4) t'(6,7) by (auto simp: less_Suc_eq ROOT_DEV_nonzero)
      show "\<forall>i\<ge>Suc k. inode_table t' i = inode_table s i" using i(6) t'(6) by simp
      show "\<forall>j. clean_blk s j \<longrightarrow> clean_blk t' j" using i(7) t'(12) by blast
      show "\<forall>i<Suc k. i_dev (inode_table s i) = ROOT_DEV \<longrightarrow> i_dirt (inode_table s i) \<longrightarrow>
        clean_blk t' (inode_block (super_tab s 0) (i_num (inode_table s i)))"
      proof (intro allI impI)
        fix j assume j: "j < Suc k" "i_dev (inode_table s j) = ROOT_DEV" "i_dirt (inode_table s j)"
        show "clean_blk t' (inode_block (super_tab s 0) (i_num (inode_table s j)))"
          by (rule t'(12), cases "j = k") (use j tk i(5,8) in \<open>simp_all add: ROOT_DEV_nonzero\<close>)
      qed
    qed
    ultimately show "\<exists>s'. ?body k t = Some s' \<and> ?I (Suc k) s'" by blast
  qed
  then obtain s' where "for_range 0 NR_INODE ?body s = Some s'" and I: "?I NR_INODE s'" by blast
  then have "sync_inodes ROOT_DEV s = Some s'" by (simp add: sync_inodes_def)
  then show ?thesis by (rule that) (use I in simp_all)
qed

lemma boot_itable: "itable_ok (boot_fs m)"
  using boot_fs_facts(1) [of m] by (auto simp: itable_ok_def boot_fs_tables slot_ok_def zero_inode_def ROOT_DEV_def)

subsection \<open>Properties\<close>

text \<open>A machine whose root directory was modified and has no users.\<close>

definition dirty_root :: "'z \<Rightarrow> 'z fs_state_scheme" where
  "dirty_root m = upd_inode 0 (\<lambda>ip. ip\<lparr>i_dev := ROOT_DEV, i_num := 1, i_nlinks := 3, i_dirt := True\<rparr>) (boot_fs m)"

lemma dirty_root_facts:
  "inode_table (dirty_root ()) = (\<lambda>_. zero_inode)(0 := zero_inode\<lparr>i_dev := ROOT_DEV, i_num := 1, i_nlinks := 3, i_dirt := True\<rparr>)"
  "itable_ok (dirty_root ())" "pins (cnts (dirty_root ())) < 255"
proof -
  show t: "inode_table (dirty_root ()) = (\<lambda>_. zero_inode)(0 := zero_inode\<lparr>i_dev := ROOT_DEV, i_num := 1, i_nlinks := 3, i_dirt := True\<rparr>)"
    by (simp add: dirty_root_def boot_fs_tables)
  have "mounted (dirty_root ())" by (simp add: dirty_root_def boot_fs_facts)
  then show "itable_ok (dirty_root ())" by (auto simp: itable_ok_def t slot_ok_def zero_inode_def num_ok_def ROOT_DEV_def)
  show "pins (cnts (dirty_root ())) < 255" by (simp add: dirty_root_def boot_fs_facts)
qed

text \<open>
  C12. The inode table is a coherent write-back cache of the inodes on disk. \<open>iget\<close> returns on a
  well-formed table, whatever slot it recycles: every inode of the file system keeps its value,
  and no buffer reference is left behind. It fails only when the inode is in no slot and all 64
  slots are in use. On success the slot holds the requested inode with its current value, its
  use count is one higher (or 1 in a recycled slot that had no users), and no other slot changed.
\<close>

theorem iget_refines:
  fixes s :: "'z fs_state_scheme"
  assumes "itable_ok s" and "pins (cnts s) < 255" and "num_ok nr"
  shows "\<exists>r s'. iget ROOT_DEV nr s = Some (r, s') \<and> itable_ok s' \<and> (\<forall>m. abs_inode s' m = abs_inode s m) \<and>
    cnts s' = cnts s \<and>
    (case r of
       None \<Rightarrow> s' = s \<and> find_inode ROOT_DEV nr s = None \<and> (\<forall>i<NR_INODE. i_count (inode_table s i) \<noteq> 0)
     | Some i \<Rightarrow> i < NR_INODE \<and> holds_inode s' i nr \<and> dinode_of (inode_table s' i) = abs_inode s nr \<and>
         (\<forall>j. j \<noteq> i \<longrightarrow> inode_table s' j = inode_table s j) \<and>
         (if holds_inode s i nr then i_count (inode_table s' i) = i_count (inode_table s i) + 1
          else i_count (inode_table s i) = 0 \<and> i_count (inode_table s' i) = 1))"
proof -
  obtain r s' where g: "iget ROOT_DEV nr s = Some (r, s')" "itable_ok s'" "\<And>m. abs_inode s' m = abs_inode s m"
    "cnts s' = cnts s" "super_tab s' = super_tab s" "\<And>c k. held s c k \<Longrightarrow> held s' c k"
    "r = None \<Longrightarrow> s' = s \<and> find_inode ROOT_DEV nr s = None \<and> (\<forall>i<NR_INODE. i_count (inode_table s i) \<noteq> 0)"
    "\<And>i. r = Some i \<Longrightarrow> i < NR_INODE \<and> holds_inode s' i nr \<and> dinode_of (inode_table s' i) = abs_inode s nr \<and>
       (\<forall>j. j \<noteq> i \<longrightarrow> inode_table s' j = inode_table s j) \<and> (\<exists>f. keep s' = keep (upd_inode i f s)) \<and>
       (if holds_inode s i nr then inode_table s' i = (inode_table s i)\<lparr>i_count := i_count (inode_table s i) + 1\<rparr> \<and> view s' = view s
        else i_count (inode_table s i) = 0 \<and> i_count (inode_table s' i) = 1)"
    by (rule iget_spec [OF assms]) (rule that)
  show ?thesis
  proof (cases r)
    case None
    with g show ?thesis by simp
  next
    case (Some i)
    with g(1,2,3,4) g(8) [OF Some] show ?thesis by (auto split: if_splits)
  qed
qed

theorem iget_refines_witness:
  "\<exists>s' i. iget ROOT_DEV 1 (boot_fs ()) = Some (Some i, s') \<and> i_count (inode_table s' i) = 1 \<and>
     (\<forall>m. abs_inode s' m = abs_inode (boot_fs ()) m)"
proof -
  have p: "pins (cnts (boot_fs ())) < 255" by (simp add: boot_fs_facts)
  have n: "num_ok 1" by (simp add: num_ok_def)
  have z: "i_count (inode_table (boot_fs ()) i) = 0" "i_dev (inode_table (boot_fs ()) i) = 0" for i
    by (simp_all add: boot_fs_tables zero_inode_def)
  have "(0 :: nat) < NR_INODE" by (simp add: NR_INODE_def)
  with iget_refines [OF boot_itable p n] z show ?thesis
    by (auto split: option.splits simp: ROOT_DEV_def)
qed

text \<open>
  C13. After \<open>sync_inodes\<close> no inode of the root file system is dirty and no client sees a different
  value than before. Every inode that was dirty is on the disk itself, in the sectors of its block of
  the inode table, with the value it had in memory; and what reads through the block cache of any
  inode is its current value.
\<close>

theorem sync_inodes_flushes:
  fixes s :: "'z fs_state_scheme"
  assumes "itable_ok s" and "pins (cnts s) < 255"
  shows "\<exists>s'. sync_inodes ROOT_DEV s = Some s' \<and> itable_ok s' \<and> cnts s' = cnts s \<and>
    (\<forall>i<NR_INODE. i_dev (inode_table s' i) = ROOT_DEV \<longrightarrow> \<not> i_dirt (inode_table s' i)) \<and>
    (\<forall>m. disk_inode (view s') (super_tab s' 0) m = abs_inode s m \<and> abs_inode s' m = abs_inode s m) \<and>
    (\<forall>i<NR_INODE. i_dev (inode_table s i) = ROOT_DEV \<and> i_dirt (inode_table s i) \<longrightarrow>
       disk_inode (disk_block s') (super_tab s' 0) (i_num (inode_table s i)) = dinode_of (inode_table s i))"
proof -
  obtain s' where s': "sync_inodes ROOT_DEV s = Some s'" "itable_ok s'" "\<And>m. abs_inode s' m = abs_inode s m" "cnts s' = cnts s"
    "\<And>i. i < NR_INODE \<Longrightarrow> i_dev (inode_table s' i) = ROOT_DEV \<Longrightarrow> \<not> i_dirt (inode_table s' i)" "super_tab s' = super_tab s"
    "\<And>i. i < NR_INODE \<Longrightarrow> i_dev (inode_table s i) = ROOT_DEV \<Longrightarrow> i_dirt (inode_table s i) \<Longrightarrow>
       clean_blk s' (inode_block (super_tab s 0) (i_num (inode_table s i)))"
    by (rule sync_inodes_spec [OF assms]) (rule that)
  have "disk_inode (view s') (super_tab s' 0) m = abs_inode s' m" for m
  proof (cases "find_inode ROOT_DEV m s'")
    case (Some i)
    note F = find_inode_SomeD [OF Some]
    have "i_dev (inode_table s' i) \<noteq> 0" using F by (simp add: ROOT_DEV_def)
    with itable_okD(2) [OF s'(2), of i] s'(5) F
    have "dinode_of (inode_table s' i) = disk_inode (view s') (super_tab s' 0) (i_num (inode_table s' i))"
      unfolding slot_ok_def by blast
    then show ?thesis using F Some by (simp add: abs_inode_def)
  qed (simp add: abs_inode_def)
  note seen = this
  have inv: "cache_inv s'" using itable_okD(1) [OF s'(2)] by (simp add: mounted_def bc_ok_def)
  have "disk_inode (disk_block s') (super_tab s' 0) (i_num (inode_table s i)) = dinode_of (inode_table s i)"
    if i: "i < NR_INODE" "i_dev (inode_table s i) = ROOT_DEV" "i_dirt (inode_table s i)" for i
  proof -
    have "disk_inode (disk_block s') (super_tab s' 0) (i_num (inode_table s i)) = abs_inode s (i_num (inode_table s i))"
      using clean_disk [OF inv s'(7) [OF i]] seen s'(3,6) by (simp add: disk_inode_def)
    also have "\<dots> = dinode_of (inode_table s i)" using abs_inode_slot [OF assms(1) i(1)] i(2) by simp
    finally show ?thesis .
  qed
  then show ?thesis using s'(1-5) seen by auto
qed

theorem sync_inodes_flushes_witness:
  "\<exists>s'. sync_inodes ROOT_DEV (dirty_root ()) = Some s' \<and> (\<forall>m. abs_inode s' m = abs_inode (dirty_root ()) m) \<and>
     di_nlinks (disk_inode (disk_block s') (super_tab s' 0) 1) = 3"
proof -
  have "(0 :: nat) < NR_INODE" "i_dev (inode_table (dirty_root ()) 0) = ROOT_DEV \<and> i_dirt (inode_table (dirty_root ()) 0)"
    "i_num (inode_table (dirty_root ()) 0) = 1" "di_nlinks (dinode_of (inode_table (dirty_root ()) 0)) = 3"
    by (simp_all add: dirty_root_facts(1) NR_INODE_def dinode_of_def)
  with sync_inodes_flushes [OF dirty_root_facts(2,3)] show ?thesis by metis
qed

text \<open>
  C14. \<open>get_empty_inode\<close> lacks the flush that \<open>iget\<close> has. When the first slot without users holds a
  modified inode, making a pipe drops the modification: the inode reverts to its value on disk.
\<close>

theorem get_empty_inode_loses_update:
  fixes s :: "'z fs_state_scheme"
  assumes "itable_ok s" and "free_slot s = Some i" and "holds_inode s i nr" and "i_dirt (inode_table s i)"
  shows "\<exists>s'. get_empty_inode s = (Some i, s') \<and> abs_inode s nr = dinode_of (inode_table s i) \<and>
    abs_inode s' nr = disk_inode (view s) (super_tab s 0) nr"
proof -
  have i: "i < NR_INODE" using assms(2) unfolding free_slot_def by (auto dest: scan_SomeD)
  obtain s' where g: "get_empty_inode s = (Some i, s')" using assms(2) by (simp add: get_empty_inode_def)
  have t: "inode_table s' = (inode_table s)(i := inode_table s' i)" "i_dev (inode_table s' i) = 0" "view s' = view s"
    "super_tab s' = super_tab s"
    using g assms(2) by (auto simp: get_empty_inode_def)
  have "\<not> holds_inode s' j nr" if "j < NR_INODE" for j
  proof (cases "j = i")
    case False
    then have "inode_table s' j = inode_table s j" using fun_cong [OF t(1), of j] by simp
    then show ?thesis using itable_okD(3) [OF assms(1) that i _ assms(3)] False by auto
  qed (simp add: t(2) ROOT_DEV_def)
  then have "abs_inode s' nr = disk_inode (view s) (super_tab s 0) nr" by (simp add: abs_inode_disk t(3,4))
  with g abs_inode_slot [OF assms(1) i assms(3)] show ?thesis by blast
qed

theorem get_empty_inode_loses_update_witness:
  "\<exists>s'. get_empty_inode (dirty_root ()) = (Some 0, s') \<and> di_nlinks (abs_inode (dirty_root ()) 1) = 3 \<and>
     di_nlinks (abs_inode s' 1) = 0"
proof -
  note t = dirty_root_facts(1) and ok = dirty_root_facts(2)
  have f: "free_slot (dirty_root ()) = Some 0"
    unfolding free_slot_def by (rule scan_eq_Some) (auto simp: t zero_inode_def NR_INODE_def)
  have h: "holds_inode (dirty_root ()) 0 1" and d: "i_dirt (inode_table (dirty_root ()) 0)" by (simp_all add: t)
  have "di_nlinks (disk_inode (view (dirty_root ())) sb 1) = 0" for sb
    by (simp add: disk_inode_def get_dinode_def dirty_root_def boot_fs_facts)
  with get_empty_inode_loses_update [OF ok f h d] show ?thesis by (auto simp: t dinode_of_def)
qed

end
