(* ===== verification/File_Dev.thy ===== *)
theory File_Dev
  imports Inode
begin

text \<open>
  Regular files: \<open>file_read\<close> and \<open>file_write\<close> of \<open>fs/file_dev.c\<close>. The bytes of the caller's address
  space are a function \<open>um\<close> of the address (\<open>get_fs_byte\<close>); the bytes a call stores with
  \<open>put_fs_byte\<close> are returned as a list, to be placed from the caller's buffer address on. A file has
  seven direct zones and one block of 512 indirect ones; an index outside that block is an access
  outside the buffer, for which the model has no value.
\<close>

type_synonym umem = "u32 \<Rightarrow> byte"

definition NR_DIRECT :: nat where "NR_DIRECT = 7"
definition NR_INDIRECT :: nat where "NR_INDIRECT = 512"

text \<open>The bytes one round of either loop transfers.\<close>

definition chunk :: "u32 \<Rightarrow> int \<Rightarrow> int" where
  "chunk pos count = min (int (BLOCK_SIZE - unat pos mod BLOCK_SIZE)) count"

definition read_chunk :: "u32 \<Rightarrow> int \<Rightarrow> u32 \<Rightarrow> int" where
  "read_chunk pos count sz = min (chunk pos count) (sint (sz - pos))"

subsection \<open>Reading\<close>

text \<open>The zone of block \<open>zo\<close> of the file, 0 for a hole; \<open>None\<close> inside is the loop's \<open>break\<close>.\<close>

definition read_zone :: "nat \<Rightarrow> nat \<Rightarrow> 'z fs_state_scheme \<Rightarrow> (nat option \<times> 'z fs_state_scheme) option" where
  "read_zone n zo s =
     (let ip = inode_table s n
      in if zo < NR_DIRECT then Some (Some (unat (i_zone ip zo)), s)
         else if i_zone ip 7 = 0 then Some (Some 0, s)
         else do {
           (bh, s) \<leftarrow> bread (i_dev ip) (unat (i_zone ip 7)) s;
           case bh of
             None \<Rightarrow> Some (None, s)
           | Some b \<Rightarrow>
               if zo - NR_DIRECT \<ge> NR_INDIRECT then None
               else let z = get16 (b_data (heads s b)) (2 * (zo - NR_DIRECT))
                    in do { s \<leftarrow> brelse (Some b) s; Some (Some (unat z), s) } })"

fun file_read_loop :: "nat \<Rightarrow> nat \<Rightarrow> u32 \<Rightarrow> int \<Rightarrow> int \<Rightarrow> byte list \<Rightarrow> 'z fs_state_scheme \<Rightarrow>
    (int \<times> byte list \<times> 'z fs_state_scheme) option" where
  "file_read_loop 0 n pos count result out s =
     (if count > 0 \<and> pos < i_size (inode_table s n) then None else Some (result, out, s))"
| "file_read_loop (Suc fuel) n pos count result out s =
     (if count > 0 \<and> pos < i_size (inode_table s n)
      then do {
        (z, s) \<leftarrow> read_zone n (unat pos div BLOCK_SIZE) s;
        case z of
          None \<Rightarrow> Some (result, out, s)
        | Some block \<Rightarrow>
            let sz = read_chunk pos count (i_size (inode_table s n))
            in if block = 0
               then file_read_loop fuel n (pos + of_int sz) (count - sz) (result + sz)
                      (out @ replicate (nat sz) 0) s
               else do {
                 (bh, s) \<leftarrow> bread (i_dev (inode_table s n)) block s;
                 case bh of
                   None \<Rightarrow> Some (result, out, s)
                 | Some b \<Rightarrow>
                     let src = map (\<lambda>k. b_data (heads s b) (unat pos mod BLOCK_SIZE + k)) [0..<nat sz]
                     in do { s \<leftarrow> brelse (Some b) s;
                             file_read_loop fuel n (pos + of_int sz) (count - sz) (result + sz)
                               (out @ src) s } } }
      else Some (result, out, s))"

definition file_read :: "nat \<Rightarrow> u32 \<Rightarrow> int \<Rightarrow> 'z fs_state_scheme \<Rightarrow>
    (int \<times> byte list \<times> 'z fs_state_scheme) option" where
  "file_read n f_pos count s = file_read_loop (nat count) n f_pos count 0 [] s"

subsection \<open>Writing\<close>

definition write_zone :: "nat \<Rightarrow> nat \<Rightarrow> 'z fs_state_scheme \<Rightarrow> (nat option \<times> 'z fs_state_scheme) option" where
  "write_zone n zo s =
     (if zo < NR_DIRECT
      then if i_zone (inode_table s n) zo \<noteq> 0 then Some (Some (unat (i_zone (inode_table s n) zo)), s)
           else do {
             (z, s) \<leftarrow> new_block (i_dev (inode_table s n)) s;
             let s = upd_inode n (\<lambda>ip. ip\<lparr>i_zone := (i_zone ip)(zo := of_nat z)\<rparr>) s;
             if i_zone (inode_table s n) zo = 0 then Some (None, s)
             else Some (Some (unat (i_zone (inode_table s n) zo)), upd_inode n (\<lambda>ip. ip\<lparr>i_dirt := True\<rparr>) s) }
      else do {
        (ind, s) \<leftarrow> (if i_zone (inode_table s n) 7 \<noteq> 0 then Some (i_zone (inode_table s n) 7, s)
                     else do {
                       (z, s) \<leftarrow> new_block (i_dev (inode_table s n)) s;
                       if (of_nat z :: u16) = 0 then Some (0, s)
                       else Some (of_nat z, upd_inode n (\<lambda>ip. ip\<lparr>i_zone := (i_zone ip)(7 := of_nat z),
                              i_dirt := True\<rparr>) s) });
        if ind = 0 then Some (None, s)
        else do {
          (bh, s) \<leftarrow> bread (i_dev (inode_table s n)) (unat ind) s;
          case bh of
            None \<Rightarrow> Some (None, s)
          | Some b \<Rightarrow>
              if zo - NR_DIRECT \<ge> NR_INDIRECT then None
              else let z = get16 (b_data (heads s b)) (2 * (zo - NR_DIRECT))
                   in if z \<noteq> 0 then do { s \<leftarrow> brelse (Some b) s; Some (Some (unat z), s) }
                      else do {
                        (z, s) \<leftarrow> new_block (i_dev (inode_table s n)) s;
                        if (of_nat z :: u16) = 0
                        then do { s \<leftarrow> brelse (Some b) s; Some (None, s) }
                        else do {
                          s \<leftarrow> brelse (Some b) (bput b (put16 (2 * (zo - NR_DIRECT)) (of_nat z)
                                 (b_data (heads s b))) s);
                          Some (Some (unat (of_nat z :: u16)), s) } } } })"

definition copy_in :: "umem \<Rightarrow> u32 \<Rightarrow> nat \<Rightarrow> nat \<Rightarrow> bytes \<Rightarrow> bytes" where
  "copy_in um buf off sz d = (\<lambda>k. if off \<le> k \<and> k < off + sz then um (buf + of_nat (k - off)) else d k)"

fun file_write_loop :: "umem \<Rightarrow> nat \<Rightarrow> nat \<Rightarrow> u32 \<Rightarrow> u32 \<Rightarrow> int \<Rightarrow> int \<Rightarrow> 'z fs_state_scheme \<Rightarrow>
    (int \<times> 'z fs_state_scheme) option" where
  "file_write_loop um 0 n pos buf count result s = (if count > 0 then None else Some (result, s))"
| "file_write_loop um (Suc fuel) n pos buf count result s =
     (if count > 0
      then do {
        (z, s) \<leftarrow> write_zone n (unat pos div BLOCK_SIZE) s;
        case z of
          None \<Rightarrow> Some (result, s)
        | Some block \<Rightarrow>
            if block = 0 then Some (result, s)
            else do {
              (bh, s) \<leftarrow> bread (i_dev (inode_table s n)) block s;
              case bh of
                None \<Rightarrow> Some (result, s)
              | Some b \<Rightarrow> do {
                  let sz = chunk pos count;
                  s \<leftarrow> brelse (Some b) (bput b (copy_in um (buf + of_int result) (unat pos mod BLOCK_SIZE)
                         (nat sz) (b_data (heads s b))) s);
                  let pos = pos + of_int sz;
                  let s = (if pos > i_size (inode_table s n)
                           then upd_inode n (\<lambda>ip. ip\<lparr>i_size := pos, i_dirt := True\<rparr>) s else s);
                  file_write_loop um fuel n pos buf (count - sz) (result + sz) s } } }
      else Some (result, s))"

definition file_write :: "umem \<Rightarrow> nat option \<Rightarrow> u32 \<Rightarrow> u32 \<Rightarrow> int \<Rightarrow> 'z fs_state_scheme \<Rightarrow>
    (int \<times> 'z fs_state_scheme) option" where
  "file_write um inode f_pos buf count s =
     (case inode of None \<Rightarrow> Some (0, s)
      | Some n \<Rightarrow> if buf = 0 then Some (0, s)
                  else file_write_loop um (nat count) n f_pos buf count 0 s)"

subsection \<open>The contents of a file\<close>

text \<open>The zone of block \<open>k\<close> and the byte at position \<open>p\<close> of the file, on the blocks \<open>V\<close> clients see.\<close>

definition zone_at :: "(nat \<Rightarrow> bytes) \<Rightarrow> m_inode \<Rightarrow> nat \<Rightarrow> nat" where
  "zone_at V ip k = (if k < NR_DIRECT then unat (i_zone ip k) else if i_zone ip 7 = 0 then 0
     else unat (get16 (V (unat (i_zone ip 7))) (2 * (k - NR_DIRECT))))"

definition fbyte :: "(nat \<Rightarrow> bytes) \<Rightarrow> m_inode \<Rightarrow> nat \<Rightarrow> byte" where
  "fbyte V ip p = (let z = zone_at V ip (p div BLOCK_SIZE) in if z = 0 then 0 else V z (p mod BLOCK_SIZE))"

definition MAX_FILE :: nat where
  "MAX_FILE = (NR_DIRECT + NR_INDIRECT) * BLOCK_SIZE"

lemmas file_consts = NR_DIRECT_def NR_INDIRECT_def BLOCK_SIZE_def MAX_FILE_def

lemma u16_fits [simp]: "unat (x :: u16) \<le> 200000"
  using unat_u16_less [of x] by linarith

lemma zone_at_less: "zone_at V ip k \<le> 200000"
  by (simp add: zone_at_def)

lemma chunk_bounds:
  assumes "0 < count"
  shows "0 < chunk pos count" "chunk pos count \<le> count" "chunk pos count \<le> 1024"
    "unat pos mod BLOCK_SIZE + nat (chunk pos count) \<le> BLOCK_SIZE"
proof -
  have "unat pos mod BLOCK_SIZE < BLOCK_SIZE" by (simp add: BLOCK_SIZE_def)
  with assms show "0 < chunk pos count" "chunk pos count \<le> count" "chunk pos count \<le> 1024"
    "unat pos mod BLOCK_SIZE + nat (chunk pos count) \<le> BLOCK_SIZE"
    by (auto simp: chunk_def BLOCK_SIZE_def)
qed

lemma sint_small: 
  assumes "unat (x :: u32) < 2147483648"
  shows "sint x = int (unat x)"
proof -
  have "uint x = int (unat x)" by simp
  then have lt: "uint x < 2147483648" "- 2147483648 \<le> uint x" using assms by linarith+
  have "signed_take_bit 31 (uint x) = uint x" by (rule signed_take_bit_int_eq_self) (use lt in simp_all)
  then show ?thesis by (simp add: sint_uint)
qed

lemma read_chunk_eq:
  assumes "0 < count" "pos < isz" "unat isz \<le> MAX_FILE"
  shows "read_chunk pos count isz = min (chunk pos count) (int (unat isz - unat pos))"
proof -
  have "unat (isz - pos) = unat isz - unat pos" using assms(2) by (simp add: unat_sub less_imp_le)
  moreover have "unat isz - unat pos < 2147483648" 
    by (rule less_imp_diff_less) (use assms(3) in \<open>simp add: file_consts\<close>)
  ultimately show ?thesis unfolding read_chunk_def by (metis sint_small)
qed

lemma unat_add_int:
  assumes "0 \<le> k" "unat (p :: u32) + nat k < 4294967296"
  shows "unat (p + of_int k) = unat p + nat k"
proof -
  obtain m where k: "k = int m" using assms(1) nonneg_int_cases by blast
  have "unat p + m < 4294967296" using assms(2) unfolding k by simp
  then show ?thesis by (simp add: k unat_word_ariths unat_of_nat)
qed

lemma read_zone_spec:
  fixes s :: "'z fs_state_scheme"
  assumes "mounted s" "pins (cnts s) < 255" "i_dev (inode_table s n) = ROOT_DEV" "zo < NR_DIRECT + NR_INDIRECT"
  obtains s' where "read_zone n zo s = Some (Some (zone_at (view s) (inode_table s n) zo), s')" "bc.settles s s' (view s)"
proof (cases "zo < NR_DIRECT \<or> i_zone (inode_table s n) 7 = 0")
  case True
  then have "read_zone n zo s = Some (Some (zone_at (view s) (inode_table s n) zo), s)"
    by (auto simp: read_zone_def zone_at_def Let_def)
  moreover have "bc.settles s s (view s)" using assms(1) by (simp add: bc.settles_def mounted_def)
  ultimately show ?thesis by (rule that)
next
  case False
  let ?blk = "unat (i_zone (inode_table s n) 7)" and ?k = "2 * (zo - NR_DIRECT)"
  have m: "bc_ok s" "disk_fits s" using assms(1) by (auto simp: mounted_def)
  have "?blk \<le> 200000" using unat_u16_less [of "i_zone (inode_table s n) 7"] by linarith
  then obtain b s1 where rd: "bread ROOT_DEV ?blk s = Some (Some b, s1)"
    and dat: "blk_of (b_data (heads s1 b)) = view s ?blk"
    and rel: "\<exists>s2. brelse (Some b) s1 = Some s2 \<and> bc.settles s s2 (view s)"
    by (rule bc.access [OF m(1) assms(2) disk_fits_blk [OF m(2)]]) (rule that)
  have k: "?k + 2 \<le> BLOCK_SIZE" using assms(4) False by (simp add: file_consts)
  have "get16 (b_data (heads s1 b)) ?k = get16 (view s ?blk) ?k"
    unfolding dat [symmetric] using k by simp
  moreover obtain s2 where s2: "brelse (Some b) s1 = Some s2" "bc.settles s s2 (view s)" using rel by blast
  ultimately have "read_zone n zo s = Some (Some (zone_at (view s) (inode_table s n) zo), s2)"
    using False rd assms(3,4) by (simp add: read_zone_def zone_at_def Let_def) (simp add: file_consts)
  with s2(2) show ?thesis by (rule that [rotated])
qed

lemma map_upt_split: "a \<le> b \<Longrightarrow> b \<le> c \<Longrightarrow> map f [a..<c] = map f [a..<b] @ map f [b..<c]"
  by (metis le_Suc_ex map_append upt_add_eq_append)

lemma fbyte_block:
  assumes "q mod BLOCK_SIZE + k \<le> BLOCK_SIZE" "zone_at V ip (q div BLOCK_SIZE) = z"
  shows "map (fbyte V ip) [q..<q + k] = (if z = 0 then replicate k 0 else map (\<lambda>j. V z (q mod BLOCK_SIZE + j)) [0..<k])"
proof -
  have "(q + j) div BLOCK_SIZE = q div BLOCK_SIZE \<and> (q + j) mod BLOCK_SIZE = q mod BLOCK_SIZE + j" if "j < k" for j
  proof -
    have lt: "q mod BLOCK_SIZE + j < BLOCK_SIZE" using that assms(1) by simp
    have "q + j = q div BLOCK_SIZE * BLOCK_SIZE + (q mod BLOCK_SIZE + j)" by simp
    then show ?thesis using lt by (metis add.commute div_mult_self3 div_less add_0 mod_mult_self3 mod_less not_less_zero)
  qed
  then have "map (\<lambda>j. fbyte V ip (q + j)) [0..<k] = map (\<lambda>j. if z = 0 then 0 else V z (q mod BLOCK_SIZE + j)) [0..<k]"
    using assms(2) by (intro map_cong) (auto simp: fbyte_def Let_def)
  moreover have "map (fbyte V ip) [q..<q + k] = map (\<lambda>j. fbyte V ip (q + j)) [0..<k]"
    by (rule nth_equalityI) auto
  ultimately have eq: "map (fbyte V ip) [q..<q + k] = map (\<lambda>j. if z = 0 then 0 else V z (q mod BLOCK_SIZE + j)) [0..<k]"
    by simp
  show ?thesis unfolding eq by (simp add: map_replicate_const)
qed

lemma chunk_min:
  fixes q z m B :: nat
  assumes "0 < c" "c \<le> C" "q < z" "m + nat c \<le> B"
  shows "min c (int (z - q)) = int (nat (min c (int (z - q))))" "0 < nat (min c (int (z - q)))"
    "nat (min c (int (z - q))) \<le> nat C" "q + nat (min c (int (z - q))) \<le> z" "m + nat (min c (int (z - q))) \<le> B"
  using assms by auto

lemma file_read_loop_spec:
  fixes s :: "'z fs_state_scheme" and pos :: u32
  assumes "mounted s" "pins (cnts s) < 255" "i_dev (inode_table s n) = ROOT_DEV"
    and "unat (i_size (inode_table s n)) \<le> MAX_FILE" "nat count \<le> fuel"
  defines "ip \<equiv> inode_table s n"
  defines "e \<equiv> min (unat pos + nat count) (unat (i_size ip))"
  shows "\<exists>s'. file_read_loop fuel n pos count result out s =
      Some (result + int (e - unat pos), out @ map (fbyte (view s) ip) [unat pos..<e], s') \<and> bc.settles s s' (view s)"
  using assms(1-5) unfolding e_def ip_def
proof (induction fuel arbitrary: s pos count result out)
  case (0 s)
  then have "bc.settles s s (view s)" by (simp add: bc.settles_def mounted_def)
  with 0 show ?case by auto
next
  case (Suc fuel s pos count result out)
  let ?ip = "inode_table s n"
  let ?isz = "unat (i_size ?ip)" and ?q = "unat pos" and ?m = "bc.settles s"
  show ?case
  proof (cases "count > 0 \<and> pos < i_size ?ip")
    case False
    then have "min (?q + nat count) ?isz \<le> ?q" by (auto simp: word_less_nat_alt)
    moreover have "?m s (view s)" using Suc.prems(1) by (simp add: bc.settles_def mounted_def)
    moreover have "file_read_loop (Suc fuel) n pos count result out s = Some (result, out, s)" using False by auto
    ultimately show ?thesis by simp
  next
    case True
    then have lt: "?q < ?isz" by (simp add: word_less_nat_alt)
    have zo: "?q div BLOCK_SIZE < NR_DIRECT + NR_INDIRECT"
      using lt Suc.prems(4) by (simp add: MAX_FILE_def less_mult_imp_div_less)
    obtain s1 where s1: "read_zone n (?q div BLOCK_SIZE) s = Some (Some (zone_at (view s) ?ip (?q div BLOCK_SIZE)), s1)"
      "?m s1 (view s)" by (rule read_zone_spec [OF Suc.prems(1-3) zo]) (rule that)
    note S1 = settlesD [OF s1(2)]
    have t1: "inode_table s1 = inode_table s" using keep_tablesD [OF S1(4)] by simp
    have m1: "mounted s1" using mounted_keep [OF Suc.prems(1) S1(1,4)] .
    define z where "z = zone_at (view s) ?ip (?q div BLOCK_SIZE)"
    define sz where "sz = read_chunk pos count (i_size ?ip)"
    have sz: "sz = min (chunk pos count) (int (?isz - ?q))"
      unfolding sz_def using True Suc.prems(4) by (intro read_chunk_eq) auto
    define k where "k = nat sz"
    have k: "sz = int k" "0 < k" "k \<le> nat count" "?q + k \<le> ?isz" "?q mod BLOCK_SIZE + k \<le> BLOCK_SIZE"
      unfolding k_def sz by (rule chunk_min [OF chunk_bounds(1,2) lt chunk_bounds(4)]; use True in simp)+
    let ?data = "if z = 0 then replicate k 0 else map (\<lambda>j. view s z (?q mod BLOCK_SIZE + j)) [0..<k]"
    have "\<exists>s2. file_read_loop (Suc fuel) n pos count result out s =
        file_read_loop fuel n (pos + of_int sz) (count - sz) (result + sz) (out @ ?data) s2 \<and> ?m s2 (view s)"
    proof (cases "z = 0")
      case z0: True
      then show ?thesis using True s1 t1 z_def sz_def k_def by (intro exI [of _ s1]) (simp add: Let_def)
    next
      case z0: False
      have "z \<le> 200000" using zone_at_less z_def by simp
      have p1: "pins (cnts s1) < 255" "disk_fits s1" using S1(3) Suc.prems(2) m1 by (simp_all add: mounted_def)
      obtain b s2 where rd: "bread ROOT_DEV z s1 = Some (Some b, s2)" "blk_of (b_data (heads s2 b)) = view s1 z"
        and rel: "\<exists>s3. brelse (Some b) s2 = Some s3 \<and> bc.settles s1 s3 (view s1)"
        by (rule bc.access [OF S1(1) p1(1) disk_fits_blk [OF p1(2) \<open>z \<le> 200000\<close>]]) (rule that)
      obtain s3 where s3: "brelse (Some b) s2 = Some s3" "bc.settles s1 s3 (view s1)" using rel by blast
      have "b_data (heads s2 b) (?q mod BLOCK_SIZE + j) = view s z (?q mod BLOCK_SIZE + j)" if "j < k" for j
        using fun_cong [OF rd(2), of "?q mod BLOCK_SIZE + j"] that k(5) S1(2) by simp
      then have dat: "map (\<lambda>j. b_data (heads s2 b) (?q mod BLOCK_SIZE + j)) [0..<k] = ?data" using z0 by simp
      have "file_read_loop (Suc fuel) n pos count result out s =
          file_read_loop fuel n (pos + of_int sz) (count - sz) (result + sz) (out @ ?data) s3"
        using True s1(1) rd(1) s3(1) z0 t1 Suc.prems(3)
        by (simp add: Let_def z_def [symmetric] sz_def [symmetric] k_def [symmetric] dat del: map_map)
      with bc.settles_trans [OF s1(2)] s3(2) S1(2) show ?thesis by auto
    qed
    then obtain s2 where s2: "file_read_loop (Suc fuel) n pos count result out s =
        file_read_loop fuel n (pos + of_int sz) (count - sz) (result + sz) (out @ ?data) s2" "?m s2 (view s)" by blast
    note S2 = settlesD [OF s2(2)]
    have t2: "inode_table s2 = inode_table s" using keep_tablesD [OF S2(4)] by simp
    have q: "unat (pos + of_int sz) = ?q + k"
      using k(1,4) unat_add_int [of sz pos] Suc.prems(4) by (simp add: file_consts)
    have d: "?data = map (fbyte (view s) ?ip) [?q..<?q + k]" using fbyte_block [OF k(5)] z_def by simp
    have n: "nat (count - sz) = nat count - k" using k(1) by simp
    have prems: "mounted s2" "pins (cnts s2) < 255" "i_dev (inode_table s2 n) = ROOT_DEV"
      "unat (i_size (inode_table s2 n)) \<le> MAX_FILE" "nat (count - sz) \<le> fuel"
      using mounted_keep [OF Suc.prems(1) S2(1,4)] S2(3) Suc.prems(2-5) t2 n k(2,3) by auto
    let ?e = "min (?q + nat count) ?isz"
    have e: "min (?q + k + (nat count - k)) ?isz = ?e" using k(3) by simp
    obtain s3 where s3: "file_read_loop fuel n (pos + of_int sz) (count - sz) (result + sz) (out @ ?data) s2 =
        Some (result + sz + int (?e - (?q + k)), (out @ ?data) @ map (fbyte (view s) ?ip) [?q + k..<?e], s3)"
      "bc.settles s2 s3 (view s)"
      using Suc.IH [OF prems, of "pos + of_int sz" "result + sz" "out @ ?data"] unfolding q n e S2(2) t2 by blast
    have le: "?q + k \<le> ?e" using k by simp
    have "result + sz + int (?e - (?q + k)) = result + int (?e - ?q)" using k(1) le by simp
    moreover have "(out @ ?data) @ map (fbyte (view s) ?ip) [?q + k..<?e] = out @ map (fbyte (view s) ?ip) [?q..<?e]"
      unfolding d using map_upt_split [OF _ le, of ?q "fbyte (view s) ?ip"] by simp
    ultimately show ?thesis using s2 s3 bc.settles_trans [OF s2(2) s3(2)] by auto
  qed
qed

subsection \<open>A well-formed file\<close>

text \<open>
  \<open>file_ok V sb ip\<close>: the zones the inode refers to are distinct, lie in the data area behind the
  bitmap and are marked as used; zone numbers fit in 16 bits.
\<close>

definition zone_used :: "(nat \<Rightarrow> bytes) \<Rightarrow> super_block \<Rightarrow> nat \<Rightarrow> bool" where
  "zone_used V sb z \<longleftrightarrow> unat (s_firstdatazone sb) \<le> z \<and>
     z - unat (s_firstdatazone sb) < unat (s_zmap_blocks sb) * BITS_PER_BLOCK \<and>
     bmap_bit V (zmap_at sb) (z - unat (s_firstdatazone sb))"

definition layout_ok :: "super_block \<Rightarrow> bool" where
  "layout_ok sb \<longleftrightarrow> zmap_at sb + unat (s_zmap_blocks sb) \<le> unat (s_firstdatazone sb) \<and>
     unat (s_firstdatazone sb) + unat (s_zmap_blocks sb) * BITS_PER_BLOCK \<le> 65536"

definition file_zones :: "(nat \<Rightarrow> bytes) \<Rightarrow> m_inode \<Rightarrow> nat set" where
  "file_zones V ip = {z. z \<noteq> 0 \<and> (z = unat (i_zone ip 7) \<or> (\<exists>k < NR_DIRECT + NR_INDIRECT. z = zone_at V ip k))}"

definition file_ok :: "(nat \<Rightarrow> bytes) \<Rightarrow> super_block \<Rightarrow> m_inode \<Rightarrow> bool" where
  "file_ok V sb ip \<longleftrightarrow> (\<forall>z \<in> file_zones V ip. zone_used V sb z) \<and>
     (\<forall>k < NR_DIRECT + NR_INDIRECT. \<forall>l < NR_DIRECT + NR_INDIRECT. zone_at V ip k \<noteq> 0 \<longrightarrow> zone_at V ip k = zone_at V ip l \<longrightarrow> k = l) \<and>
     (\<forall>k < NR_DIRECT + NR_INDIRECT. zone_at V ip k \<noteq> 0 \<longrightarrow> zone_at V ip k \<noteq> unat (i_zone ip 7))"

text \<open>
  What the allocation of block \<open>zo\<close> does to a well-formed file: no other block of the file moves,
  no data block changes, and apart from the bitmap only the indirect block may change.
\<close>

definition zone_added :: "super_block \<Rightarrow> nat \<Rightarrow> (nat \<Rightarrow> bytes) \<Rightarrow> m_inode \<Rightarrow> (nat \<Rightarrow> bytes) \<Rightarrow> m_inode \<Rightarrow> bool" where
  "zone_added sb zo V ip V' ip' \<longleftrightarrow> file_ok V' sb ip' \<and> zone_at V' ip' zo \<noteq> 0 \<and> i_zone ip' 7 = i_zone ip 7 \<and>
     i_size ip' = i_size ip \<and> i_dev ip' = i_dev ip \<and> i_num ip' = i_num ip \<and>
     i_mode ip' = i_mode ip \<and> i_nlinks ip' = i_nlinks ip \<and> i_count ip' = i_count ip \<and>
     (\<forall>k < NR_DIRECT + NR_INDIRECT. k \<noteq> zo \<longrightarrow> zone_at V' ip' k = zone_at V ip k) \<and>
     (zone_at V ip zo \<noteq> 0 \<longrightarrow> zone_at V' ip' zo = zone_at V ip zo) \<and>
     (zone_at V ip zo = 0 \<longrightarrow> \<not> zone_used V sb (zone_at V' ip' zo)) \<and>
     (\<forall>z. (z < zmap_at sb \<or> zmap_at sb + unat (s_zmap_blocks sb) \<le> z) \<and> z \<noteq> unat (i_zone ip 7) \<longrightarrow> V' z = V z) \<and>
     (\<forall>z. zone_used V sb z \<longrightarrow> zone_used V' sb z)"

lemma zone_used_set:
  assumes "unat (s_firstdatazone sb) \<le> z" "z - unat (s_firstdatazone sb) < unat (s_zmap_blocks sb) * BITS_PER_BLOCK"
  shows "zone_used (bmap_set (zmap_at sb) (z - unat (s_firstdatazone sb)) V) sb w \<longleftrightarrow> w = z \<or> zone_used V sb w"
  using assms by (auto simp: zone_used_def bmap_bit_set)

lemma zone_used_cong:
  assumes "\<And>k. zmap_at sb \<le> k \<Longrightarrow> k < zmap_at sb + unat (s_zmap_blocks sb) \<Longrightarrow> V' k = V k"
  shows "zone_used V' sb z = zone_used V sb z"
proof -
  have "(z - unat (s_firstdatazone sb)) div BITS_PER_BLOCK < unat (s_zmap_blocks sb)"
    if "z - unat (s_firstdatazone sb) < unat (s_zmap_blocks sb) * BITS_PER_BLOCK"
    using that by (intro less_mult_imp_div_less)
  then show ?thesis by (auto simp: zone_used_def bmap_bit_def assms)
qed

lemma zone_used_data: "layout_ok sb \<Longrightarrow> zone_used V sb z \<Longrightarrow> zmap_at sb + unat (s_zmap_blocks sb) \<le> z"
  by (auto simp: layout_ok_def zone_used_def)

lemma file_zonesI: "k < NR_DIRECT + NR_INDIRECT \<Longrightarrow> zone_at V ip k \<noteq> 0 \<Longrightarrow> zone_at V ip k \<in> file_zones V ip"
  by (auto simp: file_zones_def)

lemma file_zones_ind: "i_zone ip 7 \<noteq> 0 \<Longrightarrow> unat (i_zone ip 7) \<in> file_zones V ip"
  by (auto simp: file_zones_def unat_gt_0)

lemma file_okD:
  assumes "file_ok V sb ip"
  shows "\<And>z. z \<in> file_zones V ip \<Longrightarrow> zone_used V sb z"
    "\<And>k l. k < NR_DIRECT + NR_INDIRECT \<Longrightarrow> l < NR_DIRECT + NR_INDIRECT \<Longrightarrow> zone_at V ip k \<noteq> 0 \<Longrightarrow> zone_at V ip k = zone_at V ip l \<Longrightarrow> k = l"
    "\<And>k. k < NR_DIRECT + NR_INDIRECT \<Longrightarrow> zone_at V ip k \<noteq> 0 \<Longrightarrow> zone_at V ip k \<noteq> unat (i_zone ip 7)"
  using assms unfolding file_ok_def by blast+

lemma zone_added_fresh:
  assumes ok: "file_ok V sb ip" and lay: "layout_ok sb" and zo: "zo < NR_DIRECT + NR_INDIRECT" "zone_at V ip zo = 0"
    and z: "\<not> zone_used V sb z" "unat (s_firstdatazone sb) \<le> z" "z \<noteq> 0"
      "z - unat (s_firstdatazone sb) < unat (s_zmap_blocks sb) * BITS_PER_BLOCK"
    and V': "\<And>k. k \<noteq> unat (i_zone ip 7) \<or> i_zone ip 7 = 0 \<Longrightarrow> V' k = bmap_set (zmap_at sb) (z - unat (s_firstdatazone sb)) V k"
    and at: "zone_at V' ip' zo = z" "\<And>k. k < NR_DIRECT + NR_INDIRECT \<Longrightarrow> k \<noteq> zo \<Longrightarrow> zone_at V' ip' k = zone_at V ip k"
    and ip: "i_zone ip' 7 = i_zone ip 7" "i_size ip' = i_size ip" "i_dev ip' = i_dev ip" "i_num ip' = i_num ip"
      "i_mode ip' = i_mode ip" "i_nlinks ip' = i_nlinks ip" "i_count ip' = i_count ip"
  shows "zone_added sb zo V ip V' ip'"
proof -
  have ind: "zone_used V sb (unat (i_zone ip 7))" if "i_zone ip 7 \<noteq> 0"
    using file_okD(1) [OF ok file_zones_ind [OF that]] .
  have "V' k = bmap_set (zmap_at sb) (z - unat (s_firstdatazone sb)) V k"
    if "k < zmap_at sb + unat (s_zmap_blocks sb)" for k
  proof (rule V')
    show "k \<noteq> unat (i_zone ip 7) \<or> i_zone ip 7 = 0" using that zone_used_data [OF lay ind] by (cases "i_zone ip 7 = 0") auto
  qed
  then have "zone_used V' sb w = zone_used (bmap_set (zmap_at sb) (z - unat (s_firstdatazone sb)) V) sb w" for w
    by (intro zone_used_cong) auto
  then have used: "zone_used V' sb w \<longleftrightarrow> w = z \<or> zone_used V sb w" for w using zone_used_set z(2,4) by simp
  have sub: "w = z \<or> w \<in> file_zones V ip" if "w \<in> file_zones V' ip'" for w
    using that at unfolding file_zones_def ip(1) by (cases "w = unat (i_zone ip 7)") auto
  have neq: "w \<noteq> z" if "w \<in> file_zones V ip" for w using file_okD(1) [OF ok that] z(1) by auto
  have nat: "zone_at V ip k \<noteq> z" if "k < NR_DIRECT + NR_INDIRECT" for k
    using neq [OF file_zonesI [OF that]] z(3) by (cases "zone_at V ip k = 0") auto
  have nind: "unat (i_zone ip 7) \<noteq> z" using neq [OF file_zones_ind] z(3) by (cases "i_zone ip 7 = 0") auto
  have inj: "k = l" if "k < NR_DIRECT + NR_INDIRECT" "l < NR_DIRECT + NR_INDIRECT" "zone_at V' ip' k \<noteq> 0" "zone_at V' ip' k = zone_at V' ip' l" for k l
    using that at nat [OF that(1)] nat [OF that(2)] file_okD(2) [OF ok that(1,2)] by (cases "k = zo"; cases "l = zo") auto
  have "zone_at V' ip' k \<noteq> unat (i_zone ip' 7)" if "k < NR_DIRECT + NR_INDIRECT" "zone_at V' ip' k \<noteq> 0" for k
    using that at nind file_okD(3) [OF ok that(1)] ip(1) by (cases "k = zo") auto
  with inj sub used file_okD(1) [OF ok] have "file_ok V' sb ip'" unfolding file_ok_def by blast
  moreover have "V' w = V w" if "w < zmap_at sb \<or> zmap_at sb + unat (s_zmap_blocks sb) \<le> w" "w \<noteq> unat (i_zone ip 7)" for w
  proof -
    have "(z - unat (s_firstdatazone sb)) div BITS_PER_BLOCK < unat (s_zmap_blocks sb)" using z(4) by (intro less_mult_imp_div_less)
    then show ?thesis using V' [of w] that bmap_other(1) [of w "zmap_at sb"] by auto
  qed
  ultimately show ?thesis unfolding zone_added_def using at z zo ip used by auto
qed

definition disk_full :: "(nat \<Rightarrow> bytes) \<Rightarrow> super_block \<Rightarrow> bool" where
  "disk_full V sb \<longleftrightarrow> (\<forall>n < unat (s_zmap_blocks sb) * BITS_PER_BLOCK. bmap_bit V (zmap_at sb) n)"

lemma new_zone:
  fixes s :: "'z fs_state_scheme"
  assumes "mounted s" "pins (cnts s) < 255" "layout_ok (super_tab s 0)"
  defines "sb \<equiv> super_tab s 0"
  obtains z s' where "new_block ROOT_DEV s = Some (z, s')"
    "z = 0 \<Longrightarrow> bc.settles s s' (view s) \<and> disk_full (view s) sb"
    "z \<noteq> 0 \<Longrightarrow> unat (s_firstdatazone sb) \<le> z \<and> z - unat (s_firstdatazone sb) < unat (s_zmap_blocks sb) * BITS_PER_BLOCK \<and>
       \<not> zone_used (view s) sb z \<and> unat (of_nat z :: u16) = z \<and> (of_nat z :: u16) \<noteq> 0 \<and>
       bc.settles s s' (bmap_set (zmap_at sb) (z - unat (s_firstdatazone sb)) (view s))"
proof -
  obtain z s' where nb: "new_block ROOT_DEV s = Some (z, s')"
    "z = 0 \<Longrightarrow> bc.settles s s' (view s) \<and> (\<forall>n < unat (s_zmap_blocks sb) * BITS_PER_BLOCK. bmap_bit (view s) (zmap_at sb) n)"
    "z \<noteq> 0 \<Longrightarrow> unat (s_firstdatazone sb) \<le> z \<and>
       z - unat (s_firstdatazone sb) < unat (s_zmap_blocks sb) * BITS_PER_BLOCK \<and>
       \<not> bmap_bit (view s) (zmap_at sb) (z - unat (s_firstdatazone sb)) \<and>
       bc.settles s s' (bmap_set (zmap_at sb) (z - unat (s_firstdatazone sb)) (view s)) \<and>
       (\<forall>n < z - unat (s_firstdatazone sb). bmap_bit (view s) (zmap_at sb) n)"
    by (rule new_block_spec [OF assms(1,2), folded sb_def]) (rule that)
  have "unat (of_nat z :: u16) = z" if "z \<noteq> 0"
  proof -
    have "z < 65536" using nb(3) [OF that] assms(3) unfolding layout_ok_def sb_def by linarith
    then show ?thesis by (simp add: unat_of_nat)
  qed
  then have "unat (of_nat z :: u16) = z \<and> (of_nat z :: u16) \<noteq> 0" if "z \<noteq> 0" using that by (metis unat_0)
  with nb show ?thesis by (intro that) (auto simp: disk_full_def zone_used_def)
qed

lemma zone_added_refl:
  "file_ok V sb ip \<Longrightarrow> zone_at V ip zo \<noteq> 0 \<Longrightarrow> zone_added sb zo V ip V ip"
  by (auto simp: zone_added_def)

lemma write_zone_direct:
  fixes s :: "'z fs_state_scheme"
  assumes "mounted s" "pins (cnts s) < 255" "layout_ok (super_tab s 0)" "i_dev (inode_table s n) = ROOT_DEV"
    and ok: "file_ok (view s) (super_tab s 0) (inode_table s n)" and zo: "zo < NR_DIRECT" "i_zone (inode_table s n) zo = 0"
  obtains r s' where "write_zone n zo s = Some (r, s')" "mounted s'" "cnts s' = cnts s" "\<exists>f. keep s' = keep (upd_inode n f s)"
    "r = None \<Longrightarrow> view s' = view s \<and> inode_table s' n = inode_table s n \<and> disk_full (view s) (super_tab s 0)"
    "\<And>z. r = Some z \<Longrightarrow> zone_added (super_tab s 0) zo (view s) (inode_table s n) (view s') (inode_table s' n) \<and>
       z = zone_at (view s') (inode_table s' n) zo"
proof -
  let ?sb = "super_tab s 0" and ?ip = "inode_table s n"
  obtain z s1 where nb: "new_block ROOT_DEV s = Some (z, s1)"
    "z = 0 \<Longrightarrow> bc.settles s s1 (view s) \<and> disk_full (view s) ?sb"
    "z \<noteq> 0 \<Longrightarrow> unat (s_firstdatazone ?sb) \<le> z \<and> z - unat (s_firstdatazone ?sb) < unat (s_zmap_blocks ?sb) * BITS_PER_BLOCK \<and>
       \<not> zone_used (view s) ?sb z \<and> unat (of_nat z :: u16) = z \<and> (of_nat z :: u16) \<noteq> 0 \<and>
       bc.settles s s1 (bmap_set (zmap_at ?sb) (z - unat (s_firstdatazone ?sb)) (view s))"
    by (rule new_zone [OF assms(1-3)]) (rule that)
  have "\<exists>V. bc.settles s s1 V" using nb(2,3) by (cases "z = 0") auto
  then obtain V where "bc.settles s s1 V" ..
  note S = settlesD [OF this]
  have t1: "inode_table s1 = inode_table s" using keep_tablesD [OF S(4)] by simp
  have m1: "mounted s1" using mounted_keep [OF assms(1) S(1,4)] .
  show ?thesis
  proof (cases "z = 0")
    case True
    have same: "(i_zone ?ip)(zo := 0) = i_zone ?ip" using zo(2) by (simp add: fun_eq_iff)
    let ?s' = "upd_inode n (\<lambda>ip. ip\<lparr>i_zone := (i_zone ip)(zo := of_nat z)\<rparr>) s1"
    have "write_zone n zo s = Some (None, ?s')"
      using nb(1) zo True assms(4) t1 by (simp add: write_zone_def)
    moreover have "inode_table ?s' n = inode_table s n" using True t1 same by simp
    moreover have "keep ?s' = keep (upd_inode n (\<lambda>ip. ip\<lparr>i_zone := (i_zone ip)(zo := of_nat z)\<rparr>) s)" using S(4) by simp
    ultimately show ?thesis
      using nb(2) [OF True] m1 S(3) settlesD(2) by (intro that [of None ?s']) (auto simp del: upd_inode_simps(16))
  next
    case False
    note Z = nb(3) [OF False]
    let ?g = "\<lambda>ip. ip\<lparr>i_zone := (i_zone ip)(zo := of_nat z), i_dirt := True\<rparr>"
    let ?s' = "upd_inode n ?g s1"
    have cmp: "upd_inode n (\<lambda>ip. ip\<lparr>i_dirt := True\<rparr>) (upd_inode n (\<lambda>ip. ip\<lparr>i_zone := (i_zone ip)(zo := of_nat z)\<rparr>) s1) = ?s'"
      by (simp add: upd_inode_def)
    have w: "write_zone n zo s = Some (Some z, ?s')"
      using nb(1) zo Z assms(4) t1 by (simp add: write_zone_def cmp)
    have v: "view s1 = bmap_set (zmap_at ?sb) (z - unat (s_firstdatazone ?sb)) (view s)" using Z settlesD(2) by blast
    have z7: "zo \<noteq> 7" using zo(1) by (simp add: NR_DIRECT_def)
    have ind: "view s1 (unat (i_zone ?ip 7)) = view s (unat (i_zone ?ip 7))" if "i_zone ?ip 7 \<noteq> 0"
    proof -
      have "zmap_at ?sb + unat (s_zmap_blocks ?sb) \<le> unat (i_zone ?ip 7)"
        using zone_used_data [OF assms(3) file_okD(1) [OF ok file_zones_ind [OF that]]] .
      moreover have "(z - unat (s_firstdatazone ?sb)) div BITS_PER_BLOCK < unat (s_zmap_blocks ?sb)"
        using Z by (intro less_mult_imp_div_less) simp
      ultimately show ?thesis unfolding v by (intro bmap_other(1)) auto
    qed
    have at: "zone_at (view s1) (?g ?ip) zo = z" using zo Z by (simp add: zone_at_def)
    have at': "zone_at (view s1) (?g ?ip) k = zone_at (view s) ?ip k" if "k \<noteq> zo" for k
      using that z7 ind by (auto simp: zone_at_def)
    have "zone_added ?sb zo (view s) ?ip (view s1) (?g ?ip)"
      by (rule zone_added_fresh [OF ok assms(3) _ _ _ _ False _ _ at at'])
        (use zo Z z7 v in \<open>simp_all add: zone_at_def file_consts\<close>)
    moreover have "keep ?s' = keep (upd_inode n ?g s)" using S(4) by simp
    ultimately show ?thesis
      using w m1 S(3) at t1 by (intro that [of "Some z" ?s']) (auto simp del: upd_inode_simps(16))
  qed
qed

lemma write_zone_indirect:
  fixes s :: "'z fs_state_scheme"
  assumes "mounted s" "pins (cnts s) < 254" "layout_ok (super_tab s 0)" "i_dev (inode_table s n) = ROOT_DEV"
    and ok: "file_ok (view s) (super_tab s 0) (inode_table s n)"
    and zo: "NR_DIRECT \<le> zo" "zo < NR_DIRECT + NR_INDIRECT" "i_zone (inode_table s n) 7 \<noteq> 0"
  obtains r s' where "write_zone n zo s = Some (r, s')" "mounted s'" "cnts s' = cnts s" "keep s' = keep s"
    "r = None \<Longrightarrow> view s' = view s \<and> disk_full (view s) (super_tab s 0)"
    "\<And>z. r = Some z \<Longrightarrow> zone_added (super_tab s 0) zo (view s) (inode_table s n) (view s') (inode_table s n) \<and>
       z = zone_at (view s') (inode_table s n) zo"
proof -
  let ?sb = "super_tab s 0" and ?ip = "inode_table s n" and ?k = "2 * (zo - NR_DIRECT)"
  let ?ind = "unat (i_zone ?ip 7)"
  have m: "bc_ok s" "disk_fits s" "pins (cnts s) < 255" using assms(1,2) by (auto simp: mounted_def)
  have fits: "blk_ok s ?ind" by (rule disk_fits_blk [OF m(2)]) simp
  have k: "?k + 2 \<le> BLOCK_SIZE" and zlt: "\<not> zo < NR_DIRECT" "\<not> zo - NR_DIRECT \<ge> NR_INDIRECT"
    using zo by (auto simp: file_consts)
  obtain b s1 where rd: "bread ROOT_DEV ?ind s = Some (Some b, s1)"
    and dat: "blk_of (b_data (heads s1 b)) = view s ?ind"
    and a: "bc_ok s1" "view s1 = view s" "keep s1 = keep s" "held s1 b ?ind" "cnts s1 = (cnts s)(b := cnts s b + 1)"
      "\<And>c k. held s c k \<Longrightarrow> held s1 c k"
    and rel: "\<exists>s2. brelse (Some b) s1 = Some s2 \<and> bc.settles s s2 (view s)"
    by (rule bc.access [OF m(1,3) fits]) (rule that)
  have t1: "inode_table s1 = inode_table s" "super_tab s1 = super_tab s" using keep_tablesD [OF a(3)] by simp_all
  have e: "get16 (b_data (heads s1 b)) ?k = get16 (view s ?ind) ?k" unfolding dat [symmetric] using k by simp
  have at: "zone_at (view s) ?ip zo = unat (get16 (view s ?ind) ?k)" using zo by (simp add: zone_at_def)
  show ?thesis
  proof (cases "get16 (view s ?ind) ?k = 0")
    case False
    obtain s2 where s2: "brelse (Some b) s1 = Some s2" "bc.settles s s2 (view s)" using rel by blast
    note S = settlesD [OF s2(2)]
    have "write_zone n zo s = Some (Some (zone_at (view s) ?ip zo), s2)"
      using rd s2(1) zo(3) zlt assms(4) t1 False e at by (simp add: write_zone_def)
    moreover have "zone_at (view s) ?ip zo \<noteq> 0" using False unfolding at by (simp add: unat_eq_zero)
    ultimately show ?thesis using S mounted_keep [OF assms(1) S(1,4)] zone_added_refl [OF ok, of zo]
      by (intro that [of "Some (zone_at (view s) ?ip zo)" s2]) auto
  next
    case True
    have m1: "mounted s1" using mounted_keep [OF assms(1) a(1,3)] .
    have p1: "pins (cnts s1) < 255" using pins_upd [OF held_less [OF a(4)], of "cnts s" "cnts s b + 1"] assms(2) a(5) by simp
    obtain z s2 where nb: "new_block ROOT_DEV s1 = Some (z, s2)"
      "z = 0 \<Longrightarrow> bc.settles s1 s2 (view s1) \<and> disk_full (view s1) (super_tab s1 0)"
      "z \<noteq> 0 \<Longrightarrow> unat (s_firstdatazone (super_tab s1 0)) \<le> z \<and>
         z - unat (s_firstdatazone (super_tab s1 0)) < unat (s_zmap_blocks (super_tab s1 0)) * BITS_PER_BLOCK \<and>
         \<not> zone_used (view s1) (super_tab s1 0) z \<and> unat (of_nat z :: u16) = z \<and> (of_nat z :: u16) \<noteq> 0 \<and>
         bc.settles s1 s2 (bmap_set (zmap_at (super_tab s1 0)) (z - unat (s_firstdatazone (super_tab s1 0))) (view s1))"
      by (rule new_zone [OF m1 p1]) (use t1 assms(3) in simp, rule that)
    show ?thesis
    proof (cases "z = 0")
      case z0: True
      note S = settlesD [OF conjunct1 [OF nb(2) [OF z0]]]
      have "\<exists>s3. brelse (Some b) s2 = Some s3 \<and> bc.settles s s3 (view s)"
        using S a by (intro bc.release [where blk = ?ind]) auto
      then obtain s3 where s3: "brelse (Some b) s2 = Some s3" "bc.settles s s3 (view s)" by blast
      note S3 = settlesD [OF s3(2)]
      have "write_zone n zo s = Some (None, s3)"
        using rd nb(1) s3(1) zo(3) zlt assms(4) t1 True e z0 by (simp add: write_zone_def)
      then show ?thesis using S3 mounted_keep [OF assms(1) S3(1,4)] nb(2) [OF z0] a(2) t1(2)
        by (intro that [of None s3]) auto
    next
      case z0: False
      note Z = nb(3) [OF z0, unfolded t1(2) a(2)]
      note S = settlesD [OF conjunct2 [OF conjunct2 [OF conjunct2 [OF conjunct2 [OF conjunct2 [OF Z]]]]]]
      let ?V1 = "bmap_set (zmap_at ?sb) (z - unat (s_firstdatazone ?sb)) (view s)"
      let ?d = "put16 ?k (of_nat z) (b_data (heads s2 b))"
      have h2: "held s2 b ?ind" using S(5) a(4) .
      note P = bc.put [OF S(1) h2, of ?d]
      have d2: "blk_of (b_data (heads s2 b)) = ?V1 ?ind" using bc.has_data [OF S(1) h2] S(2) by simp
      have zmap: "zmap_at ?sb + unat (s_zmap_blocks ?sb) \<le> ?ind"
        using zone_used_data [OF assms(3) file_okD(1) [OF ok file_zones_ind [OF zo(3)]]] .
      have "(z - unat (s_firstdatazone ?sb)) div BITS_PER_BLOCK < unat (s_zmap_blocks ?sb)"
        using Z by (intro less_mult_imp_div_less) simp
      then have V1: "?V1 ?ind = view s ?ind" using zmap by (intro bmap_other(1)) auto
      let ?V' = "?V1(?ind := put16 ?k (of_nat z) (view s ?ind))"
      have V': "view (bput b ?d s2) = ?V'" using P S(2) d2 V1 by (simp add: blk_of_put16 [OF k])
      have "\<exists>s3. brelse (Some b) (bput b ?d s2) = Some s3 \<and> bc.settles s s3 ?V'"
        using P S a h2 V' by (intro bc.release [where blk = ?ind]) auto
      then obtain s3 where s3: "brelse (Some b) (bput b ?d s2) = Some s3" "bc.settles s s3 ?V'" by blast
      note S3 = settlesD [OF s3(2)]
      have t2: "inode_table s2 = inode_table s" using keep_tablesD(2) [OF S(4)] t1 by simp
      have w: "write_zone n zo s = Some (Some z, s3)"
        using rd nb(1) s3(1) zo(3) zlt assms(4) t1 t2 True e Z by (simp add: write_zone_def)
      have at1: "zone_at ?V' ?ip zo = z" using zlt zo(3) Z by (simp add: zone_at_def)
      have at2: "zone_at ?V' ?ip k = zone_at (view s) ?ip k" if "k \<noteq> zo" for k
      proof (cases "k < NR_DIRECT")
        case False
        then have "2 * (k - NR_DIRECT) + 2 \<le> ?k \<or> ?k + 2 \<le> 2 * (k - NR_DIRECT)" using that zlt(1) by linarith
        then show ?thesis using False zo(3) by (simp add: zone_at_def)
      qed (simp add: zone_at_def)
      have "zone_added ?sb zo (view s) ?ip ?V' ?ip"
        by (rule zone_added_fresh [OF ok assms(3) zo(2) _ _ _ z0 _ _ at1 at2]) (use Z zo True at in auto)
      then show ?thesis using w S3 mounted_keep [OF assms(1) S3(1,4)] at1
        by (intro that [of "Some z" s3]) auto
    qed
  qed
qed

lemma write_zone_spec:
  fixes s :: "'z fs_state_scheme"
  assumes "mounted s" "pins (cnts s) < 254" "layout_ok (super_tab s 0)" "i_dev (inode_table s n) = ROOT_DEV"
    and ok: "file_ok (view s) (super_tab s 0) (inode_table s n)"
    and zo: "zo < NR_DIRECT + NR_INDIRECT" "zo < NR_DIRECT \<or> i_zone (inode_table s n) 7 \<noteq> 0"
  obtains r s' where "write_zone n zo s = Some (r, s')" "mounted s'" "cnts s' = cnts s" "\<exists>f. keep s' = keep (upd_inode n f s)"
    "r = None \<Longrightarrow> view s' = view s \<and> inode_table s' n = inode_table s n \<and> disk_full (view s) (super_tab s 0)"
    "\<And>z. r = Some z \<Longrightarrow> zone_added (super_tab s 0) zo (view s) (inode_table s n) (view s') (inode_table s' n) \<and>
       z = zone_at (view s') (inode_table s' n) zo"
proof (cases "zo < NR_DIRECT")
  case False
  have id: "keep s = keep (upd_inode n id s)" by (simp add: upd_inode_def)
  have a: "NR_DIRECT \<le> zo" "i_zone (inode_table s n) 7 \<noteq> 0" using False zo by auto
  obtain r s' where w: "write_zone n zo s = Some (r, s')" "mounted s'" "cnts s' = cnts s" "keep s' = keep s"
    "r = None \<Longrightarrow> view s' = view s \<and> disk_full (view s) (super_tab s 0)"
    "\<And>z. r = Some z \<Longrightarrow> zone_added (super_tab s 0) zo (view s) (inode_table s n) (view s') (inode_table s n) \<and>
       z = zone_at (view s') (inode_table s n) zo"
    by (rule write_zone_indirect [OF assms(1-4) ok a(1) zo(1) a(2)]) (rule that)
  have t: "inode_table s' n = inode_table s n" using keep_tablesD(2) [OF w(4)] by simp
  show ?thesis
  proof (rule that [OF w(1-3)])
    show "\<exists>f. keep s' = keep (upd_inode n f s)" using trans [OF w(4) id] by blast
  qed (use w(5,6) t in simp_all)
next
  case True
  show ?thesis
  proof (cases "i_zone (inode_table s n) zo = 0")
    case z0: False
    have "write_zone n zo s = Some (Some (unat (i_zone (inode_table s n) zo)), s)" using z0 True by (simp add: write_zone_def)
    moreover have "zone_at (view s) (inode_table s n) zo = unat (i_zone (inode_table s n) zo)" using True by (simp add: zone_at_def)
    moreover have "\<exists>f. keep s = keep (upd_inode n f s)" by (rule exI [of _ id]) (simp add: upd_inode_def)
    moreover have "unat (i_zone (inode_table s n) zo) \<noteq> 0" using z0 by (simp add: unat_eq_zero)
    ultimately show ?thesis using assms(1) zone_added_refl [OF ok, of zo]
      by (intro that [of "Some (unat (i_zone (inode_table s n) zo))" s]) auto
  next
    case z0: True
    have p: "pins (cnts s) < 255" using assms(2) by simp
    show ?thesis by (rule write_zone_direct [OF assms(1) p assms(3,4) ok True z0]) (rule that)
  qed
qed

end
