(* ===== verification/File_Write.thy ===== *)
theory File_Write
  imports File_Dev
begin

text \<open>
  What \<open>file_read\<close> and \<open>file_write\<close> do to the contents of files. \<open>wrote\<close> describes the effect of writing
  \<open>w\<close> bytes at position \<open>q\<close>: the bytes are there, the rest of the file that existed is unchanged, and
  so is every zone in use by anything else.
\<close>

definition wrote :: "super_block \<Rightarrow> umem \<Rightarrow> u32 \<Rightarrow> nat \<Rightarrow> nat \<Rightarrow> (nat \<Rightarrow> bytes) \<Rightarrow> m_inode \<Rightarrow> (nat \<Rightarrow> bytes) \<Rightarrow> m_inode \<Rightarrow> bool" where
  "wrote sb um buf q w V ip V' ip' \<longleftrightarrow> file_ok V' sb ip' \<and> i_dev ip' = i_dev ip \<and> i_num ip' = i_num ip \<and>
     i_zone ip' 7 = i_zone ip 7 \<and> i_mode ip' = i_mode ip \<and> i_nlinks ip' = i_nlinks ip \<and> i_count ip' = i_count ip \<and>
     i_size ip' = (if w = 0 then i_size ip else max (i_size ip) (of_nat (q + w))) \<and>
     (\<forall>p. q \<le> p \<and> p < q + w \<longrightarrow> zone_at V' ip' (p div BLOCK_SIZE) \<noteq> 0 \<and> fbyte V' ip' p = um (buf + of_nat (p - q))) \<and>
     (\<forall>p < MAX_FILE. (p < q \<or> q + w \<le> p) \<and> zone_at V ip (p div BLOCK_SIZE) \<noteq> 0 \<longrightarrow> fbyte V' ip' p = fbyte V ip p) \<and>
     (\<forall>k < NR_DIRECT + NR_INDIRECT. zone_at V ip k \<noteq> 0 \<longrightarrow> zone_at V' ip' k = zone_at V ip k) \<and>
     (\<forall>z. zone_used V sb z \<and> z \<notin> file_zones V ip \<longrightarrow> V' z = V z \<and> zone_used V' sb z \<and> z \<notin> file_zones V' ip')"

lemma wrote_none: "file_ok V sb ip \<Longrightarrow> wrote sb um buf q 0 V ip V ip"
  by (auto simp: wrote_def)

lemma MAX_FILE_div: "p < MAX_FILE \<longleftrightarrow> p div BLOCK_SIZE < NR_DIRECT + NR_INDIRECT"
  by (simp add: MAX_FILE_def div_less_iff_less_mult BLOCK_SIZE_def)

lemma unat_of_nat_small: "n < 4294967296 \<Longrightarrow> unat (of_nat n :: u32) = n"
  by (simp add: unat_of_nat)

lemma max_size:
  assumes "a \<le> b" "b < 4294967296"
  shows "max (max s (of_nat a)) (of_nat b) = max s (of_nat b :: u32)"
proof -
  have "(of_nat a :: u32) \<le> of_nat b" using assms by (simp add: word_le_nat_alt unat_of_nat_small)
  then show ?thesis by (simp add: max.assoc max.absorb2)
qed

lemma wrote_trans:
  assumes a: "wrote sb um buf q w V ip V1 ip1" and b: "wrote sb um (buf + of_nat w) (q + w) v V1 ip1 V2 ip2"
    and lim: "q + w + v \<le> MAX_FILE"
  shows "wrote sb um buf q (w + v) V ip V2 ip2"
proof -
  have lims: "q + w < 4294967296" "q + (w + v) < 4294967296" using lim by (auto simp: file_consts)
  have size: "i_size ip2 = (if w + v = 0 then i_size ip else max (i_size ip) (of_nat (q + (w + v))))"
    using a b max_size [of "q + w" "q + (w + v)" "i_size ip"] lims unfolding wrote_def add.assoc
    by (cases "w = 0"; cases "v = 0") auto
  have rng: "zone_at V2 ip2 (p div BLOCK_SIZE) \<noteq> 0 \<and> fbyte V2 ip2 p = um (buf + of_nat (p - q))" if "q \<le> p" "p < q + (w + v)" for p
  proof (cases "p < q + w")
    case True
    then have "zone_at V1 ip1 (p div BLOCK_SIZE) \<noteq> 0" "fbyte V1 ip1 p = um (buf + of_nat (p - q))"
      using a that by (auto simp: wrote_def)
    moreover have "p < MAX_FILE" using that lim by simp
    ultimately show ?thesis using b True unfolding wrote_def MAX_FILE_div by metis
  next
    case False
    then obtain j where j: "p = q + w + j" by (metis le_Suc_ex not_less)
    then have "buf + of_nat w + of_nat (p - (q + w)) = buf + of_nat (p - q)" by (simp add: add.assoc)
    with False b that show ?thesis by (auto simp: wrote_def)
  qed
  have old: "fbyte V2 ip2 p = fbyte V ip p" if "p < MAX_FILE" "p < q \<or> q + (w + v) \<le> p" "zone_at V ip (p div BLOCK_SIZE) \<noteq> 0" for p
  proof -
    have "fbyte V1 ip1 p = fbyte V ip p" "zone_at V1 ip1 (p div BLOCK_SIZE) \<noteq> 0"
      using a that unfolding wrote_def MAX_FILE_div by auto
    moreover have "p < q + w \<or> q + w + v \<le> p" using that by auto
    ultimately show ?thesis using b that(1) unfolding wrote_def by metis
  qed
  have keep: "zone_at V2 ip2 k = zone_at V ip k" if "k < NR_DIRECT + NR_INDIRECT" "zone_at V ip k \<noteq> 0" for k
    using a b that unfolding wrote_def by metis
  have other: "V2 z = V z \<and> zone_used V2 sb z \<and> z \<notin> file_zones V2 ip2" if "zone_used V sb z" "z \<notin> file_zones V ip" for z
    using a b that unfolding wrote_def by metis
  show ?thesis using a b size rng old keep other unfolding wrote_def by auto
qed

lemma wrote_block:
  assumes ok: "file_ok V sb ip" and lay: "layout_ok sb" and add: "zone_added sb (q div BLOCK_SIZE) V ip V1 ip1"
    and k: "0 < k" "q mod BLOCK_SIZE + k \<le> BLOCK_SIZE" "q < MAX_FILE"
    and V2: "V2 = V1(zone_at V1 ip1 (q div BLOCK_SIZE) :=
       copy_in um buf (q mod BLOCK_SIZE) k (V1 (zone_at V1 ip1 (q div BLOCK_SIZE))))"
    and ip2: "ip2 = ip1\<lparr>i_size := max (i_size ip1) (of_nat (q + k)), i_dirt := d\<rparr>"
  shows "wrote sb um buf q k V ip V2 ip2"
proof -
  let ?zo = "q div BLOCK_SIZE" and ?off = "q mod BLOCK_SIZE"
  let ?z = "zone_at V1 ip1 ?zo"
  have zo: "?zo < NR_DIRECT + NR_INDIRECT" using k(3) by (simp add: MAX_FILE_div)
  have A: "file_ok V1 sb ip1" "?z \<noteq> 0" "i_zone ip1 7 = i_zone ip 7"
    "\<And>k. k < NR_DIRECT + NR_INDIRECT \<Longrightarrow> k \<noteq> ?zo \<Longrightarrow> zone_at V1 ip1 k = zone_at V ip k"
    "zone_at V ip ?zo \<noteq> 0 \<Longrightarrow> ?z = zone_at V ip ?zo" "zone_at V ip ?zo = 0 \<Longrightarrow> \<not> zone_used V sb ?z"
    "\<And>z. zmap_at sb + unat (s_zmap_blocks sb) \<le> z \<Longrightarrow> z \<noteq> unat (i_zone ip 7) \<Longrightarrow> V1 z = V z"
    "\<And>z. zone_used V sb z \<Longrightarrow> zone_used V1 sb z"
    using add unfolding zone_added_def by blast+
  have zused: "zone_used V1 sb ?z" by (rule file_okD(1) [OF A(1) file_zonesI [OF zo A(2)]])
  have zdata: "zmap_at sb + unat (s_zmap_blocks sb) \<le> ?z" by (rule zone_used_data [OF lay zused])
  have zind: "?z \<noteq> unat (i_zone ip1 7)" by (rule file_okD(3) [OF A(1) zo A(2)])
  have at2: "zone_at V2 ip2 k = zone_at V1 ip1 k" for k
  proof -
    have "i_zone ip2 = i_zone ip1" "V2 (unat (i_zone ip1 7)) = V1 (unat (i_zone ip1 7))" using zind by (simp_all add: V2 ip2)
    then show ?thesis by (simp add: zone_at_def)
  qed
  have i7: "i_zone ip2 7 = i_zone ip1 7" by (simp add: ip2)
  have fz: "file_zones V2 ip2 = file_zones V1 ip1" unfolding file_zones_def at2 i7 ..
  have used2: "zone_used V2 sb w = zone_used V1 sb w" for w
    by (rule zone_used_cong) (use zdata in \<open>auto simp: V2\<close>)
  have ok2: "file_ok V2 sb ip2" using A(1) unfolding file_ok_def at2 i7 fz used2 .
  have same: "V1 y = V y" if "l < NR_DIRECT + NR_INDIRECT" "y = zone_at V ip l" "y \<noteq> 0" for l y
    using zone_used_data [OF lay file_okD(1) [OF ok file_zonesI [OF that(1)]]] file_okD(3) [OF ok that(1)] that(2,3)
    by (intro A(7)) auto
  have old: "fbyte V2 ip2 p = fbyte V ip p" if p: "p < MAX_FILE" "p < q \<or> q + k \<le> p" "zone_at V ip (p div BLOCK_SIZE) \<noteq> 0" for p
  proof -
    have l: "p div BLOCK_SIZE < NR_DIRECT + NR_INDIRECT" using p(1) by (simp add: MAX_FILE_div)
    have at1: "zone_at V1 ip1 (p div BLOCK_SIZE) = zone_at V ip (p div BLOCK_SIZE)"
      using A(4) [OF l] A(5) p(3) by (cases "p div BLOCK_SIZE = ?zo") auto
    have "V2 (zone_at V ip (p div BLOCK_SIZE)) (p mod BLOCK_SIZE) = V (zone_at V ip (p div BLOCK_SIZE)) (p mod BLOCK_SIZE)"
    proof (cases "p div BLOCK_SIZE = ?zo")
      case True
      have "\<not> (?off \<le> p mod BLOCK_SIZE \<and> p mod BLOCK_SIZE < ?off + k)"
        using p(2) div_mult_mod_eq [of p BLOCK_SIZE, unfolded True] div_mult_mod_eq [of q BLOCK_SIZE] by linarith
      with True at1 same [OF l refl p(3)] show ?thesis by (auto simp: V2 copy_in_def)
    next
      case False
      have "zone_at V1 ip1 (p div BLOCK_SIZE) \<noteq> ?z" using file_okD(2) [OF A(1) l zo] at1 p(3) False by auto
      then show ?thesis using at1 same [OF l refl p(3)] by (simp add: V2)
    qed
    then show ?thesis using p(3) by (simp add: fbyte_def Let_def at2 at1)
  qed
  have new: "zone_at V2 ip2 (p div BLOCK_SIZE) \<noteq> 0 \<and> fbyte V2 ip2 p = um (buf + of_nat (p - q))" if p: "q \<le> p" "p < q + k" for p
  proof -
    have "p div BLOCK_SIZE = ?zo \<and> p mod BLOCK_SIZE = ?off + (p - q)"
    proof -
      have lt: "?off + (p - q) < BLOCK_SIZE" using p k(2) by linarith
      have "p = ?zo * BLOCK_SIZE + (?off + (p - q))" using p(1) by simp
      then show ?thesis using lt by (metis add.commute div_mult_self3 div_less add_0 mod_mult_self3 mod_less not_less_zero)
    qed
    moreover have "V2 ?z (?off + (p - q)) = um (buf + of_nat (p - q))"
    proof -
      have "V2 ?z (?off + j) = um (buf + of_nat j)" if "j < k" for j using that by (simp add: V2 copy_in_def)
      moreover have "p - q < k" using p by linarith
      ultimately show ?thesis by blast
    qed
    ultimately show ?thesis unfolding fbyte_def Let_def at2 using A(2) by simp
  qed
  have other: "V2 w = V w \<and> zone_used V2 sb w \<and> w \<notin> file_zones V2 ip2" if w: "zone_used V sb w" "w \<notin> file_zones V ip" for w
  proof -
    have wz: "w \<noteq> ?z" using A(5,6) w file_zonesI [OF zo] by (cases "zone_at V ip ?zo = 0") auto
    have w0: "0 < w" using zone_used_data [OF lay w(1)] by (simp add: zmap_at_def)
    have wi: "w \<noteq> unat (i_zone ip 7)" using w w0 file_zones_ind [of ip V] by (cases "i_zone ip 7 = 0") auto
    have "w \<notin> file_zones V1 ip1"
    proof
      assume "w \<in> file_zones V1 ip1"
      then obtain l where l: "l < NR_DIRECT + NR_INDIRECT" "w = zone_at V1 ip1 l" using wi A(3) by (auto simp: file_zones_def)
      then have "w = zone_at V ip l" using A(4) [OF l(1)] wz by (cases "l = ?zo") auto
      with w(2) w0 l(1) show False using file_zonesI [OF l(1)] by auto
    qed
    with wz wi A(7) zone_used_data [OF lay w(1)] A(8) w(1) show ?thesis by (simp add: fz used2) (simp add: V2)
  qed
  have kz: "zone_at V2 ip2 l = zone_at V ip l" if "l < NR_DIRECT + NR_INDIRECT" "zone_at V ip l \<noteq> 0" for l
    using A(4) [OF that(1)] A(5) that(2) by (cases "l = ?zo") (auto simp: at2)
  have "i_dev ip1 = i_dev ip" "i_num ip1 = i_num ip" "i_size ip1 = i_size ip" "i_mode ip1 = i_mode ip"
    "i_nlinks ip1 = i_nlinks ip" "i_count ip1 = i_count ip" using add by (auto simp: zone_added_def)
  then show ?thesis using ok2 k(1) A(3) old new other kz unfolding wrote_def by (simp add: ip2)
qed

subsection \<open>The writing loop\<close>

lemma only_trans:
  fixes s :: "'z fs_state_scheme"
  assumes "\<exists>f. keep s1 = keep (upd_inode n f s)" "\<exists>f. keep s2 = keep (upd_inode n f s1)"
  shows "\<exists>f. keep s2 = keep (upd_inode n f s)"
proof -
  obtain f g where "keep s1 = upd_inode n f (keep s)" "keep s2 = upd_inode n g (keep s1)" using assms by auto
  then have "keep s2 = keep (upd_inode n (g \<circ> f) s)" by (simp add: upd_inode_def)
  then show ?thesis by blast
qed

lemma only_tables:
  fixes s :: "'z fs_state_scheme"
  assumes "\<exists>f. keep s' = keep (upd_inode n f s)"
  shows "super_tab s' = super_tab s" "\<And>j. j \<noteq> n \<Longrightarrow> inode_table s' j = inode_table s j"
proof -
  obtain f where f: "keep s' = keep (upd_inode n f s)" using assms by blast
  show "super_tab s' = super_tab s" "\<And>j. j \<noteq> n \<Longrightarrow> inode_table s' j = inode_table s j"
    using keep_tablesD [OF f] by simp_all
qed

lemma blk_of_copy_in:
  "off + k \<le> BLOCK_SIZE \<Longrightarrow> blk_of (copy_in um buf off k d) = copy_in um buf off k (blk_of d)"
  by (auto simp: blk_of_def copy_in_def fun_eq_iff)

lemma write_block:
  fixes s :: "'z fs_state_scheme"
  assumes "mounted s" "pins (cnts s) < 255" "i_dev (inode_table s n) = ROOT_DEV" "z \<le> 200000" "off + k \<le> BLOCK_SIZE"
  obtains b s1 s2 where "bread ROOT_DEV z s = Some (Some b, s1)" "inode_table s1 = inode_table s"
    "brelse (Some b) (bput b (copy_in um buf off k (b_data (heads s1 b))) s1) = Some s2"
    "bc.settles s s2 ((view s)(z := copy_in um buf off k (view s z)))"
proof -
  have m: "bc_ok s" "disk_fits s" using assms(1) by (auto simp: mounted_def)
  obtain b s1 where rd: "bread ROOT_DEV z s = Some (Some b, s1)"
    and dat: "blk_of (b_data (heads s1 b)) = view s z" and kp: "keep s1 = keep s"
    and wr: "\<And>d. \<exists>s2. brelse (Some b) (bput b d s1) = Some s2 \<and> bc.settles s s2 ((view s)(z := blk_of d))"
    by (rule bc.access [OF m(1) assms(2) disk_fits_blk [OF m(2) assms(4)]]) (rule that)
  from wr [of "copy_in um buf off k (b_data (heads s1 b))"] show ?thesis
    using rd keep_tablesD [OF kp] that by (auto simp: blk_of_copy_in [OF assms(5)] dat)
qed

lemma file_write_loop_spec:
  fixes s :: "'z fs_state_scheme"
  assumes "mounted s" "pins (cnts s) < 254" "layout_ok (super_tab s 0)" "i_dev (inode_table s n) = ROOT_DEV"
    and "file_ok (view s) (super_tab s 0) (inode_table s n)" "unat pos + nat count \<le> MAX_FILE"
    and "unat pos + nat count \<le> NR_DIRECT * BLOCK_SIZE \<or> i_zone (inode_table s n) 7 \<noteq> 0" "nat count \<le> fuel"
  shows "\<exists>w s'. file_write_loop um fuel n pos buf count result s = Some (result + int w, s') \<and> w \<le> nat count \<and>
    mounted s' \<and> cnts s' = cnts s \<and> (\<exists>f. keep s' = keep (upd_inode n f s)) \<and>
    wrote (super_tab s 0) um (buf + of_int result) (unat pos) w (view s) (inode_table s n) (view s') (inode_table s' n) \<and>
    (w = nat count \<or> disk_full (view s') (super_tab s 0))"
  using assms
proof (induction fuel arbitrary: s pos count result)
  case (0 s)
  have "\<exists>f. keep s = keep (upd_inode n f s)" by (rule exI [of _ id]) (simp add: upd_inode_def)
  with 0 wrote_none [OF 0(5)] show ?case by (intro exI [of _ 0] exI [of _ s]) auto
next
  case (Suc fuel s pos count result)
  let ?ip = "inode_table s n" and ?sb = "super_tab s 0" and ?q = "unat pos"
  have id: "\<exists>f. keep s = keep (upd_inode n f s)" by (rule exI [of _ id]) (simp add: upd_inode_def)
  show ?case
  proof (cases "count > 0")
    case False
    then show ?thesis using Suc.prems(1) wrote_none [OF Suc.prems(5)] id by (intro exI [of _ 0] exI [of _ s]) auto
  next
    case True
    let ?k = "nat (chunk pos count)" and ?zo = "?q div BLOCK_SIZE"
    note C = chunk_bounds [OF True, of pos]
    have k: "0 < ?k" "?k \<le> nat count" "chunk pos count = int ?k" using C by auto
    have q: "?q < MAX_FILE" using Suc.prems(6) True by linarith
    have zo: "?zo < NR_DIRECT + NR_INDIRECT" "?zo < NR_DIRECT \<or> i_zone ?ip 7 \<noteq> 0"
      using q Suc.prems(7) True by (auto simp: MAX_FILE_div div_less_iff_less_mult BLOCK_SIZE_def)
    obtain r s1 where w: "write_zone n ?zo s = Some (r, s1)" "mounted s1" "cnts s1 = cnts s" "\<exists>f. keep s1 = keep (upd_inode n f s)"
      "r = None \<Longrightarrow> view s1 = view s \<and> inode_table s1 n = ?ip \<and> disk_full (view s) ?sb"
      "\<And>z. r = Some z \<Longrightarrow> zone_added ?sb ?zo (view s) ?ip (view s1) (inode_table s1 n) \<and> z = zone_at (view s1) (inode_table s1 n) ?zo"
      by (rule write_zone_spec [OF Suc.prems(1-5) zo]) (rule that)
    show ?thesis
    proof (cases r)
      case None
      then show ?thesis using w True wrote_none [OF Suc.prems(5)] by (intro exI [of _ 0] exI [of _ s1]) auto
    next
      case (Some z)
      let ?ip1 = "inode_table s1 n" and ?off = "?q mod BLOCK_SIZE"
      note Z = w(6) [OF Some]
      have z0: "z \<noteq> 0" and d1: "i_dev ?ip1 = ROOT_DEV" using Z Suc.prems(4) by (auto simp: zone_added_def)
      have p1: "pins (cnts s1) < 255" "z \<le> 200000" using w(3) Suc.prems(2) Z zone_at_less by auto
      obtain b s2 s3 where rw: "bread ROOT_DEV z s1 = Some (Some b, s2)" "inode_table s2 = inode_table s1"
        "brelse (Some b) (bput b (copy_in um (buf + of_int result) ?off ?k (b_data (heads s2 b))) s2) = Some s3"
        "bc.settles s1 s3 ((view s1)(z := copy_in um (buf + of_int result) ?off ?k (view s1 z)))"
        by (rule write_block [OF w(2) p1(1) d1 p1(2) C(4)]) (rule that)
      note S = settlesD [OF rw(4)]
      let ?pos = "pos + of_int (chunk pos count)"
      have pos: "unat ?pos = ?q + ?k" using unat_add_int [of "chunk pos count" pos] C(1) k(2) Suc.prems(6) by (simp add: file_consts)
      have "(of_int (chunk pos count) :: u32) = of_nat ?k" using k(3) by (metis of_int_of_nat_eq)
      then have pw: "?pos = of_nat (?q + ?k)" by simp
      have t3: "inode_table s3 = inode_table s1" using keep_tablesD(2) [OF S(4)] .
      define s4 where "s4 = (if ?pos > i_size (inode_table s3 n)
        then upd_inode n (\<lambda>ip. ip\<lparr>i_size := ?pos, i_dirt := True\<rparr>) s3 else s3)"
      have step: "file_write_loop um (Suc fuel) n pos buf count result s =
          file_write_loop um fuel n ?pos buf (count - chunk pos count) (result + chunk pos count) s4"
        using True w(1) Some z0 rw(1,3) d1 unfolding s4_def by (simp add: Let_def)
      have ip4: "\<exists>d. inode_table s4 n = ?ip1\<lparr>i_size := max (i_size ?ip1) (of_nat (?q + ?k)), i_dirt := d\<rparr>"
      proof (cases "?pos > i_size ?ip1")
        case True
        then have "inode_table s4 n = ?ip1\<lparr>i_size := max (i_size ?ip1) (of_nat (?q + ?k)), i_dirt := True\<rparr>"
          unfolding s4_def t3 pw by (simp add: t3 max.absorb2)
        then show ?thesis ..
      next
        case False
        then have "inode_table s4 n = ?ip1\<lparr>i_size := max (i_size ?ip1) (of_nat (?q + ?k)), i_dirt := i_dirt ?ip1\<rparr>"
          unfolding s4_def t3 pw by (simp add: t3 max.absorb1 del: of_nat_add)
        then show ?thesis ..
      qed
      then obtain d where ip4: "inode_table s4 n = ?ip1\<lparr>i_size := max (i_size ?ip1) (of_nat (?q + ?k)), i_dirt := d\<rparr>" ..
      have s4: "view s4 = (view s1)(z := copy_in um (buf + of_int result) ?off ?k (view s1 z))" "cnts s4 = cnts s" "mounted s4"
        using S w(3) mounted_keep [OF w(2) S(1,4)] by (simp_all add: s4_def)
      have k4: "\<exists>f. keep s4 = keep (upd_inode n f s1)"
      proof (cases "?pos > i_size (inode_table s3 n)")
        case True
        then show ?thesis using S(4) by (intro exI) (simp add: s4_def)
      next
        case False
        then have "keep s4 = keep (upd_inode n id s1)" using S(4) by (simp add: s4_def) (simp add: upd_inode_def)
        then show ?thesis by blast
      qed
      note only = only_trans [OF w(4) k4]
      have W: "wrote ?sb um (buf + of_int result) ?q ?k (view s) ?ip (view s4) (inode_table s4 n)"
        by (rule wrote_block [OF Suc.prems(5,3) conjunct1 [OF Z] k(1) C(4) q _ ip4]) (use s4(1) Z in simp)
      then have W': "file_ok (view s4) ?sb (inode_table s4 n)" "i_dev (inode_table s4 n) = ROOT_DEV"
        "i_zone (inode_table s4 n) 7 = i_zone ?ip 7" using Suc.prems(4) by (auto simp: wrote_def)
      have sup: "super_tab s4 = super_tab s" using only_tables(1) [OF only] .
      have cnt: "nat (count - chunk pos count) = nat count - ?k" using C(1) by (simp add: nat_diff_distrib)
      have lim: "?q + ?k + (nat count - ?k) = ?q + nat count" using k(2) by simp
      have prems: "mounted s4" "pins (cnts s4) < 254" "layout_ok (super_tab s4 0)" "i_dev (inode_table s4 n) = ROOT_DEV"
        "file_ok (view s4) (super_tab s4 0) (inode_table s4 n)" "unat ?pos + nat (count - chunk pos count) \<le> MAX_FILE"
        "unat ?pos + nat (count - chunk pos count) \<le> NR_DIRECT * BLOCK_SIZE \<or> i_zone (inode_table s4 n) 7 \<noteq> 0"
        "nat (count - chunk pos count) \<le> fuel"
        unfolding pos cnt lim sup using s4 Suc.prems W' k by auto
      from Suc.IH [OF prems, of "result + chunk pos count"] obtain v s5 where
        v: "file_write_loop um fuel n ?pos buf (count - chunk pos count) (result + chunk pos count) s4 = Some (result + chunk pos count + int v, s5)"
        "v \<le> nat count - ?k" "mounted s5" "cnts s5 = cnts s4" "\<exists>f. keep s5 = keep (upd_inode n f s4)"
        "wrote ?sb um (buf + of_int (result + chunk pos count)) (?q + ?k) v (view s4) (inode_table s4 n) (view s5) (inode_table s5 n)"
        "v = nat count - ?k \<or> disk_full (view s5) ?sb"
        unfolding pos cnt sup by blast
      have "buf + of_int (result + chunk pos count) = buf + of_int result + of_nat ?k" using k(3) by (metis add.assoc of_int_add of_int_of_nat_eq)
      note W2 = wrote_trans [OF W v(6) [unfolded this]]
      have tot: "result + chunk pos count + int v = result + int (?k + v)" using C(1) by simp
      show ?thesis
      proof (intro exI conjI)
        show "file_write_loop um (Suc fuel) n pos buf count result s = Some (result + int (?k + v), s5)"
          unfolding step v(1) tot ..
        show "?k + v \<le> nat count" using v(2) k(2) by simp
        show "mounted s5" by (rule v(3))
        show "cnts s5 = cnts s" using v(4) s4(2) by simp
        show "keep s5 = keep (upd_inode n (SOME f. keep s5 = keep (upd_inode n f s)) s)"
          using someI_ex [OF only_trans [OF only v(5)]] .
        show "wrote ?sb um (buf + of_int result) ?q (?k + v) (view s) ?ip (view s5) (inode_table s5 n)"
          by (rule W2) (use v(2) k(2) Suc.prems(6) in linarith)
        show "?k + v = nat count \<or> disk_full (view s5) ?sb" using v(7) k(2) by auto
      qed
    qed
  qed
qed

subsection \<open>A machine with an empty file\<close>

definition empty_file :: "'z \<Rightarrow> 'z fs_state_scheme" where
  "empty_file m = upd_inode 0 (\<lambda>ip. ip\<lparr>i_dev := ROOT_DEV, i_num := 1, i_nlinks := 1\<rparr>) (boot_fs m)"

lemma empty_file_facts:
  "mounted (empty_file m)" "pins (cnts (empty_file m)) = 0" "super_tab (empty_file m) 0 = small_super"
  "inode_table (empty_file m) 0 = zero_inode\<lparr>i_dev := ROOT_DEV, i_num := 1, i_nlinks := 1\<rparr>"
  "view (empty_file m) = (\<lambda>_ _. 0)"
  by (simp_all add: empty_file_def boot_fs_facts boot_fs_tables)

lemma small_layout: "layout_ok small_super"
  by (simp add: layout_ok_def small_super_def zmap_at_def BITS_PER_BLOCK_def BLOCK_SIZE_def)

lemma empty_file_ok: "file_ok V sb (zero_inode\<lparr>i_dev := ROOT_DEV, i_num := 1, i_nlinks := 1\<rparr>)"
proof -
  have "zone_at V (zero_inode\<lparr>i_dev := ROOT_DEV, i_num := 1, i_nlinks := 1\<rparr>) k = 0" for k
    by (simp add: zone_at_def zero_inode_def)
  then show ?thesis by (auto simp: file_ok_def file_zones_def zero_inode_def)
qed

subsection \<open>Properties\<close>

text \<open>
  C15. \<open>file_read\<close> returns exactly the bytes of the file from the file position on, cut off at the
  requested count and at the end of the file. Holes read as zeros. The whole disk and all tables
  are left as they were, and no buffer reference is kept.
\<close>

theorem file_read_returns_contents:
  fixes s :: "'z fs_state_scheme"
  assumes "mounted s" and "pins (cnts s) < 255" and "i_dev (inode_table s n) = ROOT_DEV"
    and "unat (i_size (inode_table s n)) \<le> MAX_FILE"
  shows "\<exists>s'. file_read n pos count s =
      Some (int (min (unat pos + nat count) (unat (i_size (inode_table s n))) - unat pos),
            map (fbyte (view s) (inode_table s n)) [unat pos..<min (unat pos + nat count) (unat (i_size (inode_table s n)))], s') \<and>
    view s' = view s \<and> cnts s' = cnts s \<and> keep s' = keep s \<and> mounted s'"
proof -
  from file_read_loop_spec [where fuel = "nat count" and count = count and pos = pos and result = 0 and out = "[]", OF assms order_refl] obtain s' where
    r: "file_read n pos count s =
      Some (int (min (unat pos + nat count) (unat (i_size (inode_table s n))) - unat pos),
            map (fbyte (view s) (inode_table s n)) [unat pos..<min (unat pos + nat count) (unat (i_size (inode_table s n)))], s')"
    "bc.settles s s' (view s)"
    unfolding file_read_def by auto
  note S = settlesD [OF r(2)]
  show ?thesis using r(1) S(2,3,4) mounted_keep [OF assms(1) S(1,4)] by blast
qed

theorem file_read_returns_contents_witness:
  "\<exists>s'. file_read 0 0 10 (empty_file ()) = Some (0, [], s')"
proof -
  have a: "pins (cnts (empty_file ())) < 255" "i_dev (inode_table (empty_file ()) 0) = ROOT_DEV"
    "i_size (inode_table (empty_file ()) 0) = 0"
    by (simp_all add: empty_file_facts zero_inode_def)
  then have b: "unat (i_size (inode_table (empty_file ()) 0)) \<le> MAX_FILE" by simp
  from file_read_returns_contents [OF empty_file_facts(1) a(1,2) b, of 0 10] show ?thesis by (auto simp: a(3))
qed



text \<open>
  C17. What \<open>file_write\<close> stored, \<open>file_read\<close> at the same position returns: all \<open>w\<close> bytes that the write
  reported, in order.
\<close>

theorem file_write_read_back:
  fixes s :: "'z fs_state_scheme"
  assumes "mounted s" and "pins (cnts s) < 254" and "layout_ok (super_tab s 0)"
    and "i_dev (inode_table s n) = ROOT_DEV" and "file_ok (view s) (super_tab s 0) (inode_table s n)"
    and "buf \<noteq> 0" and "unat pos + nat count \<le> MAX_FILE" and "unat (i_size (inode_table s n)) \<le> MAX_FILE"
    and "unat pos + nat count \<le> NR_DIRECT * BLOCK_SIZE \<or> i_zone (inode_table s n) 7 \<noteq> 0"
  shows "\<exists>w s1 s2. file_write um (Some n) pos buf count s = Some (int w, s1) \<and>
    file_read n pos (int w) s1 = Some (int w, map (\<lambda>k. um (buf + of_nat k)) [0..<w], s2)"
proof -
  from file_write_loop_spec [where fuel = "nat count" and um = um and buf = buf and result = 0, OF assms(1-5,7,9) order_refl] obtain w s1 where
    r: "file_write um (Some n) pos buf count s = Some (int w, s1)" "w \<le> nat count" "mounted s1" "cnts s1 = cnts s"
    and W: "wrote (super_tab s 0) um buf (unat pos) w (view s) (inode_table s n) (view s1) (inode_table s1 n)"
    using assms(6) by (auto simp: file_write_def)
  have lim: "unat pos + w \<le> MAX_FILE" using r(2) assms(7) by linarith
  then have pw: "unat (of_nat (unat pos + w) :: u32) = unat pos + w" by (intro unat_of_nat_small) (simp add: file_consts)
  have sz: "i_size (inode_table s1 n) = (if w = 0 then i_size (inode_table s n) else max (i_size (inode_table s n)) (of_nat (unat pos + w)))"
    using W by (simp add: wrote_def)
  have sz1: "unat (i_size (inode_table s1 n)) \<le> MAX_FILE" unfolding sz using assms(8) lim pw by (simp add: max_def del: of_nat_add)
  have end_: "min (unat pos + w) (unat (i_size (inode_table s1 n))) - unat pos = w"
    "[unat pos..<min (unat pos + w) (unat (i_size (inode_table s1 n)))] = [unat pos..<unat pos + w]"
  proof -
    have "unat pos + w \<le> unat (i_size (inode_table s1 n)) \<or> w = 0"
      unfolding sz using pw by (auto simp: max_def word_le_nat_alt simp del: of_nat_add)
    then show "min (unat pos + w) (unat (i_size (inode_table s1 n))) - unat pos = w"
      "[unat pos..<min (unat pos + w) (unat (i_size (inode_table s1 n)))] = [unat pos..<unat pos + w]" by auto
  qed
  have p1: "pins (cnts s1) < 255" "i_dev (inode_table s1 n) = ROOT_DEV" using r(4) assms(2,4) W by (auto simp: wrote_def)
  have bytes: "map (fbyte (view s1) (inode_table s1 n)) [unat pos..<unat pos + w] = map (\<lambda>k. um (buf + of_nat k)) [0..<w]"
  proof (rule nth_equalityI)
    fix i assume "i < length (map (fbyte (view s1) (inode_table s1 n)) [unat pos..<unat pos + w])"
    then have i: "i < w" by simp
    then have "unat pos \<le> unat pos + i \<and> unat pos + i < unat pos + w" by simp
    then have "fbyte (view s1) (inode_table s1 n) (unat pos + i) = um (buf + of_nat (unat pos + i - unat pos))"
      using W unfolding wrote_def by blast
    with i show "map (fbyte (view s1) (inode_table s1 n)) [unat pos..<unat pos + w] ! i = map (\<lambda>k. um (buf + of_nat k)) [0..<w] ! i"
      by simp
  qed simp
  from file_read_loop_spec [where fuel = w and count = "int w" and pos = pos and result = 0 and out = "[]", OF r(3) p1 sz1] obtain s2 where
    "file_read n pos (int w) s1 = Some (int w, map (\<lambda>k. um (buf + of_nat k)) [0..<w], s2)"
    unfolding file_read_def nat_int end_ bytes by auto
  with r(1) show ?thesis by blast
qed

theorem file_write_read_back_witness:
  "\<exists>w s1 s2. file_write (\<lambda>_. 65) (Some 0) 1000 4096 3000 (empty_file ()) = Some (int w, s1) \<and>
    file_read 0 1000 (int w) s1 = Some (int w, replicate w 65, s2)"
proof -
  have a: "pins (cnts (empty_file ())) < 254" "layout_ok (super_tab (empty_file ()) 0)"
    "i_dev (inode_table (empty_file ()) 0) = ROOT_DEV"
    "file_ok (view (empty_file ())) (super_tab (empty_file ()) 0) (inode_table (empty_file ()) 0)"
    using small_layout empty_file_ok by (simp_all add: empty_file_facts)
  have b: "(4096 :: u32) \<noteq> 0" "unat (1000 :: u32) + nat 3000 \<le> MAX_FILE"
    "unat (i_size (inode_table (empty_file ()) 0)) \<le> MAX_FILE"
    "unat (1000 :: u32) + nat 3000 \<le> NR_DIRECT * BLOCK_SIZE \<or> i_zone (inode_table (empty_file ()) 0) 7 \<noteq> 0"
    by (simp_all add: file_consts empty_file_facts zero_inode_def)
  from file_write_read_back [OF empty_file_facts(1) a b, of "\<lambda>_. 65"] show ?thesis by (simp add: map_replicate_const)
qed

text \<open>
  C18. A new indirect block is not cleared. When a file grows past its seven direct blocks and the zone
  allocated for its indirect block still holds old data, that data is taken for zone numbers: the
  byte written at position \<open>pos\<close> goes to whatever block \<open>e\<close> the old contents name.
\<close>

theorem file_write_stale_indirect:
  fixes s :: "'z fs_state_scheme"
  assumes "mounted s" and "pins (cnts s) < 254" and "layout_ok (super_tab s 0)"
    and "i_dev (inode_table s n) = ROOT_DEV" and "i_zone (inode_table s n) 7 = 0"
    and "NR_DIRECT * BLOCK_SIZE \<le> unat pos" and "unat pos < MAX_FILE" and "buf \<noteq> 0"
    and "new_block ROOT_DEV s = Some (z, s1)" and "z \<noteq> 0"
    and "e = get16 (view s z) (2 * (unat pos div BLOCK_SIZE - NR_DIRECT))" and "e \<noteq> 0"
  shows "\<exists>s'. file_write um (Some n) pos buf 1 s = Some (1, s') \<and> view s' (unat e) (unat pos mod BLOCK_SIZE) = um buf"
proof -
  let ?sb = "super_tab s 0" and ?zo = "unat pos div BLOCK_SIZE" and ?off = "unat pos mod BLOCK_SIZE"
  let ?k = "2 * (?zo - NR_DIRECT)" and ?zz = "of_nat z :: u16"
  have p: "pins (cnts s) < 255" using assms(2) by simp
  have Z: "unat (s_firstdatazone ?sb) \<le> z \<and> z - unat (s_firstdatazone ?sb) < unat (s_zmap_blocks ?sb) * BITS_PER_BLOCK \<and>
       unat ?zz = z \<and> ?zz \<noteq> 0 \<and> bc.settles s s1 (bmap_set (zmap_at ?sb) (z - unat (s_firstdatazone ?sb)) (view s))"
    by (rule new_zone [OF assms(1) p assms(3)]) (use assms(9,10) in auto)
  note S = settlesD [OF conjunct2 [OF conjunct2 [OF conjunct2 [OF conjunct2 [OF Z]]]]]
  have t1: "inode_table s1 = inode_table s" using keep_tablesD(2) [OF S(4)] .
  let ?s2 = "upd_inode n (\<lambda>ip. ip\<lparr>i_zone := (i_zone ip)(7 := ?zz), i_dirt := True\<rparr>) s1"
  have m2: "mounted ?s2" "pins (cnts ?s2) < 255" using mounted_keep [OF assms(1) S(1,4)] S(3) p by simp_all
  have ok2: "bc_ok ?s2" "disk_fits ?s2" using m2(1) unfolding mounted_def by blast+
  have fits: "blk_ok ?s2 (unat ?zz)" by (rule disk_fits_blk [OF ok2(2)]) simp
  obtain b s3 where rd: "bread ROOT_DEV (unat ?zz) ?s2 = Some (Some b, s3)"
    and dat: "blk_of (b_data (heads s3 b)) = view ?s2 (unat ?zz)" and kp: "keep s3 = keep ?s2"
    and rel: "\<exists>s4. brelse (Some b) s3 = Some s4 \<and> bc.settles ?s2 s4 (view ?s2)"
    by (rule bc.access [OF ok2(1) m2(2) fits]) (rule that)
  obtain s4 where s4: "brelse (Some b) s3 = Some s4" "bc.settles ?s2 s4 (view ?s2)" using rel by blast
  note S4 = settlesD [OF s4(2)]
  have "(z - unat (s_firstdatazone ?sb)) div BITS_PER_BLOCK < unat (s_zmap_blocks ?sb)" using Z by (intro less_mult_imp_div_less) simp
  moreover have "zmap_at ?sb + unat (s_zmap_blocks ?sb) \<le> z" using Z assms(3) by (auto simp: layout_ok_def)
  ultimately have "view s1 z = view s z" unfolding S(2) by (intro bmap_other(1)) auto
  then have vz: "view ?s2 (unat ?zz) = view s z" using Z by simp
  have zo: "\<not> ?zo < NR_DIRECT" "\<not> ?zo - NR_DIRECT \<ge> NR_INDIRECT" "?k + 2 \<le> BLOCK_SIZE"
    using assms(6,7) by (auto simp: MAX_FILE_div not_less less_eq_div_iff_mult_less_eq BLOCK_SIZE_def)
      (auto simp: file_consts div_less_iff_less_mult)
  have e: "get16 (b_data (heads s3 b)) ?k = e"
    using zo(3) assms(11) dat vz get16_blk_of [of ?k "b_data (heads s3 b)"] by simp
  have w: "write_zone n ?zo s = Some (Some (unat e), s4)"
    using zo assms(4,5,9,12) t1 Z rd s4(1) e by (simp add: write_zone_def)
  have t4: "i_dev (inode_table s4 n) = ROOT_DEV" using keep_tablesD(2) [OF S4(4)] t1 assms(4) by simp
  have m4: "mounted s4" "pins (cnts s4) < 255" using mounted_keep [OF m2(1) S4(1,4)] S4(3) m2(2) by simp_all
  have off: "?off + 1 \<le> BLOCK_SIZE" by (simp add: Suc_le_eq BLOCK_SIZE_def)
  obtain c s5 s6 where rw: "bread ROOT_DEV (unat e) s4 = Some (Some c, s5)" "inode_table s5 = inode_table s4"
    "brelse (Some c) (bput c (copy_in um buf ?off 1 (b_data (heads s5 c))) s5) = Some s6"
    "bc.settles s4 s6 ((view s4)(unat e := copy_in um buf ?off 1 (view s4 (unat e))))"
    by (rule write_block [OF m4 t4 _ off]) (rule u16_fits, rule that)
  have v6: "view s6 (unat e) ?off = um buf" using settlesD(2) [OF rw(4)] by (simp add: copy_in_def)
  have ch: "chunk pos 1 = 1" using off by (simp add: chunk_def)
  have "unat e \<noteq> 0" using assms(12) by (simp add: unat_eq_zero)
  then obtain s7 where "file_write um (Some n) pos buf 1 s = Some (1, s7)" "view s7 = view s6"
    using w rw(1,3) t4 ch assms(8) by (simp add: file_write_def Let_def eval_nat_numeral)
  with v6 show ?thesis by simp
qed

theorem file_write_stale_indirect_witness:
  "\<exists>s s' :: unit fs_state_scheme. mounted s \<and> file_write (\<lambda>_. 65) (Some 0) 7168 4096 1 s = Some (1, s') \<and>
     view s' 1 0 = 65 \<and> view s 1 0 = 0"
proof -
  let ?s0 = "empty_file ()" and ?d = "put16 0 1 (\<lambda>_. 0)"
  have m: "bc_ok ?s0" "disk_fits ?s0" "pins (cnts ?s0) < 255" using empty_file_facts(1,2) [of "()"] by (auto simp: mounted_def)
  have "(7 :: nat) \<le> 200000" by simp
  from disk_fits_blk [OF m(2) this] obtain b s1 where
    wr: "\<And>d. \<exists>s2. brelse (Some b) (bput b d s1) = Some s2 \<and> bc.settles ?s0 s2 ((view ?s0)(7 := blk_of d))"
    by (rule bc.access [OF m(1,3)]) (rule that)
  from wr [of ?d] obtain s where "bc.settles ?s0 s ((view ?s0)(7 := blk_of ?d))" by blast
  note S = settlesD [OF this]
  have ms: "mounted s" using mounted_keep [OF empty_file_facts(1) S(1,4)] .
  have t: "super_tab s 0 = small_super" "inode_table s 0 = zero_inode\<lparr>i_dev := ROOT_DEV, i_num := 1, i_nlinks := 1\<rparr>"
    using keep_tablesD [OF S(4)] by (simp_all add: empty_file_facts)
  have p: "pins (cnts s) < 255" "pins (cnts s) < 254" using S(3) by (simp_all add: empty_file_facts)
  have v: "view s = (\<lambda>_ _. 0)(7 := blk_of ?d)" using S(2) by (simp add: empty_file_facts)
  have e: "1 = get16 (view s 7) (2 * (unat (7168 :: u32) div BLOCK_SIZE - NR_DIRECT))"
    unfolding v by (simp add: file_consts)
  obtain s2 where nb: "new_block ROOT_DEV s = Some (7, s2)"
    by (rule first_new_block [OF ms p(1)])
      (simp_all add: t small_super_def bmap_bit_def tst_bit_def v zmap_at_def BITS_PER_BLOCK_def BLOCK_SIZE_def)
  have "\<exists>s'. file_write (\<lambda>_. 65) (Some 0) 7168 4096 1 s = Some (1, s') \<and>
      view s' (unat (1 :: u16)) (unat (7168 :: u32) mod BLOCK_SIZE) = (\<lambda>_. 65) (4096 :: u32)"
    by (rule file_write_stale_indirect [OF ms p(2) _ _ _ _ _ _ nb _ e])
      (simp_all add: t small_layout zero_inode_def file_consts)
  then obtain s' where "file_write (\<lambda>_. 65) (Some 0) 7168 4096 1 s = Some (1, s')" "view s' 1 0 = 65"
    by (auto simp: BLOCK_SIZE_def)
  then show ?thesis using ms v by (intro exI [of _ s] exI [of _ s']) simp
qed

end
