(* ===== verification/Namei.thy ===== *)
theory Namei
  imports File_Write
begin

text \<open>
  Directories and path names: \<open>fs/namei.c\<close>. A C string is the list of its bytes without the final
  zero; \<open>name\<close> and \<open>namelen\<close> of the source are one list. A directory entry is 16 bytes of a directory
  block: the inode number and 14 bytes of name.
\<close>

unbundle bit_operations_syntax

type_synonym cstr = "byte list"

definition SLASH :: byte where "SLASH = 47"
definition DOT :: byte where "DOT = 46"
definition S_IFDIR :: u16 where "S_IFDIR = 0x4000"
definition S_IFREG :: u16 where "S_IFREG = 0x8000"
definition MAY_EXEC :: u16 where "MAY_EXEC = 1"
definition MAY_WRITE :: u16 where "MAY_WRITE = 2"
definition MAY_READ :: u16 where "MAY_READ = 4"
definition DIRENT_SIZE :: nat where "DIRENT_SIZE = 16"
definition NAME_LEN :: nat where "NAME_LEN = 14"

subsection \<open>Entries\<close>

text \<open>Entry \<open>i\<close> of a directory: the buffer that holds it, referenced, and its offset there.\<close>

definition next_entry :: "nat \<Rightarrow> nat \<Rightarrow> 'z fs_state_scheme \<Rightarrow> ((nat \<times> nat) option \<times> 'z fs_state_scheme) option" where
  "next_entry dir i s =
     (let ip = inode_table s dir;
          block = i * DIRENT_SIZE div BLOCK_SIZE;
          offset = i * DIRENT_SIZE mod BLOCK_SIZE
      in if block < NR_DIRECT
         then if i_zone ip block = 0 then Some (None, s)
              else do {
                (bh, s) \<leftarrow> bread (i_dev ip) (unat (i_zone ip block)) s;
                Some (map_option (\<lambda>b. (b, offset)) bh, s) }
         else if i_zone ip 7 = 0 then Some (None, s)
         else do {
           (ibh, s) \<leftarrow> bread (i_dev ip) (unat (i_zone ip 7)) s;
           case ibh of
             None \<Rightarrow> Some (None, s)
           | Some b \<Rightarrow>
               if block - NR_DIRECT \<ge> NR_INDIRECT then None
               else do {
                 let blk = get16 (b_data (heads s b)) (2 * (block - NR_DIRECT));
                 s \<leftarrow> brelse (Some b) s;
                 if blk = 0 then Some (None, s)
                 else do {
                   (bh, s) \<leftarrow> bread (i_dev ip) (unat blk) s;
                   Some (map_option (\<lambda>b. (b, offset)) bh, s) } } })"

definition de_inode :: "bytes \<Rightarrow> nat \<Rightarrow> u16" where
  "de_inode d off = get16 d off"

definition de_name :: "bytes \<Rightarrow> nat \<Rightarrow> bytes" where
  "de_name d off = (\<lambda>k. d (off + 2 + k))"

definition name_eq :: "bytes \<Rightarrow> cstr \<Rightarrow> bool" where
  "name_eq d name \<longleftrightarrow> list_all (\<lambda>j. d j = name ! j) [0..<min (length name) NAME_LEN] \<and>
     (length name \<le> NAME_LEN \<longrightarrow> length name = NAME_LEN \<or> d (length name) = 0)"

subsection \<open>Permissions\<close>

definition suser :: "'z task_state_scheme \<Rightarrow> bool" where
  "suser s \<longleftrightarrow> t_euid (cur s) = 0"

definition permission :: "nat option \<Rightarrow> u16 \<Rightarrow> 'z fs_state_scheme \<Rightarrow> bool" where
  "permission inode msk s =
     (case inode of None \<Rightarrow> False
      | Some n \<Rightarrow>
          let ip = inode_table s n
          in if i_dev ip \<noteq> 0 \<and> i_nlinks ip = 0 then False
             else let mode = (if t_euid (cur s) = i_uid ip then drop_bit 6 (i_mode ip)
                              else if t_egid (cur s) = ucast (i_gid ip) then drop_bit 3 (i_mode ip)
                              else i_mode ip)
                  in if mode AND msk AND 7 = msk then True else suser s)"

subsection \<open>The directory-entry cache\<close>

definition dcache_invalidate :: "'z fs_state_scheme \<Rightarrow> 'z fs_state_scheme" where
  "dcache_invalidate s = s\<lparr>dcache := (\<lambda>i. if i < DCACHE_SIZE then (dcache s i)\<lparr>d_valid := False\<rparr> else dcache s i)\<rparr>"

definition dcache_match :: "u16 \<Rightarrow> u16 \<Rightarrow> cstr \<Rightarrow> dcache_entry \<Rightarrow> bool" where
  "dcache_match dev dir_ino name e \<longleftrightarrow> d_valid e \<and> d_dev e = dev \<and> d_dir_ino e = dir_ino \<and> name_eq (d_name e) name"

definition dcache_lookup :: "u16 \<Rightarrow> u16 \<Rightarrow> cstr \<Rightarrow> 'z fs_state_scheme \<Rightarrow> u16 option" where
  "dcache_lookup dev dir_ino name s =
     map_option (\<lambda>i. d_target_ino (dcache s i)) (scan (\<lambda>i. dcache_match dev dir_ino name (dcache s i)) 0 DCACHE_SIZE)"

definition store_name :: "cstr \<Rightarrow> bytes \<Rightarrow> bytes" where
  "store_name name d = (\<lambda>k. if k < min (length name) NAME_LEN then name ! k
     else if k = min (length name) NAME_LEN then 0 else d k)"

definition dcache_store :: "u16 \<Rightarrow> u16 \<Rightarrow> cstr \<Rightarrow> u16 \<Rightarrow> 'z fs_state_scheme \<Rightarrow> 'z fs_state_scheme" where
  "dcache_store dev dir_ino name ino s =
     (let (slot, s) =
            (case scan (\<lambda>i. dcache_match dev dir_ino name (dcache s i)) 0 DCACHE_SIZE of
               Some i \<Rightarrow> (i, s)
             | None \<Rightarrow> (case scan (\<lambda>i. \<not> d_valid (dcache s i)) 0 DCACHE_SIZE of
                         Some i \<Rightarrow> (i, s)
                       | None \<Rightarrow> (0, dcache_invalidate s)))
      in s\<lparr>dcache := (dcache s)(slot := \<lparr>d_dev = dev, d_dir_ino = dir_ino, d_target_ino = ino,
             d_name = store_name name (d_name (dcache s slot)), d_valid = True\<rparr>)\<rparr>)"

subsection \<open>Looking up\<close>

text \<open>The scan over the entries \<open>i, i + 1, ...\<close> (\<open>k\<close> of them) that three of the operations make: the
  first entry that satisfies \<open>p\<close>, with its buffer still referenced.\<close>

fun scan_dir :: "(bytes \<Rightarrow> nat \<Rightarrow> bool) \<Rightarrow> nat \<Rightarrow> nat \<Rightarrow> nat \<Rightarrow> 'z fs_state_scheme \<Rightarrow>
    ((nat \<times> nat \<times> nat) option \<times> 'z fs_state_scheme) option" where
  "scan_dir p dir i 0 s = Some (None, s)"
| "scan_dir p dir i (Suc k) s = do {
     (e, s) \<leftarrow> next_entry dir i s;
     case e of
       None \<Rightarrow> scan_dir p dir (Suc i) k s
     | Some (b, off) \<Rightarrow>
         if p (b_data (heads s b)) off then Some (Some (b, off, i), s)
         else do { s \<leftarrow> brelse (Some b) s; scan_dir p dir (Suc i) k s } }"

definition dir_entries :: "nat \<Rightarrow> 'z fs_state_scheme \<Rightarrow> nat" where
  "dir_entries dir s = unat (i_size (inode_table s dir)) div DIRENT_SIZE"

definition find_entry :: "nat option \<Rightarrow> cstr \<Rightarrow> 'z fs_state_scheme \<Rightarrow> (u16 option \<times> 'z fs_state_scheme) option" where
  "find_entry inode name s =
     (case inode of None \<Rightarrow> Some (None, s)
      | Some dir \<Rightarrow>
          if i_mode (inode_table s dir) AND S_IFDIR = 0 then Some (None, s)
          else case dcache_lookup (i_dev (inode_table s dir)) (ucast (i_num (inode_table s dir))) name s of
                 Some ino \<Rightarrow> Some (Some ino, s)
               | None \<Rightarrow> do {
                   (e, s) \<leftarrow> scan_dir (\<lambda>d off. name_eq (de_name d off) name) dir 0 (dir_entries dir s) s;
                   case e of
                     None \<Rightarrow> Some (None, s)
                   | Some (b, off, i) \<Rightarrow> do {
                       let ino = de_inode (b_data (heads s b)) off;
                       s \<leftarrow> brelse (Some b) s;
                       if ino = 0 then Some (None, s)
                       else Some (Some ino, dcache_store (i_dev (inode_table s dir))
                              (ucast (i_num (inode_table s dir))) name ino s) } })"

definition dir_lookup :: "nat option \<Rightarrow> cstr \<Rightarrow> 'z fs_state_scheme \<Rightarrow> (u16 option \<times> 'z fs_state_scheme) option" where
  "dir_lookup dir name s = find_entry dir name s"

subsection \<open>Path names\<close>

text \<open>One component: at most 15 bytes up to a slash, then the slashes that follow are skipped.\<close>

definition component :: "cstr \<Rightarrow> cstr \<times> cstr" where
  "component p = (let n = min 15 (length (takeWhile (\<lambda>c. c \<noteq> SLASH) p))
     in (take n p, dropWhile (\<lambda>c. c = SLASH) (drop n p)))"

lemma component_shorter:
  assumes "snd (component p) \<noteq> []"
  shows "length (snd (component p)) < length p"
proof -
  let ?n = "min 15 (length (takeWhile (\<lambda>c. c \<noteq> SLASH) p))"
  have le: "length (dropWhile (\<lambda>c. c = SLASH) (drop m p)) \<le> length p - m" for m
    using length_dropWhile_le [of "\<lambda>c. c = SLASH" "drop m p"] by simp
  have "p \<noteq> []" using assms by (auto simp: component_def)
  show ?thesis
  proof (cases "hd p = SLASH")
    case True
    then have n: "?n = 0" using \<open>p \<noteq> []\<close> by (cases p) auto
    then obtain q where p: "p = SLASH # q" using True \<open>p \<noteq> []\<close> by (cases p) auto
    have "length (dropWhile (\<lambda>c. c = SLASH) q) \<le> length q" by (rule length_dropWhile_le)
    then show ?thesis using n by (simp add: component_def Let_def p)
  next
    case False
    then have "0 < ?n" using \<open>p \<noteq> []\<close> by (cases p) auto
    then have "length p - ?n < length p" using \<open>p \<noteq> []\<close> by (intro diff_less) simp_all
    with le [of ?n] show ?thesis unfolding component_def Let_def snd_conv by (rule le_less_trans)
  qed
qed

function namei_walk :: "cstr \<Rightarrow> nat \<Rightarrow> 'z fs_state_scheme \<Rightarrow> (nat option \<times> 'z fs_state_scheme) option" where
  "namei_walk p inode s =
     (let name = fst (component p); rest = snd (component p)
      in if name = [DOT]
         then if rest = [] then Some (Some inode, s)
              else if \<not> permission (Some inode) MAY_EXEC s
                then do { s \<leftarrow> iput (Some inode) s; Some (None, s) }
              else namei_walk rest inode s
         else do {
           (r, s) \<leftarrow> find_entry (Some inode) name s;
           case r of
             None \<Rightarrow> do { s \<leftarrow> iput (Some inode) s; Some (None, s) }
           | Some ino \<Rightarrow> do {
               s \<leftarrow> iput (Some inode) s;
               (r, s) \<leftarrow> iget ROOT_DEV (ucast ino) s;
               case r of
                 None \<Rightarrow> Some (None, s)
               | Some inode \<Rightarrow>
                   if rest = [] then Some (Some inode, s)
                   else if i_mode (inode_table s inode) AND S_IFDIR = 0 \<or> \<not> permission (Some inode) MAY_EXEC s
                     then do { s \<leftarrow> iput (Some inode) s; Some (None, s) }
                   else namei_walk rest inode s } })"
  by pat_completeness auto
termination
  by (relation "measure (\<lambda>(p, _, _). length p)") (auto dest: component_shorter)

declare namei_walk.simps [simp del]

definition namei :: "cstr option \<Rightarrow> 'z fs_state_scheme \<Rightarrow> (nat option \<times> 'z fs_state_scheme) option" where
  "namei pathname s =
     (case pathname of None \<Rightarrow> Some (None, s)
      | Some path \<Rightarrow> do {
          (inode, p, s) \<leftarrow>
            (if path \<noteq> [] \<and> hd path = SLASH
             then case t_root (cur s) of
                    Some n \<Rightarrow> Some (Some n, tl path, upd_inode n (\<lambda>ip. ip\<lparr>i_count := i_count ip + 1\<rparr>) s)
                  | None \<Rightarrow> do { (r, s) \<leftarrow> iget ROOT_DEV 1 s; Some (r, tl path, s) }
             else case t_pwd (cur s) of
                    Some n \<Rightarrow> Some (Some n, path, upd_inode n (\<lambda>ip. ip\<lparr>i_count := i_count ip + 1\<rparr>) s)
                  | None \<Rightarrow> Some (None, path, s));
          case inode of
            None \<Rightarrow> Some (None, s)
          | Some n \<Rightarrow> if p = [] then Some (Some n, s) else namei_walk p n s })"

subsection \<open>Changing directories\<close>

text \<open>The result says whether block \<open>block\<close> of the directory exists now (the C code returns 0).\<close>

definition ensure_dir_block :: "nat \<Rightarrow> nat \<Rightarrow> 'z fs_state_scheme \<Rightarrow> (bool \<times> 'z fs_state_scheme) option" where
  "ensure_dir_block dir block s =
     (if block < NR_DIRECT
      then if i_zone (inode_table s dir) block \<noteq> 0 then Some (True, s)
           else do {
             (z, s) \<leftarrow> new_block (i_dev (inode_table s dir)) s;
             let blk = (of_nat z :: u16);
             if blk = 0 then Some (False, s)
             else Some (True, upd_inode dir (\<lambda>ip. ip\<lparr>i_zone := (i_zone ip)(block := blk), i_dirt := True\<rparr>) s) }
      else do {
        (ind, s) \<leftarrow> (if i_zone (inode_table s dir) 7 \<noteq> 0 then Some (i_zone (inode_table s dir) 7, s)
                     else do {
                       (z, s) \<leftarrow> new_block (i_dev (inode_table s dir)) s;
                       if (of_nat z :: u16) = 0 then Some (0, s)
                       else Some (of_nat z, upd_inode dir (\<lambda>ip. ip\<lparr>i_zone := (i_zone ip)(7 := of_nat z),
                              i_dirt := True\<rparr>) s) });
        if ind = 0 then Some (False, s)
        else do {
          (bh, s) \<leftarrow> bread (i_dev (inode_table s dir)) (unat ind) s;
          case bh of
            None \<Rightarrow> Some (False, s)
          | Some b \<Rightarrow>
              if block - NR_DIRECT \<ge> NR_INDIRECT then None
              else if get16 (b_data (heads s b)) (2 * (block - NR_DIRECT)) \<noteq> 0
                then do { s \<leftarrow> brelse (Some b) s; Some (True, s) }
              else do {
                (z, s) \<leftarrow> new_block (i_dev (inode_table s dir)) s;
                if (of_nat z :: u16) = 0
                then do { s \<leftarrow> brelse (Some b) s; Some (False, s) }
                else do {
                  s \<leftarrow> brelse (Some b) (bput b (put16 (2 * (block - NR_DIRECT)) (of_nat z)
                         (b_data (heads s b))) s);
                  Some (True, s) } } } })"

definition put_dirent :: "nat \<Rightarrow> u16 \<Rightarrow> cstr \<Rightarrow> bytes \<Rightarrow> bytes" where
  "put_dirent off ino name d = (\<lambda>k. if off + 2 \<le> k \<and> k < off + DIRENT_SIZE
     then if k - (off + 2) < length name then name ! (k - (off + 2)) else 0
     else put16 off ino d k)"

definition dir_add_entry :: "nat option \<Rightarrow> cstr \<Rightarrow> u16 \<Rightarrow> 'z fs_state_scheme \<Rightarrow> (int \<times> 'z fs_state_scheme) option" where
  "dir_add_entry inode name ino s =
     (case inode of None \<Rightarrow> Some (-1, s)
      | Some dir \<Rightarrow>
          if length name > NAME_LEN then Some (-1, s)
          else do {
            let s = dcache_invalidate s;
            let entries = dir_entries dir s;
            (e, s) \<leftarrow> scan_dir (\<lambda>d off. de_inode d off = 0) dir 0 entries s;
            (e, s) \<leftarrow> (case e of
                         Some e \<Rightarrow> Some (Some e, s)
                       | None \<Rightarrow> do {
                           (ok, s) \<leftarrow> ensure_dir_block dir (entries * DIRENT_SIZE div BLOCK_SIZE) s;
                           if \<not> ok then Some (None, s)
                           else do {
                             (e, s) \<leftarrow> next_entry dir entries s;
                             Some (map_option (\<lambda>(b, off). (b, off, entries)) e, s) } });
            case e of
              None \<Rightarrow> Some (-1, s)
            | Some (b, off, i) \<Rightarrow> do {
                s \<leftarrow> brelse (Some b) (bput b (put_dirent off ino name (b_data (heads s b))) s);
                if i \<ge> entries
                then Some (0, upd_inode dir (\<lambda>ip. ip\<lparr>i_size := i_size ip + of_nat DIRENT_SIZE, i_dirt := True\<rparr>) s)
                else Some (0, s) } })"

definition free_dir_zones :: "nat \<Rightarrow> 'z fs_state_scheme \<Rightarrow> 'z fs_state_scheme option" where
  "free_dir_zones n s = do {
     s \<leftarrow> for_range 0 7 (\<lambda>i s.
            if i_zone (inode_table s n) i \<noteq> 0
            then do { s \<leftarrow> free_block (i_dev (inode_table s n)) (unat (i_zone (inode_table s n) i)) s;
                      Some (upd_inode n (\<lambda>ip. ip\<lparr>i_zone := (i_zone ip)(i := 0)\<rparr>) s) }
            else Some s) s;
     if i_zone (inode_table s n) 7 \<noteq> 0
     then do {
       (ibh, s) \<leftarrow> bread (i_dev (inode_table s n)) (unat (i_zone (inode_table s n) 7)) s;
       s \<leftarrow> (case ibh of
               None \<Rightarrow> Some s
             | Some b \<Rightarrow> do {
                 s \<leftarrow> for_range 0 (BLOCK_SIZE div 2) (\<lambda>j s.
                        let z = get16 (b_data (heads s b)) (2 * j)
                        in if z \<noteq> 0 then free_block (i_dev (inode_table s n)) (unat z) s else Some s) s;
                 brelse (Some b) s });
       s \<leftarrow> free_block (i_dev (inode_table s n)) (unat (i_zone (inode_table s n) 7)) s;
       Some (upd_inode n (\<lambda>ip. ip\<lparr>i_zone := (i_zone ip)(7 := 0)\<rparr>) s) }
     else Some s }"

definition dir_remove_entry :: "nat \<Rightarrow> cstr \<Rightarrow> 'z fs_state_scheme \<Rightarrow> (int \<times> 'z fs_state_scheme) option" where
  "dir_remove_entry dir name s = do {
     (e, s) \<leftarrow> scan_dir (\<lambda>d off. de_inode d off \<noteq> 0 \<and> name_eq (de_name d off) name) dir 0 (dir_entries dir s) s;
     case e of
       None \<Rightarrow> Some (-1, s)
     | Some (b, off, i) \<Rightarrow> do {
         s \<leftarrow> brelse (Some b) (bput b (put16 off 0 (b_data (heads s b))) s);
         Some (0, dcache_invalidate s) } }"

definition dir_is_empty :: "nat \<Rightarrow> 'z fs_state_scheme \<Rightarrow> (bool \<times> 'z fs_state_scheme) option" where
  "dir_is_empty dir s = do {
     (e, s) \<leftarrow> scan_dir (\<lambda>d off. de_inode d off \<noteq> 0) dir 2 (dir_entries dir s - 2) s;
     case e of
       None \<Rightarrow> Some (True, s)
     | Some (b, off, i) \<Rightarrow> do { s \<leftarrow> brelse (Some b) s; Some (False, s) } }"

subsection \<open>Splitting a path\<close>

text \<open>\<open>strrchr\<close> finds the last slash; the result is the directory path and the last component.\<close>

definition split_path :: "cstr option \<Rightarrow> (cstr \<times> cstr) option" where
  "split_path path =
     (case path of None \<Rightarrow> None
      | Some p \<Rightarrow>
          if p = [] then None
          else let name = rev (takeWhile (\<lambda>c. c \<noteq> SLASH) (rev p));
                   n = length p - length name
               in if n = 0
                  then if length p > 14 then None else Some ([], p)
                  else let dirpath = (if n = 1 then [SLASH] else take (n - 1) p)
                       in if length name = 0 \<or> length name > 14 then None else Some (dirpath, name))"

end
