(* ===== verification/Dir.thy ===== *)
theory Dir
  imports Namei
begin

text \<open>
  Directories as maps from names to inode numbers. A directory is a file whose bytes are entries of
  16 bytes, so the facts about file contents carry over: \<open>next_entry\<close> reads through the same zone map
  as \<open>file_read\<close>, \<open>ensure_dir_block\<close> allocates exactly as \<open>file_write\<close> does.
\<close>

subsection \<open>Entries as file contents\<close>

lemma map_bind: "map_option f (Option.bind m g) = Option.bind m (\<lambda>x. map_option f (g x))"
  by (cases m) auto

lemma ensure_dir_block_eq:
  fixes s :: "'z fs_state_scheme"
  assumes "\<And>z t. new_block (i_dev (inode_table s dir)) s = Some (z, t) \<Longrightarrow> inode_table t dir = inode_table s dir"
  shows "ensure_dir_block dir block s = map_option (\<lambda>(r, s). (r \<noteq> None, s)) (write_zone dir block s)"
proof (cases "block < NR_DIRECT")
  case True
  have idem: "upd_inode dir (\<lambda>ip. ip\<lparr>i_zone := (i_zone ip)(block := 0)\<rparr>) t = t"
    if "i_zone (inode_table t dir) block = 0" for t :: "'z fs_state_scheme"
  proof -
    have "(i_zone (inode_table t dir))(block := 0) = i_zone (inode_table t dir)" using that by (simp add: fun_eq_iff)
    then show ?thesis by (simp add: upd_inode_def)
  qed
  have comp: "upd_inode dir (\<lambda>ip. ip\<lparr>i_dirt := True\<rparr>) (upd_inode dir (\<lambda>ip. ip\<lparr>i_zone := (i_zone ip)(block := z)\<rparr>) t) =
    upd_inode dir (\<lambda>ip. ip\<lparr>i_zone := (i_zone ip)(block := z), i_dirt := True\<rparr>) t" for z and t :: "'z fs_state_scheme"
    by (simp add: upd_inode_def)
  show ?thesis
  proof (cases "i_zone (inode_table s dir) block = 0")
    case zero: True
    show ?thesis
    proof (cases "new_block (i_dev (inode_table s dir)) s")
      case (Some zt)
      then obtain z t where nb: "new_block (i_dev (inode_table s dir)) s = Some (z, t)" by (cases zt) auto
      have "i_zone (inode_table t dir) block = 0" using assms [OF nb] zero by simp
      then show ?thesis using True zero nb idem [of t]
        by (auto simp: ensure_dir_block_def write_zone_def Let_def comp)
    qed (use True zero in \<open>simp add: ensure_dir_block_def write_zone_def\<close>)
  qed (use True in \<open>simp add: ensure_dir_block_def write_zone_def\<close>)
next
  case False
  then show ?thesis
    unfolding ensure_dir_block_def write_zone_def Let_def
    by (simp add: map_bind if_distrib [of "map_option _"] prod.case_distrib [of "map_option _"] option.case_distrib [of "map_option _"] cong: if_cong option.case_cong prod.case_cong)
qed

definition dent :: "(nat \<Rightarrow> bytes) \<Rightarrow> m_inode \<Rightarrow> nat \<Rightarrow> bytes" where
  "dent V ip i = (\<lambda>k. fbyte V ip (i * DIRENT_SIZE + k))"

abbreviation ent_blk :: "nat \<Rightarrow> nat" where
  "ent_blk i \<equiv> i * DIRENT_SIZE div BLOCK_SIZE"

abbreviation ent_off :: "nat \<Rightarrow> nat" where
  "ent_off i \<equiv> i * DIRENT_SIZE mod BLOCK_SIZE"

text \<open>Whether entry \<open>i\<close> lies in a block the directory has.\<close>

definition has_ent :: "(nat \<Rightarrow> bytes) \<Rightarrow> m_inode \<Rightarrow> nat \<Rightarrow> bool" where
  "has_ent V ip i \<longleftrightarrow> zone_at V ip (ent_blk i) \<noteq> 0"

lemma ent_off_fits: "ent_off i + DIRENT_SIZE \<le> BLOCK_SIZE"
proof -
  have "ent_off i = 16 * (i mod 64)" unfolding DIRENT_SIZE_def BLOCK_SIZE_def using mult_mod_right [of 16 i 64] by (simp add: mult.commute)
  moreover have "i mod 64 < 64" by simp
  ultimately show ?thesis by (simp add: DIRENT_SIZE_def BLOCK_SIZE_def)
qed

lemma div_mod_in_block:
  assumes "q mod BLOCK_SIZE + k < BLOCK_SIZE"
  shows "(q + k) div BLOCK_SIZE = q div BLOCK_SIZE" "(q + k) mod BLOCK_SIZE = q mod BLOCK_SIZE + k"
proof -
  have "q + k = q div BLOCK_SIZE * BLOCK_SIZE + (q mod BLOCK_SIZE + k)" by simp
  then show "(q + k) div BLOCK_SIZE = q div BLOCK_SIZE" "(q + k) mod BLOCK_SIZE = q mod BLOCK_SIZE + k"
    using assms by (metis add.commute div_mult_self3 div_less add_0 not_less_zero, metis add.commute mod_mult_self3 mod_less)
qed

lemma dent_data:
  assumes "has_ent V ip i" "k < DIRENT_SIZE"
  shows "dent V ip i k = V (zone_at V ip (ent_blk i)) (ent_off i + k)"
proof -
  have "ent_off i + k < BLOCK_SIZE" using ent_off_fits [of i] assms(2) by linarith
  from div_mod_in_block [OF this] show ?thesis using assms(1) by (simp add: dent_def fbyte_def Let_def has_ent_def)
qed

text \<open>\<open>next_entry\<close> as an access to the block store.\<close>

lemma next_entry_none:
  fixes s :: "'z fs_state_scheme"
  assumes "mounted s" "pins (cnts s) < 255" "i_dev (inode_table s dir) = ROOT_DEV" "i * DIRENT_SIZE < MAX_FILE"
    and "\<not> has_ent (view s) (inode_table s dir) i"
  obtains s' where "next_entry dir i s = Some (None, s')" "bc.settles s s' (view s)"
proof -
  have zo: "ent_blk i < NR_DIRECT + NR_INDIRECT" using assms(4) by (simp add: MAX_FILE_div)
  show ?thesis
  proof (cases "ent_blk i < NR_DIRECT \<or> i_zone (inode_table s dir) 7 = 0")
    case True
    then have "next_entry dir i s = Some (None, s)"
      using assms(5) by (auto simp: next_entry_def has_ent_def zone_at_def Let_def unat_eq_zero)
    moreover have "bc.settles s s (view s)" using assms(1) by (simp add: bc.settles_def mounted_def)
    ultimately show ?thesis by (rule that)
  next
    case False
    let ?ind = "unat (i_zone (inode_table s dir) 7)" and ?k = "2 * (ent_blk i - NR_DIRECT)"
    have m: "bc_ok s" "disk_fits s" using assms(1) by (auto simp: mounted_def)
    have fits: "blk_ok s ?ind" by (rule disk_fits_blk [OF m(2)]) simp
    obtain b s1 where rd: "bread ROOT_DEV ?ind s = Some (Some b, s1)"
      and dat: "blk_of (b_data (heads s1 b)) = view s ?ind"
      and rel: "\<exists>s2. brelse (Some b) s1 = Some s2 \<and> bc.settles s s2 (view s)"
      by (rule bc.access [OF m(1) assms(2) fits]) (rule that)
    obtain s2 where s2: "brelse (Some b) s1 = Some s2" "bc.settles s s2 (view s)" using rel by blast
    have k: "?k + 2 \<le> BLOCK_SIZE" "\<not> NR_INDIRECT \<le> ent_blk i - NR_DIRECT" using zo False by (auto simp: file_consts)
    have "get16 (b_data (heads s1 b)) ?k = get16 (view s ?ind) ?k" unfolding dat [symmetric] using k by simp
    moreover have "get16 (view s ?ind) ?k = 0" using assms(5) False by (simp add: has_ent_def zone_at_def unat_eq_zero)
    ultimately have "next_entry dir i s = Some (None, s2)"
      using False rd s2(1) k assms(3) by (simp add: next_entry_def Let_def)
    with s2(2) show ?thesis by (rule that [rotated])
  qed
qed

lemma next_entry_access:
  fixes s :: "'z fs_state_scheme"
  assumes "mounted s" "pins (cnts s) < 255" "i_dev (inode_table s dir) = ROOT_DEV" "i * DIRENT_SIZE < MAX_FILE"
    and "has_ent (view s) (inode_table s dir) i"
  defines "z \<equiv> zone_at (view s) (inode_table s dir) (ent_blk i)"
  obtains b s1 where "next_entry dir i s = Some (Some (b, ent_off i), s1)" "blk_of (b_data (heads s1 b)) = view s z"
    "bc_ok s1" "view s1 = view s" "keep s1 = keep s" "held s1 b z" "cnts s1 = (cnts s)(b := cnts s b + 1)"
    "\<exists>s2. brelse (Some b) s1 = Some s2 \<and> bc.settles s s2 (view s)"
    "\<And>d. \<exists>s2. brelse (Some b) (bput b d s1) = Some s2 \<and> bc.settles s s2 ((view s)(z := blk_of d))"
proof -
  have zo: "ent_blk i < NR_DIRECT + NR_INDIRECT" using assms(4) by (simp add: MAX_FILE_div)
  have m: "bc_ok s" "disk_fits s" using assms(1) by (auto simp: mounted_def)
  have zfit: "blk_ok s z" unfolding z_def by (rule disk_fits_blk [OF m(2) zone_at_less])
  show ?thesis
  proof (cases "ent_blk i < NR_DIRECT")
    case True
    have z: "z = unat (i_zone (inode_table s dir) (ent_blk i))" using True by (simp add: z_def zone_at_def)
    have nz: "i_zone (inode_table s dir) (ent_blk i) \<noteq> 0" using assms(5) True by (auto simp: has_ent_def zone_at_def)
    obtain b s1 where b: "bread ROOT_DEV z s = Some (Some b, s1)" "blk_of (b_data (heads s1 b)) = view s z"
      "bc_ok s1" "view s1 = view s" "keep s1 = keep s" "held s1 b z" "cnts s1 = (cnts s)(b := cnts s b + 1)"
      "\<exists>s2. brelse (Some b) s1 = Some s2 \<and> bc.settles s s2 (view s)"
      "\<And>d. \<exists>s2. brelse (Some b) (bput b d s1) = Some s2 \<and> bc.settles s s2 ((view s)(z := blk_of d))"
      by (rule bc.access [OF m(1) assms(2) zfit]) (rule that)
    have "next_entry dir i s = Some (Some (b, ent_off i), s1)"
      using True nz b(1) z assms(3) by (simp add: next_entry_def Let_def)
    then show ?thesis using b(2-) by (rule that)
  next
    case False
    let ?ind = "unat (i_zone (inode_table s dir) 7)" and ?k = "2 * (ent_blk i - NR_DIRECT)"
    have i7: "i_zone (inode_table s dir) 7 \<noteq> 0" using assms(5) False by (auto simp: has_ent_def zone_at_def)
    have fits: "blk_ok s ?ind" by (rule disk_fits_blk [OF m(2)]) simp
    obtain b s1 where rd: "bread ROOT_DEV ?ind s = Some (Some b, s1)"
      and dat: "blk_of (b_data (heads s1 b)) = view s ?ind"
      and rel: "\<exists>s2. brelse (Some b) s1 = Some s2 \<and> bc.settles s s2 (view s)"
      by (rule bc.access [OF m(1) assms(2) fits]) (rule that)
    obtain s2 where s2: "brelse (Some b) s1 = Some s2" "bc.settles s s2 (view s)" using rel by blast
    note S = settlesD [OF s2(2)]
    have k: "?k + 2 \<le> BLOCK_SIZE" "\<not> NR_INDIRECT \<le> ent_blk i - NR_DIRECT" using zo False by (auto simp: file_consts)
    have e: "get16 (b_data (heads s1 b)) ?k = get16 (view s ?ind) ?k" unfolding dat [symmetric] using k by simp
    have z: "z = unat (get16 (view s ?ind) ?k)" using False i7 by (simp add: z_def zone_at_def)
    have nz: "get16 (view s ?ind) ?k \<noteq> 0" using assms(5) z unfolding has_ent_def z_def by auto
    have p2: "pins (cnts s2) < 255" and zfit2: "blk_ok s2 z"
      using S(3) assms(2) zfit keepD(2) [OF S(4)] by (simp_all add: blk_ok_def)
    obtain c s3 where c: "bread ROOT_DEV z s2 = Some (Some c, s3)" "blk_of (b_data (heads s3 c)) = view s2 z"
      "bc_ok s3" "view s3 = view s2" "keep s3 = keep s2" "held s3 c z" "cnts s3 = (cnts s2)(c := cnts s2 c + 1)"
      "\<exists>s4. brelse (Some c) s3 = Some s4 \<and> bc.settles s2 s4 (view s2)"
      "\<And>d. \<exists>s4. brelse (Some c) (bput c d s3) = Some s4 \<and> bc.settles s2 s4 ((view s2)(z := blk_of d))"
      by (rule bc.access [OF S(1) p2 zfit2]) (rule that)
    have "next_entry dir i s = Some (Some (c, ent_off i), s3)"
      using False i7 rd s2(1) k e nz c(1) z assms(3) by (simp add: next_entry_def Let_def)
    then show ?thesis
    proof (rule that)
      show "blk_of (b_data (heads s3 c)) = view s z" "view s3 = view s" "keep s3 = keep s" "cnts s3 = (cnts s)(c := cnts s c + 1)"
        using c S by simp_all
      show "\<exists>s4. brelse (Some c) s3 = Some s4 \<and> bc.settles s s4 (view s)"
        using c(8) S(2) bc.settles_trans [OF s2(2)] by auto
      show "\<exists>s4. brelse (Some c) (bput c d s3) = Some s4 \<and> bc.settles s s4 ((view s)(z := blk_of d))" for d
        using c(9) [of d] S(2) bc.settles_trans [OF s2(2)] by auto
    qed fact+
  qed
qed

subsection \<open>Scanning a directory\<close>

text \<open>A test of an entry that only looks at its 16 bytes.\<close>

definition entry_test :: "(bytes \<Rightarrow> nat \<Rightarrow> bool) \<Rightarrow> (bytes \<Rightarrow> bool) \<Rightarrow> bool" where
  "entry_test p P \<longleftrightarrow> (\<forall>d off. p d off = P (\<lambda>k. d (off + k))) \<and> (\<forall>e e'. (\<forall>k<DIRENT_SIZE. e k = e' k) \<longrightarrow> P e = P e')"

definition ent_ino :: "bytes \<Rightarrow> u16" where
  "ent_ino e = get16 e 0"

definition ent_is :: "cstr \<Rightarrow> bytes \<Rightarrow> bool" where
  "ent_is name e = name_eq (\<lambda>k. e (2 + k)) name"

lemma ent_ino_cong: "(\<And>k. k < DIRENT_SIZE \<Longrightarrow> e k = e' k) \<Longrightarrow> ent_ino e = ent_ino e'"
  by (simp add: ent_ino_def get16_def DIRENT_SIZE_def)

lemma ent_is_cong:
  assumes "\<And>k. k < DIRENT_SIZE \<Longrightarrow> e k = e' k"
  shows "ent_is name e = ent_is name e'"
proof -
  have a: "e (2 + j) = e' (2 + j)" if "j < NAME_LEN" for j using that by (intro assms) (simp add: DIRENT_SIZE_def NAME_LEN_def)
  then have "length name < NAME_LEN \<Longrightarrow> e (2 + length name) = e' (2 + length name)" by blast
  with a show ?thesis unfolding ent_is_def name_eq_def list_all_iff by (cases "length name = NAME_LEN") auto
qed

lemma de_inode_ent: "de_inode d off = ent_ino (\<lambda>k. d (off + k))"
  by (simp add: de_inode_def ent_ino_def get16_def)

lemma de_name_ent: "name_eq (de_name d off) name = ent_is name (\<lambda>k. d (off + k))"
  by (simp add: de_name_def ent_is_def add.assoc)

lemma entry_tests:
  "entry_test (\<lambda>d off. name_eq (de_name d off) name) (ent_is name)"
  "entry_test (\<lambda>d off. de_inode d off = 0) (\<lambda>e. ent_ino e = 0)"
  "entry_test (\<lambda>d off. de_inode d off \<noteq> 0) (\<lambda>e. ent_ino e \<noteq> 0)"
  "entry_test (\<lambda>d off. de_inode d off \<noteq> 0 \<and> name_eq (de_name d off) name) (\<lambda>e. ent_ino e \<noteq> 0 \<and> ent_is name e)"
  by (auto simp: entry_test_def de_inode_ent de_name_ent cong: ent_ino_cong ent_is_cong)

lemma entry_testD:
  assumes "entry_test p P"
  shows "p d off = P (\<lambda>k. d (off + k))" "(\<And>k. k < DIRENT_SIZE \<Longrightarrow> e k = e' k) \<Longrightarrow> P e = P e'"
  using assms by (simp_all add: entry_test_def)

lemma entry_test_dent:
  assumes "entry_test p P" "has_ent V ip i" "blk_of d = V (zone_at V ip (ent_blk i))"
  shows "p d (ent_off i) = P (dent V ip i)"
proof -
  have "d (ent_off i + k) = dent V ip i k" if "k < DIRENT_SIZE" for k
  proof -
    have "ent_off i + k < BLOCK_SIZE" using ent_off_fits [of i] that by linarith
    then show ?thesis using dent_data [OF assms(2) that] assms(3) by (metis blk_of_less)
  qed
  then have "P (\<lambda>k. d (ent_off i + k)) = P (dent V ip i)" by (rule entry_testD(2) [OF assms(1)])
  with entry_testD(1) [OF assms(1)] show ?thesis by simp
qed

lemma scan_dir_spec:
  fixes s :: "'z fs_state_scheme"
  assumes p: "entry_test p P" and "mounted s" "pins (cnts s) < 255" "i_dev (inode_table s dir) = ROOT_DEV"
    and "(i + k) * DIRENT_SIZE \<le> MAX_FILE"
  defines "V \<equiv> view s" and "ip \<equiv> inode_table s dir"
  shows "\<exists>r s'. scan_dir p dir i k s = Some (r, s') \<and> keep s' = keep s \<and>
    (r = None \<longrightarrow> bc.settles s s' V \<and> (\<forall>j. i \<le> j \<and> j < i + k \<longrightarrow> \<not> (has_ent V ip j \<and> P (dent V ip j)))) \<and>
    (\<forall>b off j. r = Some (b, off, j) \<longrightarrow> i \<le> j \<and> j < i + k \<and> off = ent_off j \<and> has_ent V ip j \<and> P (dent V ip j) \<and>
       (\<forall>l. i \<le> l \<and> l < j \<longrightarrow> \<not> (has_ent V ip l \<and> P (dent V ip l))) \<and>
       blk_of (b_data (heads s' b)) = V (zone_at V ip (ent_blk j)) \<and>
       (\<exists>s2. brelse (Some b) s' = Some s2 \<and> bc.settles s s2 V) \<and>
       (\<forall>d. \<exists>s2. brelse (Some b) (bput b d s') = Some s2 \<and> bc.settles s s2 (V(zone_at V ip (ent_blk j) := blk_of d))))"
  using assms(2-5) unfolding V_def ip_def
proof (induction k arbitrary: i s)
  case 0
  then show ?case by (auto simp: bc.settles_def mounted_def)
next
  case (Suc k)
  let ?V = "view s" and ?ip = "inode_table s dir"
  have i: "i * DIRENT_SIZE < MAX_FILE" using Suc.prems(4) by (simp add: DIRENT_SIZE_def)
  have lim: "(Suc i + k) * DIRENT_SIZE \<le> MAX_FILE" using Suc.prems(4) by simp
  have miss: ?case if st: "bc.settles s s2 ?V" and eq: "scan_dir p dir i (Suc k) s = scan_dir p dir (Suc i) k s2"
    and no: "\<not> (has_ent ?V ?ip i \<and> P (dent ?V ?ip i))" for s2
  proof -
    note S = settlesD [OF st]
    have t: "inode_table s2 = inode_table s" using keep_tablesD(2) [OF S(4)] .
    have pr: "mounted s2" "pins (cnts s2) < 255" "i_dev (inode_table s2 dir) = ROOT_DEV"
      using mounted_keep [OF Suc.prems(1) S(1,4)] S(3) Suc.prems(2,3) t by simp_all
    have ext: "(Suc i \<le> l \<longrightarrow> \<not> (has_ent ?V ?ip l \<and> P (dent ?V ?ip l))) \<Longrightarrow> i \<le> l \<Longrightarrow> \<not> (has_ent ?V ?ip l \<and> P (dent ?V ?ip l))" for l
      using no by (cases "l = i") auto
    from Suc.IH [OF pr lim, unfolded S(2) t] obtain r s' where IH: "scan_dir p dir (Suc i) k s2 = Some (r, s')" "keep s' = keep s2"
      "r = None \<Longrightarrow> bc.settles s2 s' ?V"
      "\<And>j. r = None \<Longrightarrow> Suc i \<le> j \<Longrightarrow> j < Suc i + k \<Longrightarrow> \<not> (has_ent ?V ?ip j \<and> P (dent ?V ?ip j))"
      "\<And>b off j. r = Some (b, off, j) \<Longrightarrow> Suc i \<le> j \<and> j < Suc i + k \<and> off = ent_off j \<and> has_ent ?V ?ip j \<and> P (dent ?V ?ip j) \<and>
        blk_of (b_data (heads s' b)) = ?V (zone_at ?V ?ip (ent_blk j))"
      "\<And>b off j l. r = Some (b, off, j) \<Longrightarrow> Suc i \<le> l \<Longrightarrow> l < j \<Longrightarrow> \<not> (has_ent ?V ?ip l \<and> P (dent ?V ?ip l))"
      "\<And>b off j. r = Some (b, off, j) \<Longrightarrow> \<exists>s3. brelse (Some b) s' = Some s3 \<and> bc.settles s2 s3 ?V"
      "\<And>b off j d. r = Some (b, off, j) \<Longrightarrow> \<exists>s3. brelse (Some b) (bput b d s') = Some s3 \<and>
         bc.settles s2 s3 (?V(zone_at ?V ?ip (ent_blk j) := blk_of d))"
      by blast
    note tr = bc.settles_trans [OF st]
    show ?thesis
      unfolding eq IH(1)
    proof (rule exI [of _ r], rule exI [of _ s'], intro conjI refl impI allI)
      show "keep s' = keep s" using IH(2) S(4) by simp
      show "bc.settles s s' ?V" if "r = None" using tr IH(3) that by blast
      show "\<not> (has_ent ?V ?ip j \<and> P (dent ?V ?ip j))" if "r = None" "i \<le> j \<and> j < i + Suc k" for j
        by (rule ext) (use that IH(4) in auto)
      fix b off j assume r: "r = Some (b, off, j)"
      show "i \<le> j" "j < i + Suc k" "off = ent_off j" "has_ent ?V ?ip j" "P (dent ?V ?ip j)"
        "blk_of (b_data (heads s' b)) = ?V (zone_at ?V ?ip (ent_blk j))" using IH(5) [OF r] by auto
      show "\<not> (has_ent ?V ?ip l \<and> P (dent ?V ?ip l))" if "i \<le> l \<and> l < j" for l
        by (rule ext) (use that IH(6) [OF r] in auto)
      show "\<exists>s3. brelse (Some b) s' = Some s3 \<and> bc.settles s s3 ?V" using IH(7) [OF r] tr by blast
      show "\<exists>s3. brelse (Some b) (bput b d s') = Some s3 \<and> bc.settles s s3 (?V(zone_at ?V ?ip (ent_blk j) := blk_of d))" for d
        using IH(8) [OF r, of d] tr by blast
    qed
  qed
  show ?case
  proof (cases "has_ent ?V ?ip i")
    case False
    obtain s2 where "next_entry dir i s = Some (None, s2)" "bc.settles s s2 ?V"
      by (rule next_entry_none [OF Suc.prems(1-3) i False]) (rule that)
    then show ?thesis using False by (intro miss [of s2]) auto
  next
    case True
    obtain b s1 where b: "next_entry dir i s = Some (Some (b, ent_off i), s1)"
      "blk_of (b_data (heads s1 b)) = ?V (zone_at ?V ?ip (ent_blk i))"
      "keep s1 = keep s" "\<exists>s2. brelse (Some b) s1 = Some s2 \<and> bc.settles s s2 ?V"
      "\<And>d. \<exists>s2. brelse (Some b) (bput b d s1) = Some s2 \<and> bc.settles s s2 (?V(zone_at ?V ?ip (ent_blk i) := blk_of d))"
      by (rule next_entry_access [OF Suc.prems(1-3) i True]) (rule that)
    have test: "p (b_data (heads s1 b)) (ent_off i) = P (dent ?V ?ip i)" by (rule entry_test_dent [OF p True b(2)])
    show ?thesis
    proof (cases "P (dent ?V ?ip i)")
      case no: False
      obtain s2 where s2: "brelse (Some b) s1 = Some s2" "bc.settles s s2 ?V" using b(4) by blast
      then show ?thesis using b(1) test no by (intro miss [of s2]) auto
    next
      case yes: True
      then have "scan_dir p dir i (Suc k) s = Some (Some (b, ent_off i, i), s1)" using b(1) test by simp
      moreover have "\<forall>d. \<exists>s2. brelse (Some b) (bput b d s1) = Some s2 \<and> bc.settles s s2 (?V(zone_at ?V ?ip (ent_blk i) := blk_of d))"
        using b(5) by blast
      ultimately show ?thesis using b(2-4) yes True
        by (intro exI [of _ "Some (b, ent_off i, i)"] exI [of _ s1]) (auto simp del: fun_upd_apply)
    qed
  qed
qed

subsection \<open>Names\<close>

definition name_ok :: "cstr \<Rightarrow> bool" where
  "name_ok nm \<longleftrightarrow> nm \<noteq> [] \<and> length nm \<le> NAME_LEN \<and> 0 \<notin> set nm"

definition cname :: "bytes \<Rightarrow> cstr" where
  "cname d = takeWhile (\<lambda>c. c \<noteq> 0) (map d [0..<NAME_LEN])"

lemma name_eq_iff:
  assumes "name_ok nm"
  shows "name_eq d nm \<longleftrightarrow> cname d = nm"
proof -
  let ?n = "length nm"
  have n: "?n \<le> NAME_LEN" "0 \<notin> set nm" using assms by (auto simp: name_ok_def)
  have split: "map d [0..<NAME_LEN] = map d [0..<?n] @ map d [?n..<NAME_LEN]"
    using n(1) by (metis le_add_diff_inverse map_append upt_add_eq_append zero_le)
  have min: "min ?n NAME_LEN = ?n" using n(1) by (rule min.absorb1)
  have "map d [0..<?n] = nm \<longleftrightarrow> map d [0..<?n] = map ((!) nm) [0..<?n]" by (simp only: map_nth)
  then have "list_all (\<lambda>j. d j = nm ! j) [0..<?n] \<longleftrightarrow> map d [0..<?n] = nm"
    by (simp only: list_all_iff map_eq_conv)
  then have "name_eq d nm \<longleftrightarrow> map d [0..<?n] = nm \<and> (?n = NAME_LEN \<or> d ?n = 0)"
    unfolding name_eq_def min using n(1) by blast
  also have "\<dots> \<longleftrightarrow> cname d = nm"
  proof
    assume a: "map d [0..<?n] = nm \<and> (?n = NAME_LEN \<or> d ?n = 0)"
    have "map d [0..<NAME_LEN] = nm @ map d [?n..<NAME_LEN]"
      by (rule trans [OF split], rule arg_cong2 [where f = "(@)", OF conjunct1 [OF a] refl])
    then have c: "cname d = takeWhile (\<lambda>c. c \<noteq> 0) (nm @ map d [?n..<NAME_LEN])" by (simp only: cname_def)
    have "takeWhile (\<lambda>c. c \<noteq> 0) (map d [?n..<NAME_LEN]) = []"
      using conjunct2 [OF a] n(1) by (cases "?n = NAME_LEN") (auto simp: upt_rec)
    moreover have "takeWhile (\<lambda>c. c \<noteq> 0) (nm @ ys) = nm @ takeWhile (\<lambda>c. c \<noteq> 0) ys" for ys
      using n(2) by (intro takeWhile_append2) auto
    ultimately show "cname d = nm" unfolding c by simp
  next
    assume a: "cname d = nm"
    have "nm = take ?n (map d [0..<NAME_LEN])" using a takeWhile_eq_take [of "\<lambda>c. c \<noteq> 0" "map d [0..<NAME_LEN]"]
      unfolding cname_def by simp
    also have "\<dots> = map d [0..<?n]" using n(1) by (simp add: take_map take_upt)
    finally have "map d [0..<?n] = nm" ..
    moreover have "d ?n = 0" if "?n \<noteq> NAME_LEN"
    proof -
      have lt: "?n < NAME_LEN" using n(1) that by simp
      have len: "length (takeWhile (\<lambda>c. c \<noteq> 0) (map d [0..<NAME_LEN])) = ?n" using a by (simp only: cname_def)
      have "\<not> map d [0..<NAME_LEN] ! length (takeWhile (\<lambda>c. c \<noteq> 0) (map d [0..<NAME_LEN])) \<noteq> 0"
        by (rule nth_length_takeWhile) (simp only: len length_map length_upt lt minus_nat.diff_0)
      then show ?thesis using lt unfolding len by simp
    qed
    ultimately show "map d [0..<?n] = nm \<and> (?n = NAME_LEN \<or> d ?n = 0)" by blast
  qed
  finally show ?thesis .
qed

definition ent_name :: "bytes \<Rightarrow> cstr" where
  "ent_name e = cname (\<lambda>k. e (2 + k))"

lemma ent_is_iff: "name_ok nm \<Longrightarrow> ent_is nm e \<longleftrightarrow> ent_name e = nm"
  by (simp add: ent_is_def ent_name_def name_eq_iff)

lemma cname_cong: "(\<And>k. k < NAME_LEN \<Longrightarrow> d k = d' k) \<Longrightarrow> cname d = cname d'"
  unfolding cname_def by (rule arg_cong [where f = "takeWhile _"]) simp

lemma ent_name_cong: "(\<And>k. k < DIRENT_SIZE \<Longrightarrow> e k = e' k) \<Longrightarrow> ent_name e = ent_name e'"
  unfolding ent_name_def by (rule cname_cong) (simp add: DIRENT_SIZE_def NAME_LEN_def)

lemma name_eq_store: "name_ok nm \<Longrightarrow> name_ok nm' \<Longrightarrow> name_eq (store_name nm d) nm' \<Longrightarrow> nm' = nm"
proof -
  assume a: "name_ok nm" "name_ok nm'" "name_eq (store_name nm d) nm'"
  have "name_eq (store_name nm d) nm" using a(1) by (auto simp: name_eq_def store_name_def name_ok_def list_all_iff)
  with a show ?thesis by (simp add: name_eq_iff)
qed

lemma put_dirent_entry:
  assumes "name_ok nm"
  shows "ent_ino (put_dirent 0 ino nm d) = ino" "ent_name (put_dirent 0 ino nm d) = nm"
proof -
  show "ent_ino (put_dirent 0 ino nm d) = ino"
    unfolding ent_ino_def by (subst get16_eqI [of _ _ "put16 0 ino d"]) (auto simp: put_dirent_def)
  have "name_eq (\<lambda>k. put_dirent 0 ino nm d (2 + k)) nm"
    using assms by (auto simp: name_eq_def put_dirent_def name_ok_def list_all_iff DIRENT_SIZE_def NAME_LEN_def)
  then show "ent_name (put_dirent 0 ino nm d) = nm" using assms by (simp add: ent_name_def name_eq_iff)
qed

subsection \<open>A directory as a map\<close>

definition nr_ents :: "m_inode \<Rightarrow> nat" where
  "nr_ents ip = unat (i_size ip) div DIRENT_SIZE"

definition dir_map :: "(nat \<Rightarrow> bytes) \<Rightarrow> m_inode \<Rightarrow> cstr \<Rightarrow> u16 option" where
  "dir_map V ip nm = (case scan (\<lambda>i. ent_name (dent V ip i) = nm) 0 (nr_ents ip) of
     None \<Rightarrow> None | Some i \<Rightarrow> if ent_ino (dent V ip i) = 0 then None else Some (ent_ino (dent V ip i)))"

definition dir_ok :: "(nat \<Rightarrow> bytes) \<Rightarrow> super_block \<Rightarrow> m_inode \<Rightarrow> bool" where
  "dir_ok V sb ip \<longleftrightarrow> file_ok V sb ip \<and> i_mode ip AND S_IFDIR \<noteq> 0 \<and> DIRENT_SIZE dvd unat (i_size ip) \<and>
     unat (i_size ip) \<le> MAX_FILE \<and> (\<forall>i < nr_ents ip. has_ent V ip i) \<and>
     (\<forall>i j. i < j \<and> j < nr_ents ip \<and> ent_ino (dent V ip j) \<noteq> 0 \<longrightarrow> ent_name (dent V ip i) \<noteq> ent_name (dent V ip j))"

lemma dir_map_live:
  assumes "dir_ok V sb ip"
  shows "dir_map V ip nm = Some ino \<longleftrightarrow> ino \<noteq> 0 \<and> (\<exists>i < nr_ents ip. ent_name (dent V ip i) = nm \<and> ent_ino (dent V ip i) = ino)"
proof (cases "scan (\<lambda>i. ent_name (dent V ip i) = nm) 0 (nr_ents ip)")
  case None
  then have "dir_map V ip nm = None" by (simp add: dir_map_def)
  moreover have "\<forall>j < nr_ents ip. ent_name (dent V ip j) \<noteq> nm" using None by (simp add: scan_None_iff)
  ultimately show ?thesis by auto
next
  case (Some i)
  note S = scan_SomeD [OF Some]
  have "ent_ino (dent V ip j) = 0" if "j < nr_ents ip" "ent_name (dent V ip j) = nm" "j \<noteq> i" for j
  proof -
    have "i < j" using S that by (metis linorder_neqE_nat zero_le)
    then show ?thesis using assms S that unfolding dir_ok_def by metis
  qed
  then show ?thesis using Some S by (auto simp: dir_map_def)
qed

lemma nr_ents_limit: "dir_ok V sb ip \<Longrightarrow> nr_ents ip * DIRENT_SIZE \<le> MAX_FILE"
  by (auto simp: dir_ok_def nr_ents_def)

subsection \<open>Looking up through the entry cache\<close>

definition dcache_ok :: "nat \<Rightarrow> 'z fs_state_scheme \<Rightarrow> bool" where
  "dcache_ok dir s \<longleftrightarrow> (\<forall>i<DCACHE_SIZE. \<forall>nm. name_ok nm \<and>
     dcache_match (i_dev (inode_table s dir)) (ucast (i_num (inode_table s dir))) nm (dcache s i) \<longrightarrow>
     dir_map (view s) (inode_table s dir) nm = Some (d_target_ino (dcache s i)))"

text \<open>A directory that the calling task can work on.\<close>

definition dir_state :: "nat \<Rightarrow> 'z fs_state_scheme \<Rightarrow> bool" where
  "dir_state dir s \<longleftrightarrow> mounted s \<and> pins (cnts s) < 254 \<and> layout_ok (super_tab s 0) \<and>
     i_dev (inode_table s dir) = ROOT_DEV \<and> dir_ok (view s) (super_tab s 0) (inode_table s dir) \<and> dcache_ok dir s"

lemma dir_stateD:
  assumes "dir_state dir s"
  shows "mounted s" "pins (cnts s) < 254" "pins (cnts s) < 255" "layout_ok (super_tab s 0)" "i_dev (inode_table s dir) = ROOT_DEV"
    "dir_ok (view s) (super_tab s 0) (inode_table s dir)" "dcache_ok dir s"
    "file_ok (view s) (super_tab s 0) (inode_table s dir)" "i_mode (inode_table s dir) AND S_IFDIR \<noteq> 0"
    "\<And>i. i < nr_ents (inode_table s dir) \<Longrightarrow> has_ent (view s) (inode_table s dir) i"
    "nr_ents (inode_table s dir) * DIRENT_SIZE \<le> MAX_FILE"
  using assms nr_ents_limit [of "view s" "super_tab s 0" "inode_table s dir"] by (auto simp: dir_state_def dir_ok_def)

lemma dcache_upd_simps [simp]:
  fixes s :: "'z fs_state_scheme"
  shows "mounted (s\<lparr>dcache := c\<rparr>) = mounted s" "dir_entries n (s\<lparr>dcache := c\<rparr>) = dir_entries n s"
  by (simp_all add: mounted_def dir_entries_def)

lemma dcache_store_tables [simp]:
  fixes s :: "'z fs_state_scheme"
  shows "view (dcache_store dev d nm ino s) = view s" "cnts (dcache_store dev d nm ino s) = cnts s"
    "mounted (dcache_store dev d nm ino s) = mounted s" "inode_table (dcache_store dev d nm ino s) = inode_table s"
    "super_tab (dcache_store dev d nm ino s) = super_tab s"
  by (simp_all add: dcache_store_def dcache_invalidate_def Let_def split: option.splits prod.splits)

lemma dcache_store_entry:
  fixes s :: "'z fs_state_scheme"
  assumes "dcache_match dev' d' nm' (dcache (dcache_store dev d nm ino s) i)" "name_ok nm" "name_ok nm'" "i < DCACHE_SIZE"
  shows "(dev' = dev \<and> d' = d \<and> nm' = nm \<and> d_target_ino (dcache (dcache_store dev d nm ino s) i) = ino) \<or>
    (dcache_match dev' d' nm' (dcache s i) \<and> dcache (dcache_store dev d nm ino s) i = dcache s i)"
proof -
  have "\<exists>slot t. (t = dcache s \<or> t = dcache (dcache_invalidate s)) \<and>
      dcache (dcache_store dev d nm ino s) = t(slot := \<lparr>d_dev = dev, d_dir_ino = d, d_target_ino = ino,
             d_name = store_name nm (d_name (t slot)), d_valid = True\<rparr>)"
    by (auto simp: dcache_store_def Let_def split: option.splits)
  then obtain slot t where t: "t = dcache s \<or> t = dcache (dcache_invalidate s)"
    "dcache (dcache_store dev d nm ino s) = t(slot := \<lparr>d_dev = dev, d_dir_ino = d, d_target_ino = ino,
       d_name = store_name nm (d_name (t slot)), d_valid = True\<rparr>)" by blast
  show ?thesis
  proof (cases "i = slot")
    case True
    then show ?thesis using assms name_eq_store [OF assms(2,3)] unfolding t(2) by (auto simp: dcache_match_def)
  next
    case False
    then have "dcache (dcache_store dev d nm ino s) i = t i" unfolding t(2) by simp
    with t(1) assms(1,4) show ?thesis by (auto simp: dcache_match_def dcache_invalidate_def)
  qed
qed

lemma find_entry_spec:
  fixes s :: "'z fs_state_scheme"
  assumes st: "dir_state dir s" and nm: "name_ok nm"
  obtains s' where "find_entry (Some dir) nm s = Some (dir_map (view s) (inode_table s dir) nm, s')" "dir_state dir s'"
    "view s' = view s" "cnts s' = cnts s" "inode_table s' = inode_table s" "super_tab s' = super_tab s"
proof -
  let ?V = "view s" and ?ip = "inode_table s dir"
  let ?look = "dcache_lookup (i_dev ?ip) (ucast (i_num ?ip)) nm s"
  note D = dir_stateD [OF st]
  show ?thesis
  proof (cases ?look)
    case (Some ino)
    then obtain i where i: "scan (\<lambda>i. dcache_match (i_dev ?ip) (ucast (i_num ?ip)) nm (dcache s i)) 0 DCACHE_SIZE = Some i"
      "ino = d_target_ino (dcache s i)" by (auto simp: dcache_lookup_def)
    have "dir_map ?V ?ip nm = Some ino" using scan_SomeD [OF i(1)] D(7) nm i(2) unfolding dcache_ok_def by auto
    then have "find_entry (Some dir) nm s = Some (dir_map ?V ?ip nm, s)" using Some D(9) by (simp add: find_entry_def)
    then show ?thesis by (rule that) (use st in simp_all)
  next
    case None
    have lim: "(0 + nr_ents ?ip) * DIRENT_SIZE \<le> MAX_FILE" using D(11) by simp
    obtain r s1 where r: "scan_dir (\<lambda>d off. name_eq (de_name d off) nm) dir 0 (nr_ents ?ip) s = Some (r, s1)" "keep s1 = keep s"
      "r = None \<Longrightarrow> bc.settles s s1 ?V"
      "\<And>j. r = None \<Longrightarrow> j < nr_ents ?ip \<Longrightarrow> \<not> (has_ent ?V ?ip j \<and> ent_is nm (dent ?V ?ip j))"
      "\<And>b off j. r = Some (b, off, j) \<Longrightarrow> j < nr_ents ?ip \<and> off = ent_off j \<and> has_ent ?V ?ip j \<and> ent_is nm (dent ?V ?ip j) \<and>
         blk_of (b_data (heads s1 b)) = ?V (zone_at ?V ?ip (ent_blk j))"
      "\<And>b off j l. r = Some (b, off, j) \<Longrightarrow> l < j \<Longrightarrow> \<not> (has_ent ?V ?ip l \<and> ent_is nm (dent ?V ?ip l))"
      "\<And>b off j. r = Some (b, off, j) \<Longrightarrow> \<exists>s2. brelse (Some b) s1 = Some s2 \<and> bc.settles s s2 ?V"
      using scan_dir_spec [OF entry_tests(1) [of nm] D(1,3,5) lim] by auto
    have step: "find_entry (Some dir) nm s = do {
        (e, s) \<leftarrow> scan_dir (\<lambda>d off. name_eq (de_name d off) nm) dir 0 (nr_ents ?ip) s;
        case e of None \<Rightarrow> Some (None, s)
        | Some (b, off, i) \<Rightarrow> do {
            let ino = de_inode (b_data (heads s b)) off;
            s \<leftarrow> brelse (Some b) s;
            if ino = 0 then Some (None, s)
            else Some (Some ino, dcache_store (i_dev (inode_table s dir)) (ucast (i_num (inode_table s dir))) nm ino s) } }"
      using None D(9) by (simp add: find_entry_def dir_entries_def nr_ents_def)
    have ok: "dir_state dir s2 \<and> inode_table s2 = inode_table s \<and> super_tab s2 = super_tab s" if "bc.settles s s2 ?V" for s2
    proof -
      note S = settlesD [OF that]
      note T = keep_tablesD [OF S(4)]
      have "dcache_ok dir s2" using D(7) unfolding dcache_ok_def T(2,3) S(2) .
      then show ?thesis using st S T mounted_keep [OF D(1) S(1,4)] by (simp add: dir_state_def)
    qed
    show ?thesis
    proof (cases r)
      case rn: None
      then have "scan (\<lambda>i. ent_name (dent ?V ?ip i) = nm) 0 (nr_ents ?ip) = None"
        using r(4) D(10) ent_is_iff [OF nm] by (auto simp: scan_None_iff)
      then have "dir_map ?V ?ip nm = None" by (simp add: dir_map_def)
      then have "find_entry (Some dir) nm s = Some (dir_map ?V ?ip nm, s1)" unfolding step r(1) rn by simp
      then show ?thesis by (rule that) (use ok [OF r(3) [OF rn]] settlesD [OF r(3) [OF rn]] in simp_all)
    next
      case (Some t)
      then obtain b off j where rs: "r = Some (b, off, j)" by (cases t) auto
      note R = r(5) [OF rs]
      have sc: "scan (\<lambda>i. ent_name (dent ?V ?ip i) = nm) 0 (nr_ents ?ip) = Some j"
      proof (rule scan_eq_Some)
        fix l assume "l < j"
        then show "ent_name (dent ?V ?ip l) \<noteq> nm" using r(6) [OF rs] D(10) [of l] R ent_is_iff [OF nm] by auto
      qed (use R ent_is_iff [OF nm] in auto)
      have ino: "de_inode (b_data (heads s1 b)) off = ent_ino (dent ?V ?ip j)"
      proof -
        have a: "b_data (heads s1 b) (ent_off j + k) = dent ?V ?ip j k" if "k < DIRENT_SIZE" for k
        proof -
          have "ent_off j + k < BLOCK_SIZE" using ent_off_fits [of j] that by linarith
          then show ?thesis using dent_data [of ?V ?ip j k] R that by (metis blk_of_less)
        qed
        then have "ent_ino (\<lambda>k. b_data (heads s1 b) (ent_off j + k)) = ent_ino (dent ?V ?ip j)" by (rule ent_ino_cong)
        then show ?thesis using R by (simp add: de_inode_ent)
      qed
      obtain s2 where s2: "brelse (Some b) s1 = Some s2" "bc.settles s s2 ?V" using r(7) [OF rs] by blast
      note S = settlesD [OF s2(2)] and O = ok [OF s2(2)]
      show ?thesis
      proof (cases "ent_ino (dent ?V ?ip j) = 0")
        case True
        then have "find_entry (Some dir) nm s = Some (dir_map ?V ?ip nm, s2)" unfolding step r(1) rs by (simp add: ino s2(1) dir_map_def sc)
        then show ?thesis by (rule that) (use O S in simp_all)
      next
        case False
        let ?s3 = "dcache_store (i_dev ?ip) (ucast (i_num ?ip)) nm (ent_ino (dent ?V ?ip j)) s2"
        have m: "dir_map ?V ?ip nm = Some (ent_ino (dent ?V ?ip j))" using False sc by (simp add: dir_map_def)
        then have f: "find_entry (Some dir) nm s = Some (dir_map ?V ?ip nm, ?s3)"
          unfolding step r(1) rs using False O by (simp add: ino s2(1) Let_def)
        have "dcache_ok dir ?s3" unfolding dcache_ok_def
        proof (intro allI impI, elim conjE)
          fix i nm' assume i: "i < DCACHE_SIZE" "name_ok nm'"
            "dcache_match (i_dev (inode_table ?s3 dir)) (ucast (i_num (inode_table ?s3 dir))) nm' (dcache ?s3 i)"
          have ip3: "inode_table ?s3 dir = ?ip" using O by simp
          have "dcache_ok dir s2" using O by (simp add: dir_state_def)
          with dcache_store_entry [OF i(3) nm i(2,1)] m i(1,2) O S(2)
          show "dir_map (view ?s3) (inode_table ?s3 dir) nm' = Some (d_target_ino (dcache ?s3 i))"
            unfolding ip3 by (auto simp: dcache_ok_def)
        qed
        then have "dir_state dir ?s3" using O by (auto simp: dir_state_def)
        with f show ?thesis by (rule that) (use O S in simp_all)
      qed
    qed
  qed
qed

subsection \<open>Changing one entry\<close>

text \<open>Writing the 16 bytes \<open>e\<close> as entry \<open>i\<close>, in the terms of \<open>wrote\<close>.\<close>

abbreviation ent_mem :: "bytes \<Rightarrow> umem" where
  "ent_mem e \<equiv> (\<lambda>a. e (unat a))"

lemma copy_in_put_dirent: "put_dirent off ino nm d = copy_in (ent_mem (put_dirent 0 ino nm d')) 0 off DIRENT_SIZE d"
proof
  fix k
  show "put_dirent off ino nm d k = copy_in (ent_mem (put_dirent 0 ino nm d')) 0 off DIRENT_SIZE d k"
  proof (cases "off \<le> k \<and> k < off + DIRENT_SIZE")
    case True
    then obtain j where j: "k = off + j" "j < DIRENT_SIZE" by (metis add_less_cancel_left le_Suc_ex)
    have u: "unat (of_nat j :: u32) = j" using j(2) by (intro unat_of_nat_small) (simp add: DIRENT_SIZE_def)
    have "put_dirent off ino nm d (off + j) = put_dirent 0 ino nm d' j"
    proof (cases "j < 2")
      case True
      then have "j = 0 \<or> j = 1" by auto
      then show ?thesis by (auto simp: put_dirent_def put16_def)
    next
      case False
      then show ?thesis using j(2) by (simp add: put_dirent_def numeral_2_eq_2)
    qed
    then show ?thesis using j u by (simp add: copy_in_def)
  next
    case False
    then show ?thesis by (auto simp: copy_in_def put_dirent_def DIRENT_SIZE_def)
  qed
qed

lemma copy_in_put16:
  assumes "\<And>k. k < DIRENT_SIZE \<Longrightarrow> d (off + k) = e k"
  shows "put16 off v d = copy_in (ent_mem (put16 0 v e)) 0 off DIRENT_SIZE d"
proof
  fix k
  show "put16 off v d k = copy_in (ent_mem (put16 0 v e)) 0 off DIRENT_SIZE d k"
  proof (cases "off \<le> k \<and> k < off + DIRENT_SIZE")
    case True
    then obtain j where j: "k = off + j" "j < DIRENT_SIZE" by (metis add_less_cancel_left le_Suc_ex)
    have u: "unat (of_nat j :: u32) = j" using j(2) by (intro unat_of_nat_small) (simp add: DIRENT_SIZE_def)
    show ?thesis using j u assms [OF j(2)] by (simp add: copy_in_def put16_def)
  next
    case False
    then show ?thesis by (auto simp: copy_in_def DIRENT_SIZE_def)
  qed
qed

definition ent_set :: "nat \<Rightarrow> bytes \<Rightarrow> (nat \<Rightarrow> bytes) \<Rightarrow> m_inode \<Rightarrow> (nat \<Rightarrow> bytes) \<Rightarrow> m_inode \<Rightarrow> bool" where
  "ent_set i e V ip V' ip' \<longleftrightarrow> has_ent V' ip' i \<and> (\<forall>k<DIRENT_SIZE. dent V' ip' i k = e k) \<and>
     (\<forall>j. j \<noteq> i \<and> j * DIRENT_SIZE < MAX_FILE \<and> has_ent V ip j \<longrightarrow> has_ent V' ip' j \<and> (\<forall>k<DIRENT_SIZE. dent V' ip' j k = dent V ip j k))"

lemma wrote_ent_set:
  assumes w: "wrote sb (ent_mem e) 0 (i * DIRENT_SIZE) DIRENT_SIZE V ip V' ip'" and i: "i * DIRENT_SIZE < MAX_FILE"
  shows "ent_set i e V ip V' ip'"
proof -
  have blk: "ent_blk j = (j * DIRENT_SIZE + k) div BLOCK_SIZE" if "k < DIRENT_SIZE" for j k
    using div_mod_in_block(1) [of "j * DIRENT_SIZE" k] ent_off_fits [of j] that by simp
  have in_i: "zone_at V' ip' ((i * DIRENT_SIZE + k) div BLOCK_SIZE) \<noteq> 0 \<and> fbyte V' ip' (i * DIRENT_SIZE + k) = e k"
    if "k < DIRENT_SIZE" for k
  proof -
    have "unat (of_nat k :: u32) = k" using that by (intro unat_of_nat_small) (simp add: DIRENT_SIZE_def)
    then show ?thesis using w that unfolding wrote_def by simp
  qed
  have "(0 :: nat) < DIRENT_SIZE" by (simp add: DIRENT_SIZE_def)
  from in_i [OF this] have h: "has_ent V' ip' i" by (simp add: has_ent_def)
  have other: "has_ent V' ip' j \<and> (\<forall>k<DIRENT_SIZE. dent V' ip' j k = dent V ip j k)"
    if "j \<noteq> i" "j * DIRENT_SIZE < MAX_FILE" "has_ent V ip j" for j
  proof -
    have "ent_blk j < NR_DIRECT + NR_INDIRECT" using that(2) by (simp add: MAX_FILE_div)
    then have "zone_at V' ip' (ent_blk j) = zone_at V ip (ent_blk j)" using w that(3) unfolding wrote_def has_ent_def by blast
    moreover have "fbyte V' ip' (j * DIRENT_SIZE + k) = fbyte V ip (j * DIRENT_SIZE + k)" if k: "k < DIRENT_SIZE" for k
    proof -
      have "j * DIRENT_SIZE + k < i * DIRENT_SIZE \<or> i * DIRENT_SIZE + DIRENT_SIZE \<le> j * DIRENT_SIZE + k"
        using \<open>j \<noteq> i\<close> k unfolding DIRENT_SIZE_def by linarith
      moreover have "j * DIRENT_SIZE + k < MAX_FILE"
        using \<open>ent_blk j < _\<close> unfolding MAX_FILE_div blk [OF k, symmetric] .
      moreover have "zone_at V ip ((j * DIRENT_SIZE + k) div BLOCK_SIZE) \<noteq> 0"
        using \<open>has_ent V ip j\<close> unfolding has_ent_def blk [OF k, symmetric] .
      ultimately show ?thesis using w unfolding wrote_def by blast
    qed
    ultimately show ?thesis using that(3) by (simp add: has_ent_def dent_def)
  qed
  show ?thesis using h in_i other unfolding ent_set_def dent_def by blast
qed

lemma ent_setD:
  assumes "ent_set i e V ip V' ip'"
  shows "has_ent V' ip' i" "ent_ino (dent V' ip' i) = ent_ino e" "ent_name (dent V' ip' i) = ent_name e"
    "\<And>j. j \<noteq> i \<Longrightarrow> j * DIRENT_SIZE < MAX_FILE \<Longrightarrow> has_ent V ip j \<Longrightarrow> has_ent V' ip' j \<and>
       ent_ino (dent V' ip' j) = ent_ino (dent V ip j) \<and> ent_name (dent V' ip' j) = ent_name (dent V ip j)"
  using assms unfolding ent_set_def by (auto intro!: ent_ino_cong ent_name_cong)

lemma dir_map_eqI:
  assumes "dir_ok V' sb ip'" "\<And>x. x \<noteq> 0 \<Longrightarrow> m = Some x \<longleftrightarrow> (\<exists>i < nr_ents ip'. ent_name (dent V' ip' i) = nm \<and> ent_ino (dent V' ip' i) = x)"
    and "m \<noteq> Some 0"
  shows "dir_map V' ip' nm = m"
proof (cases "dir_map V' ip' nm")
  case None
  then have "dir_map V' ip' nm \<noteq> Some x" for x by simp
  then have "m \<noteq> Some x" for x using dir_map_live [OF assms(1)] assms(2,3) by (cases "x = 0") auto
  then show ?thesis using None by (cases m) auto
next
  case (Some x)
  then show ?thesis using dir_map_live [OF assms(1)] assms(2) by auto
qed

lemma ent_added:
  assumes ok: "dir_ok V sb ip" and fok: "file_ok V' sb ip'" and es: "ent_set i e V ip V' ip'" and md: "i_mode ip' = i_mode ip"
    and e: "ent_ino e = ino" "ent_name e = nm" "ino \<noteq> 0" and nm: "dir_map V ip nm = None"
    and live: "\<And>l. l < i \<Longrightarrow> l < nr_ents ip \<and> ent_ino (dent V ip l) \<noteq> 0"
    and i: "i < nr_ents ip \<and> ent_ino (dent V ip i) = 0 \<and> i_size ip' = i_size ip \<or>
       i = nr_ents ip \<and> unat (i_size ip') = unat (i_size ip) + DIRENT_SIZE \<and> unat (i_size ip') \<le> MAX_FILE"
  shows "dir_ok V' sb ip'" "dir_map V' ip' = (dir_map V ip)(nm \<mapsto> ino)"
proof -
  let ?n = "nr_ents ip" and ?n' = "nr_ents ip'"
  note E = ent_setD [OF es]
  have sz: "DIRENT_SIZE dvd unat (i_size ip)" "unat (i_size ip) \<le> MAX_FILE" "\<And>j. j < ?n \<Longrightarrow> has_ent V ip j"
    using ok by (auto simp: dir_ok_def)
  have n': "?n' = ?n \<and> i < ?n \<or> ?n' = Suc ?n \<and> i = ?n"
    using i by (auto simp: nr_ents_def DIRENT_SIZE_def)
  have old: "j < ?n \<and> has_ent V' ip' j \<and> ent_ino (dent V' ip' j) = ent_ino (dent V ip j) \<and> ent_name (dent V' ip' j) = ent_name (dent V ip j)"
    if "j < ?n'" "j \<noteq> i" for j
  proof -
    have j: "j < ?n" using that n' by auto
    then have "j * DIRENT_SIZE < MAX_FILE" using sz(2) unfolding nr_ents_def DIRENT_SIZE_def by linarith
    with E(4) [OF that(2) _ sz(3) [OF j]] j show ?thesis by blast
  qed
  have dead: "ent_name (dent V ip j) \<noteq> nm" if "j < ?n" "ent_ino (dent V ip j) \<noteq> 0" for j
    using dir_map_live [OF ok, of nm "ent_ino (dent V ip j)"] nm that by auto
  have uniq: "ent_name (dent V' ip' l) \<noteq> ent_name (dent V' ip' j)"
    if lj: "l < j" "j < ?n'" "ent_ino (dent V' ip' j) \<noteq> 0" for l j
  proof (cases "j = i")
    case True
    then show ?thesis using lj live [of l] dead [of l] old [of l] E(3) e n' by auto
  next
    case j: False
    show ?thesis
    proof (cases "l = i")
      case True
      then show ?thesis using lj j dead [of j] old [of j] E(3) e by auto
    next
      case False
      have "ent_name (dent V ip l) \<noteq> ent_name (dent V ip j)"
        using ok lj old [OF lj(2) j] unfolding dir_ok_def by metis
      then show ?thesis using old [OF lj(2) j] old [of l] lj False by auto
    qed
  qed
  have "DIRENT_SIZE dvd unat (i_size ip')" "unat (i_size ip') \<le> MAX_FILE" using i sz by auto
  moreover have "has_ent V' ip' j" if "j < ?n'" for j using old [OF that] E(1) by (cases "j = i") auto
  ultimately show ok': "dir_ok V' sb ip'" using ok fok md uniq unfolding dir_ok_def by auto
  show "dir_map V' ip' = (dir_map V ip)(nm \<mapsto> ino)"
  proof
    fix x
    show "dir_map V' ip' x = ((dir_map V ip)(nm \<mapsto> ino)) x"
    proof (rule dir_map_eqI [OF ok'])
      have i': "i < ?n'" using n' by auto
      show "((dir_map V ip)(nm \<mapsto> ino)) x = Some y \<longleftrightarrow> (\<exists>j<?n'. ent_name (dent V' ip' j) = x \<and> ent_ino (dent V' ip' j) = y)" if "y \<noteq> 0" for y
      proof (cases "x = nm")
        case True
        have "(\<exists>j<?n'. ent_name (dent V' ip' j) = nm \<and> ent_ino (dent V' ip' j) = y) \<longleftrightarrow> y = ino"
          using i' E(2,3) e dead old that by metis
        with True show ?thesis by auto
      next
        case False
        have "(\<exists>j<?n'. ent_name (dent V' ip' j) = x \<and> ent_ino (dent V' ip' j) = y) \<longleftrightarrow>
            (\<exists>j<?n. ent_name (dent V ip j) = x \<and> ent_ino (dent V ip j) = y)"
        proof -
          have "j \<noteq> i" if "j < ?n" "ent_ino (dent V ip j) = y" for j using that \<open>y \<noteq> 0\<close> i by auto
          moreover have "j < ?n'" if "j < ?n" for j using that n' by auto
          ultimately show ?thesis using old E(3) e False by metis
        qed
        then show ?thesis using False dir_map_live [OF ok, of x y] that by simp
      qed
      show "((dir_map V ip)(nm \<mapsto> ino)) x \<noteq> Some 0" using e(3) dir_map_live [OF ok, of x 0] by simp
    qed
  qed
qed

lemma ent_removed:
  assumes ok: "dir_ok V sb ip" and fok: "file_ok V' sb ip'" and es: "ent_set i e V ip V' ip'"
    and ip: "i_mode ip' = i_mode ip" "i_size ip' = i_size ip"
    and e: "ent_ino e = 0" "ent_name e = ent_name (dent V ip i)" and i: "i < nr_ents ip" "ent_name (dent V ip i) = nm" "ent_ino (dent V ip i) \<noteq> 0"
  shows "dir_ok V' sb ip'" "dir_map V' ip' = (dir_map V ip)(nm := None)"
proof -
  let ?n = "nr_ents ip"
  note E = ent_setD [OF es]
  have n': "nr_ents ip' = ?n" using ip by (simp add: nr_ents_def)
  have sz: "DIRENT_SIZE dvd unat (i_size ip)" "unat (i_size ip) \<le> MAX_FILE" "\<And>j. j < ?n \<Longrightarrow> has_ent V ip j"
    using ok by (auto simp: dir_ok_def)
  have old: "has_ent V' ip' j \<and> ent_ino (dent V' ip' j) = (if j = i then 0 else ent_ino (dent V ip j)) \<and> ent_name (dent V' ip' j) = ent_name (dent V ip j)"
    if "j < ?n" for j
  proof (cases "j = i")
    case True
    then show ?thesis using E(1,2,3) e by simp
  next
    case False
    have "j * DIRENT_SIZE < MAX_FILE" using that sz(2) unfolding nr_ents_def DIRENT_SIZE_def by linarith
    with E(4) [OF False _ sz(3) [OF that]] False show ?thesis by simp
  qed
  have "ent_name (dent V' ip' l) \<noteq> ent_name (dent V' ip' j)" if lj: "l < j" "j < ?n" "ent_ino (dent V' ip' j) \<noteq> 0" for l j
  proof -
    have "ent_ino (dent V ip j) \<noteq> 0" using old [OF lj(2)] lj(3) by (auto split: if_splits)
    then have "ent_name (dent V ip l) \<noteq> ent_name (dent V ip j)" using ok lj unfolding dir_ok_def by metis
    then show ?thesis using old [OF lj(2)] old [of l] lj by auto
  qed
  then show ok': "dir_ok V' sb ip'" using ok fok ip old sz unfolding dir_ok_def n' by auto
  have only: "j = i" if "j < ?n" "ent_name (dent V ip j) = nm" "ent_ino (dent V ip j) \<noteq> 0" for j
  proof -
    have "\<not> j < i" "\<not> i < j" using ok that i unfolding dir_ok_def by metis+
    then show ?thesis by simp
  qed
  show "dir_map V' ip' = (dir_map V ip)(nm := None)"
  proof
    fix x
    show "dir_map V' ip' x = ((dir_map V ip)(nm := None)) x"
    proof (rule dir_map_eqI [OF ok'])
      show "((dir_map V ip)(nm := None)) x = Some y \<longleftrightarrow> (\<exists>j<nr_ents ip'. ent_name (dent V' ip' j) = x \<and> ent_ino (dent V' ip' j) = y)" if "y \<noteq> 0" for y
      proof (cases "x = nm")
        case True
        then show ?thesis using old only that unfolding n' by (metis fun_upd_same option.distinct(1))
      next
        case False
        have "(\<exists>j<?n. ent_name (dent V' ip' j) = x \<and> ent_ino (dent V' ip' j) = y) \<longleftrightarrow>
            (\<exists>j<?n. ent_name (dent V ip j) = x \<and> ent_ino (dent V ip j) = y)"
          using old i(2) False that by metis
        then show ?thesis using False dir_map_live [OF ok, of x y] that unfolding n' by simp
      qed
      show "((dir_map V ip)(nm := None)) x \<noteq> Some 0" using dir_map_live [OF ok, of x 0] by simp
    qed
  qed
qed

end
