(* ===== verification/Dir_Map.thy ===== *)
theory Dir_Map
  imports Dir
begin

text \<open>
  The directory operations of \<open>fs/namei.c\<close> implement a finite map: an interface \<open>directory\<close> with the laws
  of lookup, insertion and deletion, its interpretation on \<open>find_entry\<close>, \<open>dir_add_entry\<close> and
  \<open>dir_remove_entry\<close>, and the properties that follow.
\<close>

subsection \<open>Removing an entry\<close>

lemma dcache_invalidate_simps [simp]:
  fixes s :: "'z fs_state_scheme"
  shows "view (dcache_invalidate s) = view s" "cnts (dcache_invalidate s) = cnts s" "mounted (dcache_invalidate s) = mounted s"
    "inode_table (dcache_invalidate s) = inode_table s" "super_tab (dcache_invalidate s) = super_tab s"
    "i < DCACHE_SIZE \<Longrightarrow> \<not> d_valid (dcache (dcache_invalidate s) i)"
  by (simp_all add: dcache_invalidate_def)

lemma dcache_ok_invalid: "(\<And>i. i < DCACHE_SIZE \<Longrightarrow> \<not> d_valid (dcache s i)) \<Longrightarrow> dcache_ok dir s"
  by (auto simp: dcache_ok_def dcache_match_def)

text \<open>The zones in use by anything but this directory are as they were.\<close>

definition others_kept :: "nat \<Rightarrow> 'z fs_state_scheme \<Rightarrow> 'z fs_state_scheme \<Rightarrow> bool" where
  "others_kept dir s s' \<longleftrightarrow> cnts s' = cnts s \<and> super_tab s' = super_tab s \<and>
     (\<forall>j. j \<noteq> dir \<longrightarrow> inode_table s' j = inode_table s j) \<and>
     (\<forall>z. zone_used (view s) (super_tab s 0) z \<and> z \<notin> file_zones (view s) (inode_table s dir) \<longrightarrow>
        view s' z = view s z \<and> zone_used (view s') (super_tab s 0) z \<and> z \<notin> file_zones (view s') (inode_table s' dir))"

lemma wrote_others:
  assumes "wrote (super_tab s 0) um buf q w (view s) (inode_table s dir) (view s') (inode_table s' dir)"
    and "cnts s' = cnts s" "super_tab s' = super_tab s" "\<And>j. j \<noteq> dir \<Longrightarrow> inode_table s' j = inode_table s j"
  shows "others_kept dir s s'"
  using assms unfolding others_kept_def wrote_def by blast

lemma others_same:
  assumes "view s' = view s" "cnts s' = cnts s" "super_tab s' = super_tab s" "inode_table s' = inode_table s"
  shows "others_kept dir s s'"
  using assms by (simp add: others_kept_def)

lemma entry_data:
  assumes "has_ent V ip i" "blk_of d = V (zone_at V ip (ent_blk i))" "k < DIRENT_SIZE"
  shows "d (ent_off i + k) = dent V ip i k"
proof -
  have "ent_off i + k < BLOCK_SIZE" using ent_off_fits [of i] assms(3) by linarith
  then show ?thesis using dent_data [OF assms(1,3)] assms(2) by (metis blk_of_less)
qed

lemma size_kept: "ip\<lparr>i_size := max (i_size ip) (of_nat (i * DIRENT_SIZE + DIRENT_SIZE)), i_dirt := i_dirt ip\<rparr> = ip"
  if "i < nr_ents ip" for ip :: m_inode
proof -
  have le: "i * DIRENT_SIZE + DIRENT_SIZE \<le> unat (i_size ip)" using that unfolding nr_ents_def DIRENT_SIZE_def by linarith
  then have "unat (of_nat (i * DIRENT_SIZE + DIRENT_SIZE) :: u32) = i * DIRENT_SIZE + DIRENT_SIZE"
    using unat_u32_less [of "i_size ip"] by (intro unat_of_nat_small) linarith
  with le have "(of_nat (i * DIRENT_SIZE + DIRENT_SIZE) :: u32) \<le> i_size ip" unfolding word_le_nat_alt by linarith
  then have "max (i_size ip) (of_nat (i * DIRENT_SIZE + DIRENT_SIZE)) = i_size ip" by (rule max.absorb1)
  then show ?thesis by simp
qed

lemma ent_limit: "dir_ok V sb ip \<Longrightarrow> i < nr_ents ip \<Longrightarrow> i * DIRENT_SIZE < MAX_FILE"
  unfolding dir_ok_def nr_ents_def DIRENT_SIZE_def by linarith

lemma wrote_entry:
  assumes "dir_ok V sb ip" "layout_ok sb" "zone_added sb (ent_blk i) V ip V1 ip1" "i * DIRENT_SIZE < MAX_FILE"
    and "V2 = V1(zone_at V1 ip1 (ent_blk i) := copy_in (ent_mem e) 0 (ent_off i) DIRENT_SIZE (V1 (zone_at V1 ip1 (ent_blk i))))"
    and "ip2 = ip1\<lparr>i_size := max (i_size ip1) (of_nat (i * DIRENT_SIZE + DIRENT_SIZE)), i_dirt := d\<rparr>"
  shows "wrote sb (ent_mem e) 0 (i * DIRENT_SIZE) DIRENT_SIZE V ip V2 ip2"
proof -
  have "file_ok V sb ip" "0 < DIRENT_SIZE" using assms(1) by (simp_all add: dir_ok_def DIRENT_SIZE_def)
  from wrote_block [OF this(1) assms(2,3) this(2) ent_off_fits assms(4-6)] show ?thesis .
qed

lemma dir_remove_spec:
  fixes s :: "'z fs_state_scheme"
  assumes st: "dir_state dir s" and nm: "name_ok nm"
  obtains r s' where "dir_remove_entry dir nm s = Some (r, s')" "dir_state dir s'" "others_kept dir s s'"
    "r = (if dir_map (view s) (inode_table s dir) nm = None then -1 else 0)"
    "dir_map (view s') (inode_table s' dir) = (dir_map (view s) (inode_table s dir))(nm := None)"
    "inode_table s' = inode_table s"
proof -
  let ?V = "view s" and ?ip = "inode_table s dir" and ?sb = "super_tab s 0"
  let ?p = "\<lambda>d off. de_inode d off \<noteq> 0 \<and> name_eq (de_name d off) nm"
  note D = dir_stateD [OF st]
  have lim: "(0 + nr_ents ?ip) * DIRENT_SIZE \<le> MAX_FILE" using D(11) by simp
  obtain r s1 where r: "scan_dir ?p dir 0 (nr_ents ?ip) s = Some (r, s1)" "keep s1 = keep s"
    "r = None \<Longrightarrow> bc.settles s s1 ?V"
    "\<And>j. r = None \<Longrightarrow> j < nr_ents ?ip \<Longrightarrow> \<not> (has_ent ?V ?ip j \<and> ent_ino (dent ?V ?ip j) \<noteq> 0 \<and> ent_is nm (dent ?V ?ip j))"
    "\<And>b off j. r = Some (b, off, j) \<Longrightarrow> j < nr_ents ?ip \<and> off = ent_off j \<and> has_ent ?V ?ip j \<and>
       ent_ino (dent ?V ?ip j) \<noteq> 0 \<and> ent_is nm (dent ?V ?ip j) \<and> blk_of (b_data (heads s1 b)) = ?V (zone_at ?V ?ip (ent_blk j))"
    "\<And>b off j d. r = Some (b, off, j) \<Longrightarrow> \<exists>s2. brelse (Some b) (bput b d s1) = Some s2 \<and>
       bc.settles s s2 (?V(zone_at ?V ?ip (ent_blk j) := blk_of d))"
    using scan_dir_spec [OF entry_tests(4) [of nm] D(1,3,5) lim] by auto
  have step: "dir_remove_entry dir nm s = do {
      (e, s) \<leftarrow> scan_dir ?p dir 0 (nr_ents ?ip) s;
      case e of None \<Rightarrow> Some (-1, s)
      | Some (b, off, i) \<Rightarrow> do {
          s \<leftarrow> brelse (Some b) (bput b (put16 off 0 (b_data (heads s b))) s);
          Some (0, dcache_invalidate s) } }"
    by (simp add: dir_remove_entry_def dir_entries_def nr_ents_def)
  show ?thesis
  proof (cases r)
    case None
    note S = settlesD [OF r(3) [OF None]]
    note T = keep_tablesD [OF S(4)]
    have "dir_map ?V ?ip nm = None"
    proof (cases "dir_map ?V ?ip nm")
      case (Some x)
      then show ?thesis using dir_map_live [OF D(6), of nm x] r(4) [OF None] D(10) ent_is_iff [OF nm] by auto
    qed
    moreover have "dcache_ok dir s1" using D(7) unfolding dcache_ok_def T(2,3) S(2) .
    then have "dir_state dir s1" using st S T mounted_keep [OF D(1) S(1,4)] by (simp add: dir_state_def)
    moreover have "others_kept dir s s1" using S T by (intro others_same) simp_all
    ultimately show ?thesis using S T by (intro that [of "-1" s1]) (simp_all add: step r(1) None fun_upd_idem)
  next
    case (Some t)
    then obtain b off i where rs: "r = Some (b, off, i)" by (cases t) auto
    note R = r(5) [OF rs]
    let ?z = "zone_at ?V ?ip (ent_blk i)" and ?d = "b_data (heads s1 b)" and ?e = "put16 0 0 (dent ?V ?ip i)"
    obtain s2 where s2: "brelse (Some b) (bput b (put16 off 0 ?d) s1) = Some s2"
      "bc.settles s s2 (?V(?z := blk_of (put16 off 0 ?d)))" using r(6) [OF rs] by blast
    note S = settlesD [OF s2(2)]
    note T = keep_tablesD [OF S(4)]
    let ?s' = "dcache_invalidate s2"
    have "blk_of (put16 off 0 ?d) = blk_of (copy_in (ent_mem ?e) 0 (ent_off i) DIRENT_SIZE ?d)"
      using copy_in_put16 [of ?d "ent_off i" "dent ?V ?ip i" 0] entry_data [of ?V ?ip i ?d] R by simp
    also have "\<dots> = copy_in (ent_mem ?e) 0 (ent_off i) DIRENT_SIZE (?V ?z)"
      using blk_of_copy_in [OF ent_off_fits] R by simp
    finally have V2: "view s2 = ?V(?z := copy_in (ent_mem ?e) 0 (ent_off i) DIRENT_SIZE (?V ?z))" using S(2) by simp
    have i: "i * DIRENT_SIZE < MAX_FILE" using ent_limit [OF D(6)] R by blast
    have za: "zone_added ?sb (ent_blk i) ?V ?ip ?V ?ip" using zone_added_refl [OF D(8)] R by (simp add: has_ent_def)
    have W: "wrote ?sb (ent_mem ?e) 0 (i * DIRENT_SIZE) DIRENT_SIZE ?V ?ip (view s2) ?ip"
      by (rule wrote_entry [OF D(6,4) za i V2 size_kept [symmetric]]) (use R in blast)
    have fok: "file_ok (view s2) ?sb ?ip" using W by (simp add: wrote_def)
    have e: "ent_ino ?e = 0" "ent_name ?e = ent_name (dent ?V ?ip i)"
      by (simp_all add: ent_ino_def ent_name_def)
    have live: "i < nr_ents ?ip" "ent_name (dent ?V ?ip i) = nm" "ent_ino (dent ?V ?ip i) \<noteq> 0" using R ent_is_iff [OF nm] by auto
    note M = ent_removed [OF D(6) fok wrote_ent_set [OF W i] refl refl e live]
    have "dir_map ?V ?ip nm \<noteq> None" using dir_map_live [OF D(6), of nm "ent_ino (dent ?V ?ip i)"] live by auto
    moreover have "dcache_ok dir ?s'" by (rule dcache_ok_invalid) simp
    then have "dir_state dir ?s'" using st M(1) S(3) T mounted_keep [OF D(1) S(1,4)] by (simp add: dir_state_def)
    moreover have "others_kept dir s ?s'" using W S(3) T by (intro wrote_others [where um = "ent_mem ?e"]) simp_all
    ultimately show ?thesis using M(2) T by (intro that [of 0 ?s']) (simp_all add: step r(1) rs s2(1))
  qed
qed

subsection \<open>Adding an entry\<close>

text \<open>There is room for one more entry: below the maximum size, and without a new indirect block.\<close>

definition dir_room :: "nat \<Rightarrow> 'z fs_state_scheme \<Rightarrow> bool" where
  "dir_room dir s \<longleftrightarrow> unat (i_size (inode_table s dir)) + DIRENT_SIZE \<le> MAX_FILE \<and>
     (ent_blk (nr_ents (inode_table s dir)) < NR_DIRECT \<or> i_zone (inode_table s dir) 7 \<noteq> 0)"

lemma put_dirent_block:
  assumes "blk_of d = d'"
  shows "blk_of (put_dirent (ent_off i) ino nm d) =
    copy_in (ent_mem (put_dirent 0 ino nm (\<lambda>_. 0))) 0 (ent_off i) DIRENT_SIZE d'"
  using copy_in_put_dirent [of "ent_off i" ino nm d "\<lambda>_. 0"] blk_of_copy_in [OF ent_off_fits] assms by simp

lemma size_grows:
  assumes "dir_ok V sb ip" "unat (i_size ip) + DIRENT_SIZE \<le> MAX_FILE"
  shows "i_size ip + of_nat DIRENT_SIZE = max (i_size ip) (of_nat (nr_ents ip * DIRENT_SIZE + DIRENT_SIZE))"
    "unat (i_size ip + of_nat DIRENT_SIZE) = unat (i_size ip) + DIRENT_SIZE"
proof -
  have n: "nr_ents ip * DIRENT_SIZE = unat (i_size ip)" using assms(1) by (auto simp: dir_ok_def nr_ents_def)
  have lt: "unat (i_size ip) + DIRENT_SIZE < 4294967296" using assms(2) by (simp add: file_consts)
  show u: "unat (i_size ip + of_nat DIRENT_SIZE) = unat (i_size ip) + DIRENT_SIZE"
    using lt by (simp add: unat_word_ariths unat_of_nat DIRENT_SIZE_def)
  have "i_size ip \<le> i_size ip + of_nat DIRENT_SIZE" unfolding word_le_nat_alt u by simp
  then show "i_size ip + of_nat DIRENT_SIZE = max (i_size ip) (of_nat (nr_ents ip * DIRENT_SIZE + DIRENT_SIZE))"
    unfolding n by (simp add: max.absorb2)
qed

lemma dir_add_reuse:
  fixes s :: "'z fs_state_scheme"
  assumes st: "dir_state dir s" and nm: "name_ok nm" "dir_map (view s) (inode_table s dir) nm = None" "ino \<noteq> 0"
    and i: "i < nr_ents (inode_table s dir)" "ent_ino (dent (view s) (inode_table s dir) i) = 0"
      "\<And>l. l < i \<Longrightarrow> ent_ino (dent (view s) (inode_table s dir) l) \<noteq> 0"
    and d: "blk_of d = view s (zone_at (view s) (inode_table s dir) (ent_blk i))"
    and S: "bc.settles s s2 ((view s)(zone_at (view s) (inode_table s dir) (ent_blk i) := blk_of (put_dirent (ent_off i) ino nm d)))"
    and inv: "\<And>i. i < DCACHE_SIZE \<Longrightarrow> \<not> d_valid (dcache s i)"
  shows "dir_state dir s2 \<and> others_kept dir s s2 \<and>
    dir_map (view s2) (inode_table s2 dir) = (dir_map (view s) (inode_table s dir))(nm \<mapsto> ino)"
proof -
  let ?V = "view s" and ?ip = "inode_table s dir" and ?sb = "super_tab s 0"
  let ?z = "zone_at ?V ?ip (ent_blk i)" and ?e = "put_dirent 0 ino nm (\<lambda>_. 0)"
  note D = dir_stateD [OF st]
  note S' = settlesD [OF S]
  note T = keep_tablesD [OF S'(4)]
  have V2: "view s2 = ?V(?z := copy_in (ent_mem ?e) 0 (ent_off i) DIRENT_SIZE (?V ?z))"
    using S'(2) put_dirent_block [OF d] by simp
  have lim: "i * DIRENT_SIZE < MAX_FILE" using ent_limit [OF D(6) i(1)] .
  have za: "zone_added ?sb (ent_blk i) ?V ?ip ?V ?ip" using zone_added_refl [OF D(8)] D(10) [OF i(1)] by (simp add: has_ent_def)
  have W: "wrote ?sb (ent_mem ?e) 0 (i * DIRENT_SIZE) DIRENT_SIZE ?V ?ip (view s2) ?ip"
    by (rule wrote_entry [OF D(6,4) za lim V2 size_kept [symmetric]]) (rule i(1))
  have fok: "file_ok (view s2) ?sb ?ip" using W by (simp add: wrote_def)
  have M: "dir_ok (view s2) ?sb ?ip" "dir_map (view s2) ?ip = (dir_map ?V ?ip)(nm \<mapsto> ino)"
    by (rule ent_added [OF D(6) fok wrote_ent_set [OF W lim] refl put_dirent_entry [OF nm(1)] nm(3,2)];
        use i in \<open>auto intro: less_trans\<close>)+
  have "dcache_ok dir s2" by (rule dcache_ok_invalid) (simp add: T inv)
  then have "dir_state dir s2" using st M(1) S'(3) T mounted_keep [OF D(1) S'(1,4)] by (simp add: dir_state_def)
  moreover have "others_kept dir s s2" using W S'(3) T by (intro wrote_others [where um = "ent_mem ?e"]) simp_all
  ultimately show ?thesis using M(2) T by simp
qed

lemma dir_add_grow:
  fixes s :: "'z fs_state_scheme"
  assumes st: "dir_state dir s" and nm: "name_ok nm" "dir_map (view s) (inode_table s dir) nm = None" "ino \<noteq> 0"
    and room: "dir_room dir s" and inv: "\<And>i. i < DCACHE_SIZE \<Longrightarrow> \<not> d_valid (dcache s i)"
    and live: "\<And>l. l < nr_ents (inode_table s dir) \<Longrightarrow> ent_ino (dent (view s) (inode_table s dir) l) \<noteq> 0"
    and only: "\<exists>f. keep s1 = keep (upd_inode dir f s)" and m1: "mounted s1" and c1: "cnts s1 = cnts s"
    and za: "zone_added (super_tab s 0) (ent_blk (nr_ents (inode_table s dir))) (view s) (inode_table s dir) (view s1) (inode_table s1 dir)"
    and d: "blk_of d = view s1 (zone_at (view s1) (inode_table s1 dir) (ent_blk (nr_ents (inode_table s dir))))"
    and S: "bc.settles s1 s2 ((view s1)(zone_at (view s1) (inode_table s1 dir) (ent_blk (nr_ents (inode_table s dir))) :=
       blk_of (put_dirent (ent_off (nr_ents (inode_table s dir))) ino nm d)))"
  defines "s3 \<equiv> upd_inode dir (\<lambda>ip. ip\<lparr>i_size := i_size ip + of_nat DIRENT_SIZE, i_dirt := True\<rparr>) s2"
  shows "dir_state dir s3 \<and> others_kept dir s s3 \<and>
    dir_map (view s3) (inode_table s3 dir) = (dir_map (view s) (inode_table s dir))(nm \<mapsto> ino)"
proof -
  let ?V = "view s" and ?ip = "inode_table s dir" and ?sb = "super_tab s 0" and ?ip1 = "inode_table s1 dir"
  let ?n = "nr_ents ?ip" and ?e = "put_dirent 0 ino nm (\<lambda>_. 0)"
  let ?z = "zone_at (view s1) ?ip1 (ent_blk ?n)"
  note D = dir_stateD [OF st]
  note S' = settlesD [OF S]
  note T = keep_tablesD [OF S'(4)]
  obtain f where f: "keep s1 = keep (upd_inode dir f s)" using only by blast
  note F = keep_tablesD [OF f]
  have sz1: "i_size ?ip1 = i_size ?ip" "i_mode ?ip1 = i_mode ?ip" "i_dev ?ip1 = i_dev ?ip" using za by (auto simp: zone_added_def)
  have room': "unat (i_size ?ip) + DIRENT_SIZE \<le> MAX_FILE" using room by (simp add: dir_room_def)
  note G = size_grows [OF D(6) room']
  have ip3: "inode_table s3 dir = ?ip1\<lparr>i_size := max (i_size ?ip1) (of_nat (?n * DIRENT_SIZE + DIRENT_SIZE)), i_dirt := True\<rparr>"
    unfolding s3_def using T G(1) sz1(1) by simp
  have V3: "view s3 = (view s1)(?z := copy_in (ent_mem ?e) 0 (ent_off ?n) DIRENT_SIZE (view s1 ?z))"
    unfolding s3_def using S'(2) put_dirent_block [OF d] by simp
  have lim: "?n * DIRENT_SIZE < MAX_FILE" using room' D(6) by (auto simp: dir_ok_def nr_ents_def DIRENT_SIZE_def)
  have W: "wrote ?sb (ent_mem ?e) 0 (?n * DIRENT_SIZE) DIRENT_SIZE ?V ?ip (view s3) (inode_table s3 dir)"
    by (rule wrote_entry [OF D(6,4) za lim V3 ip3])
  have fok: "file_ok (view s3) ?sb (inode_table s3 dir)" using W by (simp add: wrote_def)
  have md: "i_mode (inode_table s3 dir) = i_mode ?ip" "i_dev (inode_table s3 dir) = ROOT_DEV" unfolding ip3 using sz1 D(5) by simp_all
  have sz3: "unat (i_size (inode_table s3 dir)) = unat (i_size ?ip) + DIRENT_SIZE"
    unfolding s3_def using T sz1(1) G(2) by simp
  have M: "dir_ok (view s3) ?sb (inode_table s3 dir)" "dir_map (view s3) (inode_table s3 dir) = (dir_map ?V ?ip)(nm \<mapsto> ino)"
    by (rule ent_added [OF D(6) fok wrote_ent_set [OF W lim] md(1) put_dirent_entry [OF nm(1)] nm(3,2)];
        use live sz3 room' in auto)+
  have t3: "super_tab s3 = super_tab s" "cnts s3 = cnts s" "mounted s3" "dcache s3 = dcache s"
    "\<And>j. j \<noteq> dir \<Longrightarrow> inode_table s3 j = inode_table s j"
    unfolding s3_def using T F S'(3) c1 mounted_keep [OF m1 S'(1,4)] by simp_all
  have "dcache_ok dir s3" by (rule dcache_ok_invalid) (simp add: t3 inv)
  then have "dir_state dir s3" using st M(1) md(2) t3 by (simp add: dir_state_def)
  moreover have "others_kept dir s s3" by (rule wrote_others [OF W]) (use t3 in simp_all)
  ultimately show ?thesis using M(2) by simp
qed

lemma dir_state_invalidate: "dir_state dir s \<Longrightarrow> dir_state dir (dcache_invalidate s)"
  by (auto simp: dir_state_def intro!: dcache_ok_invalid)

lemma dir_add_spec:
  fixes s :: "'z fs_state_scheme"
  assumes st: "dir_state dir s" and nm: "name_ok nm" "dir_map (view s) (inode_table s dir) nm = None" "ino \<noteq> 0"
    and room: "dir_room dir s"
  obtains r s' where "dir_add_entry (Some dir) nm ino s = Some (r, s')" "dir_state dir s'" "others_kept dir s s'"
    "r = 0 \<or> r = -1 \<and> disk_full (view s) (super_tab s 0)"
    "dir_map (view s') (inode_table s' dir) = (if r = 0 then (dir_map (view s) (inode_table s dir))(nm \<mapsto> ino)
       else dir_map (view s) (inode_table s dir))"
proof -
  let ?s0 = "dcache_invalidate s"
  let ?V = "view s" and ?ip = "inode_table s dir" and ?sb = "super_tab s 0" and ?p = "\<lambda>d off. de_inode d off = 0"
  have st0: "dir_state dir ?s0" by (rule dir_state_invalidate [OF st])
  note D = dir_stateD [OF st0, simplified]
  have inv0: "\<And>i. i < DCACHE_SIZE \<Longrightarrow> \<not> d_valid (dcache ?s0 i)" by simp
  have len: "\<not> NAME_LEN < length nm" using nm(1) by (simp add: name_ok_def)
  let ?n = "nr_ents ?ip"
  have lim: "(0 + ?n) * DIRENT_SIZE \<le> MAX_FILE" using D(11) by simp
  have m0: "mounted ?s0" "pins (cnts ?s0) < 255" "i_dev (inode_table ?s0 dir) = ROOT_DEV" using D by simp_all
  obtain r s1 where r: "scan_dir ?p dir 0 ?n ?s0 = Some (r, s1)" "keep s1 = keep ?s0" "r = None \<Longrightarrow> bc.settles ?s0 s1 ?V"
    "\<And>j. r = None \<Longrightarrow> j < ?n \<Longrightarrow> \<not> (has_ent ?V ?ip j \<and> ent_ino (dent ?V ?ip j) = 0)"
    "\<And>b off j. r = Some (b, off, j) \<Longrightarrow> j < ?n \<and> off = ent_off j \<and> has_ent ?V ?ip j \<and> ent_ino (dent ?V ?ip j) = 0 \<and>
       blk_of (b_data (heads s1 b)) = ?V (zone_at ?V ?ip (ent_blk j))"
    "\<And>b off j l. r = Some (b, off, j) \<Longrightarrow> l < j \<Longrightarrow> \<not> (has_ent ?V ?ip l \<and> ent_ino (dent ?V ?ip l) = 0)"
    "\<And>b off j d. r = Some (b, off, j) \<Longrightarrow> \<exists>s2. brelse (Some b) (bput b d s1) = Some s2 \<and>
       bc.settles ?s0 s2 (?V(zone_at ?V ?ip (ent_blk j) := blk_of d))"
    using scan_dir_spec [OF entry_tests(2) m0 lim] by auto
  have ents: "dir_entries dir ?s0 = ?n" by (simp add: dir_entries_def nr_ents_def)
  show ?thesis
  proof (cases r)
    case (Some t)
    then obtain b off i where rs: "r = Some (b, off, i)" by (cases t) auto
    note R = r(5) [OF rs]
    obtain s2 where s2: "brelse (Some b) (bput b (put_dirent off ino nm (b_data (heads s1 b))) s1) = Some s2"
      "bc.settles ?s0 s2 (?V(zone_at ?V ?ip (ent_blk i) := blk_of (put_dirent off ino nm (b_data (heads s1 b)))))"
      using r(7) [OF rs] by blast
    have e: "dir_add_entry (Some dir) nm ino s = Some (0, s2)"
      unfolding dir_add_entry_def Let_def using len r(1) rs s2(1) R by (simp add: ents)
    have "dir_state dir s2 \<and> others_kept dir ?s0 s2 \<and>
        dir_map (view s2) (inode_table s2 dir) = (dir_map (view ?s0) (inode_table ?s0 dir))(nm \<mapsto> ino)"
    proof (rule dir_add_reuse [OF st0 nm(1) _ nm(3) _ _ _ _ _ inv0])
      show "bc.settles ?s0 s2 ((view ?s0)(zone_at (view ?s0) (inode_table ?s0 dir) (ent_blk i) :=
          blk_of (put_dirent (ent_off i) ino nm (b_data (heads s1 b)))))" using s2(2) R by simp
      show "\<And>l. l < i \<Longrightarrow> ent_ino (dent (view ?s0) (inode_table ?s0 dir) l) \<noteq> 0"
        using r(6) [OF rs] R D(10) by (metis dcache_invalidate_simps(1,4) less_trans)
    qed (use nm(2) R in simp_all)
    then show ?thesis using e by (intro that [of 0 s2]) (simp_all add: others_kept_def)
  next
    case None
    note S1 = settlesD [OF r(3) [OF None]]
    note T1 = keep_tablesD [OF S1(4)]
    have st1: "dir_state dir s1"
    proof -
      have "dcache_ok dir s1" by (rule dcache_ok_invalid) (simp add: T1)
      then show ?thesis using st0 S1 T1 mounted_keep [OF m0(1) S1(1,4)] by (simp add: dir_state_def)
    qed
    note D1 = dir_stateD [OF st1]
    have inv1: "\<And>i. i < DCACHE_SIZE \<Longrightarrow> \<not> d_valid (dcache s1 i)" by (simp add: T1)
    have same1: "view s1 = ?V" "inode_table s1 = inode_table s" "super_tab s1 = super_tab s" "cnts s1 = cnts s" using S1 T1 by simp_all
    have zo: "ent_blk ?n < NR_DIRECT + NR_INDIRECT" "ent_blk ?n < NR_DIRECT \<or> i_zone (inode_table s1 dir) 7 \<noteq> 0"
    proof -
      have "?n * DIRENT_SIZE < MAX_FILE" using room D(6) by (auto simp: dir_room_def dir_ok_def nr_ents_def DIRENT_SIZE_def)
      then show "ent_blk ?n < NR_DIRECT + NR_INDIRECT" by (simp add: MAX_FILE_div)
      show "ent_blk ?n < NR_DIRECT \<or> i_zone (inode_table s1 dir) 7 \<noteq> 0" using room same1 by (simp add: dir_room_def)
    qed
    obtain w s2 where w: "write_zone dir (ent_blk ?n) s1 = Some (w, s2)" "mounted s2" "cnts s2 = cnts s1"
      "\<exists>f. keep s2 = keep (upd_inode dir f s1)"
      "w = None \<Longrightarrow> view s2 = view s1 \<and> inode_table s2 dir = inode_table s1 dir \<and> disk_full (view s1) (super_tab s1 0)"
      "\<And>z. w = Some z \<Longrightarrow> zone_added (super_tab s1 0) (ent_blk ?n) (view s1) (inode_table s1 dir) (view s2) (inode_table s2 dir) \<and>
         z = zone_at (view s2) (inode_table s2 dir) (ent_blk ?n)"
      by (rule write_zone_spec [OF D1(1,2,4,5,8) zo]) (rule that)
    have ens: "ensure_dir_block dir (ent_blk ?n) s1 = Some (w \<noteq> None, s2)"
    proof -
      have "inode_table t dir = inode_table s1 dir" if "new_block (i_dev (inode_table s1 dir)) s1 = Some (z, t)" for z t
      proof -
        have "\<exists>W. bc.settles s1 t W" by (rule new_block_spec [OF D1(1,3)]) (use that D1(5) in auto)
        then show ?thesis using keep_tablesD(2) settlesD(4) by metis
      qed
      then show ?thesis using ensure_dir_block_eq [of s1 dir "ent_blk ?n"] w(1) by simp
    qed
    show ?thesis
    proof (cases w)
      case wn: None
      have e: "dir_add_entry (Some dir) nm ino s = Some (-1, s2)"
        unfolding dir_add_entry_def Let_def using len r(1) None ens wn by (simp add: ents)
      note W = w(5) [OF wn]
      have only: "super_tab s2 = super_tab s" "\<And>j. inode_table s2 j = inode_table s j"
      proof -
        show "super_tab s2 = super_tab s" using only_tables(1) [OF w(4)] same1 by simp
        show "inode_table s2 j = inode_table s j" for j using only_tables(2) [OF w(4)] W same1 by (cases "j = dir") auto
      qed
      have it: "inode_table s2 = inode_table s" using only(2) by blast
      obtain f where f: "keep s2 = keep (upd_inode dir f s1)" using w(4) by blast
      have "dcache s2 = dcache s1" using keep_tablesD(3) [OF f] by simp
      then have "dcache_ok dir s2" by (intro dcache_ok_invalid) (simp add: inv1)
      then have "dir_state dir s2" using st1 w(2,3) W it only(1) same1 by (simp add: dir_state_def)
      moreover have "others_kept dir s s2" using W it only(1) same1 w(3) by (intro others_same) simp_all
      ultimately show ?thesis using e W it same1 by (intro that [of "-1" s2]) simp_all
    next
      case (Some z)
      note Z = w(6) [OF Some]
      let ?n1 = "nr_ents (inode_table s1 dir)"
      have n1: "?n1 = ?n" using same1 by simp
      have h2: "has_ent (view s2) (inode_table s2 dir) ?n" using Z by (simp add: has_ent_def zone_added_def)
      have p2: "pins (cnts s2) < 255" "i_dev (inode_table s2 dir) = ROOT_DEV" "?n * DIRENT_SIZE < MAX_FILE"
        using w(3) D1(3,5) Z zo(1) by (auto simp: zone_added_def MAX_FILE_div)
      obtain b s3 where b: "next_entry dir ?n s2 = Some (Some (b, ent_off ?n), s3)"
        "blk_of (b_data (heads s3 b)) = view s2 (zone_at (view s2) (inode_table s2 dir) (ent_blk ?n))"
        "\<And>d. \<exists>s4. brelse (Some b) (bput b d s3) = Some s4 \<and>
           bc.settles s2 s4 ((view s2)(zone_at (view s2) (inode_table s2 dir) (ent_blk ?n) := blk_of d))"
        by (rule next_entry_access [OF w(2) p2 h2]) (rule that)
      obtain s4 where s4: "brelse (Some b) (bput b (put_dirent (ent_off ?n) ino nm (b_data (heads s3 b))) s3) = Some s4"
        "bc.settles s2 s4 ((view s2)(zone_at (view s2) (inode_table s2 dir) (ent_blk ?n) :=
           blk_of (put_dirent (ent_off ?n) ino nm (b_data (heads s3 b)))))" using b(3) by blast
      let ?s5 = "upd_inode dir (\<lambda>ip. ip\<lparr>i_size := i_size ip + of_nat DIRENT_SIZE, i_dirt := True\<rparr>) s4"
      have e: "dir_add_entry (Some dir) nm ino s = Some (0, ?s5)"
        unfolding dir_add_entry_def Let_def using len r(1) None ens Some b(1) s4(1) by (simp add: ents)
      have live: "ent_ino (dent (view s1) (inode_table s1 dir) l) \<noteq> 0" if "l < ?n1" for l
        using r(4) [OF None, of l] D(10) [of l] that same1 by simp
      have nm1: "dir_map (view s1) (inode_table s1 dir) nm = None" using nm(2) same1 by simp
      have rm1: "dir_room dir s1" using room same1 by (simp add: dir_room_def)
      have "dir_state dir ?s5 \<and> others_kept dir s1 ?s5 \<and>
          dir_map (view ?s5) (inode_table ?s5 dir) = (dir_map (view s1) (inode_table s1 dir))(nm \<mapsto> ino)"
        by (rule dir_add_grow [OF st1 nm(1) nm1 nm(3) rm1 inv1 live w(4,2,3) _ _ s4(2) [folded n1]]) (use Z n1 b(2) in simp_all)
      then show ?thesis using e same1 by (intro that [of 0 ?s5]) (simp_all add: others_kept_def)
    qed
  qed
qed

subsection \<open>The interface\<close>

text \<open>
  A directory in the state \<open>'s\<close>: \<open>dmap\<close> is the map it stands for. The laws are those of a finite map whose
  insertion may fail for lack of space; the derived facts are what the system calls rely on.
\<close>

locale directory =
  fixes ok :: "'s \<Rightarrow> bool" and dmap :: "'s \<Rightarrow> cstr \<Rightarrow> u16 option" and room :: "'s \<Rightarrow> bool"
    and look :: "cstr \<Rightarrow> 's \<Rightarrow> (u16 option \<times> 's) option"
    and add :: "cstr \<Rightarrow> u16 \<Rightarrow> 's \<Rightarrow> (int \<times> 's) option"
    and del :: "cstr \<Rightarrow> 's \<Rightarrow> (int \<times> 's) option"
  assumes look: "ok s \<Longrightarrow> name_ok nm \<Longrightarrow> \<exists>s'. look nm s = Some (dmap s nm, s') \<and> ok s' \<and> dmap s' = dmap s"
    and add: "ok s \<Longrightarrow> name_ok nm \<Longrightarrow> ino \<noteq> 0 \<Longrightarrow> dmap s nm = None \<Longrightarrow> room s \<Longrightarrow>
      \<exists>r s'. add nm ino s = Some (r, s') \<and> ok s' \<and> dmap s' = (if r = 0 then (dmap s)(nm \<mapsto> ino) else dmap s)"
    and del: "ok s \<Longrightarrow> name_ok nm \<Longrightarrow>
      \<exists>s'. del nm s = Some (if dmap s nm = None then -1 else 0, s') \<and> ok s' \<and> dmap s' = (dmap s)(nm := None)"
begin

lemma add_look:
  assumes "ok s" "name_ok nm" "ino \<noteq> 0" "dmap s nm = None" "room s" "name_ok x" "add nm ino s = Some (0, s1)"
  shows "\<exists>s2. look x s1 = Some (if x = nm then Some ino else dmap s x, s2)"
proof -
  from add [OF assms(1-5)] assms(7) have "ok s1" "dmap s1 = (dmap s)(nm \<mapsto> ino)" by auto
  with look [OF this(1) assms(6)] show ?thesis by auto
qed

lemma add_del:
  assumes "ok s" "name_ok nm" "ino \<noteq> 0" "dmap s nm = None" "room s" "add nm ino s = Some (0, s1)"
  shows "\<exists>s2. del nm s1 = Some (0, s2) \<and> ok s2 \<and> dmap s2 = dmap s"
proof -
  from add [OF assms(1-5)] assms(6) have s1: "ok s1" "dmap s1 = (dmap s)(nm \<mapsto> ino)" by auto
  from del [OF s1(1) assms(2)] s1(2) assms(4) show ?thesis by (auto simp: fun_upd_idem)
qed

lemma move:
  assumes "ok s" "name_ok old" "name_ok new" "dmap s old = Some ino" "dmap s new = None" "room s" "add new ino s = Some (0, s1)" "ino \<noteq> 0"
  shows "\<exists>s2. del old s1 = Some (0, s2) \<and> ok s2 \<and> dmap s2 = (dmap s)(old := None, new \<mapsto> ino)"
proof -
  have neq: "old \<noteq> new" using assms(4,5) by auto
  from add [OF assms(1,3,8,5,6)] assms(7) have s1: "ok s1" "dmap s1 = (dmap s)(new \<mapsto> ino)" by auto
  from del [OF s1(1) assms(2)] s1(2) neq assms(4) show ?thesis by (auto simp: fun_upd_twist)
qed

end

interpretation dm: directory "dir_state dir" "\<lambda>s. dir_map (view s) (inode_table s dir)" "dir_room dir"
  "find_entry (Some dir)" "dir_add_entry (Some dir)" "dir_remove_entry dir" for dir
proof unfold_locales
  fix s :: "'a fs_state_scheme" and nm ino
  show "\<exists>s'. find_entry (Some dir) nm s = Some (dir_map (view s) (inode_table s dir) nm, s') \<and> dir_state dir s' \<and>
      dir_map (view s') (inode_table s' dir) = dir_map (view s) (inode_table s dir)" if "dir_state dir s" "name_ok nm"
    by (rule find_entry_spec [OF that]) auto
  show "\<exists>r s'. dir_add_entry (Some dir) nm ino s = Some (r, s') \<and> dir_state dir s' \<and>
      dir_map (view s') (inode_table s' dir) = (if r = 0 then (dir_map (view s) (inode_table s dir))(nm \<mapsto> ino)
        else dir_map (view s) (inode_table s dir))"
    if "dir_state dir s" "name_ok nm" "ino \<noteq> 0" "dir_map (view s) (inode_table s dir) nm = None" "dir_room dir s"
    by (rule dir_add_spec [OF that(1,2,4,3,5)]) blast
  show "\<exists>s'. dir_remove_entry dir nm s = Some (if dir_map (view s) (inode_table s dir) nm = None then -1 else 0, s') \<and>
      dir_state dir s' \<and> dir_map (view s') (inode_table s' dir) = (dir_map (view s) (inode_table s dir))(nm := None)"
    if "dir_state dir s" "name_ok nm"
    by (rule dir_remove_spec [OF that]) auto
qed

subsection \<open>A machine with an empty root directory\<close>

definition empty_dir :: "'z \<Rightarrow> 'z fs_state_scheme" where
  "empty_dir m = upd_inode 0 (\<lambda>ip. ip\<lparr>i_dev := ROOT_DEV, i_num := 1, i_nlinks := 2, i_mode := 0x41C0, i_count := 1,
     i_dirt := True\<rparr>) (boot_fs m)"

lemma empty_dir_inode: "inode_table (empty_dir m) = (\<lambda>_. zero_inode)(0 := zero_inode\<lparr>i_dev := ROOT_DEV, i_num := 1,
    i_nlinks := 2, i_mode := 0x41C0, i_count := 1, i_dirt := True\<rparr>)"
  by (simp add: empty_dir_def boot_fs_tables)

lemma empty_dir_facts: "mounted (empty_dir m)" "pins (cnts (empty_dir m)) = 0" "super_tab (empty_dir m) 0 = small_super"
  "view (empty_dir m) = (\<lambda>_ _. 0)" "dcache (empty_dir m) = (\<lambda>_. zero_dentry)"
  by (simp_all add: empty_dir_def boot_fs_facts boot_fs_tables)

lemma empty_dir_state: "dir_state 0 (empty_dir m)" "dir_room 0 (empty_dir m)"
  "dir_map (view (empty_dir m)) (inode_table (empty_dir m) 0) = Map.empty"
proof -
  let ?ip = "inode_table (empty_dir m) 0" and ?V = "view (empty_dir m)"
  have z: "zone_at ?V ?ip k = 0" for k by (simp add: zone_at_def empty_dir_inode zero_inode_def)
  have f: "file_ok ?V small_super ?ip" using z by (auto simp: file_ok_def file_zones_def empty_dir_inode zero_inode_def)
  have n: "nr_ents ?ip = 0" by (simp add: nr_ents_def empty_dir_inode zero_inode_def)
  have "dir_ok ?V small_super ?ip" unfolding dir_ok_def n using f
    by (simp add: empty_dir_inode zero_inode_def S_IFDIR_def)
  moreover have "dcache_ok 0 (empty_dir m)" by (rule dcache_ok_invalid) (simp add: empty_dir_facts zero_dentry_def)
  moreover have "i_dev ?ip = ROOT_DEV" by (simp add: empty_dir_inode)
  ultimately show "dir_state 0 (empty_dir m)" by (simp add: dir_state_def empty_dir_facts small_layout)
  show "dir_room 0 (empty_dir m)" by (simp add: dir_room_def n) (simp add: empty_dir_inode zero_inode_def file_consts DIRENT_SIZE_def)
  show "dir_map ?V ?ip = Map.empty" by (simp add: dir_map_def n scan.simps fun_eq_iff)
qed

lemma empty_dir_entry: "name_ok [97]" "(5 :: u16) \<noteq> 0" "dir_map (view (empty_dir ())) (inode_table (empty_dir ()) 0) [97] = None"
  "\<exists>s'. dir_add_entry (Some 0) [97] 5 (empty_dir ()) = Some (0, s') \<and> dir_state 0 s' \<and> others_kept 0 (empty_dir ()) s' \<and>
    dir_map (view s') (inode_table s' 0) = [[97] \<mapsto> 5]"
proof -
  show nm: "name_ok [97]" by (simp add: name_ok_def NAME_LEN_def)
  have n: "\<not> disk_full (view (empty_dir ())) (super_tab (empty_dir ()) 0)"
    by (auto simp: disk_full_def empty_dir_facts small_super_def bmap_bit_def tst_bit_def BITS_PER_BLOCK_def BLOCK_SIZE_def
      intro!: exI [of _ 0])
  show five: "(5 :: u16) \<noteq> 0" by simp
  show e: "dir_map (view (empty_dir ())) (inode_table (empty_dir ()) 0) [97] = None" by (simp add: empty_dir_state(3))
  show "\<exists>s'. dir_add_entry (Some 0) [97] 5 (empty_dir ()) = Some (0, s') \<and> dir_state 0 s' \<and> others_kept 0 (empty_dir ()) s' \<and>
    dir_map (view s') (inode_table s' 0) = [[97] \<mapsto> 5]"
    by (rule dir_add_spec [OF empty_dir_state(1) nm e five empty_dir_state(2)]) (use n in \<open>auto simp: empty_dir_state(3)\<close>)
qed

subsection \<open>Properties\<close>

text \<open>
  C19. Looking a name up in a well-formed directory returns and gives exactly the entry that the directory's
  blocks hold, whether the answer comes from the entry cache or from the disk; the lookup changes neither
  the disk nor any inode, and leaves the entry cache consistent with the directory.
\<close>

theorem find_entry_refines:
  fixes s :: "'z fs_state_scheme"
  assumes "dir_state dir s" and "name_ok nm"
  shows "\<exists>s'. find_entry (Some dir) nm s = Some (dir_map (view s) (inode_table s dir) nm, s') \<and> dir_state dir s' \<and>
    view s' = view s \<and> cnts s' = cnts s \<and> inode_table s' = inode_table s"
  by (rule find_entry_spec [OF assms]) auto

theorem find_entry_refines_witness: "\<exists>s'. find_entry (Some 0) [97] (empty_dir ()) = Some (None, s')"
proof -
  have "name_ok [97]" by (simp add: name_ok_def NAME_LEN_def)
  from find_entry_refines [OF empty_dir_state(1) [of "()"] this] show ?thesis by (auto simp: empty_dir_state(3))
qed

text \<open>
  C20. Adding a new name to a directory with room for it returns. Unless the disk is full, it returns 0 and the
  directory maps the new name to the given inode and every other name as before; on a full disk it returns
  -1 and the map is unchanged. No other inode changes, and no zone in use by anything else is touched.
\<close>

theorem dir_add_entry_inserts:
  fixes s :: "'z fs_state_scheme"
  assumes "dir_state dir s" and "dir_room dir s" and "name_ok nm" and "ino \<noteq> 0"
    and "dir_map (view s) (inode_table s dir) nm = None"
  shows "\<exists>r s'. dir_add_entry (Some dir) nm ino s = Some (r, s') \<and> dir_state dir s' \<and>
    (r = 0 \<or> r = -1 \<and> disk_full (view s) (super_tab s 0)) \<and>
    dir_map (view s') (inode_table s' dir) = (if r = 0 then (dir_map (view s) (inode_table s dir))(nm \<mapsto> ino)
      else dir_map (view s) (inode_table s dir)) \<and>
    (\<forall>j. j \<noteq> dir \<longrightarrow> inode_table s' j = inode_table s j) \<and>
    (\<forall>z. zone_used (view s) (super_tab s 0) z \<and> z \<notin> file_zones (view s) (inode_table s dir) \<longrightarrow> view s' z = view s z)"
  by (rule dir_add_spec [OF assms(1,3,5,4,2)]) (auto simp: others_kept_def)

theorem dir_add_entry_inserts_witness:
  "\<exists>r s'. dir_add_entry (Some 0) [97] 5 (empty_dir ()) = Some (r, s') \<and>
    dir_map (view s') (inode_table s' 0) = (if r = 0 then [[97] \<mapsto> 5] else Map.empty)"
  using dir_add_entry_inserts [OF empty_dir_state(1,2) empty_dir_entry(1,2,3)] unfolding empty_dir_state(3) by blast

text \<open>
  C21. Removing a name returns 0 exactly when the directory had the name, and removes it and nothing else.
\<close>

theorem dir_remove_entry_deletes:
  fixes s :: "'z fs_state_scheme"
  assumes "dir_state dir s" and "name_ok nm"
  shows "\<exists>s'. dir_remove_entry dir nm s = Some (if dir_map (view s) (inode_table s dir) nm = None then -1 else 0, s') \<and>
    dir_state dir s' \<and> dir_map (view s') (inode_table s' dir) = (dir_map (view s) (inode_table s dir))(nm := None) \<and>
    inode_table s' = inode_table s"
  by (rule dir_remove_spec [OF assms]) auto

theorem dir_remove_entry_deletes_witness: "\<exists>s'. dir_remove_entry 0 [97] (empty_dir ()) = Some (-1, s')"
proof -
  have "name_ok [97]" by (simp add: name_ok_def NAME_LEN_def)
  from dir_remove_entry_deletes [OF empty_dir_state(1) [of "()"] this] show ?thesis by (auto simp: empty_dir_state(3))
qed

text \<open>
  C22. A name that is linked and then unlinked in the same directory leaves the directory's map as it was.
\<close>

theorem dir_add_remove_roundtrip:
  fixes s :: "'z fs_state_scheme"
  assumes "dir_state dir s" and "name_ok nm" and "ino \<noteq> 0" and "dir_map (view s) (inode_table s dir) nm = None" and "dir_room dir s"
    and "dir_add_entry (Some dir) nm ino s = Some (0, s1)"
  shows "\<exists>s2. dir_remove_entry dir nm s1 = Some (0, s2) \<and> dir_state dir s2 \<and>
    dir_map (view s2) (inode_table s2 dir) = dir_map (view s) (inode_table s dir)"
  by (rule dm.add_del [OF assms])

theorem dir_add_remove_roundtrip_witness:
  "\<exists>s1 s2. dir_add_entry (Some 0) [97] 5 (empty_dir ()) = Some (0, s1) \<and> dir_remove_entry 0 [97] s1 = Some (0, s2) \<and>
    dir_map (view s2) (inode_table s2 0) = Map.empty"
proof -
  note E = empty_dir_entry
  from E(4) obtain s1 where s1: "dir_add_entry (Some 0) [97] 5 (empty_dir ()) = Some (0, s1)" by blast
  from dir_add_remove_roundtrip [OF empty_dir_state(1) E(1,2,3) empty_dir_state(2) s1] s1 show ?thesis
    by (auto simp: empty_dir_state(3))
qed

subsection \<open>Path names\<close>

lemma component_name: "length nm \<le> NAME_LEN \<Longrightarrow> SLASH \<notin> set nm \<Longrightarrow> component nm = (nm, [])"
proof -
  assume len: "length nm \<le> NAME_LEN" and "SLASH \<notin> set nm"
  from this(2) have "takeWhile (\<lambda>c. c \<noteq> SLASH) nm = nm" by (induction nm) auto
  with len show ?thesis unfolding component_def by (simp only: Let_def) (simp add: NAME_LEN_def)
qed

lemma itable_same:
  fixes s s' :: "'z fs_state_scheme"
  assumes "itable_ok s" and "mounted s'" and "view s' = view s" and "super_tab s' = super_tab s"
    and t: "\<And>j. inode_table s' j = (inode_table s j)\<lparr>i_count := c j\<rparr>"
  shows "itable_ok s'" "abs_inode s' m = abs_inode s m"
proof -
  have same: "dinode_of (inode_table s' j) = dinode_of (inode_table s j)" "i_dev (inode_table s' j) = i_dev (inode_table s j)"
    "i_num (inode_table s' j) = i_num (inode_table s j)" "i_lock (inode_table s' j) = i_lock (inode_table s j)"
    "i_dirt (inode_table s' j) = i_dirt (inode_table s j)" for j
    by (simp_all add: t dinode_of_def)
  show "itable_ok s'" using assms(1,2) unfolding itable_ok_def slot_ok_def same assms(3,4) by simp
  have "find_inode ROOT_DEV m s' = find_inode ROOT_DEV m s" unfolding find_inode_def same ..
  then show "abs_inode s' m = abs_inode s m" unfolding abs_inode_def same(1) assms(3,4) by simp
qed

lemma count_zones: "zone_at V (ip\<lparr>i_count := c\<rparr>) = zone_at V ip" "file_zones V (ip\<lparr>i_count := c\<rparr>) = file_zones V ip"
  "nr_ents (ip\<lparr>i_count := c\<rparr>) = nr_ents ip"
  by (simp_all add: zone_at_def file_zones_def nr_ents_def fun_eq_iff)

lemma count_dir: "has_ent V (ip\<lparr>i_count := c\<rparr>) = has_ent V ip" "dent V (ip\<lparr>i_count := c\<rparr>) = dent V ip"
  "file_ok V sb (ip\<lparr>i_count := c\<rparr>) = file_ok V sb ip"
  by (simp_all add: has_ent_def dent_def fbyte_def file_ok_def count_zones fun_eq_iff)

lemma count_map: "dir_map V (ip\<lparr>i_count := c\<rparr>) = dir_map V ip" "dir_ok V sb (ip\<lparr>i_count := c\<rparr>) = dir_ok V sb ip"
  by (simp_all add: dir_map_def dir_ok_def count_zones count_dir fun_eq_iff split: option.split)

lemma dir_state_count: "dir_state dir (upd_inode dir (\<lambda>ip. ip\<lparr>i_count := f ip\<rparr>) s) = dir_state dir s"
  by (simp add: dir_state_def dcache_ok_def count_map)

lemma num_ok_u16: "(ino :: u16) \<noteq> 0 \<Longrightarrow> num_ok (ucast ino)"
proof -
  assume nz: "ino \<noteq> 0"
  have u: "unat (ucast ino :: u32) = unat ino" "unat ino < 0x10000"
    using unat_u16_less [of ino] by (simp_all add: unsigned_ucast_eq take_bit_nat_eq_self_iff del: unat_u16_less)
  have "unat ino \<noteq> 0" using nz by (simp add: unat_eq_0)
  with u have "(ucast ino :: u32) \<noteq> 0" by (metis unat_0)
  moreover have "(ucast ino :: u32) \<le> 0x10000" unfolding word_le_nat_alt u(1) using u(2) by (simp del: unat_u16_less)
  ultimately show ?thesis by (simp add: num_ok_def)
qed

lemma iput_shared:
  assumes "i_count (inode_table s n) \<noteq> 1" "\<not> i_pipe (inode_table s n)"
  shows "iput (Some n) s = Some (upd_inode n (\<lambda>ip. ip\<lparr>i_count := i_count ip - 1\<rparr>) s)"
  using assms by (simp add: iput_def Let_def)

lemma namei_name:
  fixes s :: "'z fs_state_scheme"
  assumes st: "dir_state dir s" and it: "itable_ok s" and pwd: "t_pwd (cur s) = Some dir"
    and nm: "name_ok nm" "SLASH \<notin> set nm" "nm \<noteq> [DOT]"
    and ref: "i_count (inode_table s dir) \<noteq> 0" "\<not> i_pipe (inode_table s dir)"
  obtains s2 where "namei (Some nm) s = (case dir_map (view s) (inode_table s dir) nm of
      None \<Rightarrow> Some (None, s2) | Some ino \<Rightarrow> iget ROOT_DEV (ucast ino) s2)"
    "itable_ok s2" "abs_inode s2 = abs_inode s" "inode_table s2 = inode_table s" "cnts s2 = cnts s"
proof -
  let ?s1 = "upd_inode dir (\<lambda>ip. ip\<lparr>i_count := i_count ip + 1\<rparr>) s"
  have st1: "dir_state dir ?s1" using st by (simp add: dir_state_count)
  obtain t where t: "find_entry (Some dir) nm ?s1 = Some (dir_map (view ?s1) (inode_table ?s1 dir) nm, t)" "dir_state dir t"
    "view t = view ?s1" "cnts t = cnts ?s1" "inode_table t = inode_table ?s1" "super_tab t = super_tab ?s1"
    by (rule find_entry_spec [OF st1 nm(1)]) (rule that)
  let ?s2 = "upd_inode dir (\<lambda>ip. ip\<lparr>i_count := i_count ip - 1\<rparr>) t"
  have put: "iput (Some dir) t = Some ?s2" using ref by (intro iput_shared) (simp_all add: t(5))
  have tab: "inode_table ?s2 = inode_table s" by (simp add: t(5))
  have "mounted ?s2" using dir_stateD(1) [OF t(2)] by simp
  then have it2: "itable_ok ?s2" "abs_inode ?s2 m = abs_inode s m" for m
    using itable_same [OF it, of ?s2 "\<lambda>j. i_count (inode_table s j)"] unfolding tab by (simp_all add: t)
  have ne: "nm \<noteq> []" using nm by (simp add: name_ok_def)
  with nm(2) have "hd nm \<noteq> SLASH" by (metis hd_in_set)
  note ne = ne this
  have comp: "component nm = (nm, [])" using nm by (intro component_name) (simp_all add: name_ok_def)
  have "namei (Some nm) s = namei_walk nm dir ?s1" using ne pwd by (simp add: namei_def)
  also have "\<dots> = (case dir_map (view s) (inode_table s dir) nm of None \<Rightarrow> Some (None, ?s2) | Some ino \<Rightarrow> iget ROOT_DEV (ucast ino) ?s2)"
    using nm(3) t(1) put by (subst namei_walk.simps) (auto simp: comp Let_def count_map split: option.split Option.bind_split)
  finally have eq: "namei (Some nm) s = \<dots>" .
  have "abs_inode ?s2 = abs_inode s" using it2(2) by (simp add: fun_eq_iff)
  moreover have "cnts ?s2 = cnts s" by (simp add: t(4))
  ultimately show ?thesis using it2(1) tab by (intro that [OF eq])
qed

text \<open>
  C23. Resolving a plain name gives the inode that the entry of the working directory names, as the inode table
  or the disk has it, with a reference held, or nothing when the directory has no such entry or every slot of the
  inode table is in use. The outcome does not depend on the permission bits of the working directory.
\<close>

theorem namei_relative_name:
  fixes s :: "'z fs_state_scheme"
  assumes "dir_state dir s" and "itable_ok s" and "t_pwd (cur s) = Some dir"
    and "name_ok nm" and "SLASH \<notin> set nm" and "nm \<noteq> [DOT]"
    and "i_count (inode_table s dir) \<noteq> 0" and "\<not> i_pipe (inode_table s dir)"
  shows "\<exists>r s'. namei (Some nm) s = Some (r, s') \<and>
    (case dir_map (view s) (inode_table s dir) nm of
       None \<Rightarrow> r = None \<and> inode_table s' = inode_table s
     | Some ino \<Rightarrow> (case r of
           None \<Rightarrow> \<forall>i<NR_INODE. i_count (inode_table s i) \<noteq> 0
         | Some i \<Rightarrow> i < NR_INODE \<and> holds_inode s' i (ucast ino) \<and> dinode_of (inode_table s' i) = abs_inode s (ucast ino)))"
proof -
  obtain s2 where s2: "namei (Some nm) s = (case dir_map (view s) (inode_table s dir) nm of
      None \<Rightarrow> Some (None, s2) | Some ino \<Rightarrow> iget ROOT_DEV (ucast ino) s2)"
    "itable_ok s2" "abs_inode s2 = abs_inode s" "inode_table s2 = inode_table s" "cnts s2 = cnts s"
    by (rule namei_name [OF assms]) (rule that)
  show ?thesis
  proof (cases "dir_map (view s) (inode_table s dir) nm")
    case None
    then show ?thesis using s2 by simp
  next
    case (Some ino)
    then have n: "num_ok (ucast ino)" using dir_map_live [OF dir_stateD(6) [OF assms(1)]] by (intro num_ok_u16) blast
    have p: "pins (cnts s2) < 255" using dir_stateD(3) [OF assms(1)] s2(5) by simp
    obtain r s' where g: "iget ROOT_DEV (ucast ino) s2 = Some (r, s')"
      "r = None \<Longrightarrow> s' = s2 \<and> find_inode ROOT_DEV (ucast ino) s2 = None \<and> (\<forall>i<NR_INODE. i_count (inode_table s2 i) \<noteq> 0)"
      "\<And>i. r = Some i \<Longrightarrow> i < NR_INODE \<and> holds_inode s' i (ucast ino) \<and> dinode_of (inode_table s' i) = abs_inode s2 (ucast ino)"
      apply (rule iget_spec [OF s2(2) p n])
      subgoal premises P for r s' by (rule P(1) [OF P(2,8)]) (assumption, drule P(9), elim conjE, intro conjI, assumption+)
      done
    have "namei (Some nm) s = Some (r, s')" using s2(1) Some g(1) by simp
    then show ?thesis using g(2,3) Some s2(3,4) by (cases r) simp_all
  qed
qed

lemma upd_task_store [simp]:
  fixes s :: "'z buf_state_scheme"
  shows "bc_ok (upd_task p f s) = bc_ok s" "view (upd_task p f s) = view s" "cnts (upd_task p f s) = cnts s"
    "disk_fits (upd_task p f s) = disk_fits s"
proof -
  have d: "disk_block (upd_task p f s) = disk_block s" by (simp add: disk_block_def upd_task_def fun_eq_iff)
  have e: "heads (upd_task p f s) = heads s" "hash_table (upd_task p f s) = hash_table s" "free_list (upd_task p f s) = free_list s"
    "root_lba (upd_task p f s) = root_lba s" "hd_resp (upd_task p f s) = hd_resp s"
    by (simp_all add: upd_task_def)
  show "bc_ok (upd_task p f s) = bc_ok s" "cnts (upd_task p f s) = cnts s" "disk_fits (upd_task p f s) = disk_fits s"
    unfolding bc_ok_def cache_inv_def ring_def hash_chains_def bucket_def hashed_def coherent_def blk_ok_def
      hd_ok_def cnts_def disk_fits_def d e by (rule refl)+
  have "view (upd_task p f s) blk = view s blk" for blk by (rule view_cong) (simp_all add: d e)
  then show "view (upd_task p f s) = view s" by (simp add: fun_eq_iff)
qed

theorem namei_relative_name_witness:
  "\<exists>s' :: fs_state. namei (Some [97]) (upd_cur (\<lambda>t. t\<lparr>t_pwd := Some 0\<rparr>) (empty_dir ())) = Some (None, s')"
proof -
  let ?s = "upd_cur (\<lambda>t. t\<lparr>t_pwd := Some 0\<rparr>) (empty_dir ())"
  have nm: "name_ok [97]" "SLASH \<notin> set [97]" "[97] \<noteq> [DOT]" by (simp_all add: name_ok_def NAME_LEN_def SLASH_def DOT_def)
  have tab: "inode_table ?s = inode_table (empty_dir ())" "super_tab ?s = super_tab (empty_dir ())"
    "dcache ?s = dcache (empty_dir ())" by (simp_all add: upd_task_def)
  have m: "mounted ?s" using empty_dir_facts(1) [of "()"] unfolding mounted_def tab upd_task_store .
  have st: "dir_state 0 ?s" using empty_dir_state(1) [of "()"] m unfolding dir_state_def dcache_ok_def tab upd_task_store by blast
  have "slot_ok (view ?s) (super_tab ?s 0) (inode_table ?s i)" for i
    by (simp add: tab slot_ok_def empty_dir_inode zero_inode_def num_ok_def)
  then have it: "itable_ok ?s" using m unfolding itable_ok_def tab by (auto simp: empty_dir_inode zero_inode_def ROOT_DEV_def)
  have pwd: "t_pwd (cur ?s) = Some 0" by simp
  have ref: "i_count (inode_table ?s 0) \<noteq> 0" "\<not> i_pipe (inode_table ?s 0)" by (simp_all add: tab empty_dir_inode zero_inode_def)
  have e: "dir_map (view ?s) (inode_table ?s 0) [97] = None" unfolding tab upd_task_store empty_dir_state(3) ..
  from namei_relative_name [OF st it pwd nm ref] show ?thesis unfolding e by auto
qed

text \<open>
  C24. The directory code's own block allocator agrees with the one of file writing: on a mounted file system,
  \<open>ensure_dir_block\<close> leaves the same state as looking up (and allocating) the zone of that block for a write,
  and reports success exactly when that finds a zone.
\<close>

theorem ensure_dir_block_is_write_zone:
  fixes s :: "'z fs_state_scheme"
  assumes "mounted s" and "pins (cnts s) < 255" and "i_dev (inode_table s dir) = ROOT_DEV"
  shows "ensure_dir_block dir block s = map_option (\<lambda>(r, s). (r \<noteq> None, s)) (write_zone dir block s)"
proof (rule ensure_dir_block_eq)
  fix z t
  assume e: "new_block (i_dev (inode_table s dir)) s = Some (z, t)"
  have "\<exists>W. bc.settles s t W" by (rule new_block_spec [OF assms(1,2)]) (use e assms(3) in auto)
  then show "inode_table t dir = inode_table s dir" using keep_tablesD(2) settlesD(4) by metis
qed

theorem ensure_dir_block_is_write_zone_witness:
  "ensure_dir_block 0 0 (empty_dir ()) = map_option (\<lambda>(r, s). (r \<noteq> None, s)) (write_zone 0 0 (empty_dir ()))"
  by (rule ensure_dir_block_is_write_zone) (simp_all add: empty_dir_facts empty_dir_inode)

end
