(* ===== verification/Ring.thy ===== *)
theory Ring
  imports Prelude
begin

text \<open>
  Ring buffers. Two components keep a queue of bytes in an array that wraps around: the terminal's input and
  output rings (\<open>drivers/keyboard.c\<close>, \<open>drivers/tty_io.c\<close>) and the page of a pipe (\<open>fs/pipe.c\<close>). \<open>ring_list\<close> is the
  queue such an array holds; \<open>byte_queue\<close> is the interface both provide.
\<close>

subsection \<open>The queue an array holds\<close>

definition ring_list :: "nat \<Rightarrow> bytes \<Rightarrow> nat \<Rightarrow> nat \<Rightarrow> byte list" where
  "ring_list n buf tail_at cnt = map (\<lambda>i. buf ((tail_at + i) mod n)) [0..<cnt]"

lemma length_ring_list [simp]: "length (ring_list n buf t c) = c"
  by (simp add: ring_list_def)

lemma ring_list_0 [simp]: "ring_list n buf t 0 = []"
  by (simp add: ring_list_def)

lemma ring_list_Suc: "ring_list n buf t (Suc c) = buf (t mod n) # ring_list n buf ((t + 1) mod n) c"
proof -
  have "[0..<Suc c] = 0 # map Suc [0..<c]" by (simp only: map_Suc_upt) (rule upt_conv_Cons, simp)
  then show ?thesis by (simp add: ring_list_def o_def mod_simps del: upt_Suc)
qed

lemma mod_less_inj: "i < n \<Longrightarrow> j < n \<Longrightarrow> (t + i) mod n = (t + j) mod n \<Longrightarrow> i = (j :: nat)"
proof -
  assume "i < n" "j < n" and eq: "(t + i) mod n = (t + j) mod n"
  from eq have "(int t + int i) mod int n = (int t + int j) mod int n" by (metis of_nat_add of_nat_mod)
  then have "int i mod int n = int j mod int n" by (metis add_left_cancel mod_diff_left_eq add_diff_cancel_left')
  with \<open>i < n\<close> \<open>j < n\<close> show ?thesis by simp
qed

lemma ring_list_put:
  assumes "c < n"
  shows "ring_list n (buf((t + c) mod n := x)) t (Suc c) = ring_list n buf t c @ [x]"
proof -
  have "(t + i) mod n \<noteq> (t + c) mod n" if "i < c" for i using mod_less_inj [of i n c t] that assms by auto
  then show ?thesis by (simp add: ring_list_def)
qed

subsection \<open>The interface\<close>

locale byte_queue =
  fixes ok :: "'s \<Rightarrow> bool" and cont :: "'s \<Rightarrow> byte list" and cap :: nat
    and put :: "byte \<Rightarrow> 's \<Rightarrow> 's" and get :: "'s \<Rightarrow> byte \<times> 's"
  assumes put: "ok s \<Longrightarrow> length (cont s) < cap \<Longrightarrow> ok (put c s) \<and> cont (put c s) = cont s @ [c]"
    and get: "ok s \<Longrightarrow> cont s \<noteq> [] \<Longrightarrow>
      ok (snd (get s)) \<and> fst (get s) = hd (cont s) \<and> cont (snd (get s)) = tl (cont s)"
begin

primrec puts :: "byte list \<Rightarrow> 's \<Rightarrow> 's" where
  "puts [] s = s"
| "puts (c # cs) s = puts cs (put c s)"

primrec gets :: "nat \<Rightarrow> 's \<Rightarrow> byte list \<times> 's" where
  "gets 0 s = ([], s)"
| "gets (Suc n) s = (let (c, s) = get s; (cs, s) = gets n s in (c # cs, s))"

lemma puts_cont: "ok s \<Longrightarrow> length (cont s) + length cs \<le> cap \<Longrightarrow> ok (puts cs s) \<and> cont (puts cs s) = cont s @ cs"
  by (induction cs arbitrary: s) (auto simp: put)

lemma gets_cont: "ok s \<Longrightarrow> n \<le> length (cont s) \<Longrightarrow>
  ok (snd (gets n s)) \<and> fst (gets n s) = take n (cont s) \<and> cont (snd (gets n s)) = drop n (cont s)"
proof (induction n arbitrary: s)
  case (Suc n)
  from Suc.prems(2) have ne: "cont s \<noteq> []" by auto
  with get [OF Suc.prems(1)] Suc.prems(2) have "ok (snd (get s))" "n \<le> length (cont (snd (get s)))" by auto
  from Suc.IH [OF this] get [OF Suc.prems(1) ne] ne show ?case
    by (cases "cont s") (auto simp: Let_def split: prod.split)
qed simp

lemma puts_gets:
  assumes "ok s" "length (cont s) + length cs \<le> cap"
  shows "fst (gets (length (cont s) + length cs) (puts cs s)) = cont s @ cs"
  using gets_cont [of "puts cs s" "length (cont s) + length cs"] puts_cont [OF assms] by simp

end

end
