(* ===== verification/Tty.thy ===== *)
theory Tty
  imports Dir_Map Ring
begin

text \<open>
  The console: \<open>drivers/tty_io.c\<close>, \<open>drivers/console.c\<close> and \<open>drivers/keyboard.c\<close>. The state is the
  one terminal of \<open>tty_table\<close>, the 80x25 text screen with its cursor, the shift key, and what was mirrored to the
  serial port. A store outside the screen's 2000 cells is \<open>None\<close>.
\<close>

subsection \<open>Data\<close>

definition TTY_BUF_SIZE :: nat where "TTY_BUF_SIZE = 1024"
definition COLS :: nat where "COLS = 80"
definition ROWS :: nat where "ROWS = 25"

lemmas tty_consts = TTY_BUF_SIZE_def COLS_def ROWS_def

record tty_struct =
  read_buf :: bytes
  read_head :: nat
  read_tail :: nat
  read_cnt :: nat
  write_buf :: bytes
  write_head :: nat
  write_tail :: nat
  write_cnt :: nat
  read_waiter :: tptr

record tty_state = fs_state +
  tty0 :: tty_struct
  video_mem :: "nat \<Rightarrow> u16"
  cursor_x :: nat
  cursor_y :: nat
  crt_pos :: u16
  shift_pressed :: bool
  serial_out :: "byte list"

abbreviation upd_tty :: "(tty_struct \<Rightarrow> tty_struct) \<Rightarrow> 'z tty_state_scheme \<Rightarrow> 'z tty_state_scheme" where
  "upd_tty f s \<equiv> s\<lparr>tty0 := f (tty0 s)\<rparr>"

subsection \<open>The screen\<close>

definition set_cursor :: "nat \<Rightarrow> nat \<Rightarrow> 'z tty_state_scheme \<Rightarrow> 'z tty_state_scheme" where
  "set_cursor x y s = s\<lparr>crt_pos := of_nat (y * COLS + x)\<rparr>"

definition put_cell :: "u16 \<Rightarrow> 'z tty_state_scheme \<Rightarrow> 'z tty_state_scheme option" where
  "put_cell v s =
     (let i = cursor_y s * COLS + cursor_x s
      in if i < COLS * ROWS then Some (s\<lparr>video_mem := (video_mem s)(i := v)\<rparr>) else None)"

definition scroll :: "'z tty_state_scheme \<Rightarrow> 'z tty_state_scheme" where
  "scroll s = s\<lparr>video_mem := (\<lambda>i. if i < COLS * (ROWS - 1) then video_mem s (i + COLS)
       else if i < COLS * ROWS then 0x0720 else video_mem s i),
     cursor_y := 24, cursor_x := 0\<rparr>"

definition con_init :: "'z tty_state_scheme \<Rightarrow> 'z tty_state_scheme" where
  "con_init s = set_cursor 0 0 (s\<lparr>video_mem := (\<lambda>i. if i < COLS * ROWS then 0x0720 else video_mem s i),
     cursor_x := 0, cursor_y := 0\<rparr>)"

text \<open>One character. A \<open>char\<close> is signed, so the bytes from 128 on are below 32 and print nothing.\<close>

definition con_glyph :: "byte \<Rightarrow> 'z tty_state_scheme \<Rightarrow> 'z tty_state_scheme option" where
  "con_glyph c s =
     (if c = 10 then Some (s\<lparr>cursor_y := cursor_y s + 1, cursor_x := 0\<rparr>)
      else if c = 13 then Some (s\<lparr>cursor_x := 0\<rparr>)
      else if c = 9 then Some (s\<lparr>cursor_x := (cursor_x s + 8) div 8 * 8\<rparr>)
      else if c = 8 then (if cursor_x s > 0 then put_cell 0x0720 (s\<lparr>cursor_x := cursor_x s - 1\<rparr>) else Some s)
      else if sint c \<ge> 32 then do { s \<leftarrow> put_cell (0x0700 OR ucast c) s; Some (s\<lparr>cursor_x := cursor_x s + 1\<rparr>) }
      else Some s)"

definition con_wrap :: "'z tty_state_scheme \<Rightarrow> 'z tty_state_scheme" where
  "con_wrap s =
     (let s = (if cursor_x s \<ge> COLS then s\<lparr>cursor_x := 0, cursor_y := cursor_y s + 1\<rparr> else s)
      in if cursor_y s \<ge> ROWS then scroll s else s)"

definition con_char :: "byte \<Rightarrow> 'z tty_state_scheme \<Rightarrow> 'z tty_state_scheme option" where
  "con_char c s = do { s \<leftarrow> con_glyph c s; Some (con_wrap s) }"

text \<open>The loop of \<open>con_write\<close> takes one character off the ring in each pass, so it runs \<open>write_cnt\<close> times.\<close>

primrec con_drain :: "nat \<Rightarrow> 'z tty_state_scheme \<Rightarrow> 'z tty_state_scheme option" where
  "con_drain 0 s = Some s"
| "con_drain (Suc n) s = do {
     let c = write_buf (tty0 s) (write_tail (tty0 s));
     s \<leftarrow> con_char c (upd_tty (\<lambda>t. t\<lparr>write_tail := (write_tail t + 1) mod TTY_BUF_SIZE, write_cnt := write_cnt t - 1\<rparr>) s);
     con_drain n s }"

definition con_write :: "'z tty_state_scheme \<Rightarrow> 'z tty_state_scheme option" where
  "con_write s = do { s \<leftarrow> con_drain (write_cnt (tty0 s)) s; Some (set_cursor (cursor_x s) (cursor_y s) s) }"

definition serial_putc :: "byte \<Rightarrow> 'z tty_state_scheme \<Rightarrow> 'z tty_state_scheme" where
  "serial_putc c s = s\<lparr>serial_out := serial_out s @ [c]\<rparr>"

fun tty_fill :: "byte list \<Rightarrow> 'z tty_state_scheme \<Rightarrow> 'z tty_state_scheme" where
  "tty_fill [] s = s"
| "tty_fill (c # cs) s =
     (let s = serial_putc c s
      in if write_cnt (tty0 s) \<ge> TTY_BUF_SIZE then s
         else tty_fill cs (upd_tty (\<lambda>t. t\<lparr>write_buf := (write_buf t)(write_head t := c),
                write_head := (write_head t + 1) mod TTY_BUF_SIZE, write_cnt := write_cnt t + 1\<rparr>) s))"

definition tty_write :: "byte list \<Rightarrow> 'z tty_state_scheme \<Rightarrow> 'z tty_state_scheme option" where
  "tty_write buf s = con_write (tty_fill buf s)"

subsection \<open>The keyboard\<close>

definition keymap :: "byte list" where
  "keymap = [0, 27, 49, 50, 51, 52, 53, 54, 55, 56, 57, 48, 45, 61, 8,
     9, 113, 119, 101, 114, 116, 121, 117, 105, 111, 112, 91, 93, 10,
     0, 97, 115, 100, 102, 103, 104, 106, 107, 108, 59, 39, 96,
     0, 92, 122, 120, 99, 118, 98, 110, 109, 44, 46, 47, 0,
     42, 0, 32, 0] @ replicate 69 0"

definition shift_map :: "byte list" where
  "shift_map = [0, 27, 33, 64, 35, 36, 37, 94, 38, 42, 40, 41, 95, 43, 8,
     9, 81, 87, 69, 82, 84, 89, 85, 73, 79, 80, 123, 125, 10,
     0, 65, 83, 68, 70, 71, 72, 74, 75, 76, 58, 34, 126,
     0, 124, 90, 88, 67, 86, 66, 78, 77, 60, 62, 63, 0,
     42, 0, 32, 0] @ replicate 69 0"

definition kbd_put :: "byte \<Rightarrow> 'z tty_state_scheme \<Rightarrow> 'z tty_state_scheme" where
  "kbd_put c s =
     (let s = (if read_cnt (tty0 s) < TTY_BUF_SIZE
               then upd_tty (\<lambda>t. t\<lparr>read_buf := (read_buf t)(read_head t := c),
                      read_head := (read_head t + 1) mod TTY_BUF_SIZE, read_cnt := read_cnt t + 1\<rparr>) s
               else s)
      in if read_waiter (tty0 s) \<noteq> 0
         then upd_tty (\<lambda>t. t\<lparr>read_waiter := 0\<rparr>)
                (upd_task (read_waiter (tty0 s)) (\<lambda>t. t\<lparr>t_state := TASK_RUNNING\<rparr>) s)
         else s)"

definition kbd_interrupt_handler :: "byte \<Rightarrow> 'z tty_state_scheme \<Rightarrow> 'z tty_state_scheme" where
  "kbd_interrupt_handler scancode s =
     (let is_break = scancode AND 0x80 \<noteq> 0; code = unat (scancode AND 0x7F)
      in if code = 42 \<or> code = 54 then s\<lparr>shift_pressed := \<not> is_break\<rparr>
         else if is_break then s
         else let c = (if shift_pressed s then shift_map else keymap) ! code
              in if c \<noteq> 0 then kbd_put c s else s)"

text \<open>Taking a character off the input ring, as \<open>sys_read\<close> does for the console.\<close>

definition tty_getc :: "'z tty_state_scheme \<Rightarrow> byte \<times> 'z tty_state_scheme" where
  "tty_getc s = (read_buf (tty0 s) (read_tail (tty0 s)),
     upd_tty (\<lambda>t. t\<lparr>read_tail := (read_tail t + 1) mod TTY_BUF_SIZE, read_cnt := read_cnt t - 1\<rparr>) s)"

subsection \<open>The input ring is a queue\<close>

definition kbd_ok :: "'z tty_state_scheme \<Rightarrow> bool" where
  "kbd_ok s \<longleftrightarrow> read_tail (tty0 s) < TTY_BUF_SIZE \<and> read_cnt (tty0 s) \<le> TTY_BUF_SIZE \<and>
     read_head (tty0 s) = (read_tail (tty0 s) + read_cnt (tty0 s)) mod TTY_BUF_SIZE"

definition typed :: "'z tty_state_scheme \<Rightarrow> byte list" where
  "typed s = ring_list TTY_BUF_SIZE (read_buf (tty0 s)) (read_tail (tty0 s)) (read_cnt (tty0 s))"

lemma kbd_put_tty: "tty0 (kbd_put c s) = (let t = tty0 s; t = (if read_cnt t < TTY_BUF_SIZE
    then t\<lparr>read_buf := (read_buf t)(read_head t := c), read_head := (read_head t + 1) mod TTY_BUF_SIZE, read_cnt := read_cnt t + 1\<rparr> else t)
  in t\<lparr>read_waiter := 0\<rparr>)"
  by (auto simp: kbd_put_def Let_def upd_task_def)

interpretation kbd: byte_queue kbd_ok typed TTY_BUF_SIZE kbd_put tty_getc
proof unfold_locales
  fix s :: "'z tty_state_scheme" and c
  assume ok: "kbd_ok s"
  show "kbd_ok (kbd_put c s) \<and> typed (kbd_put c s) = typed s @ [c]" if "length (typed s) < TTY_BUF_SIZE"
    using ok that ring_list_put [of "read_cnt (tty0 s)" TTY_BUF_SIZE "read_buf (tty0 s)" "read_tail (tty0 s)" c]
    by (simp add: kbd_ok_def typed_def kbd_put_tty Let_def mod_simps)
  show "kbd_ok (snd (tty_getc s)) \<and> fst (tty_getc s) = hd (typed s) \<and> typed (snd (tty_getc s)) = tl (typed s)" if "typed s \<noteq> []"
  proof -
    from that obtain n where n: "read_cnt (tty0 s) = Suc n" by (cases "read_cnt (tty0 s)") (auto simp: typed_def)
    show ?thesis using ok by (simp add: kbd_ok_def typed_def tty_getc_def n ring_list_Suc mod_simps)
  qed
qed

subsection \<open>The output ring is transparent\<close>

text \<open>What a string does to the screen, character by character.\<close>

primrec con_chars :: "byte list \<Rightarrow> 'z tty_state_scheme \<Rightarrow> 'z tty_state_scheme option" where
  "con_chars [] s = Some s"
| "con_chars (c # cs) s = do { s \<leftarrow> con_char c s; con_chars cs s }"

definition screen_ok :: "'z tty_state_scheme \<Rightarrow> bool" where
  "screen_ok s \<longleftrightarrow> cursor_x s < COLS \<and> cursor_y s < ROWS"

abbreviation with_tty :: "tty_struct \<Rightarrow> byte list \<Rightarrow> 'z tty_state_scheme \<Rightarrow> 'z tty_state_scheme" where
  "with_tty t ser s \<equiv> s\<lparr>serial_out := ser, tty0 := t\<rparr>"

lemma con_glyph_tty: "con_glyph c (with_tty t ser s) = map_option (with_tty t ser) (con_glyph c s)"
  by (simp add: con_glyph_def put_cell_def Let_def)

lemma con_wrap_tty: "con_wrap (with_tty t ser s) = with_tty t ser (con_wrap s)"
  by (simp add: con_wrap_def scroll_def Let_def cong: if_cong)

lemma con_char_tty: "con_char c (with_tty t ser s) = map_option (with_tty t ser) (con_char c s)"
  by (cases "con_glyph c s") (simp_all add: con_char_def con_glyph_tty con_wrap_tty)

lemma con_chars_tty:
  "con_chars cs (with_tty t ser s) = map_option (with_tty t ser) (con_chars cs s)"
proof (induction cs arbitrary: s)
  case (Cons c cs)
  then show ?case by (cases "con_char c s") (simp_all add: con_char_tty)
qed simp

lemma con_char_ok:
  assumes "screen_ok s"
  shows "\<exists>s'. con_char c s = Some s' \<and> screen_ok s' \<and> (\<forall>i\<ge>COLS * ROWS. video_mem s' i = video_mem s i)"
proof -
  have lt: "cursor_y s * COLS + x < COLS * ROWS" if "x < COLS" for x
    using assms that unfolding screen_ok_def tty_consts by linarith
  have tab: "(cursor_x s + 8) div 8 * 8 \<le> COLS" using assms unfolding screen_ok_def tty_consts by presburger
  have "\<exists>s1. con_glyph c s = Some s1 \<and> cursor_x s1 \<le> COLS \<and> cursor_y s1 \<le> ROWS \<and> (cursor_y s1 = ROWS \<longrightarrow> cursor_x s1 = 0) \<and>
      (\<forall>i\<ge>COLS * ROWS. video_mem s1 i = video_mem s i)"
    using assms lt [of "cursor_x s"] lt [of "cursor_x s - 1"] tab
    by (auto simp: con_glyph_def put_cell_def screen_ok_def)
  then obtain s1 where s1: "con_glyph c s = Some s1" "cursor_x s1 \<le> COLS" "cursor_y s1 \<le> ROWS" "cursor_y s1 = ROWS \<longrightarrow> cursor_x s1 = 0"
    "\<forall>i\<ge>COLS * ROWS. video_mem s1 i = video_mem s i" by blast
  then have "screen_ok (con_wrap s1) \<and> (\<forall>i\<ge>COLS * ROWS. video_mem (con_wrap s1) i = video_mem s i)"
    by (auto simp: con_wrap_def scroll_def screen_ok_def Let_def tty_consts)
  with s1(1) show ?thesis by (simp add: con_char_def)
qed

lemma con_chars_ok:
  assumes "screen_ok s"
  shows "\<exists>s'. con_chars cs s = Some s' \<and> screen_ok s' \<and> (\<forall>i\<ge>COLS * ROWS. video_mem s' i = video_mem s i)"
  using assms
proof (induction cs arbitrary: s)
  case (Cons c cs)
  from con_char_ok [OF Cons.prems, of c] obtain s1 where s1: "con_char c s = Some s1" "screen_ok s1"
    "\<forall>i\<ge>COLS * ROWS. video_mem s1 i = video_mem s i" by blast
  from Cons.IH [OF s1(2)] s1 show ?case by auto
qed auto

lemma con_drain_chars:
  "write_tail (tty0 s) < TTY_BUF_SIZE \<Longrightarrow> con_drain n s =
    map_option (with_tty ((tty0 s)\<lparr>write_tail := (write_tail (tty0 s) + n) mod TTY_BUF_SIZE, write_cnt := write_cnt (tty0 s) - n\<rparr>)
      (serial_out s)) (con_chars (ring_list TTY_BUF_SIZE (write_buf (tty0 s)) (write_tail (tty0 s)) n) s)"
proof (induction n arbitrary: s)
  case (Suc n)
  let ?t1 = "(tty0 s)\<lparr>write_tail := (write_tail (tty0 s) + 1) mod TTY_BUF_SIZE, write_cnt := write_cnt (tty0 s) - 1\<rparr>"
  let ?c = "write_buf (tty0 s) (write_tail (tty0 s))"
  have e: "con_drain (Suc n) s = do { s \<leftarrow> map_option (with_tty ?t1 (serial_out s)) (con_char ?c s); con_drain n s }"
    unfolding con_char_tty [symmetric] by (simp add: Let_def)
  have mod: "((write_tail (tty0 s) + 1) mod TTY_BUF_SIZE + n) mod TTY_BUF_SIZE = (write_tail (tty0 s) + Suc n) mod TTY_BUF_SIZE"
    by (simp add: mod_simps)
  show ?case
  proof (cases "con_char ?c s")
    case None
    then show ?thesis using Suc.prems unfolding e by (simp add: ring_list_Suc)
  next
    case (Some s2)
    have lt: "write_tail (tty0 (with_tty ?t1 (serial_out s) s2)) < TTY_BUF_SIZE" by (simp add: TTY_BUF_SIZE_def)
    show ?thesis using Suc.prems Some mod Suc.IH [OF lt] unfolding e
      by (simp add: ring_list_Suc con_chars_tty option.map_comp o_def)
  qed
qed simp

lemma tty_fill_ring:
  assumes "write_tail (tty0 s) < TTY_BUF_SIZE" "write_head (tty0 s) = (write_tail (tty0 s) + write_cnt (tty0 s)) mod TTY_BUF_SIZE"
    and "write_cnt (tty0 s) + length cs \<le> TTY_BUF_SIZE"
  shows "\<exists>t. tty_fill cs s = with_tty t (serial_out s @ cs) s \<and> write_tail t = write_tail (tty0 s) \<and>
    write_cnt t = write_cnt (tty0 s) + length cs \<and> write_head t = (write_tail t + write_cnt t) mod TTY_BUF_SIZE \<and>
    ring_list TTY_BUF_SIZE (write_buf t) (write_tail t) (write_cnt t) =
      ring_list TTY_BUF_SIZE (write_buf (tty0 s)) (write_tail (tty0 s)) (write_cnt (tty0 s)) @ cs"
  using assms
proof (induction cs arbitrary: s)
  case Nil
  then show ?case by (intro exI [of _ "tty0 s"]) simp
next
  case (Cons c cs)
  let ?t = "tty0 s"
  let ?t1 = "?t\<lparr>write_buf := (write_buf ?t)(write_head ?t := c), write_head := (write_head ?t + 1) mod TTY_BUF_SIZE,
    write_cnt := write_cnt ?t + 1\<rparr>"
  let ?s1 = "with_tty ?t1 (serial_out s @ [c]) s"
  have lt: "write_cnt ?t < TTY_BUF_SIZE" using Cons.prems(3) by simp
  then have e: "tty_fill (c # cs) s = tty_fill cs ?s1" by (simp add: serial_putc_def)
  have h: "write_head (tty0 ?s1) = (write_tail (tty0 ?s1) + write_cnt (tty0 ?s1)) mod TTY_BUF_SIZE"
    using Cons.prems(2) by (simp add: mod_simps)
  have r: "ring_list TTY_BUF_SIZE (write_buf ?t1) (write_tail ?t1) (write_cnt ?t1) =
      ring_list TTY_BUF_SIZE (write_buf ?t) (write_tail ?t) (write_cnt ?t) @ [c]"
    using ring_list_put [OF lt] Cons.prems(2) by simp
  have p: "write_tail (tty0 ?s1) < TTY_BUF_SIZE" "write_cnt (tty0 ?s1) + length cs \<le> TTY_BUF_SIZE" using Cons.prems by simp_all
  from Cons.IH [OF p(1) h p(2)] obtain t where t: "tty_fill cs ?s1 = with_tty t (serial_out ?s1 @ cs) ?s1"
    "write_tail t = write_tail (tty0 ?s1)" "write_cnt t = write_cnt (tty0 ?s1) + length cs"
    "write_head t = (write_tail t + write_cnt t) mod TTY_BUF_SIZE"
    "ring_list TTY_BUF_SIZE (write_buf t) (write_tail t) (write_cnt t) =
      ring_list TTY_BUF_SIZE (write_buf (tty0 ?s1)) (write_tail (tty0 ?s1)) (write_cnt (tty0 ?s1)) @ cs" by blast
  have r': "ring_list TTY_BUF_SIZE (write_buf t) (write_tail t) (write_cnt t) =
      ring_list TTY_BUF_SIZE (write_buf ?t) (write_tail ?t) (write_cnt ?t) @ c # cs" using t(5) r by simp
  show ?case unfolding e
    by (rule exI [of _ t], intro conjI, use t(1) in simp, use t(2) in simp, use t(3) in simp, rule t(4), rule r')
qed


text \<open>A machine with a blank screen.\<close>

definition zero_tty :: tty_struct where
  "zero_tty = \<lparr>read_buf = (\<lambda>_. 0), read_head = 0, read_tail = 0, read_cnt = 0, write_buf = (\<lambda>_. 0),
     write_head = 0, write_tail = 0, write_cnt = 0, read_waiter = 0\<rparr>"

definition boot_tty :: "'z \<Rightarrow> 'z tty_state_scheme" where
  "boot_tty m = empty_dir \<lparr>tty0 = zero_tty, video_mem = (\<lambda>_. 0x0720), cursor_x = 0, cursor_y = 0, crt_pos = 0,
     shift_pressed = False, serial_out = [], \<dots> = m\<rparr>"

lemma empty_dir_more: "fs_state.more (empty_dir m) = m"
  by (simp add: empty_dir_def boot_fs_tables)

lemma boot_tty_facts: "tty0 (boot_tty m) = zero_tty" "video_mem (boot_tty m) = (\<lambda>_. 0x0720)" "cursor_x (boot_tty m) = 0"
  "cursor_y (boot_tty m) = 0" "serial_out (boot_tty m) = []" "tty_state.more (boot_tty m) = m"
proof -
  have e: "fs_state.more (boot_tty m) = \<lparr>tty0 = zero_tty, video_mem = (\<lambda>_. 0x0720), cursor_x = 0, cursor_y = 0, crt_pos = 0,
     shift_pressed = False, serial_out = [], \<dots> = m\<rparr>" by (simp add: boot_tty_def empty_dir_more)
  show "tty0 (boot_tty m) = zero_tty" "video_mem (boot_tty m) = (\<lambda>_. 0x0720)" "cursor_x (boot_tty m) = 0"
    "cursor_y (boot_tty m) = 0" "serial_out (boot_tty m) = []" "tty_state.more (boot_tty m) = m"
    using e by (cases "boot_tty m"; simp)+
qed


end
