(* ===== verification/Sched.thy ===== *)
theory Sched
  imports Tty
begin

text \<open>
  The scheduler and the periodic write-back task: \<open>kernel/sched.c\<close>, \<open>kernel/sync.c\<close> and \<open>sleep_on\<close> of
  \<open>fs/buffer.c\<close>, and the rest of the kernel's global state.

  A task switch hands the processor to another task: \<open>schedule\<close> gives the state in which the task it picked is
  \<open>current\<close>. What happens until the caller is resumed is not the caller's doing; the operations that sleep take
  it as an argument, a list with one state transformer for each time they go to sleep, and give \<open>None\<close> when
  they are still asleep at the end of it.
\<close>

subsection \<open>The kernel's state\<close>

record kfile =
  f_mode :: u16
  f_flags :: u16
  f_count :: u16
  f_inode :: "nat option"
  f_pos :: u32
  f_dev :: u16

record sig_context =
  sc_magic :: u32
  sc_retaddr :: u32
  sc_handler :: u32
  sc_signo :: u32
  sc_eip :: u32
  sc_cs :: u32
  sc_eflags :: u32
  sc_esp :: u32
  sc_ss :: u32
  sc_gs :: u32
  sc_fs :: u32
  sc_es :: u32
  sc_ds :: u32
  sc_eax :: u32
  sc_ebx :: u32
  sc_ecx :: u32
  sc_edx :: u32
  sc_esi :: u32
  sc_edi :: u32
  sc_ebp :: u32

record sys_state = tty_state +
  file_table :: "nat \<Rightarrow> kfile"
  tty_file :: kfile
  boot_time :: u32
  sleep_deadline :: "nat \<Rightarrow> u32"
  sig_blocked :: "nat \<Rightarrow> u32"
  sig_suspend_mask :: "nat \<Rightarrow> u32"
  sig_suspend_pending :: "nat \<Rightarrow> bool"
  sig_sa :: "nat \<Rightarrow> u32"
  sig_sa_mask :: "nat \<Rightarrow> nat \<Rightarrow> u16"
  sig_handler_mask :: "nat \<Rightarrow> u32"
  sig_handler_mask_saved :: "nat \<Rightarrow> bool"
  sigreturn_frame :: sig_context
  sync_interval :: u32
  next_sync :: u32
  sync_pending :: bool
  sync_flushes :: u32
  sched_ready :: bool
  ps_text :: "byte list"
  meminfo_text :: "byte list"

definition SIGHUP :: nat where "SIGHUP = 1"
definition SIGINT :: nat where "SIGINT = 2"
definition SIGQUIT :: nat where "SIGQUIT = 3"
definition SIGKILL :: nat where "SIGKILL = 9"
definition SIGUSR1 :: nat where "SIGUSR1 = 10"
definition SIGSEGV :: nat where "SIGSEGV = 11"
definition SIGUSR2 :: nat where "SIGUSR2 = 12"
definition SIGPIPE :: nat where "SIGPIPE = 13"
definition SIGALRM :: nat where "SIGALRM = 14"
definition SIGCHLD :: nat where "SIGCHLD = 17"
definition SIGCONT :: nat where "SIGCONT = 18"
definition SIGSTOP :: nat where "SIGSTOP = 19"
definition SIG_DFL :: u32 where "SIG_DFL = 0"
definition SIG_IGN :: u32 where "SIG_IGN = 1"
definition KERNEL_CS :: u32 where "KERNEL_CS = 0x08"
definition KERNEL_DS :: u32 where "KERNEL_DS = 0x10"

lemmas sig_consts = SIGHUP_def SIGINT_def SIGQUIT_def SIGKILL_def SIGUSR1_def SIGSEGV_def SIGUSR2_def SIGPIPE_def
  SIGALRM_def SIGCHLD_def SIGCONT_def SIGSTOP_def SIG_DFL_def SIG_IGN_def

definition sig_bit :: "nat \<Rightarrow> u32" where
  "sig_bit n = push_bit n 1"

subsection \<open>Choosing a task\<close>

text \<open>The zombies nobody will wait for. A parent's index outside \<open>task[]\<close> is an access outside the array.\<close>

definition reap_zombie :: "nat \<Rightarrow> 'z mem_state_scheme \<Rightarrow> 'z mem_state_scheme option" where
  "reap_zombie i s =
     (let z = task s i
      in if z = 0 \<or> z = current s \<or> t_state (tstruct s z) \<noteq> TASK_ZOMBIE then Some s
         else if t_parent (tstruct s z) \<ge> NR_TASKS then None
         else let par = task s (t_parent (tstruct s z))
              in if par \<noteq> 0 \<and> t_handlers (tstruct s par) SIGCHLD \<noteq> SIG_IGN then Some s
                 else Some (free_page z (s\<lparr>task := (task s)(i := 0)\<rparr>)))"

text \<open>The scan of \<open>task[]\<close> from the last slot down; \<open>None\<close> stands for the index -1.\<close>

primrec pick_from :: "nat \<Rightarrow> int \<times> nat option \<Rightarrow> 'z task_state_scheme \<Rightarrow> int \<times> nat option" where
  "pick_from 0 acc s = acc"
| "pick_from (Suc i) acc s =
     (let p = tstruct s (task s i)
      in pick_from i (if task s i \<noteq> 0 \<and> t_state p = TASK_RUNNING \<and> t_counter p > fst acc
                      then (t_counter p, Some i) else acc) s)"

definition pick :: "'z task_state_scheme \<Rightarrow> int \<times> nat option" where
  "pick s = pick_from NR_TASKS (-1, None) s"

primrec recharge :: "nat \<Rightarrow> 'z task_state_scheme \<Rightarrow> 'z task_state_scheme" where
  "recharge 0 s = s"
| "recharge (Suc i) s =
     recharge i (if task s i = 0 then s
                 else upd_task (task s i) (\<lambda>t. t\<lparr>t_counter := t_counter t div 2 + t_priority t\<rparr>) s)"

partial_function (option) pick_loop :: "'z task_state_scheme \<Rightarrow> (nat option \<times> 'z task_state_scheme) option" where
  "pick_loop s =
     (if fst (pick s) > 0 then Some (snd (pick s), s)
      else if fst (pick s) < 0 then Some (None, recharge NR_TASKS s)
      else pick_loop (recharge NR_TASKS s))"

text \<open>With nothing runnable the processor halts until an interrupt, and \<open>schedule\<close> returns to its caller.\<close>

definition schedule :: "'z mem_state_scheme \<Rightarrow> 'z mem_state_scheme option" where
  "schedule s = do {
     s \<leftarrow> for_range 0 NR_TASKS reap_zombie s;
     (nxt, s) \<leftarrow> pick_loop s;
     case nxt of None \<Rightarrow> Some s | Some n \<Rightarrow> Some (s\<lparr>current := task s n\<rparr>) }"

subsection \<open>Sleeping\<close>

fun await :: "('s \<Rightarrow> 's) list \<Rightarrow> ('s \<Rightarrow> bool) \<Rightarrow> ('s \<Rightarrow> 's option) \<Rightarrow> 's \<Rightarrow> 's option" where
  "await [] ready sleep s = (if ready s then Some s else None)"
| "await (e # es) ready sleep s = (if ready s then Some s else do { s \<leftarrow> sleep s; await es ready sleep (e s) })"

text \<open>
  \<open>sleep_on\<close> on the wait queue whose head is \<open>q\<close>: the new head, and the state in which another task runs; then,
  resumed, the rest of it, which passes the wake-up on to the previous head.
\<close>

definition sleep_on :: "tptr \<Rightarrow> 'z mem_state_scheme \<Rightarrow> tptr \<times> 'z mem_state_scheme" where
  "sleep_on q s = (current s, upd_cur (\<lambda>t. t\<lparr>t_state := TASK_UNINTERRUPTIBLE\<rparr>) s)"

definition sleep_on_resumed :: "tptr \<Rightarrow> 'z task_state_scheme \<Rightarrow> 'z task_state_scheme" where
  "sleep_on_resumed tmp s =
     (if tmp \<noteq> 0 \<and> (t_state (tstruct s tmp) = TASK_UNINTERRUPTIBLE \<or> t_state (tstruct s tmp) = TASK_INTERRUPTIBLE)
      then upd_task tmp (\<lambda>t. t\<lparr>t_state := TASK_RUNNING\<rparr>) s else s)"

subsection \<open>The periodic write-back task\<close>

definition SYNC_TASK_SLOT :: nat where "SYNC_TASK_SLOT = NR_TASKS - 1"

definition sync_dev :: "u16 \<Rightarrow> 'z fs_state_scheme \<Rightarrow> (nat \<times> 'z fs_state_scheme) option" where
  "sync_dev dev s = do {
     (written, s) \<leftarrow> sync_buffers dev NR_BUFFERS (free_list s) 0 s;
     s \<leftarrow> sync_inodes dev s;
     Some (written, s) }"

definition event_sync :: "'z sys_state_scheme \<Rightarrow> 'z sys_state_scheme" where
  "event_sync s =
     (let s = s\<lparr>next_sync := jiffies s + sync_interval s, sync_pending := True\<rparr>;
          t = task s SYNC_TASK_SLOT
      in if t \<noteq> 0 \<and> t_state (tstruct s t) \<noteq> TASK_RUNNING then snd (wake_up t s) else s)"

definition wait_for_sync :: "('z sys_state_scheme \<Rightarrow> 'z sys_state_scheme) list \<Rightarrow> 'z sys_state_scheme \<Rightarrow> 'z sys_state_scheme option" where
  "wait_for_sync es s =
     await (map (\<lambda>e s. upd_cur (\<lambda>t. t\<lparr>t_state := TASK_RUNNING\<rparr>) (e s)) es) sync_pending
       (\<lambda>s. schedule (upd_cur (\<lambda>t. t\<lparr>t_state := TASK_INTERRUPTIBLE\<rparr>) s)) s"

text \<open>One pass of \<open>sync_loop\<close>.\<close>

definition sync_loop :: "('z sys_state_scheme \<Rightarrow> 'z sys_state_scheme) list \<Rightarrow> 'z sys_state_scheme \<Rightarrow> 'z sys_state_scheme option" where
  "sync_loop es s = do {
     s \<leftarrow> wait_for_sync es s;
     (written, s) \<leftarrow> sync_dev ROOT_DEV (s\<lparr>sync_pending := False\<rparr>);
     Some (if written > 0 then s\<lparr>sync_flushes := sync_flushes s + 1\<rparr> else s) }"

text \<open>
  The task page (\<open>sync_task_stack\<close>), the entry point and the kernel's page directory are addresses of the kernel
  image. The frame for the first return is built at the top of the page.
\<close>

definition bump_inode :: "nat option \<Rightarrow> 'z fs_state_scheme \<Rightarrow> 'z fs_state_scheme" where
  "bump_inode i s = (case i of None \<Rightarrow> s | Some n \<Rightarrow> upd_inode n (\<lambda>ip. ip\<lparr>i_count := i_count ip + 1\<rparr>) s)"

definition sync_tss :: "u32 \<Rightarrow> u32 \<Rightarrow> tss_struct" where
  "sync_tss p entry = \<lparr>tss_back_link = 0, tss_esp0 = p + of_nat PAGE_SIZE, tss_ss0 = KERNEL_DS, tss_cr3 = PAGE_DIRECTORY,
     tss_eip = entry, tss_eflags = 0x202, tss_eax = 0, tss_ecx = 0, tss_edx = 0, tss_ebx = 0,
     tss_esp = p + of_nat PAGE_SIZE - 12, tss_ebp = 0, tss_esi = 0, tss_edi = 0,
     tss_es = KERNEL_DS, tss_cs = KERNEL_CS, tss_ss = KERNEL_DS, tss_ds = KERNEL_DS, tss_fs = KERNEL_DS, tss_gs = KERNEL_DS,
     tss_ldt = of_nat ((8 + SYNC_TASK_SLOT * 2 + 1) * 8)\<rparr>"

definition sync_init :: "u32 \<Rightarrow> u32 \<Rightarrow> 'z sys_state_scheme \<Rightarrow> 'z sys_state_scheme" where
  "sync_init p entry s =
     (if task s SYNC_TASK_SLOT \<noteq> 0 then s
      else let c = cur s;
               s = bump_inode (t_root c) (bump_inode (t_pwd c) s);
               s = upd_task p (\<lambda>t. t\<lparr>t_state := TASK_RUNNING, t_counter := 10, t_priority := 10, t_signal := 0, t_exit_code := 0,
                     t_pid := SYNC_TASK_SLOT, t_parent := 0, t_pgrp := 0, t_session := 0, t_leader := 0,
                     t_pwd := t_pwd c, t_root := t_root c, t_pg_dir := 0, t_tss := sync_tss p entry\<rparr>) s;
               s = set_ram32 (p + of_nat PAGE_SIZE - 4) 0x202 (set_ram32 (p + of_nat PAGE_SIZE - 8) KERNEL_CS
                     (set_ram32 (p + of_nat PAGE_SIZE - 12) entry s))
           in s\<lparr>task := (task s)(SYNC_TASK_SLOT := p), next_sync := jiffies s + sync_interval s\<rparr>)"

subsection \<open>Starting the scheduler\<close>

definition sched_init_early :: "u32 \<Rightarrow> 'z task_state_scheme \<Rightarrow> 'z task_state_scheme" where
  "sched_init_early init_task s = s\<lparr>task := (\<lambda>i. if i < NR_TASKS then if i = 0 then init_task else 0 else task s i),
     current := init_task\<rparr>"

definition sched_init :: "u32 \<Rightarrow> u32 \<Rightarrow> u32 \<Rightarrow> u32 \<Rightarrow> 'z sys_state_scheme \<Rightarrow> 'z sys_state_scheme option" where
  "sched_init init_task kernel_end sync_page sync_entry s = do {
     (pwd, s) \<leftarrow> iget ROOT_DEV 1 (sched_init_early init_task s);
     let s = upd_task init_task (\<lambda>t. t\<lparr>t_pwd := pwd,
               t_filp := (t_filp t)(0 := Some Tty_file, 1 := Some Tty_file, 2 := Some Tty_file),
               t_pg_dir := 0,
               t_tss := (t_tss t)\<lparr>tss_ss0 := KERNEL_DS, tss_esp0 := kernel_end + 0x1000, tss_cr3 := PAGE_DIRECTORY,
                 tss_ldt := 72\<rparr>\<rparr>) s;
     let s = s\<lparr>tty_file := (tty_file s)\<lparr>f_count := 1\<rparr>\<rparr>;
     Some ((sync_init sync_page sync_entry s)\<lparr>sched_ready := True\<rparr>) }"

subsection \<open>The timer interrupt\<close>

definition check_alarm :: "nat \<Rightarrow> 'z task_state_scheme \<Rightarrow> 'z task_state_scheme" where
  "check_alarm i s =
     (let p = task s i; t = tstruct s p
      in if p = 0 \<or> t_alarm t = 0 \<or> jiffies s < t_alarm t then s
         else upd_task p (\<lambda>t. t\<lparr>t_signal := t_signal t OR sig_bit SIGALRM, t_alarm := 0,
                t_state := (if t_state t = TASK_INTERRUPTIBLE then TASK_RUNNING else t_state t)\<rparr>) s)"

definition check_deadline :: "nat \<Rightarrow> 'z sys_state_scheme \<Rightarrow> 'z sys_state_scheme" where
  "check_deadline i s =
     (let p = task s i
      in if p = 0 \<or> sleep_deadline s i = 0 \<or> sint (jiffies s - sleep_deadline s i) < 0 then s
         else upd_task p (\<lambda>t. t\<lparr>t_state := (if t_state t = TASK_INTERRUPTIBLE \<or> t_state t = TASK_UNINTERRUPTIBLE
                then TASK_RUNNING else t_state t)\<rparr>) (s\<lparr>sleep_deadline := (sleep_deadline s)(i := 0)\<rparr>))"

definition do_timer :: "'z sys_state_scheme \<Rightarrow> 'z sys_state_scheme option" where
  "do_timer s =
     (let s = s\<lparr>jiffies := jiffies s + 1\<rparr>;
          s = fold check_alarm [0..<NR_TASKS] s;
          s = fold check_deadline [0..<NR_TASKS] s;
          s = (if sint (jiffies s - next_sync s) \<ge> 0 then event_sync s else s);
          s = (if t_counter (cur s) > 0 then upd_cur (\<lambda>t. t\<lparr>t_counter := t_counter t - 1\<rparr>) s else s)
      in if t_counter (cur s) > 0 then Some s else schedule s)"

subsection \<open>What the scan finds\<close>

definition runnable :: "'z task_state_scheme \<Rightarrow> nat \<Rightarrow> bool" where
  "runnable s i \<longleftrightarrow> i < NR_TASKS \<and> task s i \<noteq> 0 \<and> t_state (tstruct s (task s i)) = TASK_RUNNING"

abbreviation counter :: "'z task_state_scheme \<Rightarrow> nat \<Rightarrow> int" where
  "counter s i \<equiv> t_counter (tstruct s (task s i))"

lemma pick_from_spec:
  assumes "n \<le> NR_TASKS" and "pick_from n (a, b) s = (c, nxt)"
  shows "a \<le> c" "\<And>j. runnable s j \<Longrightarrow> j < n \<Longrightarrow> counter s j \<le> c"
    "c = a \<and> nxt = b \<or> a < c \<and> (\<exists>i<n. nxt = Some i \<and> runnable s i \<and> counter s i = c \<and> (\<forall>j. runnable s j \<and> i < j \<and> j < n \<longrightarrow> counter s j < c))"
proof -
  have "a \<le> c \<and> (\<forall>j. runnable s j \<and> j < n \<longrightarrow> counter s j \<le> c) \<and>
    (c = a \<and> nxt = b \<or> a < c \<and> (\<exists>i<n. nxt = Some i \<and> runnable s i \<and> counter s i = c \<and> (\<forall>j. runnable s j \<and> i < j \<and> j < n \<longrightarrow> counter s j < c)))"
    using assms
  proof (induction n arbitrary: a b)
    case (Suc n)
    let ?take = "runnable s n \<and> a < counter s n"
    have r: "pick_from n (if ?take then (counter s n, Some n) else (a, b)) s = (c, nxt)"
      using Suc.prems by (simp add: runnable_def Let_def conj_assoc)
    show ?case
    proof (cases ?take)
      case True
      with r have "pick_from n (counter s n, Some n) s = (c, nxt)" by simp
      with Suc.IH [OF _ this] Suc.prems(1) True show ?thesis by (auto simp: less_Suc_eq)
    next
      case False
      with r have "pick_from n (a, b) s = (c, nxt)" by simp
      with Suc.IH [OF _ this] Suc.prems(1) False show ?thesis by (fastforce simp: less_Suc_eq)
    qed
  qed simp
  then show "a \<le> c" "\<And>j. runnable s j \<Longrightarrow> j < n \<Longrightarrow> counter s j \<le> c"
    "c = a \<and> nxt = b \<or> a < c \<and> (\<exists>i<n. nxt = Some i \<and> runnable s i \<and> counter s i = c \<and> (\<forall>j. runnable s j \<and> i < j \<and> j < n \<longrightarrow> counter s j < c))"
    by blast+
qed

text \<open>The best candidate: the largest counter, and the highest slot among equals.\<close>

definition best :: "'z task_state_scheme \<Rightarrow> nat \<Rightarrow> bool" where
  "best s i \<longleftrightarrow> runnable s i \<and> (\<forall>j. runnable s j \<longrightarrow> counter s j \<le> counter s i) \<and>
     (\<forall>j. runnable s j \<and> i < j \<longrightarrow> counter s j < counter s i)"

lemma pick_cases:
  obtains (none) "pick s = (-1, None)" "\<And>j. runnable s j \<Longrightarrow> counter s j < 0"
  | (some) i where "pick s = (counter s i, Some i)" "best s i" "0 \<le> counter s i"
proof -
  obtain c nxt where p: "pick_from NR_TASKS (-1, None) s = (c, nxt)" by (cases "pick_from NR_TASKS (-1, None) s")
  note S = pick_from_spec [OF order_refl p]
  have lt: "runnable s j \<Longrightarrow> j < NR_TASKS" for j by (simp add: runnable_def)
  from S(3) show ?thesis
  proof
    assume "c = -1 \<and> nxt = None"
    with S(2) lt p show ?thesis by (intro none) (force simp: pick_def)+
  next
    assume "-1 < c \<and> (\<exists>i<NR_TASKS. nxt = Some i \<and> runnable s i \<and> counter s i = c \<and> (\<forall>j. runnable s j \<and> i < j \<and> j < NR_TASKS \<longrightarrow> counter s j < c))"
    then obtain i where "-1 < c" "nxt = Some i" "runnable s i" "counter s i = c"
      "\<forall>j. runnable s j \<and> i < j \<and> j < NR_TASKS \<longrightarrow> counter s j < c" by blast
    with S(2) lt p show ?thesis by (intro some [of i]) (auto simp: pick_def best_def)
  qed
qed

subsection \<open>Recharging the counters\<close>

lemma recharge_frame: "\<exists>cf. recharge n s = s\<lparr>tstruct := (\<lambda>p. (tstruct s p)\<lparr>t_counter := cf p\<rparr>)\<rparr> \<and>
    (\<forall>p. 0 < t_priority (tstruct s p) \<and> 0 \<le> t_counter (tstruct s p) \<longrightarrow> 0 \<le> cf p \<and> (0 < t_counter (tstruct s p) \<longrightarrow> 0 < cf p) \<and>
       (p \<noteq> 0 \<and> (\<exists>i<n. task s i = p) \<longrightarrow> 0 < cf p) \<and>
       (t_counter (tstruct s p) \<le> 2 * t_priority (tstruct s p) \<longrightarrow> cf p \<le> 2 * t_priority (tstruct s p)))"
proof (induction n arbitrary: s)
  case 0
  show ?case by (rule exI [of _ "\<lambda>p. t_counter (tstruct s p)"]) simp
next
  case (Suc n)
  let ?s1 = "if task s n = 0 then s else upd_task (task s n) (\<lambda>t. t\<lparr>t_counter := t_counter t div 2 + t_priority t\<rparr>) s"
  from Suc.IH [of ?s1] obtain cf where cf: "recharge n ?s1 = ?s1\<lparr>tstruct := (\<lambda>p. (tstruct ?s1 p)\<lparr>t_counter := cf p\<rparr>)\<rparr>"
    "\<And>p. 0 < t_priority (tstruct ?s1 p) \<Longrightarrow> 0 \<le> t_counter (tstruct ?s1 p) \<Longrightarrow> 0 \<le> cf p \<and> (0 < t_counter (tstruct ?s1 p) \<longrightarrow> 0 < cf p) \<and>
       (p \<noteq> 0 \<and> (\<exists>i<n. task ?s1 i = p) \<longrightarrow> 0 < cf p) \<and>
       (t_counter (tstruct ?s1 p) \<le> 2 * t_priority (tstruct ?s1 p) \<longrightarrow> cf p \<le> 2 * t_priority (tstruct ?s1 p))"
    by blast
  have e: "recharge (Suc n) s = s\<lparr>tstruct := (\<lambda>p. (tstruct s p)\<lparr>t_counter := cf p\<rparr>)\<rparr>"
    using cf(1) by (auto simp: upd_task_def fun_eq_iff)
  show ?case
  proof (rule exI [of _ cf], intro conjI allI impI)
    fix p assume p: "0 < t_priority (tstruct s p) \<and> 0 \<le> t_counter (tstruct s p)"
    then have p1: "0 < t_priority (tstruct ?s1 p)" "0 \<le> t_counter (tstruct ?s1 p)" by auto
    note C = cf(2) [OF p1]
    have k: "task ?s1 = task s" by simp
    show "0 \<le> cf p" using C by blast
    show "0 < cf p" if "0 < t_counter (tstruct s p)"
    proof -
      have "0 < t_counter (tstruct ?s1 p)" using that p by auto
      with C show ?thesis by blast
    qed
    show "0 < cf p" if i: "p \<noteq> 0 \<and> (\<exists>i<Suc n. task s i = p)"
    proof (cases "task s n = p")
      case True
      then have "0 < t_counter (tstruct ?s1 p)" using i p by (auto simp: add_nonneg_pos)
      with C show ?thesis by blast
    next
      case False
      with i have "\<exists>i<n. task ?s1 i = p" unfolding k by (auto simp: less_Suc_eq)
      with C i show ?thesis by blast
    qed
    show "cf p \<le> 2 * t_priority (tstruct s p)" if "t_counter (tstruct s p) \<le> 2 * t_priority (tstruct s p)"
    proof -
      have "t_counter (tstruct ?s1 p) \<le> 2 * t_priority (tstruct ?s1 p)" "t_priority (tstruct ?s1 p) = t_priority (tstruct s p)"
        using that by auto
      with C show ?thesis by auto
    qed
  qed (rule e)
qed

subsection \<open>The scheduler returns\<close>

definition prio_ok :: "'z task_state_scheme \<Rightarrow> bool" where
  "prio_ok s \<longleftrightarrow> (\<forall>i<NR_TASKS. task s i \<noteq> 0 \<longrightarrow> 0 < t_priority (tstruct s (task s i)) \<and> 0 \<le> counter s i \<and>
     counter s i \<le> 2 * t_priority (tstruct s (task s i)) \<and> t_parent (tstruct s (task s i)) < NR_TASKS)"

abbreviation with_counters :: "(tptr \<Rightarrow> int) \<Rightarrow> 'z task_state_scheme \<Rightarrow> 'z task_state_scheme" where
  "with_counters cf s \<equiv> s\<lparr>tstruct := (\<lambda>p. (tstruct s p)\<lparr>t_counter := cf p\<rparr>)\<rparr>"

lemma recharge_ok:
  assumes "prio_ok s"
  obtains cf where "recharge NR_TASKS s = with_counters cf s" "prio_ok (with_counters cf s)"
    "\<And>i. runnable s i \<Longrightarrow> 0 < cf (task s i)"
proof -
  from recharge_frame [of NR_TASKS s] obtain cf where e: "recharge NR_TASKS s = with_counters cf s" and
    c: "\<And>p. 0 < t_priority (tstruct s p) \<and> 0 \<le> t_counter (tstruct s p) \<longrightarrow> 0 \<le> cf p \<and> (0 < t_counter (tstruct s p) \<longrightarrow> 0 < cf p) \<and>
       (p \<noteq> 0 \<and> (\<exists>i<NR_TASKS. task s i = p) \<longrightarrow> 0 < cf p) \<and>
       (t_counter (tstruct s p) \<le> 2 * t_priority (tstruct s p) \<longrightarrow> cf p \<le> 2 * t_priority (tstruct s p))" by blast
  have "prio_ok (with_counters cf s)" using assms c unfolding prio_ok_def by (auto; blast)
  moreover have "0 < cf (task s i)" if "runnable s i" for i using assms c that unfolding prio_ok_def runnable_def by blast
  ultimately show ?thesis using e that by blast
qed

lemma pick_loop_spec:
  assumes "prio_ok s"
  obtains nxt cf where "pick_loop s = Some (nxt, with_counters cf s)" "prio_ok (with_counters cf s)"
    "nxt = None \<Longrightarrow> \<forall>i. \<not> runnable s i" "\<And>i. nxt = Some i \<Longrightarrow> best (with_counters cf s) i \<and> 0 < cf (task s i)"
proof -
  have run: "runnable (with_counters cf s) = runnable s" for cf by (simp add: runnable_def fun_eq_iff)
  have nonneg: "0 \<le> counter s j" if "runnable s j" for j using assms that by (auto simp: prio_ok_def runnable_def)
  obtain cf where r: "recharge NR_TASKS s = with_counters cf s" "prio_ok (with_counters cf s)" "\<And>i. runnable s i \<Longrightarrow> 0 < cf (task s i)"
    by (rule recharge_ok [OF assms]) (rule that)
  show ?thesis
  proof (cases s rule: pick_cases)
    case none
    with nonneg have "\<forall>j. \<not> runnable s j" by force
    moreover have "pick_loop s = Some (None, with_counters cf s)" by (subst pick_loop.simps) (simp add: none(1) r(1))
    ultimately show ?thesis using r(2) by (intro that [of None cf]) auto
  next
    case (some i)
    show ?thesis
    proof (cases "0 < counter s i")
      case True
      have e: "with_counters (\<lambda>p. t_counter (tstruct s p)) s = s" by simp
      have "pick_loop s = Some (Some i, s)" using True by (subst pick_loop.simps) (simp add: some(1))
      then show ?thesis using some(2) True assms by (intro that [of "Some i" "\<lambda>p. t_counter (tstruct s p)"]) (auto simp: e)
    next
      case False
      with some have z: "pick s = (0, Some i)" by simp
      have "runnable s i" using some(2) by (simp add: best_def)
      let ?s1 = "with_counters cf s"
      have l: "pick_loop s = pick_loop ?s1" by (subst pick_loop.simps) (simp add: z r(1))
      show ?thesis
      proof (cases ?s1 rule: pick_cases)
        case none
        with r(3) \<open>runnable s i\<close> run have False by force
        then show ?thesis ..
      next
        case (some k)
        then have "runnable s k" unfolding best_def run by simp
        then have pos: "0 < cf (task s k)" by (rule r(3))
        have "pick_loop s = Some (Some k, ?s1)" unfolding l using pos by (subst pick_loop.simps) (simp add: some(1))
        then show ?thesis using some(2) pos r(2) by (intro that [of "Some k" cf]) auto
      qed
    qed
  qed
qed

lemma free_page_frame: "\<exists>m. free_page a s = s\<lparr>mem_map := m\<rparr>"
  by (rule exI [of _ "mem_map (free_page a s)"]) (simp add: free_page_def Let_def)

lemma reap_loop:
  assumes "\<And>i. i < NR_TASKS \<Longrightarrow> task s i \<noteq> 0 \<Longrightarrow> t_parent (tstruct s (task s i)) < NR_TASKS"
  obtains tk m where "for_range 0 NR_TASKS reap_zombie s = Some (s\<lparr>task := tk, mem_map := m\<rparr>)"
    "\<And>i. tk i = task s i \<or> tk i = 0 \<and> t_state (tstruct s (task s i)) = TASK_ZOMBIE \<and> task s i \<noteq> current s"
proof -
  let ?I = "\<lambda>k s'. \<exists>tk m. s' = s\<lparr>task := tk, mem_map := m\<rparr> \<and>
    (\<forall>i. tk i = task s i \<or> tk i = 0 \<and> t_state (tstruct s (task s i)) = TASK_ZOMBIE \<and> task s i \<noteq> current s)"
  have "\<exists>s'. for_range 0 NR_TASKS reap_zombie s = Some s' \<and> ?I NR_TASKS s'"
  proof (rule for_range_rule [of ?I])
    show "?I 0 s" by (intro exI [of _ "task s"] exI [of _ "mem_map s"]) simp
  next
    fix k s' assume k: "k < NR_TASKS" and "?I k s'"
    then obtain tk m where s': "s' = s\<lparr>task := tk, mem_map := m\<rparr>"
      "\<forall>i. tk i = task s i \<or> tk i = 0 \<and> t_state (tstruct s (task s i)) = TASK_ZOMBIE \<and> task s i \<noteq> current s" by blast
    have par: "tk k \<noteq> 0 \<Longrightarrow> t_parent (tstruct s (tk k)) < NR_TASKS" using assms [OF k] s'(2) by metis
    show "\<exists>s''. reap_zombie k s' = Some s'' \<and> ?I (Suc k) s''"
    proof (cases "reap_zombie k s' = Some s'")
      case True
      with s' show ?thesis by blast
    next
      case False
      then have z: "tk k \<noteq> 0" "tk k \<noteq> current s" "t_state (tstruct s (tk k)) = TASK_ZOMBIE"
        and e: "reap_zombie k s' = Some (free_page (tk k) (s'\<lparr>task := tk(k := 0)\<rparr>))"
        using par by (auto simp: reap_zombie_def s'(1) Let_def split: if_splits)
      obtain m' where "free_page (tk k) (s'\<lparr>task := tk(k := 0)\<rparr>) = s'\<lparr>task := tk(k := 0), mem_map := m'\<rparr>"
        using free_page_frame by blast
      then have m': "free_page (tk k) (s'\<lparr>task := tk(k := 0)\<rparr>) = s\<lparr>task := tk(k := 0), mem_map := m'\<rparr>" by (simp add: s'(1))
      have "tk k = task s k" using s'(2) z(1) by metis
      with z s'(2) have "\<forall>i. (tk(k := 0)) i = task s i \<or> (tk(k := 0)) i = 0 \<and> t_state (tstruct s (task s i)) = TASK_ZOMBIE \<and> task s i \<noteq> current s"
        by simp
      then have "?I (Suc k) (s\<lparr>task := tk(k := 0), mem_map := m'\<rparr>)" by (intro exI conjI) (rule refl)
      with e m' show ?thesis by simp
    qed
  qed simp
  then show ?thesis using that by blast
qed

lemma schedule_spec:
  fixes s :: "'z mem_state_scheme"
  assumes "prio_ok s"
  obtains tk m cf c where "schedule s = Some ((with_counters cf (s\<lparr>task := tk, mem_map := m\<rparr>))\<lparr>current := c\<rparr>)"
    "\<And>i. tk i = task s i \<or> tk i = 0 \<and> t_state (tstruct s (task s i)) = TASK_ZOMBIE \<and> task s i \<noteq> current s"
    "prio_ok (with_counters cf (s\<lparr>task := tk, mem_map := m\<rparr>))"
    "(\<forall>i. \<not> runnable s i) \<and> c = current s \<or> (\<exists>i. best (with_counters cf (s\<lparr>task := tk, mem_map := m\<rparr>)) i \<and> 0 < cf (tk i) \<and> c = tk i)"
proof -
  have par: "t_parent (tstruct s (task s i)) < NR_TASKS" if "i < NR_TASKS" "task s i \<noteq> 0" for i
    using assms that by (simp add: prio_ok_def)
  obtain tk m where R: "for_range 0 NR_TASKS reap_zombie s = Some (s\<lparr>task := tk, mem_map := m\<rparr>)"
    "\<And>i. tk i = task s i \<or> tk i = 0 \<and> t_state (tstruct s (task s i)) = TASK_ZOMBIE \<and> task s i \<noteq> current s"
    by (rule reap_loop [OF par]) (assumption, assumption, rule that)
  let ?s1 = "s\<lparr>task := tk, mem_map := m\<rparr>"
  have "prio_ok ?s1" using assms R(2) unfolding prio_ok_def by simp metis
  then obtain nxt cf where P: "pick_loop ?s1 = Some (nxt, with_counters cf ?s1)" "prio_ok (with_counters cf ?s1)"
    "nxt = None \<Longrightarrow> \<forall>i. \<not> runnable ?s1 i" "\<And>i. nxt = Some i \<Longrightarrow> best (with_counters cf ?s1) i \<and> 0 < cf (task ?s1 i)"
    by (rule pick_loop_spec) (rule that)
  have run: "runnable ?s1 i = runnable s i" for i using R(2) [of i] by (auto simp: runnable_def)
  show ?thesis
  proof (cases nxt)
    case None
    then show ?thesis using R P run by (intro that [where tk = tk and m = m and cf = cf and c = "current s"]) (simp_all add: schedule_def)
  next
    case (Some i)
    then show ?thesis using R P(1,2) P(4) [OF Some] by (intro that [where tk = tk and m = m and cf = cf and c = "tk i"]) (auto simp: schedule_def)
  qed
qed

subsection \<open>The timer wakes sleepers\<close>

text \<open>Steps that may make a sleeping task runnable, and change nothing else the scheduler looks at.\<close>

definition wakes :: "'z task_state_scheme \<Rightarrow> 'z task_state_scheme \<Rightarrow> bool" where
  "wakes s s' \<longleftrightarrow> task s' = task s \<and> jiffies s' = jiffies s \<and> current s' = current s \<and>
     (\<forall>p. t_priority (tstruct s' p) = t_priority (tstruct s p) \<and> t_parent (tstruct s' p) = t_parent (tstruct s p) \<and>
        t_counter (tstruct s' p) = t_counter (tstruct s p) \<and>
        (t_state (tstruct s' p) = t_state (tstruct s p) \<or> t_state (tstruct s' p) = TASK_RUNNING))"

lemma wakes_refl: "wakes s s"
  by (simp add: wakes_def)

lemma wakes_trans: "wakes s s' \<Longrightarrow> wakes s' s'' \<Longrightarrow> wakes s s''"
  unfolding wakes_def by metis

lemma wakes_prio: "wakes s s' \<Longrightarrow> prio_ok s \<Longrightarrow> prio_ok s'"
  unfolding wakes_def prio_ok_def by metis

lemma wakes_fold: "(\<And>i s. wakes s (f i s)) \<Longrightarrow> wakes s (fold f xs s)"
  by (induction xs arbitrary: s) (auto intro: wakes_refl wakes_trans)

lemma wakes_alarm: "wakes s (check_alarm i s)"
  by (simp add: wakes_def check_alarm_def Let_def)

lemma wakes_deadline: "wakes s (check_deadline i s)"
  by (simp add: wakes_def check_deadline_def Let_def)

lemma wakes_sync: "wakes s (event_sync s)"
  by (simp add: wakes_def event_sync_def Let_def wake_up_def)

lemma alarm_frame: "sleep_deadline (check_alarm i s) = sleep_deadline s"
  by (simp add: check_alarm_def Let_def upd_task_def)

lemma alarm_fold_frame: "sleep_deadline (fold check_alarm xs s) = sleep_deadline s"
  by (induction xs arbitrary: s) (auto simp: alarm_frame)

lemma deadline_step: "sleep_deadline (check_deadline i s) =
    (if task s i = 0 \<or> sleep_deadline s i = 0 \<or> sint (jiffies s - sleep_deadline s i) < 0 then sleep_deadline s
     else (sleep_deadline s)(i := 0))"
  by (simp add: check_deadline_def Let_def upd_task_def)

lemma deadline_state:
  assumes "task s i \<noteq> 0" "sleep_deadline s i \<noteq> 0" "0 \<le> sint (jiffies s - sleep_deadline s i)"
    "t_state (tstruct s (task s i)) \<in> {TASK_RUNNING, TASK_INTERRUPTIBLE, TASK_UNINTERRUPTIBLE}"
  shows "t_state (tstruct (check_deadline i s) (task s i)) = TASK_RUNNING"
  using assms by (auto simp: check_deadline_def)

lemma deadline_fold:
  assumes "i \<in> set xs" "distinct xs" "task s i \<noteq> 0" "sleep_deadline s i \<noteq> 0"
    "t_state (tstruct s (task s i)) \<in> {TASK_RUNNING, TASK_INTERRUPTIBLE, TASK_UNINTERRUPTIBLE}"
  shows "sleep_deadline (fold check_deadline xs s) i = (if sint (jiffies s - sleep_deadline s i) < 0 then sleep_deadline s i else 0)"
    "0 \<le> sint (jiffies s - sleep_deadline s i) \<Longrightarrow> t_state (tstruct (fold check_deadline xs s) (task s i)) = TASK_RUNNING"
proof -
  from assms(1,2) obtain ys zs where xs: "xs = ys @ i # zs" "i \<notin> set ys" "i \<notin> set zs" by (auto dest: split_list)
  let ?s1 = "fold check_deadline ys s"
  have w: "wakes s ?s1" by (rule wakes_fold) (rule wakes_deadline)
  have same: "sleep_deadline (fold check_deadline vs u) i = sleep_deadline u i" if "i \<notin> set vs" for vs and u :: "'a sys_state_scheme"
    using that by (induction vs arbitrary: u) (auto simp: deadline_step)
  have d1: "sleep_deadline ?s1 i = sleep_deadline s i" by (rule same [OF xs(2)])
  have t1: "task ?s1 i = task s i" "jiffies ?s1 = jiffies s" using w by (simp_all add: wakes_def)
  have e: "sleep_deadline (fold check_deadline xs s) i = sleep_deadline (check_deadline i ?s1) i"
    unfolding xs(1) by (simp add: same [OF xs(3)])
  show "sleep_deadline (fold check_deadline xs s) i = (if sint (jiffies s - sleep_deadline s i) < 0 then sleep_deadline s i else 0)"
    unfolding e deadline_step using assms(3,4) d1 t1 by auto
  assume ex: "0 \<le> sint (jiffies s - sleep_deadline s i)"
  have "t_state (tstruct ?s1 (task ?s1 i)) \<in> {TASK_RUNNING, TASK_INTERRUPTIBLE, TASK_UNINTERRUPTIBLE}"
    using w assms(5) t1 unfolding wakes_def by (metis insertI1)
  with assms(3,4) ex d1 t1 have r: "t_state (tstruct (check_deadline i ?s1) (task s i)) = TASK_RUNNING"
    using deadline_state [of ?s1 i] by auto
  have "wakes (check_deadline i ?s1) (fold check_deadline zs (check_deadline i ?s1))" by (rule wakes_fold) (rule wakes_deadline)
  with r show "t_state (tstruct (fold check_deadline xs s) (task s i)) = TASK_RUNNING"
    unfolding xs(1) wakes_def by (simp) metis
qed

definition waiting :: "tstate \<Rightarrow> bool" where
  "waiting st \<longleftrightarrow> st \<in> {TASK_RUNNING, TASK_INTERRUPTIBLE, TASK_UNINTERRUPTIBLE}"

lemma do_timer_spec:
  fixes s :: "'z sys_state_scheme"
  assumes "prio_ok s"
  obtains s' where "do_timer s = Some s'" "prio_ok s'" "jiffies s' = jiffies s + 1"
    "\<And>i. i < NR_TASKS \<Longrightarrow> task s i \<noteq> 0 \<Longrightarrow> waiting (t_state (tstruct s (task s i))) \<Longrightarrow> task s' i = task s i \<and>
       (t_state (tstruct s' (task s i)) = t_state (tstruct s (task s i)) \<or> t_state (tstruct s' (task s i)) = TASK_RUNNING) \<and>
       (sleep_deadline s i \<noteq> 0 \<longrightarrow>
          (if sint (jiffies s + 1 - sleep_deadline s i) < 0 then sleep_deadline s' i = sleep_deadline s i
           else sleep_deadline s' i = 0 \<and> t_state (tstruct s' (task s i)) = TASK_RUNNING))"
proof -
  let ?s1 = "s\<lparr>jiffies := jiffies s + 1\<rparr>"
  define s2 where "s2 = fold check_alarm [0..<NR_TASKS] ?s1"
  define s3 where "s3 = fold check_deadline [0..<NR_TASKS] s2"
  define s4 where "s4 = (if sint (jiffies s3 - next_sync s3) \<ge> 0 then event_sync s3 else s3)"
  define s5 where "s5 = (if t_counter (cur s4) > 0 then upd_cur (\<lambda>t. t\<lparr>t_counter := t_counter t - 1\<rparr>) s4 else s4)"
  have e: "do_timer s = (if t_counter (cur s5) > 0 then Some s5 else schedule s5)"
    unfolding do_timer_def Let_def s5_def s4_def s3_def s2_def by (rule refl)
  have w2: "wakes ?s1 s2" unfolding s2_def by (rule wakes_fold) (rule wakes_alarm)
  have w3: "wakes s2 s3" unfolding s3_def by (rule wakes_fold) (rule wakes_deadline)
  have w4: "wakes s3 s4" unfolding s4_def by (simp add: wakes_sync wakes_refl)
  have d4: "sleep_deadline s4 = sleep_deadline s3" by (simp add: s4_def event_sync_def Let_def wake_up_def upd_task_def)
  have d5: "sleep_deadline s5 = sleep_deadline s4" by (simp add: s5_def upd_task_def)
  have d2: "sleep_deadline s2 = sleep_deadline s" by (simp add: s2_def alarm_fold_frame)
  have w: "wakes ?s1 s4" using w2 w3 w4 wakes_trans by blast
  have "prio_ok ?s1" using assms by (simp add: prio_ok_def)
  then have "prio_ok s4" by (rule wakes_prio [OF w])
  then have p5: "prio_ok s5" by (auto simp: s5_def prio_ok_def)
  have f5: "task s5 = task s" "jiffies s5 = jiffies s + 1" "\<And>p. t_state (tstruct s5 p) = t_state (tstruct s4 p)"
    using w by (simp_all add: s5_def wakes_def)
  have slot: "(t_state (tstruct s5 (task s i)) = t_state (tstruct s (task s i)) \<or> t_state (tstruct s5 (task s i)) = TASK_RUNNING) \<and>
       (sleep_deadline s i \<noteq> 0 \<longrightarrow>
          (if sint (jiffies s + 1 - sleep_deadline s i) < 0 then sleep_deadline s5 i = sleep_deadline s i
           else sleep_deadline s5 i = 0 \<and> t_state (tstruct s5 (task s i)) = TASK_RUNNING))"
    if i: "i < NR_TASKS" "task s i \<noteq> 0" "waiting (t_state (tstruct s (task s i)))" for i
  proof -
    have t2: "task s2 i = task s i" "jiffies s2 = jiffies s + 1" using w2 by (simp_all add: wakes_def)
    have "t_state (tstruct s2 (task s i)) = t_state (tstruct s (task s i)) \<or> t_state (tstruct s2 (task s i)) = TASK_RUNNING"
      using w2 by (simp add: wakes_def)
    with i(3) t2(1) have "t_state (tstruct s2 (task s2 i)) \<in> {TASK_RUNNING, TASK_INTERRUPTIBLE, TASK_UNINTERRUPTIBLE}"
      unfolding waiting_def by auto
    note st2 = this t2
    have m: "i \<in> set [0..<NR_TASKS]" "distinct [0..<NR_TASKS]" using i by simp_all
    have "t_state (tstruct s5 (task s i)) = t_state (tstruct s (task s i)) \<or> t_state (tstruct s5 (task s i)) = TASK_RUNNING"
      using w unfolding f5 wakes_def by simp
    moreover have "if sint (jiffies s + 1 - sleep_deadline s i) < 0 then sleep_deadline s5 i = sleep_deadline s i
           else sleep_deadline s5 i = 0 \<and> t_state (tstruct s5 (task s i)) = TASK_RUNNING" if d: "sleep_deadline s i \<noteq> 0"
    proof -
      have d2': "sleep_deadline s2 i \<noteq> 0" "task s2 i \<noteq> 0" using d d2 st2 i by simp_all
      note F = deadline_fold [OF m d2'(2,1) st2(1), folded s3_def, unfolded d2 st2(2,3)]
      have "t_state (tstruct s4 (task s i)) = TASK_RUNNING" if "t_state (tstruct s3 (task s i)) = TASK_RUNNING"
        using that w4 unfolding wakes_def by metis
      with F show ?thesis unfolding f5 d5 d4 by auto
    qed
    ultimately show ?thesis by blast
  qed
  show ?thesis
  proof (cases "t_counter (cur s5) > 0")
    case True
    with e have "do_timer s = Some s5" by simp
    then show ?thesis by (rule that) (use p5 f5(1,2) slot in simp_all)
  next
    case False
    obtain tk m cf c where S: "schedule s5 = Some ((with_counters cf (s5\<lparr>task := tk, mem_map := m\<rparr>))\<lparr>current := c\<rparr>)"
      "\<And>i. tk i = task s5 i \<or> tk i = 0 \<and> t_state (tstruct s5 (task s5 i)) = TASK_ZOMBIE \<and> task s5 i \<noteq> current s5"
      "prio_ok (with_counters cf (s5\<lparr>task := tk, mem_map := m\<rparr>))"
      by (rule schedule_spec [OF p5]) (rule that)
    define s' where "s' = (with_counters cf (s5\<lparr>task := tk, mem_map := m\<rparr>))\<lparr>current := c\<rparr>"
    have F: "task s' = tk" "jiffies s' = jiffies s5" "sleep_deadline s' = sleep_deadline s5"
      "\<And>p. t_state (tstruct s' p) = t_state (tstruct s5 p)" by (simp_all add: s'_def)
    have p': "prio_ok s'" using S(3) by (simp add: prio_ok_def s'_def)
    have t': "tk i = task s i" if "i < NR_TASKS" "task s i \<noteq> 0" "waiting (t_state (tstruct s (task s i)))" for i
    proof -
      have "t_state (tstruct s5 (task s i)) \<noteq> TASK_ZOMBIE" using slot [OF that] that(3) by (auto simp: waiting_def)
      with S(2) [of i] show ?thesis unfolding f5 by metis
    qed
    have d': "do_timer s = Some s'" using e False S(1) s'_def by simp
    show ?thesis by (rule that [OF d' p'], unfold F f5(2), rule refl) (intro conjI t' slot [THEN conjunct1] slot [THEN conjunct2])
  qed
qed

primrec ticks :: "('z sys_state_scheme \<Rightarrow> 'z sys_state_scheme) list \<Rightarrow> 'z sys_state_scheme \<Rightarrow> 'z sys_state_scheme option" where
  "ticks [] s = Some s"
| "ticks (e # es) s = do { s \<leftarrow> do_timer s; ticks es (e s) }"

text \<open>What the running tasks may do between two ticks without disturbing the sleeper in slot \<open>i\<close>.\<close>

definition undisturbed :: "nat \<Rightarrow> ('z sys_state_scheme \<Rightarrow> 'z sys_state_scheme) \<Rightarrow> bool" where
  "undisturbed i e \<longleftrightarrow> (\<forall>s. (prio_ok s \<longrightarrow> prio_ok (e s)) \<and> jiffies (e s) = jiffies s \<and> task (e s) i = task s i \<and>
     sleep_deadline (e s) i = sleep_deadline s i \<and>
     (t_state (tstruct (e s) (task s i)) = t_state (tstruct s (task s i)) \<or> t_state (tstruct (e s) (task s i)) = TASK_RUNNING))"

lemma sint_succ: "sint (x :: u32) < 0 \<Longrightarrow> sint (x + 1) = sint x + 1"
proof -
  assume n: "sint x < 0"
  have lo: "- (2 ^ 31) \<le> sint x" using sint_greater_eq [of x] by simp
  have "sint (x + 1) = signed_take_bit 31 (sint x + 1)" by (simp add: sint_word_ariths(1))
  also have "\<dots> = sint x + 1" by (rule signed_take_bit_int_eq_self) (use n lo in simp_all)
  finally show ?thesis .
qed

lemma ticks_wake:
  fixes s :: "'z sys_state_scheme"
  assumes "prio_ok s" "i < NR_TASKS" "task s i = p" "p \<noteq> 0" "waiting (t_state (tstruct s p))" "sleep_deadline s i = d" "d \<noteq> 0"
    and "sint (jiffies s - d) = - int (length es)" "es \<noteq> []" "\<And>e. e \<in> set es \<Longrightarrow> undisturbed i e"
  shows "\<exists>s'. ticks es s = Some s' \<and> task s' i = p \<and> t_state (tstruct s' p) = TASK_RUNNING \<and> sleep_deadline s' i = 0 \<and> prio_ok s'"
  using assms
proof (induction es arbitrary: s)
  case (Cons e es)
  note P = Cons.prems
  obtain t where T: "do_timer s = Some t" "prio_ok t" "jiffies t = jiffies s + 1"
    "\<And>i. i < NR_TASKS \<Longrightarrow> task s i \<noteq> 0 \<Longrightarrow> waiting (t_state (tstruct s (task s i))) \<Longrightarrow> task t i = task s i \<and>
       (t_state (tstruct t (task s i)) = t_state (tstruct s (task s i)) \<or> t_state (tstruct t (task s i)) = TASK_RUNNING) \<and>
       (sleep_deadline s i \<noteq> 0 \<longrightarrow>
          (if sint (jiffies s + 1 - sleep_deadline s i) < 0 then sleep_deadline t i = sleep_deadline s i
           else sleep_deadline t i = 0 \<and> t_state (tstruct t (task s i)) = TASK_RUNNING))"
    by (rule do_timer_spec [OF P(1)]) (rule that)
  have slot: "task s i \<noteq> 0" "waiting (t_state (tstruct s (task s i)))" using P by simp_all
  note S = T(4) [OF P(2) slot, unfolded P(3,6)]
  have step: "sint (jiffies s + 1 - d) = - int (length es)"
  proof -
    have "sint (jiffies s + 1 - d) = sint (jiffies s - d + 1)" by (simp add: algebra_simps)
    also have "\<dots> = sint (jiffies s - d) + 1" by (rule sint_succ) (use P(8) in simp)
    finally show ?thesis using P(8) by simp
  qed
  have u: "undisturbed i e" using P(10) by simp
  then have U: "prio_ok (e t)" "jiffies (e t) = jiffies s + 1" "task (e t) i = p" "sleep_deadline (e t) i = sleep_deadline t i"
    "t_state (tstruct (e t) p) = t_state (tstruct t p) \<or> t_state (tstruct (e t) p) = TASK_RUNNING"
    using T(2,3) S unfolding undisturbed_def by metis+
  show ?case
  proof (cases "es = []")
    case True
    with step S P(7) have "sleep_deadline t i = 0" "t_state (tstruct t p) = TASK_RUNNING" by simp_all
    with U T(1) True show ?thesis by auto
  next
    case False
    have d: "sleep_deadline (e t) i = d" using S step False P(7) U(4) by simp
    have w: "waiting (t_state (tstruct (e t) p))" using S U(5) P(5) by (auto simp: waiting_def)
    have j: "sint (jiffies (e t) - d) = - int (length es)" using step U(2) by simp
    have "\<exists>s'. ticks es (e t) = Some s' \<and> task s' i = p \<and> t_state (tstruct s' p) = TASK_RUNNING \<and> sleep_deadline s' i = 0 \<and> prio_ok s'"
      by (rule Cons.IH [OF U(1) P(2) U(3) P(4) w d P(7) j False]) (use P(10) in simp)
    with T(1) show ?thesis by simp
  qed
qed simp

subsection \<open>A machine with one task\<close>

definition zero_file :: kfile where
  "zero_file = \<lparr>f_mode = 0, f_flags = 0, f_count = 0, f_inode = None, f_pos = 0, f_dev = 0\<rparr>"

definition zero_context :: sig_context where
  "zero_context = \<lparr>sc_magic = 0, sc_retaddr = 0, sc_handler = 0, sc_signo = 0, sc_eip = 0, sc_cs = 0, sc_eflags = 0, sc_esp = 0,
     sc_ss = 0, sc_gs = 0, sc_fs = 0, sc_es = 0, sc_ds = 0, sc_eax = 0, sc_ebx = 0, sc_ecx = 0, sc_edx = 0, sc_esi = 0,
     sc_edi = 0, sc_ebp = 0\<rparr>"

definition boot_sys :: "'z \<Rightarrow> 'z sys_state_scheme" where
  "boot_sys m = boot_tty \<lparr>file_table = (\<lambda>_. zero_file), tty_file = zero_file\<lparr>f_mode := 2, f_count := 1\<rparr>, boot_time = 0,
     sleep_deadline = (\<lambda>_. 0), sig_blocked = (\<lambda>_. 0), sig_suspend_mask = (\<lambda>_. 0), sig_suspend_pending = (\<lambda>_. False),
     sig_sa = (\<lambda>_. 0), sig_sa_mask = (\<lambda>_ _. 0), sig_handler_mask = (\<lambda>_. 0), sig_handler_mask_saved = (\<lambda>_. False),
     sigreturn_frame = zero_context, sync_interval = 500, next_sync = 500, sync_pending = False, sync_flushes = 0,
     sched_ready = True, ps_text = [], meminfo_text = [], \<dots> = m\<rparr>"

definition one_task :: "'z \<Rightarrow> 'z sys_state_scheme" where
  "one_task m = sched_init_early 0x20000
     (upd_task 0x20000 (\<lambda>t. t\<lparr>t_state := TASK_RUNNING, t_counter := 15, t_priority := 15, t_parent := 0, t_pid := 0\<rparr>) (boot_sys m))"

lemma boot_sys_facts: "file_table (boot_sys m) = (\<lambda>_. zero_file)" "tty_file (boot_sys m) = zero_file\<lparr>f_mode := 2, f_count := 1\<rparr>"
  "sleep_deadline (boot_sys m) = (\<lambda>_. 0)" "sig_blocked (boot_sys m) = (\<lambda>_. 0)" "sig_sa (boot_sys m) = (\<lambda>_. 0)"
  "sig_sa_mask (boot_sys m) = (\<lambda>_ _. 0)" "sig_suspend_pending (boot_sys m) = (\<lambda>_. False)" "next_sync (boot_sys m) = 500"
proof -
  have e: "tty_state.more (boot_sys m) = \<lparr>file_table = (\<lambda>_. zero_file), tty_file = zero_file\<lparr>f_mode := 2, f_count := 1\<rparr>, boot_time = 0,
     sleep_deadline = (\<lambda>_. 0), sig_blocked = (\<lambda>_. 0), sig_suspend_mask = (\<lambda>_. 0), sig_suspend_pending = (\<lambda>_. False),
     sig_sa = (\<lambda>_. 0), sig_sa_mask = (\<lambda>_ _. 0), sig_handler_mask = (\<lambda>_. 0), sig_handler_mask_saved = (\<lambda>_. False),
     sigreturn_frame = zero_context, sync_interval = 500, next_sync = 500, sync_pending = False, sync_flushes = 0,
     sched_ready = True, ps_text = [], meminfo_text = [], \<dots> = m\<rparr>" unfolding boot_sys_def boot_tty_facts ..
  show "file_table (boot_sys m) = (\<lambda>_. zero_file)" "tty_file (boot_sys m) = zero_file\<lparr>f_mode := 2, f_count := 1\<rparr>"
  "sleep_deadline (boot_sys m) = (\<lambda>_. 0)" "sig_blocked (boot_sys m) = (\<lambda>_. 0)" "sig_sa (boot_sys m) = (\<lambda>_. 0)"
  "sig_sa_mask (boot_sys m) = (\<lambda>_ _. 0)" "sig_suspend_pending (boot_sys m) = (\<lambda>_. False)" "next_sync (boot_sys m) = 500"
    using e by (cases "boot_sys m"; simp)+
qed

lemma one_task_facts: "task (one_task m) i = (if i = 0 then 0x20000 else if i < NR_TASKS then 0 else task (boot_sys m) i)"
  "current (one_task m) = 0x20000" "t_state (tstruct (one_task m) 0x20000) = TASK_RUNNING" "t_counter (tstruct (one_task m) 0x20000) = 15"
  "t_priority (tstruct (one_task m) 0x20000) = 15" "t_parent (tstruct (one_task m) 0x20000) = 0"
  by (simp_all add: one_task_def sched_init_early_def task_consts)

lemma one_task_prio: "prio_ok (one_task m)"
  by (auto simp: prio_ok_def one_task_facts task_consts split: if_splits)



text \<open>
  C30. A task that sleeps until a deadline is made runnable by the timer: after as many ticks as the deadline is
  ahead, whatever the other tasks do in between, its deadline is cleared and it is runnable, provided the others
  leave it in its slot. The comparison is on the difference, so it holds across the wrap-around of \<open>jiffies\<close>.
\<close>

theorem sleeper_wakes:
  fixes s :: "'z sys_state_scheme"
  assumes "prio_ok s" and "i < NR_TASKS" and "task s i = p" and "p \<noteq> 0" and "t_state (tstruct s p) = TASK_INTERRUPTIBLE"
    and "sleep_deadline s i = d" and "d \<noteq> 0" and "sint (jiffies s - d) = - int (length es)" and "es \<noteq> []"
    and "\<forall>e\<in>set es. undisturbed i e"
  shows "\<exists>s'. ticks es s = Some s' \<and> task s' i = p \<and> runnable s' i \<and> sleep_deadline s' i = 0"
proof -
  have w: "waiting (t_state (tstruct s p))" using assms(5) by (simp add: waiting_def)
  have "\<exists>s'. ticks es s = Some s' \<and> task s' i = p \<and> t_state (tstruct s' p) = TASK_RUNNING \<and> sleep_deadline s' i = 0 \<and> prio_ok s'"
    by (rule ticks_wake [OF assms(1-4) w assms(6-9)]) (use assms(10) in blast)
  with assms(2,4) show ?thesis by (auto simp: runnable_def)
qed

theorem sleeper_wakes_witness:
  "\<exists>s' :: sys_state. ticks [id, id] ((upd_task 0x20000 (\<lambda>t. t\<lparr>t_state := TASK_INTERRUPTIBLE\<rparr>) (one_task ()))\<lparr>jiffies := 10,
     sleep_deadline := (\<lambda>_. 0)(0 := 12)\<rparr>) = Some s' \<and> runnable s' 0"
proof -
  let ?s = "(upd_task 0x20000 (\<lambda>t. t\<lparr>t_state := TASK_INTERRUPTIBLE\<rparr>) (one_task ()))\<lparr>jiffies := 10, sleep_deadline := (\<lambda>_. 0)(0 := 12)\<rparr>"
  have "prio_ok ?s" by (auto simp: prio_ok_def one_task_facts task_consts split: if_splits)
  moreover have "\<forall>e\<in>set [id, id]. undisturbed 0 (e :: sys_state \<Rightarrow> sys_state)" by (simp add: undisturbed_def)
  ultimately show ?thesis
    using sleeper_wakes [of ?s 0 "0x20000" 12 "[id, id]"] by (auto simp: one_task_facts task_consts)
qed

end
