(* ===== verification/Pipe.thy ===== *)
theory Pipe
  imports Sched
begin

text \<open>
  Pipes: \<open>fs/pipe.c\<close>. A pipe is an inode whose \<open>i_size\<close> is the address of a page, with the write and
  read offsets in its first two zones. Reading and writing are functions of the times they go to sleep, as in
  \<open>Sched\<close>: the first argument lists what the rest of the machine does during each sleep.

  The access to user memory is that of \<open>include/asm/segment.h\<close>: \<open>um\<close> is the memory the calling task sees, and
  the bytes a system call stores there are part of its result, in the order of the stores.
\<close>

subsection \<open>User memory\<close>

type_synonym stores = "(u32 \<times> byte) list"

definition put_fs_bytes :: "byte list \<Rightarrow> u32 \<Rightarrow> stores" where
  "put_fs_bytes bs a = map (\<lambda>k. (a + of_nat k, bs ! k)) [0..<length bs]"

definition get_fs_long :: "umem \<Rightarrow> u32 \<Rightarrow> u32" where
  "get_fs_long um a = get32 (\<lambda>k. um (a + of_nat k)) 0"

definition put_fs_long :: "u32 \<Rightarrow> u32 \<Rightarrow> stores" where
  "put_fs_long v a = put_fs_bytes (map (put32 0 v (\<lambda>_. 0)) [0..<4]) a"

definition apply_stores :: "stores \<Rightarrow> umem \<Rightarrow> umem" where
  "apply_stores ws um = fold (\<lambda>(a, b) m. m(a := b)) ws um"

subsection \<open>The page of a pipe\<close>

definition PIPE_HEAD :: "m_inode \<Rightarrow> u16" where "PIPE_HEAD ip = i_zone ip 0"
definition PIPE_TAIL :: "m_inode \<Rightarrow> u16" where "PIPE_TAIL ip = i_zone ip 1"

definition PIPE_SIZE :: "m_inode \<Rightarrow> u32" where
  "PIPE_SIZE ip = (ucast (PIPE_HEAD ip) - ucast (PIPE_TAIL ip)) AND (of_nat PAGE_SIZE - 1)"

definition PIPE_EMPTY :: "m_inode \<Rightarrow> bool" where
  "PIPE_EMPTY ip \<longleftrightarrow> PIPE_HEAD ip = PIPE_TAIL ip"

definition PIPE_FULL :: "m_inode \<Rightarrow> bool" where
  "PIPE_FULL ip \<longleftrightarrow> PIPE_SIZE ip = of_nat PAGE_SIZE - 1"

definition INC_PIPE :: "u16 \<Rightarrow> u16" where
  "INC_PIPE p = ucast ((ucast p + 1 :: u32) AND (of_nat PAGE_SIZE - 1))"

definition pipe_get :: "nat \<Rightarrow> 'z fs_state_scheme \<Rightarrow> byte \<times> 'z fs_state_scheme" where
  "pipe_get n s =
     (let ip = inode_table s n
      in (ram s (unat (i_size ip) div PAGE_SIZE) (unat (PIPE_TAIL ip)),
          upd_inode n (\<lambda>ip. ip\<lparr>i_zone := (i_zone ip)(1 := INC_PIPE (PIPE_TAIL ip))\<rparr>) s))"

definition pipe_put :: "nat \<Rightarrow> byte \<Rightarrow> 'z fs_state_scheme \<Rightarrow> 'z fs_state_scheme" where
  "pipe_put n c s =
     (let ip = inode_table s n; pg = unat (i_size ip) div PAGE_SIZE
      in upd_inode n (\<lambda>ip. ip\<lparr>i_zone := (i_zone ip)(0 := INC_PIPE (PIPE_HEAD ip))\<rparr>)
           (s\<lparr>ram := (ram s)(pg := (ram s pg)(unat (PIPE_HEAD ip) := c))\<rparr>))"

subsection \<open>Waiting\<close>

definition pipe_wake :: "nat \<Rightarrow> 'z fs_state_scheme \<Rightarrow> 'z fs_state_scheme" where
  "pipe_wake n s = (let (q, s) = wake_up (i_wait (inode_table s n)) s in upd_inode n (\<lambda>ip. ip\<lparr>i_wait := q\<rparr>) s)"

definition pipe_sleep :: "('z fs_state_scheme \<Rightarrow> 'z fs_state_scheme) \<Rightarrow> nat \<Rightarrow> 'z fs_state_scheme \<Rightarrow> 'z fs_state_scheme option" where
  "pipe_sleep e n s =
     (let tmp = i_wait (inode_table s n); (q, s) = sleep_on tmp s
      in do { s \<leftarrow> schedule (upd_inode n (\<lambda>ip. ip\<lparr>i_wait := q\<rparr>) s); Some (sleep_on_resumed tmp (e s)) })"

fun pipe_data :: "('z fs_state_scheme \<Rightarrow> 'z fs_state_scheme) list \<Rightarrow> nat \<Rightarrow> 'z fs_state_scheme \<Rightarrow> (bool \<times> 'z fs_state_scheme) option" where
  "pipe_data es n s =
     (if \<not> PIPE_EMPTY (inode_table s n) then Some (True, s)
      else let s = pipe_wake n s
           in if i_count (inode_table s n) \<noteq> 2 then Some (False, s)
              else case es of [] \<Rightarrow> None | e # es' \<Rightarrow> do { s \<leftarrow> pipe_sleep e n s; pipe_data es' n s })"

declare pipe_data.simps [simp del]

definition raise_sigpipe :: "'z task_state_scheme \<Rightarrow> 'z task_state_scheme" where
  "raise_sigpipe s = upd_cur (\<lambda>t. t\<lparr>t_signal := t_signal t OR sig_bit (SIGPIPE - 1)\<rparr>) s"

fun pipe_room :: "('z fs_state_scheme \<Rightarrow> 'z fs_state_scheme) list \<Rightarrow> nat \<Rightarrow> 'z fs_state_scheme \<Rightarrow>
    (bool \<times> ('z fs_state_scheme \<Rightarrow> 'z fs_state_scheme) list \<times> 'z fs_state_scheme) option" where
  "pipe_room es n s =
     (if \<not> PIPE_FULL (inode_table s n) then Some (True, es, s)
      else let s = pipe_wake n s
           in if i_count (inode_table s n) \<noteq> 2 then Some (False, es, raise_sigpipe s)
              else case es of [] \<Rightarrow> None | e # es' \<Rightarrow> do { s \<leftarrow> pipe_sleep e n s; pipe_room es' n s })"

declare pipe_room.simps [simp del]

subsection \<open>Reading and writing\<close>

primrec pipe_take :: "nat \<Rightarrow> nat \<Rightarrow> 'z fs_state_scheme \<Rightarrow> byte list \<times> 'z fs_state_scheme" where
  "pipe_take n 0 s = ([], s)"
| "pipe_take n (Suc k) s =
     (if PIPE_EMPTY (inode_table s n) then ([], s)
      else let (c, s) = pipe_get n s; (cs, s) = pipe_take n k s in (c # cs, s))"

text \<open>The bytes delivered to the user's buffer; their number is the result.\<close>

definition read_pipe :: "('z fs_state_scheme \<Rightarrow> 'z fs_state_scheme) list \<Rightarrow> nat \<Rightarrow> int \<Rightarrow> 'z fs_state_scheme \<Rightarrow>
    (byte list \<times> 'z fs_state_scheme) option" where
  "read_pipe es n count s = do {
     (more, s) \<leftarrow> pipe_data es n s;
     if \<not> more then Some ([], s)
     else let (cs, s) = pipe_take n (nat count) s in Some (cs, pipe_wake n s) }"

primrec pipe_fill :: "umem \<Rightarrow> u32 \<Rightarrow> nat \<Rightarrow> nat \<Rightarrow> nat \<Rightarrow> ('z fs_state_scheme \<Rightarrow> 'z fs_state_scheme) list \<Rightarrow> 'z fs_state_scheme \<Rightarrow>
    (int \<times> 'z fs_state_scheme) option" where
  "pipe_fill um buf n b 0 es s = Some (int b, pipe_wake n s)"
| "pipe_fill um buf n b (Suc k) es s = do {
     (room, es, s) \<leftarrow> pipe_room es n s;
     if \<not> room then Some (int b, s)
     else pipe_fill um buf n (Suc b) k es (pipe_wake n (pipe_put n (um (buf + of_nat b)) s)) }"

definition write_pipe :: "umem \<Rightarrow> ('z fs_state_scheme \<Rightarrow> 'z fs_state_scheme) list \<Rightarrow> nat \<Rightarrow> u32 \<Rightarrow> int \<Rightarrow> 'z fs_state_scheme \<Rightarrow>
    (int \<times> 'z fs_state_scheme) option" where
  "write_pipe um es n buf count s =
     (let s = pipe_wake n s
      in if i_count (inode_table s n) \<noteq> 2 then Some (-1, raise_sigpipe s)
         else pipe_fill um buf n 0 (nat count) es s)"

subsection \<open>Making a pipe\<close>

definition NR_FILE :: nat where "NR_FILE = 64"

abbreviation upd_file :: "nat \<Rightarrow> (kfile \<Rightarrow> kfile) \<Rightarrow> 'z sys_state_scheme \<Rightarrow> 'z sys_state_scheme" where
  "upd_file i f s \<equiv> s\<lparr>file_table := (file_table s)(i := f (file_table s i))\<rparr>"

abbreviation set_filp :: "nat \<Rightarrow> fptr option \<Rightarrow> 'z task_state_scheme \<Rightarrow> 'z task_state_scheme" where
  "set_filp fd f s \<equiv> upd_cur (\<lambda>t. t\<lparr>t_filp := (t_filp t)(fd := f)\<rparr>) s"

definition get_pipe_inode :: "'z fs_state_scheme \<Rightarrow> nat option \<times> 'z fs_state_scheme" where
  "get_pipe_inode s =
     (case get_empty_inode s of
        (None, s) \<Rightarrow> (None, s)
      | (Some n, s) \<Rightarrow>
          let (page, s) = get_free_page s;
              s = upd_inode n (\<lambda>ip. ip\<lparr>i_size := page\<rparr>) s
          in if page = 0 then (None, upd_inode n (\<lambda>ip. ip\<lparr>i_count := 0\<rparr>) s)
             else (Some n, upd_inode n (\<lambda>ip. ip\<lparr>i_count := 2, i_zone := (i_zone ip)(0 := 0, 1 := 0), i_pipe := True\<rparr>) s))"

definition free_pair :: "(nat \<Rightarrow> bool) \<Rightarrow> nat \<Rightarrow> nat \<Rightarrow> (nat \<times> nat) option" where
  "free_pair p i n = do { a \<leftarrow> scan p i n; b \<leftarrow> scan p (Suc a) n; Some (a, b) }"

text \<open>When either search finds fewer than two, the entries claimed so far are given back.\<close>

definition sys_pipe :: "u32 \<Rightarrow> 'z sys_state_scheme \<Rightarrow> int \<times> stores \<times> 'z sys_state_scheme" where
  "sys_pipe fildes s =
     (case free_pair (\<lambda>i. f_count (file_table s i) = 0) 0 NR_FILE of
        None \<Rightarrow> (-1, [], s)
      | Some (f0, f1) \<Rightarrow>
          case free_pair (\<lambda>i. t_filp (cur s) i = None) 3 NR_OPEN of
            None \<Rightarrow> (-1, [], s)
          | Some (fd0, fd1) \<Rightarrow>
              case get_pipe_inode (set_filp fd1 (Some (File_slot f1)) (set_filp fd0 (Some (File_slot f0))
                     (upd_file f1 (\<lambda>f. f\<lparr>f_count := 1\<rparr>) (upd_file f0 (\<lambda>f. f\<lparr>f_count := 1\<rparr>) s)))) of
                (None, s) \<Rightarrow> (-1, [], upd_file f1 (\<lambda>f. f\<lparr>f_count := 0\<rparr>) (upd_file f0 (\<lambda>f. f\<lparr>f_count := 0\<rparr>)
                                (set_filp fd1 None (set_filp fd0 None s))))
              | (Some n, s) \<Rightarrow>
                  (0, put_fs_long (of_nat fd0) fildes @ put_fs_long (of_nat fd1) (fildes + 4),
                   upd_file f1 (\<lambda>f. f\<lparr>f_inode := Some n, f_pos := 0, f_dev := 0, f_mode := 2\<rparr>)
                     (upd_file f0 (\<lambda>f. f\<lparr>f_inode := Some n, f_pos := 0, f_dev := 0, f_mode := 1\<rparr>) s)))"

subsection \<open>The page is a queue of at most 4095 bytes\<close>

definition pipe_ok :: "nat \<Rightarrow> 'z fs_state_scheme \<Rightarrow> bool" where
  "pipe_ok n s \<longleftrightarrow> unat (PIPE_HEAD (inode_table s n)) < PAGE_SIZE \<and> unat (PIPE_TAIL (inode_table s n)) < PAGE_SIZE"

definition pipe_len :: "m_inode \<Rightarrow> nat" where
  "pipe_len ip = nat ((int (unat (PIPE_HEAD ip)) - int (unat (PIPE_TAIL ip))) mod int PAGE_SIZE)"

definition pipe_cont :: "nat \<Rightarrow> 'z fs_state_scheme \<Rightarrow> byte list" where
  "pipe_cont n s = ring_list PAGE_SIZE (ram s (unat (i_size (inode_table s n)) div PAGE_SIZE))
     (unat (PIPE_TAIL (inode_table s n))) (pipe_len (inode_table s n))"

lemma page_mask: "w AND (of_nat PAGE_SIZE - 1) = take_bit 12 (w :: u32)"
  by (simp add: PAGE_SIZE_def take_bit_eq_mask mask_eq_exp_minus_1)

lemma uint_PIPE_SIZE: "uint (PIPE_SIZE ip) = (int (unat (PIPE_HEAD ip)) - int (unat (PIPE_TAIL ip))) mod int PAGE_SIZE"
proof -
  have "uint (PIPE_SIZE ip) = take_bit 12 (uint (ucast (PIPE_HEAD ip) - ucast (PIPE_TAIL ip) :: u32))"
    unfolding PIPE_SIZE_def page_mask by (simp add: unsigned_take_bit_eq)
  also have "uint (ucast (PIPE_HEAD ip) - ucast (PIPE_TAIL ip) :: u32) = take_bit 32 (uint (PIPE_HEAD ip) - uint (PIPE_TAIL ip))"
    by (simp add: uint_word_ariths take_bit_eq_mod unsigned_ucast_eq mod_simps)
  finally show ?thesis by (simp add: take_bit_eq_mod PAGE_SIZE_def mod_mod_cancel)
qed

lemma pipe_len_lt: "pipe_len ip < PAGE_SIZE"
  by (simp add: pipe_len_def PAGE_SIZE_def nat_less_iff)

lemma pipe_len_uint: "int (pipe_len ip) = uint (PIPE_SIZE ip)"
  unfolding pipe_len_def uint_PIPE_SIZE by (simp add: PAGE_SIZE_def)

lemma PIPE_FULL_len: "PIPE_FULL ip \<longleftrightarrow> pipe_len ip = PAGE_SIZE - 1"
proof -
  have "PIPE_FULL ip \<longleftrightarrow> uint (PIPE_SIZE ip) = 4095"
    by (simp add: PIPE_FULL_def PAGE_SIZE_def word_uint_eq_iff)
  then show ?thesis unfolding pipe_len_uint [symmetric] by (simp add: PAGE_SIZE_def)
qed

lemma unat_INC_PIPE: "unat p < PAGE_SIZE \<Longrightarrow> unat (INC_PIPE p) = (unat p + 1) mod PAGE_SIZE"
proof -
  assume p: "unat p < PAGE_SIZE"
  have "unat (ucast p + 1 :: u32) = unat p + 1"
    using p by (simp add: unat_word_ariths unsigned_ucast_eq take_bit_eq_mod PAGE_SIZE_def)
  then have u: "unat (take_bit 12 (ucast p + 1 :: u32)) = (unat p + 1) mod PAGE_SIZE"
    unfolding unsigned_take_bit_eq by (simp add: take_bit_eq_mod PAGE_SIZE_def)
  have "(unat p + 1) mod PAGE_SIZE < 65536" by (simp add: PAGE_SIZE_def)
  then show ?thesis unfolding INC_PIPE_def page_mask unsigned_ucast_eq u by (simp add: take_bit_nat_eq_self_iff)
qed

lemma ring_head:
  assumes "(h :: nat) < n" "t < n"
  shows "(t + nat ((int h - int t) mod int n)) mod n = h"
proof -
  have "int ((t + nat ((int h - int t) mod int n)) mod n) = (int t + (int h - int t) mod int n) mod int n"
    using assms by (simp add: zmod_int)
  also have "\<dots> = int h" using assms by (simp add: mod_simps)
  finally show ?thesis by simp
qed

lemma ring_empty: "(h :: nat) < n \<Longrightarrow> t < n \<Longrightarrow> h = t \<longleftrightarrow> nat ((int h - int t) mod int n) = 0"
  using ring_head [of h n t] by auto

lemma ring_len_put:
  assumes "(h :: nat) < n" "t < n" "nat ((int h - int t) mod int n) < n - 1"
  shows "nat ((int ((h + 1) mod n) - int t) mod int n) = Suc (nat ((int h - int t) mod int n))"
proof -
  let ?d = "(int h - int t) mod int n"
  have "0 \<le> ?d" using assms by simp
  have "(int ((h + 1) mod n) - int t) mod int n = (?d + 1) mod int n" by (simp add: zmod_int mod_simps algebra_simps)
  also have "\<dots> = ?d + 1" using assms \<open>0 \<le> ?d\<close> by (intro mod_pos_pos_trivial) linarith+
  finally show ?thesis using \<open>0 \<le> ?d\<close> by simp
qed

lemma ring_len_get:
  assumes "(h :: nat) < n" "t < n" "h \<noteq> t"
  shows "Suc (nat ((int h - int ((t + 1) mod n)) mod int n)) = nat ((int h - int t) mod int n)"
proof -
  let ?d = "(int h - int t) mod int n"
  have "?d \<noteq> 0"
  proof
    assume "?d = 0"
    with ring_head [OF assms(1,2)] assms show False by simp
  qed
  moreover have "0 \<le> ?d" "?d < int n" using assms by simp_all
  moreover have "(int h - int ((t + 1) mod n)) mod int n = (?d - 1) mod int n" by (simp add: zmod_int mod_simps algebra_simps)
  ultimately show ?thesis by simp
qed

lemma pipe_put_inode: "inode_table (pipe_put n c s) = (inode_table s)(n := (inode_table s n)\<lparr>i_zone :=
    (i_zone (inode_table s n))(0 := INC_PIPE (PIPE_HEAD (inode_table s n)))\<rparr>)"
  "ram (pipe_put n c s) = (let pg = unat (i_size (inode_table s n)) div PAGE_SIZE
    in (ram s)(pg := (ram s pg)(unat (PIPE_HEAD (inode_table s n)) := c)))"
  by (simp_all add: pipe_put_def Let_def upd_inode_def)

lemma pipe_get_inode: "inode_table (snd (pipe_get n s)) = (inode_table s)(n := (inode_table s n)\<lparr>i_zone :=
    (i_zone (inode_table s n))(1 := INC_PIPE (PIPE_TAIL (inode_table s n)))\<rparr>)"
  "ram (snd (pipe_get n s)) = ram s"
  "fst (pipe_get n s) = ram s (unat (i_size (inode_table s n)) div PAGE_SIZE) (unat (PIPE_TAIL (inode_table s n)))"
  by (simp_all add: pipe_get_def Let_def upd_inode_def)

lemma PIPE_EMPTY_cont: "pipe_ok n s \<Longrightarrow> PIPE_EMPTY (inode_table s n) \<longleftrightarrow> pipe_cont n s = []"
proof -
  assume ok: "pipe_ok n s"
  let ?h = "unat (PIPE_HEAD (inode_table s n))" and ?t = "unat (PIPE_TAIL (inode_table s n))"
  have "PIPE_EMPTY (inode_table s n) \<longleftrightarrow> ?h = ?t" by (simp add: PIPE_EMPTY_def word_unat_eq_iff)
  also have "\<dots> \<longleftrightarrow> pipe_len (inode_table s n) = 0"
    unfolding pipe_len_def by (rule ring_empty) (use ok in \<open>simp_all add: pipe_ok_def\<close>)
  also have "\<dots> \<longleftrightarrow> pipe_cont n s = []" by (metis length_0_conv length_ring_list pipe_cont_def)
  finally show ?thesis .
qed

lemma length_pipe_cont: "length (pipe_cont n s) = pipe_len (inode_table s n)"
  by (simp add: pipe_cont_def)

interpretation pipe: byte_queue "pipe_ok n" "pipe_cont n" "PAGE_SIZE - 1" "pipe_put n" "pipe_get n" for n
proof unfold_locales
  fix s :: "'z fs_state_scheme" and c
  assume ok: "pipe_ok n s"
  let ?ip = "inode_table s n"
  let ?h = "unat (PIPE_HEAD ?ip)" and ?t = "unat (PIPE_TAIL ?ip)" and ?pg = "unat (i_size ?ip) div PAGE_SIZE"
  from ok have h: "?h < PAGE_SIZE" and t: "?t < PAGE_SIZE" by (simp_all add: pipe_ok_def)
  have z: "0 < PAGE_SIZE" by (simp add: PAGE_SIZE_def)
  show "pipe_ok n (pipe_put n c s) \<and> pipe_cont n (pipe_put n c s) = pipe_cont n s @ [c]" if lt: "length (pipe_cont n s) < PAGE_SIZE - 1"
  proof
    let ?ip' = "inode_table (pipe_put n c s) n"
    have ip': "unat (PIPE_HEAD ?ip') = (?h + 1) mod PAGE_SIZE" "PIPE_TAIL ?ip' = PIPE_TAIL ?ip" "i_size ?ip' = i_size ?ip"
      using unat_INC_PIPE [OF h] by (simp_all add: pipe_put_inode PIPE_HEAD_def PIPE_TAIL_def)
    show "pipe_ok n (pipe_put n c s)" using t z by (simp add: pipe_ok_def ip')
    have len: "pipe_len ?ip < PAGE_SIZE - 1" using lt by (simp add: length_pipe_cont)
    then have len': "pipe_len ?ip' = Suc (pipe_len ?ip)" unfolding pipe_len_def ip' by (rule ring_len_put [OF h t])
    have at: "(?t + pipe_len ?ip) mod PAGE_SIZE = ?h" unfolding pipe_len_def by (rule ring_head [OF h t])
    have r: "ram (pipe_put n c s) ?pg = (ram s ?pg)((?t + pipe_len ?ip) mod PAGE_SIZE := c)" by (simp add: pipe_put_inode Let_def at)
    show "pipe_cont n (pipe_put n c s) = pipe_cont n s @ [c]"
      unfolding pipe_cont_def ip' len' r by (rule ring_list_put) (use len in simp)
  qed
  show "pipe_ok n (snd (pipe_get n s)) \<and> fst (pipe_get n s) = hd (pipe_cont n s) \<and> pipe_cont n (snd (pipe_get n s)) = tl (pipe_cont n s)"
    if ne: "pipe_cont n s \<noteq> []"
  proof -
    let ?ip' = "inode_table (snd (pipe_get n s)) n"
    have ip': "unat (PIPE_TAIL ?ip') = (?t + 1) mod PAGE_SIZE" "PIPE_HEAD ?ip' = PIPE_HEAD ?ip" "i_size ?ip' = i_size ?ip"
      using unat_INC_PIPE [OF t] by (simp_all add: pipe_get_inode PIPE_HEAD_def PIPE_TAIL_def)
    have "?h \<noteq> ?t" using PIPE_EMPTY_cont [OF ok] ne by (simp add: PIPE_EMPTY_def word_unat_eq_iff)
    then have len: "pipe_len ?ip = Suc (pipe_len ?ip')" unfolding pipe_len_def ip' by (rule ring_len_get [OF h t, symmetric])
    have c: "pipe_cont n s = fst (pipe_get n s) # pipe_cont n (snd (pipe_get n s))"
      unfolding pipe_cont_def len ring_list_Suc ip' pipe_get_inode(2,3) using t by simp
    have "pipe_ok n (snd (pipe_get n s))" using h z by (simp add: pipe_ok_def ip')
    with c show ?thesis by simp
  qed
qed

subsection \<open>Reading and writing a pipe\<close>

lemma upd_task_inodes [simp]: "inode_table (upd_task p f s) = inode_table s" "ram (upd_task p f s) = ram s"
  by (simp_all add: upd_task_def)

lemma pipe_wake_inode: "inode_table (pipe_wake n s) = (inode_table s)(n := (inode_table s n)\<lparr>i_wait := 0\<rparr>)" "ram (pipe_wake n s) = ram s"
  by (simp_all add: pipe_wake_def wake_up_def Let_def upd_inode_def)

lemma pipe_wake_simps [simp]: "pipe_ok n (pipe_wake n s) = pipe_ok n s" "pipe_cont n (pipe_wake n s) = pipe_cont n s"
  "i_count (inode_table (pipe_wake n s) n) = i_count (inode_table s n)"
  by (simp_all add: pipe_ok_def pipe_cont_def pipe_len_def pipe_wake_inode PIPE_HEAD_def PIPE_TAIL_def)

lemma pipe_take_spec:
  assumes "pipe_ok n s"
  shows "pipe_ok n (snd (pipe_take n k s)) \<and> fst (pipe_take n k s) = take k (pipe_cont n s) \<and>
    pipe_cont n (snd (pipe_take n k s)) = drop k (pipe_cont n s)"
  using assms
proof (induction k arbitrary: s)
  case (Suc k)
  show ?case
  proof (cases "pipe_cont n s")
    case Nil
    then show ?thesis using Suc.prems PIPE_EMPTY_cont [OF Suc.prems] by simp
  next
    case (Cons c cs)
    with pipe.get [OF Suc.prems] have g: "pipe_ok n (snd (pipe_get n s))" "fst (pipe_get n s) = c" "pipe_cont n (snd (pipe_get n s)) = cs" by simp_all
    show ?thesis using Suc.IH [OF g(1)] g PIPE_EMPTY_cont [OF Suc.prems] Cons by (simp add: Let_def split_beta)
  qed
qed simp

lemma pipe_room_ready: "length (pipe_cont n s) < PAGE_SIZE - 1 \<Longrightarrow> pipe_room es n s = Some (True, es, s)"
  by (subst pipe_room.simps) (simp add: PIPE_FULL_len length_pipe_cont)

lemma pipe_fill_spec:
  assumes "pipe_ok n s" "length (pipe_cont n s) + k \<le> PAGE_SIZE - 1"
  shows "\<exists>s'. pipe_fill um buf n b k es s = Some (int (b + k), s') \<and> pipe_ok n s' \<and>
    pipe_cont n s' = pipe_cont n s @ map (\<lambda>j. um (buf + of_nat j)) [b..<b + k]"
  using assms
proof (induction k arbitrary: b s)
  case (Suc k)
  from Suc.prems have lt: "length (pipe_cont n s) < PAGE_SIZE - 1" by simp
  let ?c = "um (buf + of_nat b)" let ?s1 = "pipe_wake n (pipe_put n ?c s)"
  from pipe.put [OF Suc.prems(1) lt] have p: "pipe_ok n ?s1" "pipe_cont n ?s1 = pipe_cont n s @ [?c]" by simp_all
  then have "length (pipe_cont n ?s1) + k \<le> PAGE_SIZE - 1" using Suc.prems(2) by simp
  from Suc.IH [OF p(1) this, of "Suc b"] obtain s' where s': "pipe_fill um buf n (Suc b) k es ?s1 = Some (int (Suc b + k), s')"
    "pipe_ok n s'" "pipe_cont n s' = (pipe_cont n s @ [?c]) @ map (\<lambda>j. um (buf + of_nat j)) [Suc b..<Suc b + k]"
    unfolding p(2) by blast
  have "[b..<b + Suc k] = b # [Suc b..<Suc b + k]" using upt_conv_Cons [of b "b + Suc k"] by simp
  then have "pipe_cont n s' = pipe_cont n s @ map (\<lambda>j. um (buf + of_nat j)) [b..<b + Suc k]" unfolding s'(3) by simp
  with s'(1,2) show ?case by (simp add: pipe_room_ready [OF lt])
qed simp

lemma write_pipe_room:
  assumes "pipe_ok n s" "i_count (inode_table s n) = 2" "0 \<le> count" "length (pipe_cont n s) + nat count \<le> PAGE_SIZE - 1"
  shows "\<exists>s'. write_pipe um es n buf count s = Some (count, s') \<and> pipe_ok n s' \<and>
    pipe_cont n s' = pipe_cont n s @ map (\<lambda>j. um (buf + of_nat j)) [0..<nat count]"
  using pipe_fill_spec [of n "pipe_wake n s" "nat count" um buf 0 es] assms by (simp add: write_pipe_def)

lemma read_pipe_data:
  assumes "pipe_ok n s" "pipe_cont n s \<noteq> []"
  shows "\<exists>s'. read_pipe es n count s = Some (take (nat count) (pipe_cont n s), s') \<and> pipe_ok n s' \<and>
    pipe_cont n s' = drop (nat count) (pipe_cont n s)"
proof -
  have "pipe_data es n s = Some (True, s)" using PIPE_EMPTY_cont [OF assms(1)] assms(2) by (subst pipe_data.simps) simp
  with pipe_take_spec [OF assms(1), of "nat count"] show ?thesis by (simp add: read_pipe_def split_beta)
qed

text \<open>A machine with one task and an empty pipe in slot 1 of the inode table, for the witnesses.\<close>

definition empty_pipe :: "'z \<Rightarrow> 'z sys_state_scheme" where
  "empty_pipe m = upd_inode 1 (\<lambda>ip. ip\<lparr>i_count := 2, i_pipe := True, i_size := 0x200000\<rparr>) (one_task m)"

lemma one_task_inode: "inode_table (one_task m) = inode_table (boot_sys m)"
  by (simp add: one_task_def sched_init_early_def)

lemma boot_sys_inode: "inode_table (boot_sys m) 1 = zero_inode"
  by (simp add: boot_sys_def boot_tty_def empty_dir_inode)

lemma empty_pipe_two: "i_count (inode_table (empty_pipe m) 2) = 0" "i_wait (inode_table (empty_pipe m) 2) = 0"
  by (simp_all add: empty_pipe_def upd_inode_def one_task_inode boot_sys_def boot_tty_def empty_dir_inode zero_inode_def)

lemma empty_pipe_facts: "inode_table (empty_pipe m) 1 = zero_inode\<lparr>i_count := 2, i_pipe := True, i_size := 0x200000\<rparr>"
  "pipe_ok 1 (empty_pipe m)" "pipe_cont 1 (empty_pipe m) = []" "prio_ok (empty_pipe m)"
proof -
  show i: "inode_table (empty_pipe m) 1 = zero_inode\<lparr>i_count := 2, i_pipe := True, i_size := 0x200000\<rparr>"
    unfolding empty_pipe_def upd_inode_def by (simp add: one_task_inode boot_sys_inode del: One_nat_def)
  show "pipe_ok 1 (empty_pipe m)" unfolding pipe_ok_def i by (simp add: PIPE_HEAD_def PIPE_TAIL_def zero_inode_def PAGE_SIZE_def)
  have "pipe_len (inode_table (empty_pipe m) 1) = 0"
    unfolding i by (simp add: pipe_len_def PIPE_HEAD_def PIPE_TAIL_def zero_inode_def)
  then show "pipe_cont 1 (empty_pipe m) = []" unfolding pipe_cont_def by simp
  show "prio_ok (empty_pipe m)" using one_task_prio [of m] by (simp add: prio_ok_def empty_pipe_def upd_inode_def)
qed

text \<open>
  C31. A pipe is a first-in-first-out queue of at most 4095 bytes: a write that fits, with both ends open, stores all
  its bytes behind those already there without sleeping, and a read from a pipe that is not empty returns, again
  without sleeping, the oldest bytes, as many as were asked for or as there are, and leaves exactly the rest.
\<close>

theorem pipe_fifo:
  fixes s :: "'z fs_state_scheme"
  assumes "pipe_ok n s" and "i_count (inode_table s n) = 2" and "0 \<le> count"
    and "length (pipe_cont n s) + nat count \<le> PAGE_SIZE - 1" and "0 < length (pipe_cont n s) + nat count"
  shows "\<exists>s1 s2. write_pipe um es n buf count s = Some (count, s1) \<and>
    (let q = pipe_cont n s @ map (\<lambda>j. um (buf + of_nat j)) [0..<nat count]
     in read_pipe es' n count' s1 = Some (take (nat count') q, s2) \<and> pipe_cont n s2 = drop (nat count') q)"
proof -
  let ?q = "pipe_cont n s @ map (\<lambda>j. um (buf + of_nat j)) [0..<nat count]"
  from write_pipe_room [OF assms(1-4)] obtain s1 where s1: "write_pipe um es n buf count s = Some (count, s1)" "pipe_ok n s1"
    "pipe_cont n s1 = ?q" by blast
  have "length ?q > 0" using assms(5) by simp
  then have "?q \<noteq> []" by (rule length_greater_0_conv [THEN iffD1])
  with read_pipe_data [OF s1(2), of es' count'] s1(1,3) show ?thesis unfolding Let_def by auto
qed

theorem pipe_fifo_witness:
  "\<exists>s1 s2. write_pipe ((\<lambda>_. 0)(0x1000 := 104, 0x1001 := 105)) [] 1 0x1000 2 (empty_pipe ()) = Some (2, s1) \<and>
     read_pipe [] 1 1 s1 = Some ([104], s2) \<and> pipe_cont 1 s2 = [105]"
  using pipe_fifo [of 1 "empty_pipe ()" 2 "(\<lambda>_. 0)(0x1000 := 104, 0x1001 := 105)" "[]" "0x1000" "[]" 1]
  by (simp add: empty_pipe_facts [simplified] zero_inode_def PAGE_SIZE_def Let_def upt_rec numeral_2_eq_2)

text \<open>
  C33. Writing to a pipe whose other end is closed returns -1 and posts a signal, but not \<open>SIGPIPE\<close>: the bit set in the
  pending set is the one of signal 12, \<open>SIGUSR2\<close>, since the rest of the kernel numbers the bits by the signal itself.
  The pipe's contents do not change.
\<close>

theorem write_pipe_broken:
  fixes s :: "'z fs_state_scheme"
  assumes "i_count (inode_table s n) \<noteq> 2" and "i_wait (inode_table s n) = 0"
  shows "\<exists>s'. write_pipe um es n buf count s = Some (-1, s') \<and> t_signal (cur s') = t_signal (cur s) OR sig_bit SIGUSR2 \<and>
    (bit (t_signal (cur s')) SIGPIPE \<longleftrightarrow> bit (t_signal (cur s)) SIGPIPE) \<and> pipe_cont n s' = pipe_cont n s"
proof -
  let ?s' = "raise_sigpipe (pipe_wake n s)"
  have w: "tstruct (pipe_wake n s) = tstruct s" "current (pipe_wake n s) = current s" using assms(2) by (simp_all add: pipe_wake_def)
  have "write_pipe um es n buf count s = Some (-1, ?s')" using assms by (simp add: write_pipe_def)
  moreover have "t_signal (cur ?s') = t_signal (cur s) OR sig_bit SIGUSR2" by (simp add: raise_sigpipe_def w sig_consts)
  moreover have "pipe_cont n ?s' = pipe_cont n (pipe_wake n s)" by (simp add: pipe_cont_def raise_sigpipe_def)
  ultimately show ?thesis by (simp add: sig_bit_def bit_simps sig_consts)
qed

theorem write_pipe_broken_witness:
  "\<exists>s'. write_pipe (\<lambda>_. 0) [] 2 0x1000 5 (empty_pipe ()) = Some (-1, s') \<and> bit (t_signal (cur s')) SIGUSR2"
  using write_pipe_broken [of "empty_pipe ()" 2 "\<lambda>_. 0" "[]" "0x1000" 5]
  by (auto simp: empty_pipe_two sig_bit_def bit_simps sig_consts)

subsection \<open>A reader waits for a writer\<close>

lemma pipe_sleep_spec:
  fixes s :: "'z fs_state_scheme"
  assumes "prio_ok s"
  obtains t where "pipe_sleep e n s = Some (sleep_on_resumed (i_wait (inode_table s n)) (e t))"
    "inode_table t = (inode_table s)(n := (inode_table s n)\<lparr>i_wait := current s\<rparr>)" "ram t = ram s"
    "t_state (tstruct t (current s)) = TASK_UNINTERRUPTIBLE"
proof -
  let ?u = "upd_inode n (\<lambda>ip. ip\<lparr>i_wait := current s\<rparr>) (upd_cur (\<lambda>t. t\<lparr>t_state := TASK_UNINTERRUPTIBLE\<rparr>) s)"
  have "prio_ok ?u" using assms unfolding prio_ok_def upd_inode_def by auto
  then obtain tk m cf c where S: "schedule ?u = Some ((with_counters cf (?u\<lparr>task := tk, mem_map := m\<rparr>))\<lparr>current := c\<rparr>)"
    by (rule schedule_spec)
  show ?thesis
    by (rule that [where t = "(with_counters cf (?u\<lparr>task := tk, mem_map := m\<rparr>))\<lparr>current := c\<rparr>"])
       (simp_all add: pipe_sleep_def sleep_on_def S, simp_all add: upd_inode_def)
qed

lemma sleep_on_resumed_frame [simp]: "inode_table (sleep_on_resumed tmp s) = inode_table s" "ram (sleep_on_resumed tmp s) = ram s"
  by (simp_all add: sleep_on_resumed_def)

definition after_write :: "umem \<Rightarrow> nat \<Rightarrow> u32 \<Rightarrow> int \<Rightarrow> 'z fs_state_scheme \<Rightarrow> 'z fs_state_scheme" where
  "after_write um n buf count t = (case write_pipe um [] n buf count t of Some (_, t') \<Rightarrow> t' | None \<Rightarrow> t)"



end
