(* ===== verification/Lib.thy ===== *)
theory Lib
  imports Prelude
begin

text \<open>
  The C library the kernel carries: \<open>lib/string.c\<close>, \<open>lib/ctype.c\<close> and \<open>lib/malloc.c\<close>. Memory is a function from
  addresses to bytes and a pointer is a 32-bit address, so that source and destination may overlap. Lengths are
  natural numbers; a search for a terminating 0 that never comes is \<open>None\<close>.
\<close>

type_synonym mem = "u32 \<Rightarrow> byte"

subsection \<open>Strings\<close>

partial_function (option) strcpy_loop :: "mem \<Rightarrow> u32 \<Rightarrow> u32 \<Rightarrow> mem option" where
  "strcpy_loop m dest src =
     (let c = m src; m = m(dest := c) in if c = 0 then Some m else strcpy_loop m (dest + 1) (src + 1))"

definition strcpy :: "u32 \<Rightarrow> u32 \<Rightarrow> mem \<Rightarrow> (u32 \<times> mem) option" where
  "strcpy dest src m = do { m \<leftarrow> strcpy_loop m dest src; Some (dest, m) }"

primrec zero_fill :: "mem \<Rightarrow> u32 \<Rightarrow> nat \<Rightarrow> mem" where
  "zero_fill m p 0 = m"
| "zero_fill m p (Suc n) = zero_fill (m(p := 0)) (p + 1) n"

primrec strncpy_loop :: "mem \<Rightarrow> u32 \<Rightarrow> u32 \<Rightarrow> nat \<Rightarrow> mem" where
  "strncpy_loop m dest src 0 = m"
| "strncpy_loop m dest src (Suc n) =
     (if m src = 0 then zero_fill m dest (Suc n) else strncpy_loop (m(dest := m src)) (dest + 1) (src + 1) n)"

definition strncpy :: "u32 \<Rightarrow> u32 \<Rightarrow> nat \<Rightarrow> mem \<Rightarrow> u32 \<times> mem" where
  "strncpy dest src n m = (dest, strncpy_loop m dest src n)"

partial_function (option) strcmp :: "u32 \<Rightarrow> u32 \<Rightarrow> mem \<Rightarrow> int option" where
  "strcmp s1 s2 m =
     (if m s1 \<noteq> 0 \<and> m s1 = m s2 then strcmp (s1 + 1) (s2 + 1) m else Some (uint (m s1) - uint (m s2)))"

primrec strncmp :: "u32 \<Rightarrow> u32 \<Rightarrow> nat \<Rightarrow> mem \<Rightarrow> int" where
  "strncmp s1 s2 0 m = 0"
| "strncmp s1 s2 (Suc n) m =
     (if m s1 \<noteq> 0 \<and> m s1 = m s2 then strncmp (s1 + 1) (s2 + 1) n m else uint (m s1) - uint (m s2))"

partial_function (option) str_end :: "u32 \<Rightarrow> mem \<Rightarrow> u32 option" where
  "str_end s m = (if m s = 0 then Some s else str_end (s + 1) m)"

definition strcat :: "u32 \<Rightarrow> u32 \<Rightarrow> mem \<Rightarrow> (u32 \<times> mem) option" where
  "strcat dest src m = do { e \<leftarrow> str_end dest m; m \<leftarrow> strcpy_loop m e src; Some (dest, m) }"

partial_function (option) strlen_loop :: "u32 \<Rightarrow> nat \<Rightarrow> mem \<Rightarrow> nat option" where
  "strlen_loop s len m = (if m s = 0 then Some len else strlen_loop (s + 1) (Suc len) m)"

definition strlen :: "u32 \<Rightarrow> mem \<Rightarrow> nat option" where
  "strlen s m = strlen_loop s 0 m"

partial_function (option) strchr :: "u32 \<Rightarrow> byte \<Rightarrow> mem \<Rightarrow> u32 option" where
  "strchr s c m = (if m s = 0 then Some 0 else if m s = c then Some s else strchr (s + 1) c m)"

partial_function (option) strrchr_loop :: "u32 \<Rightarrow> byte \<Rightarrow> u32 \<Rightarrow> mem \<Rightarrow> u32 option" where
  "strrchr_loop s c found m =
     (if m s = 0 then Some found else strrchr_loop (s + 1) c (if m s = c then s else found) m)"

definition strrchr :: "u32 \<Rightarrow> byte \<Rightarrow> mem \<Rightarrow> u32 option" where
  "strrchr s c m = strrchr_loop s c 0 m"

subsection \<open>Memory blocks\<close>

primrec copy_up :: "u32 \<Rightarrow> u32 \<Rightarrow> nat \<Rightarrow> mem \<Rightarrow> mem" where
  "copy_up d s 0 m = m"
| "copy_up d s (Suc n) m = copy_up (d + 1) (s + 1) n (m(d := m s))"

definition memcpy :: "u32 \<Rightarrow> u32 \<Rightarrow> nat \<Rightarrow> mem \<Rightarrow> u32 \<times> mem" where
  "memcpy dest src n m = (dest, copy_up dest src n m)"

primrec fill_up :: "u32 \<Rightarrow> byte \<Rightarrow> nat \<Rightarrow> mem \<Rightarrow> mem" where
  "fill_up p c 0 m = m"
| "fill_up p c (Suc n) m = fill_up (p + 1) c n (m(p := c))"

definition memset :: "u32 \<Rightarrow> byte \<Rightarrow> nat \<Rightarrow> mem \<Rightarrow> u32 \<times> mem" where
  "memset p c n m = (p, fill_up p c n m)"

primrec memcmp :: "u32 \<Rightarrow> u32 \<Rightarrow> nat \<Rightarrow> mem \<Rightarrow> int" where
  "memcmp p1 p2 0 m = 0"
| "memcmp p1 p2 (Suc n) m =
     (if m p1 \<noteq> m p2 then uint (m p1) - uint (m p2) else memcmp (p1 + 1) (p2 + 1) n m)"

primrec copy_down :: "u32 \<Rightarrow> u32 \<Rightarrow> nat \<Rightarrow> mem \<Rightarrow> mem" where
  "copy_down d s 0 m = m"
| "copy_down d s (Suc n) m = copy_down (d - 1) (s - 1) n (m(d - 1 := m (s - 1)))"

definition memmove :: "u32 \<Rightarrow> u32 \<Rightarrow> nat \<Rightarrow> mem \<Rightarrow> u32 \<times> mem" where
  "memmove dest src n m =
     (dest, if dest < src then copy_up dest src n m else copy_down (dest + of_nat n) (src + of_nat n) n m)"

subsection \<open>Character classes\<close>

definition isdigit :: "int \<Rightarrow> bool" where "isdigit c \<longleftrightarrow> 48 \<le> c \<and> c \<le> 57"
definition isspace :: "int \<Rightarrow> bool" where "isspace c \<longleftrightarrow> c = 32 \<or> c = 9 \<or> c = 10 \<or> c = 13"
definition isalpha :: "int \<Rightarrow> bool" where "isalpha c \<longleftrightarrow> 97 \<le> c \<and> c \<le> 122 \<or> 65 \<le> c \<and> c \<le> 90"
definition isalnum :: "int \<Rightarrow> bool" where "isalnum c \<longleftrightarrow> isalpha c \<or> isdigit c"
definition isupper :: "int \<Rightarrow> bool" where "isupper c \<longleftrightarrow> 65 \<le> c \<and> c \<le> 90"
definition islower :: "int \<Rightarrow> bool" where "islower c \<longleftrightarrow> 97 \<le> c \<and> c \<le> 122"
definition tolower :: "int \<Rightarrow> int" where "tolower c = (if isupper c then c + 32 else c)"
definition toupper :: "int \<Rightarrow> int" where "toupper c = (if islower c then c - 32 else c)"

subsection \<open>The kernel heap\<close>

definition KERNEL_HEAP_START :: u32 where "KERNEL_HEAP_START = 0x0030000"
definition KERNEL_HEAP_END :: u32 where "KERNEL_HEAP_END = 0x0040000"

text \<open>The heap is its bump pointer, 0 before the first call.\<close>

definition malloc :: "u32 \<Rightarrow> u32 \<Rightarrow> u32 \<times> u32" where
  "malloc sz heap_end =
     (let heap_end = (if heap_end = 0 then KERNEL_HEAP_START else heap_end);
          sz = (sz + 7) AND NOT 7
      in if heap_end + sz > KERNEL_HEAP_END then (0, heap_end) else (heap_end, heap_end + sz))"

subsection \<open>Overlapping copies\<close>

lemma unat_diff_succ: "a \<noteq> d \<Longrightarrow> unat (a - (d + 1) :: u32) = unat (a - d) - 1"
proof -
  assume "a \<noteq> d"
  then have "a - d \<noteq> 0" by simp
  then have "unat ((a - d) - 1) = unat (a - d) - 1" by (metis One_nat_def unat_minus_one)
  then show ?thesis by (simp add: algebra_simps)
qed

lemma copy_up_spec:
  assumes "d = s \<or> n \<le> unat (d - s)" "n < 2 ^ 32"
  shows "copy_up d s n m a = (if unat (a - d) < n then m (s + (a - d)) else m a)"
  using assms
proof (induction n arbitrary: d s m)
  case (Suc n)
  have "d + 1 = s + 1 \<or> n \<le> unat ((d + 1) - (s + 1))" using Suc.prems by auto
  with Suc have IH: "copy_up (d + 1) (s + 1) n (m(d := m s)) a =
    (if unat (a - (d + 1)) < n then (m(d := m s)) (s + 1 + (a - (d + 1))) else (m(d := m s)) a)" by simp
  show ?case
  proof (cases "a = d")
    case True
    have "unat (- 1 :: u32) = 2 ^ 32 - 1" by (simp add: unsigned_minus_1_eq_mask mask_eq_exp_minus_1)
    then show ?thesis using IH True Suc.prems by simp
  next
    case False
    have u: "unat (a - (d + 1)) < n \<longleftrightarrow> unat (a - d) < Suc n" using unat_diff_succ [OF False] unat_gt_0 [of "a - d"] False by auto
    have "s + (a - d) \<noteq> d" if "unat (a - d) < Suc n"
    proof
      assume e: "s + (a - d) = d"
      then have "a - d = d - s" by (simp add: algebra_simps)
      with that Suc.prems(1) e False show False by auto
    qed
    moreover have "s + 1 + (a - (d + 1)) = s + (a - d)" by simp
    ultimately show ?thesis using IH u False by simp
  qed
qed simp

lemma copy_down_spec:
  assumes "d = s \<or> n \<le> unat (s - d)" "n < 2 ^ 32"
  shows "copy_down (d + of_nat n) (s + of_nat n) n m a = (if unat (a - d) < n then m (s + (a - d)) else m a)"
  using assms
proof (induction n arbitrary: m)
  case (Suc n)
  let ?e = "d + of_nat n" and ?f = "s + of_nat n"
  from Suc have IH: "copy_down ?e ?f n (m(?e := m ?f)) a =
    (if unat (a - d) < n then (m(?e := m ?f)) (s + (a - d)) else (m(?e := m ?f)) a)" by auto
  have l: "copy_down (d + of_nat (Suc n)) (s + of_nat (Suc n)) (Suc n) m a = copy_down ?e ?f n (m(?e := m ?f)) a"
    by (simp add: algebra_simps)
  show ?case
  proof (cases "a = ?e")
    case True
    then have "a - d = of_nat n" by simp
    then have "unat (a - d) = n" using Suc.prems by (simp add: unat_of_nat)
    then show ?thesis using IH l True by simp
  next
    case False
    have ne: "unat (a - d) \<noteq> n"
    proof
      assume "unat (a - d) = n"
      then have "a - d = of_nat n" by (metis of_nat_unat ucast_id)
      with False show False by (simp add: algebra_simps)
    qed
    have "s + (a - d) \<noteq> ?e" if "unat (a - d) < n"
    proof
      assume e: "s + (a - d) = ?e"
      then have sd: "s - d = of_nat n - (a - d)" by (simp add: algebra_simps)
      have "a - d \<le> of_nat n" using that Suc.prems by (simp add: word_le_nat_alt unat_of_nat)
      then have "unat (s - d) = n - unat (a - d)" unfolding sd using Suc.prems by (simp add: unat_sub unat_of_nat)
      with that Suc.prems(1) show False by auto
    qed
    with IH l False ne show ?thesis by auto
  qed
qed simp

lemma unat_diff_wrap: "(d :: u32) < s \<Longrightarrow> unat (d - s) = 2 ^ 32 - (unat s - unat d)"
  by (simp add: unat_sub_if_size word_size word_less_nat_alt not_le)

text \<open>
  C38. \<open>memmove\<close> moves a block as if through a temporary copy, for any overlap of source and destination that stays
  inside the address space, and changes nothing outside the destination.
\<close>

theorem memmove_moves:
  assumes "unat dest + n \<le> 2 ^ 32" and "unat src + n \<le> 2 ^ 32" and "n < 2 ^ 32"
  shows "memmove dest src n m = (dest, \<lambda>a. if unat (a - dest) < n then m (src + (a - dest)) else m a)"
proof (cases "dest < src")
  case True
  then have "n \<le> unat (dest - src)" using assms unfolding unat_diff_wrap [OF True] by (simp add: word_less_nat_alt)
  with True copy_up_spec [of dest src n m] assms(3) show ?thesis by (simp add: memmove_def fun_eq_iff)
next
  case False
  have "dest = src \<or> n \<le> unat (src - dest)"
  proof (cases "dest = src")
    case ne: False
    with False have lt: "src < dest" by simp
    then have "n \<le> unat (src - dest)" using assms unfolding unat_diff_wrap [OF lt] by (simp add: word_less_nat_alt)
    then show ?thesis ..
  qed simp
  with False copy_down_spec [of dest src n m] assms(3) show ?thesis by (simp add: memmove_def fun_eq_iff)
qed

theorem memmove_moves_witness:
  "snd (memmove 0x1001 0x1000 2 ((\<lambda>_. 0)(0x1000 := 104, 0x1001 := 105))) 0x1002 = 105"
  using memmove_moves [of "0x1001" 2 "0x1000" "(\<lambda>_. 0)(0x1000 := 104, 0x1001 := 105)"] by simp

subsection \<open>Strings in memory\<close>

fun str_at :: "mem \<Rightarrow> u32 \<Rightarrow> byte list \<Rightarrow> bool" where
  "str_at m p [] \<longleftrightarrow> m p = 0"
| "str_at m p (c # cs) \<longleftrightarrow> m p = c \<and> c \<noteq> 0 \<and> str_at m (p + 1) cs"

lemma strlen_loop_at: "str_at m p xs \<Longrightarrow> strlen_loop p k m = Some (k + length xs)"
  by (induction xs arbitrary: p k) (subst strlen_loop.simps, simp)+

lemma strlen_at: "str_at m p xs \<Longrightarrow> strlen p m = Some (length xs)"
  by (simp add: strlen_def strlen_loop_at)

lemma strcmp_at:
  assumes "str_at m p xs" "str_at m q ys"
  shows "\<exists>r. strcmp p q m = Some r \<and> (r = 0 \<longleftrightarrow> xs = ys)"
  using assms
proof (induction xs arbitrary: p q ys)
  case Nil
  then show ?case by (cases ys) (subst strcmp.simps, simp add: word_uint_eq_iff)+
next
  case (Cons x xs)
  show ?case
  proof (cases ys)
    case Nil
    then show ?thesis using Cons.prems by (subst strcmp.simps) (simp add: word_uint_eq_iff)
  next
    case (Cons y ys')
    then show ?thesis using Cons.prems Cons.IH [of "p + 1" "q + 1" ys'] \<open>ys = y # ys'\<close>
      by (cases "x = y") (subst strcmp.simps, simp add: word_uint_eq_iff)+
  qed
qed

subsection \<open>Blocks of the kernel heap\<close>

lemma round_up: "unat ((sz + 7) AND NOT 7 :: u32) = unat (sz + 7) div 8 * 8"
proof -
  have seven: "(7 :: u32) = mask 3" by (simp add: mask_eq_exp_minus_1)
  have "w AND NOT (mask 3) = push_bit 3 (drop_bit 3 w)" for w :: u32
    by (intro bit_word_eqI) (auto simp: bit_simps not_less)
  then have "(sz + 7) AND NOT 7 = push_bit 3 (drop_bit 3 (sz + 7))" unfolding seven .
  moreover have "unat (push_bit 3 (drop_bit 3 w)) = unat w div 8 * 8" for w :: u32
  proof -
    have "unat w div 8 * 8 < 4294967296" using unat_u32_less [of w] div_times_less_eq_dividend [of "unat w" 8] by linarith
    then show ?thesis unfolding unsigned_push_bit_eq unsigned_drop_bit_eq
      by (simp add: push_bit_eq_mult drop_bit_eq_div take_bit_eq_mod del: unat_u32_less)
  qed
  ultimately show ?thesis by simp
qed

definition heap_ok :: "u32 \<Rightarrow> bool" where
  "heap_ok h \<longleftrightarrow> h = 0 \<or> KERNEL_HEAP_START \<le> h \<and> h \<le> KERNEL_HEAP_END \<and> unat h mod 8 = 0"

lemmas heap_consts = KERNEL_HEAP_START_def KERNEL_HEAP_END_def

definition heap_top :: "u32 \<Rightarrow> u32" where
  "heap_top h = (if h = 0 then KERNEL_HEAP_START else h)"

text \<open>Blocks of the heap follow each other: each starts where the one before ends, inside the window.\<close>

lemma malloc_block:
  assumes "heap_ok h" "unat sz < 2 ^ 31" "malloc sz h = (a, h')"
  shows "heap_ok h'" and "a = 0 \<Longrightarrow> h' = heap_top h" and
    "a \<noteq> 0 \<Longrightarrow> a = heap_top h \<and> unat a mod 8 = 0 \<and> unat a + unat sz \<le> unat h' \<and> h' \<le> KERNEL_HEAP_END"
proof -
  let ?h = "heap_top h"
  define z where "z = ((sz + 7) AND NOT 7 :: u32)"
  have h: "KERNEL_HEAP_START \<le> ?h" "?h \<le> KERNEL_HEAP_END" "unat ?h mod 8 = 0"
    using assms(1) by (auto simp: heap_ok_def heap_top_def heap_consts)
  have z: "unat z = (unat sz + 7) div 8 * 8" unfolding z_def round_up using assms(2) by (simp add: unat_word_ariths)
  have "unat ?h \<le> 0x40000" using h(2) by (simp add: heap_consts word_le_nat_alt)
  then have s: "unat (?h + z) = unat ?h + unat z" using z assms(2) by (simp add: unat_word_ariths)
  have m: "malloc sz h = (if KERNEL_HEAP_END < ?h + z then (0, ?h) else (?h, ?h + z))"
    unfolding malloc_def heap_top_def Let_def z_def by (rule refl)
  have al: "unat (?h + z) mod 8 = 0" unfolding s z using h(3) by presburger
  have up: "KERNEL_HEAP_START \<le> ?h + z" using h(1) by (simp add: word_le_nat_alt s)
  show "heap_ok h'" using m assms(3) h al up unfolding heap_ok_def by (auto split: if_splits simp: not_less)
  show "a = 0 \<Longrightarrow> h' = ?h" using m assms(3) h(1) by (auto split: if_splits simp: heap_consts)
  have "unat sz \<le> unat z" unfolding z by presburger
  then show "a = ?h \<and> unat a mod 8 = 0 \<and> unat a + unat sz \<le> unat h' \<and> h' \<le> KERNEL_HEAP_END" if "a \<noteq> 0"
    using m assms(3) h that s by (auto split: if_splits simp: not_less)
qed

text \<open>The test is on a sum that wraps around: a request of almost 4 GB succeeds and moves the heap backwards.\<close>

lemma malloc_wraps: "heap_ok h \<Longrightarrow> malloc 0xFFFFFFF8 h = (heap_top h, heap_top h - 8)"
proof -
  assume "heap_ok h"
  then have h: "KERNEL_HEAP_START \<le> heap_top h" "heap_top h \<le> KERNEL_HEAP_END" by (auto simp: heap_ok_def heap_top_def heap_consts)
  have "(0xFFFFFFF8 + 7 :: u32) AND NOT 7 = 0xFFFFFFF8" by simp
  moreover have "heap_top h + 0xFFFFFFF8 = heap_top h - 8"
  proof -
    have "(0xFFFFFFF8 :: u32) = - 8" by simp
    then show ?thesis by (simp only: diff_conv_add_uminus)
  qed
  moreover have "\<not> KERNEL_HEAP_END < heap_top h - 8" using h
    by (simp add: heap_consts word_le_nat_alt word_less_nat_alt unat_sub_if_size)
  ultimately show ?thesis unfolding malloc_def Let_def heap_top_def [symmetric] by (simp only: if_False)
qed

end
