(* ===== verification/Printf.thy ===== *)
theory Printf
  imports Tty Lib
begin

text \<open>
  Formatted output, \<open>kernel/vsprintf.c\<close>. A format is the list of its bytes before the terminating 0, an argument a
  word or the string it points to. \<open>None\<close> stands for what C leaves undefined: reading an argument that is not there
  or of the wrong kind, and running past the end of the format. The output grows by one byte per store; each store has
  exactly the check of \<open>str < end\<close> the source has at that place.
\<close>

datatype va = Word u32 | Str "byte list"

definition digit_char :: "nat \<Rightarrow> byte" where
  "digit_char d = (if d < 10 then 48 + of_nat d else 87 + of_nat d)"

text \<open>The digits, the lowest first; a base below 2 would make the loop run forever.\<close>

fun num_digits :: "nat \<Rightarrow> nat \<Rightarrow> byte list" where
  "num_digits base num =
     (if num = 0 \<or> base < 2 then [] else digit_char (num mod base) # num_digits base (num div base))"

declare num_digits.simps [simp del]

definition num_to_str :: "u32 \<Rightarrow> nat \<Rightarrow> byte list" where
  "num_to_str num base = (if num = 0 then [48] else rev (num_digits base (unat num)))"

text \<open>
  The buffer holds 1023 characters and the terminating 0. \<open>emit\<close> is \<open>if (str < end) *str++ = c\<close>, the store of the
  conversions; the plain characters of the format are stored without a check of their own.
\<close>

definition BUF_END :: nat where "BUF_END = 1023"

definition emit :: "byte list \<Rightarrow> byte \<Rightarrow> byte list" where
  "emit out c = (if length out < BUF_END then out @ [c] else out)"

definition emits :: "byte list \<Rightarrow> byte list \<Rightarrow> byte list" where
  "emits out cs = foldl emit out cs"

definition write_num :: "byte list \<Rightarrow> u32 \<Rightarrow> nat \<Rightarrow> int \<Rightarrow> bool \<Rightarrow> bool \<Rightarrow> byte list" where
  "write_num out num base width zero left =
     (let tmp = num_to_str num base; pad = nat (width - int (length tmp))
      in if left then emits (emits out tmp) (replicate pad 32)
         else emits (emits out (replicate pad (if zero then 48 else 32))) tmp)"

fun fmt_flags :: "byte list \<Rightarrow> bool \<Rightarrow> bool \<Rightarrow> bool \<times> bool \<times> byte list" where
  "fmt_flags [] left zero = (left, zero, [])"
| "fmt_flags (c # fmt) left zero =
     (if c = 45 then fmt_flags fmt True zero
      else if c = 48 then fmt_flags fmt left True
      else if c = 43 \<or> c = 35 \<or> c = 32 then fmt_flags fmt left zero
      else (left, zero, c # fmt))"

text \<open>Width and precision are read into an \<open>int\<close>, which wraps; the precision is -1 when there is none.\<close>

fun fmt_num :: "byte list \<Rightarrow> int \<Rightarrow> int \<times> byte list" where
  "fmt_num [] n = (n, [])"
| "fmt_num (c # fmt) n =
     (if 48 \<le> c \<and> c \<le> 57 then fmt_num fmt (s32 (s32 (n * 10) + int (unat (c - 48)))) else (n, c # fmt))"

definition fmt_prec :: "byte list \<Rightarrow> int \<times> byte list" where
  "fmt_prec fmt = (case fmt of c # fmt' \<Rightarrow> if c = 46 then fmt_num fmt' 0 else (-1, fmt) | [] \<Rightarrow> (-1, fmt))"

definition fmt_long :: "byte list \<Rightarrow> byte list" where
  "fmt_long fmt = (case fmt of c # fmt' \<Rightarrow> if c = 108 then fmt' else fmt | [] \<Rightarrow> fmt)"

text \<open>One conversion: the arguments left and the output.\<close>

definition convert :: "byte \<Rightarrow> bool \<Rightarrow> bool \<Rightarrow> int \<Rightarrow> int \<Rightarrow> va list \<Rightarrow> byte list \<Rightarrow> (va list \<times> byte list) option" where
  "convert c left zero width prec args out =
     (let num = (prec > 0 \<and> c \<noteq> 115 \<and> c \<noteq> 99);
          zero = (zero \<or> num); width = (if num \<and> width < prec then prec else width)
      in if c = 100 \<or> c = 105 then
           (case args of Word v # args \<Rightarrow>
              Some (args, if sint v < 0 then write_num (emit out 45) (- v) 10 width zero left
                          else write_num out v 10 width zero left)
            | _ \<Rightarrow> None)
         else if c = 117 then
           (case args of Word v # args \<Rightarrow> Some (args, write_num out v 10 width zero left) | _ \<Rightarrow> None)
         else if c = 120 \<or> c = 88 then
           (case args of Word v # args \<Rightarrow> Some (args, write_num out v 16 width zero left) | _ \<Rightarrow> None)
         else if c = 111 then
           (case args of Word v # args \<Rightarrow> Some (args, write_num out v 8 width zero left) | _ \<Rightarrow> None)
         else if c = 112 then
           (case args of Word v # args \<Rightarrow> Some (args, write_num (emit (emit out 48) 120) v 16 0 False False) | _ \<Rightarrow> None)
         else if c = 115 then
           (case args of Str p # args \<Rightarrow>
              let p = (if prec < 0 then p else take (nat prec) p);
                  pad = replicate (nat (width - int (length p))) 32
              in Some (args, if left then emits (emits out p) pad else emits (emits out pad) p)
            | _ \<Rightarrow> None)
         else if c = 99 then
           (case args of Word v # args \<Rightarrow> Some (args, emit out (ucast v)) | _ \<Rightarrow> None)
         else Some (args, emit (emit out 37) c))"

lemma fmt_flags_length: "length (snd (snd (fmt_flags fmt l z))) \<le> length fmt"
  by (induction fmt l z rule: fmt_flags.induct) auto

lemma fmt_num_length: "length (snd (fmt_num fmt n)) \<le> length fmt"
  by (induction fmt n rule: fmt_num.induct) auto

lemma fmt_prec_length: "length (snd (fmt_prec fmt)) \<le> length fmt"
  using fmt_num_length by (auto simp: fmt_prec_def split: list.splits intro: le_SucI)

lemma fmt_long_length: "length (fmt_long fmt) \<le> length fmt"
  by (auto simp: fmt_long_def split: list.splits)

text \<open>The parts of a conversion specification before its conversion character.\<close>

definition fmt_spec :: "byte list \<Rightarrow> bool \<times> bool \<times> int \<times> int \<times> byte list" where
  "fmt_spec fmt =
     (let (left, zero, fmt) = fmt_flags fmt False False; (width, fmt) = fmt_num fmt 0; (prec, fmt) = fmt_prec fmt
      in (left, zero, width, prec, fmt_long fmt))"

lemma fmt_spec_length: "fmt_spec fmt = (l, z, w, p, rest) \<Longrightarrow> length rest \<le> length fmt"
  using fmt_flags_length [of fmt False False] fmt_num_length fmt_prec_length fmt_long_length
  by (auto simp: fmt_spec_def Let_def split: prod.splits) (metis (no_types, lifting) le_trans snd_conv)

function vsprintf_loop :: "byte list \<Rightarrow> va list \<Rightarrow> byte list \<Rightarrow> byte list option" where
  "vsprintf_loop [] args out = Some out"
| "vsprintf_loop (c # fmt) args out =
     (if length out \<ge> BUF_END then Some out
      else if c \<noteq> 37 then vsprintf_loop fmt args (out @ [c])
      else case fmt_spec fmt of
             (_, _, _, _, []) \<Rightarrow> None
           | (left, zero, width, prec, c # rest) \<Rightarrow>
               do { (args, out) \<leftarrow> convert c left zero width prec args out; vsprintf_loop rest args out })"
  by pat_completeness auto

termination
  by (relation "measure (\<lambda>(fmt, _). length fmt)") (auto dest: fmt_spec_length [OF sym])

definition vsprintf :: "byte list \<Rightarrow> va list \<Rightarrow> byte list option" where
  "vsprintf fmt args = vsprintf_loop fmt args []"

definition printk :: "byte list \<Rightarrow> va list \<Rightarrow> 'z tty_state_scheme \<Rightarrow> (nat \<times> 'z tty_state_scheme) option" where
  "printk fmt args s = do { buf \<leftarrow> vsprintf fmt args; s \<leftarrow> tty_write buf s; Some (length buf, s) }"

definition sprintf :: "byte list \<Rightarrow> va list \<Rightarrow> byte list option" where
  "sprintf fmt args = vsprintf fmt args"

subsection \<open>Formatting stays in its buffer\<close>

lemma emit_bound: "length out \<le> BUF_END \<Longrightarrow> length (emit out c) \<le> BUF_END"
  by (simp add: emit_def)

lemma emits_bound: "length out \<le> BUF_END \<Longrightarrow> length (emits out cs) \<le> BUF_END"
  unfolding emits_def by (induction cs arbitrary: out) (simp_all add: emit_bound)

lemma write_num_bound: "length out \<le> BUF_END \<Longrightarrow> length (write_num out n b w z l) \<le> BUF_END"
  by (simp add: write_num_def Let_def emits_bound)

lemmas out_bounds = emit_bound emits_bound write_num_bound

lemma convert_bound: "convert c l z w p args out = Some (args', out') \<Longrightarrow> length out \<le> BUF_END \<Longrightarrow> length out' \<le> BUF_END"
  unfolding convert_def Let_def by (auto simp: out_bounds split: if_splits list.splits va.splits)

lemma vsprintf_loop_bound:
  "vsprintf_loop fmt args out = Some out' \<Longrightarrow> length out \<le> BUF_END \<Longrightarrow> length out' \<le> BUF_END"
proof (induction fmt args out rule: vsprintf_loop.induct)
  case (2 c fmt args out)
  show ?case
  proof (cases "length out \<ge> BUF_END \<or> c \<noteq> 37")
    case True
    with 2 show ?thesis by (auto split: if_splits)
  next
    case False
    with 2(3) obtain l z w p c' rest where f: "fmt_spec fmt = (l, z, w, p, c' # rest)"
      by (auto split: prod.splits list.splits)
    with 2(3) False obtain args1 out1 where "convert c' l z w p args out = Some (args1, out1)" "vsprintf_loop rest args1 out1 = Some out'"
      by (auto simp: bind_eq_Some_conv)
    with 2(2) [of l "(z, w, p, c' # rest)" z "(w, p, c' # rest)" w "(p, c' # rest)" p "c' # rest" c' rest "(args1, out1)" args1 out1]
      f False convert_bound [of c' l z w p args out args1 out1] 2(4) show ?thesis by simp
  qed
qed simp

subsection \<open>Numbers read back\<close>

text \<open>The number a string of decimal digits stands for, with what follows the digits.\<close>

fun read_dec :: "byte list \<Rightarrow> nat \<Rightarrow> nat \<times> byte list" where
  "read_dec [] n = (n, [])"
| "read_dec (c # cs) n = (if 48 \<le> c \<and> c \<le> 57 then read_dec cs (n * 10 + unat (c - 48)) else (n, c # cs))"

lemma digit_char_10: "d < 10 \<Longrightarrow> 48 \<le> digit_char d \<and> digit_char d \<le> 57 \<and> unat (digit_char d - 48) = d"
  by (simp add: digit_char_def word_le_nat_alt unat_word_ariths unat_of_nat)

lemma read_dec_append: "\<forall>c\<in>set cs. 48 \<le> c \<and> c \<le> 57 \<Longrightarrow> read_dec (cs @ rest) n = read_dec rest (fst (read_dec cs n))"
  by (induction cs arbitrary: n) simp_all

lemma num_digits_10: "c \<in> set (num_digits 10 n) \<Longrightarrow> 48 \<le> c \<and> c \<le> 57"
proof (induction "10 :: nat" n rule: num_digits.induct)
  case (1 n)
  then show ?case using digit_char_10 [of "n mod 10"] by (subst (asm) (2) num_digits.simps) (auto split: if_splits)
qed

lemma num_digits_read: "fst (read_dec (rev (num_digits 10 n)) 0) = n"
proof (induction "10 :: nat" n rule: num_digits.induct)
  case (1 n)
  have "\<forall>c\<in>set (rev (num_digits 10 (n div 10))). 48 \<le> c \<and> c \<le> 57" using num_digits_10 by auto
  from read_dec_append [OF this] 1 digit_char_10 [of "n mod 10"] show ?case
    by (subst num_digits.simps) auto
qed

lemma num_digits_length: "n < 10 ^ k \<Longrightarrow> length (num_digits 10 n) \<le> k"
proof (induction k arbitrary: n)
  case (Suc k)
  then have "length (num_digits 10 (n div 10)) \<le> k" by simp
  then show ?case by (subst num_digits.simps) simp
qed (simp add: num_digits.simps)

lemma emits_short: "length out + length cs \<le> BUF_END \<Longrightarrow> emits out cs = out @ cs"
  unfolding emits_def by (induction cs arbitrary: out) (simp_all add: emit_def)

lemma num_to_str_10: "read_dec (num_to_str n 10) 0 = (unat n, [])" "length (num_to_str n 10) \<le> 10"
proof -
  have "\<forall>c\<in>set (rev (num_digits 10 (unat n))). 48 \<le> c \<and> c \<le> 57" using num_digits_10 by auto
  from read_dec_append [OF this, of "[]" 0] show "read_dec (num_to_str n 10) 0 = (unat n, [])"
    by (simp add: num_to_str_def num_digits_read)
  have "unat n < 10 ^ 10" using unat_u32_less [of n] by (simp del: unat_u32_less)
  from num_digits_length [OF this] show "length (num_to_str n 10) \<le> 10" by (simp add: num_to_str_def)
qed

lemma write_num_plain: "length out \<le> 100 \<Longrightarrow> write_num out n 10 0 False False = out @ num_to_str n 10"
  using num_to_str_10(2) [of n] by (simp add: write_num_def Let_def emits_short BUF_END_def)

text \<open>A format that ends in a lone percent sign makes the loop step over the terminating 0 and go on reading.\<close>

lemma vsprintf_percent_end: "vsprintf [37] args = None"
  by (simp add: vsprintf_def fmt_spec_def fmt_prec_def fmt_long_def BUF_END_def)

lemma unat_magnitude: "unat (if sint n < 0 then - n else n) = nat \<bar>sint n\<bar>" for n :: u32
proof -
  have r: "- (2 ^ 31) \<le> sint n" "sint n < 2 ^ 31" using sint_greater_eq [of n] sint_less [of n] by simp_all
  have "uint n = sint n mod 2 ^ 32" "uint (- n) = (- sint n) mod 2 ^ 32"
    using uint_word_of_int [of "sint n", where 'a = 32] uint_word_of_int [of "- sint n", where 'a = 32] by simp_all
  then have "uint (if sint n < 0 then - n else n) = \<bar>sint n\<bar>" using r by (auto simp: mod_pos_pos_trivial)
  then show ?thesis by (metis nat_uint_eq)
qed

text \<open>
  C39. A number printed in decimal reads back as itself: \<open>%u\<close> prints at most ten digits whose value is the argument,
  and \<open>%d\<close> prints a sign exactly for a negative argument, followed by the digits of its magnitude; this includes the
  smallest integer. \<open>read_dec\<close> is the value of a digit string, without a bound.
\<close>

theorem vsprintf_reads_back:
  "\<exists>us ds. vsprintf [37, 117] [Word n] = Some us \<and> read_dec us 0 = (unat n, []) \<and> length us \<le> 10 \<and>
     vsprintf [37, 100] [Word n] = Some (if sint n < 0 then 45 # ds else ds) \<and> read_dec ds 0 = (nat \<bar>sint n\<bar>, []) \<and> length ds \<le> 10"
proof -
  have spec: "fmt_spec [117] = (False, False, 0, -1, [117])" "fmt_spec [100] = (False, False, 0, -1, [100])"
    by (simp_all add: fmt_spec_def fmt_prec_def fmt_long_def)
  have u: "vsprintf [37, 117] [Word n] = Some (num_to_str n 10)"
    by (simp add: vsprintf_def spec convert_def write_num_plain BUF_END_def)
  have d: "vsprintf [37, 100] [Word n] = Some (if sint n < 0 then 45 # num_to_str (- n) 10 else num_to_str n 10)"
    by (simp add: vsprintf_def spec convert_def write_num_plain BUF_END_def emit_def)
  have a: "unat (if sint n < 0 then - n else n) = nat \<bar>sint n\<bar>" by (rule unat_magnitude)
  show ?thesis
    by (rule exI [of _ "num_to_str n 10"], rule exI [of _ "num_to_str (if sint n < 0 then - n else n) 10"])
       (use u d a num_to_str_10 in auto)
qed

lemma vsprintf_loop_plain:
  "37 \<notin> set fmt \<Longrightarrow> length out \<le> BUF_END \<Longrightarrow> vsprintf_loop fmt args out = Some (take BUF_END (out @ fmt))"
  by (induction fmt arbitrary: out) (auto simp: take_Cons')

text \<open>
  C40. Whatever the format and its arguments, \<open>vsprintf\<close> writes at most 1023 characters, so that the terminating 0
  still lies in the 1024-byte buffer \<open>printk\<close> has for it. A plain character of the format is stored unchecked; it fits
  because the loop stops at the last byte of the buffer.
\<close>

theorem vsprintf_bounded:
  assumes "vsprintf fmt args = Some out"
  shows "length out < 1024"
  using vsprintf_loop_bound [of fmt args "[]" out] assms by (simp add: vsprintf_def BUF_END_def)

text \<open>A format of 2000 plain characters is cut.\<close>

theorem vsprintf_bounded_witness:
  "\<exists>out. vsprintf (replicate 2000 97) [] = Some out \<and> length out < 1024 \<and> out = replicate 1023 97"
proof -
  have v: "vsprintf (replicate 2000 97) [] = Some (replicate 1023 97)"
    using vsprintf_loop_plain [of "replicate 2000 97" "[]" "[]"]
    by (simp add: vsprintf_def BUF_END_def min_def)
  with vsprintf_bounded [OF v] show ?thesis by blast
qed

end
