(* ===== verification/Sys_File.thy ===== *)
theory Sys_File
  imports Pipe Printf
begin

text \<open>
  The system calls on open files, the clock and waiting with a deadline: the first part of \<open>kernel/sys.c\<close> with
  \<open>dup\<close>, \<open>fcntl\<close> and \<open>select\<close>.

  User memory is read through the function \<open>um\<close> from addresses to bytes; what a call stores into it is part of its
  result. A call that can sleep takes the list of what happens each time it sleeps. The result of a system call is
  the \<open>int\<close> the caller sees, -1 for an error. Console messages about refused requests are left out.
\<close>

subsection \<open>Time\<close>

text \<open>\<open>jiffies / HZ\<close> is a signed division, which truncates towards 0.\<close>

definition secs :: "u32 \<Rightarrow> u32" where
  "secs j = (let v = sint j in word_of_int (if v < 0 then - (- v div int HZ) else v div int HZ))"

definition sys_time :: "u32 \<Rightarrow> 'z sys_state_scheme \<Rightarrow> int \<times> stores \<times> 'z sys_state_scheme" where
  "sys_time tloc s =
     (let i = boot_time s + secs (jiffies s) in (sint i, if tloc \<noteq> 0 then put_fs_long i tloc else [], s))"

definition sys_stime :: "umem \<Rightarrow> u32 \<Rightarrow> 'z sys_state_scheme \<Rightarrow> int \<times> 'z sys_state_scheme" where
  "sys_stime um tptr s = (0, s\<lparr>boot_time := get_fs_long um tptr - secs (jiffies s)\<rparr>)"

abbreviation set_state :: "tstate \<Rightarrow> 'z task_state_scheme \<Rightarrow> 'z task_state_scheme" where
  "set_state st s \<equiv> upd_cur (\<lambda>t. t\<lparr>t_state := st\<rparr>) s"

abbreviation set_deadline :: "u32 \<Rightarrow> 'z sys_state_scheme \<Rightarrow> 'z sys_state_scheme" where
  "set_deadline d s \<equiv> s\<lparr>sleep_deadline := (sleep_deadline s)(t_pid (cur s) := d)\<rparr>"

definition sleep_over :: "'z sys_state_scheme \<Rightarrow> bool" where
  "sleep_over s \<longleftrightarrow> sleep_deadline s (t_pid (cur s)) = 0 \<or> t_signal (cur s) AND NOT (sig_blocked s (t_pid (cur s))) \<noteq> 0"

fun sleep_loop :: "('z sys_state_scheme \<Rightarrow> 'z sys_state_scheme) list \<Rightarrow> 'z sys_state_scheme \<Rightarrow> 'z sys_state_scheme option" where
  "sleep_loop es s =
     (if sleep_over s then Some s
      else case es of [] \<Rightarrow> None
           | e # es' \<Rightarrow> do { s \<leftarrow> schedule s; sleep_loop es' (let s = e s in set_state TASK_INTERRUPTIBLE s) })"

declare sleep_loop.simps [simp del]

definition sys_sleep :: "('z sys_state_scheme \<Rightarrow> 'z sys_state_scheme) list \<Rightarrow> u32 \<Rightarrow> 'z sys_state_scheme \<Rightarrow>
    (int \<times> 'z sys_state_scheme) option" where
  "sys_sleep es seconds s =
     (if seconds = 0 then Some (0, s)
      else do {
        s \<leftarrow> sleep_loop es (set_state TASK_INTERRUPTIBLE (set_deadline (jiffies s + seconds * of_nat HZ) s));
        let s = set_state TASK_RUNNING s;
            d = sleep_deadline s (t_pid (cur s));
            left = (if d \<noteq> 0 then (d - jiffies s + of_nat HZ - 1) div of_nat HZ else 0);
            s = set_deadline 0 s
        in Some (sint left, s) })"

subsection \<open>Files by descriptor\<close>

definition the_file :: "'z sys_state_scheme \<Rightarrow> fptr \<Rightarrow> kfile" where
  "the_file s fp = (case fp of Tty_file \<Rightarrow> tty_file s | File_slot i \<Rightarrow> file_table s i)"

definition upd_fp :: "fptr \<Rightarrow> (kfile \<Rightarrow> kfile) \<Rightarrow> 'z sys_state_scheme \<Rightarrow> 'z sys_state_scheme" where
  "upd_fp fp f s = (case fp of Tty_file \<Rightarrow> s\<lparr>tty_file := f (tty_file s)\<rparr> | File_slot i \<Rightarrow> upd_file i f s)"

definition filp :: "'z task_state_scheme \<Rightarrow> nat \<Rightarrow> fptr option" where
  "filp s fd = (if fd < NR_OPEN then t_filp (cur s) fd else None)"

text \<open>The inode of a descriptor; none for the console and for a descriptor that is not open.\<close>

definition fd_inode :: "'z sys_state_scheme \<Rightarrow> fptr option \<Rightarrow> nat option" where
  "fd_inode s f = do { fp \<leftarrow> f; f_inode (the_file s fp) }"

definition DEV_NULL :: u16 where "DEV_NULL = 1"
definition DEV_ZERO :: u16 where "DEV_ZERO = 2"
definition DEV_TTY :: u16 where "DEV_TTY = 3"
definition DEV_PROC_VERSION :: u16 where "DEV_PROC_VERSION = 4"
definition DEV_PROC_PS :: u16 where "DEV_PROC_PS = 5"
definition DEV_PROC_MEMINFO :: u16 where "DEV_PROC_MEMINFO = 6"

lemmas dev_consts = DEV_NULL_def DEV_ZERO_def DEV_TTY_def DEV_PROC_VERSION_def DEV_PROC_PS_def DEV_PROC_MEMINFO_def

definition fd_dev :: "'z sys_state_scheme \<Rightarrow> fptr option \<Rightarrow> u16" where
  "fd_dev s f = (case f of None \<Rightarrow> 0 | Some fp \<Rightarrow> f_dev (the_file s fp))"

subsection \<open>select\<close>

definition sel_readable :: "fptr option \<Rightarrow> 'z sys_state_scheme \<Rightarrow> bool" where
  "sel_readable f s =
     (case fd_inode s f of
        None \<Rightarrow> read_cnt (tty0 s) > 0
      | Some n \<Rightarrow> if i_pipe (inode_table s n) then \<not> PIPE_EMPTY (inode_table s n) else True)"

definition sel_writable :: "fptr option \<Rightarrow> 'z sys_state_scheme \<Rightarrow> bool" where
  "sel_writable f s =
     (case fd_inode s f of
        None \<Rightarrow> True
      | Some n \<Rightarrow> if i_pipe (inode_table s n) then \<not> PIPE_FULL (inode_table s n) else True)"

fun sel_count :: "nat \<Rightarrow> nat" where
  "sel_count bits = (if bits = 0 then 0 else bits mod 2 + sel_count (bits div 2))"

declare sel_count.simps [simp del]

definition sel_ready_count :: "u32 \<Rightarrow> nat" where
  "sel_ready_count bits = sel_count (unat bits)"

record sel =
  r_ready :: u32
  w_ready :: u32
  watch_console :: bool
  pipe_wait :: "nat option"

definition sel_fd :: "u32 \<Rightarrow> u32 \<Rightarrow> 'z sys_state_scheme \<Rightarrow> nat \<Rightarrow> sel \<Rightarrow> sel" where
  "sel_fd r w s i a =
     (let f = t_filp (cur s) i;
          a = (if bit r i \<and> sel_readable f s then a\<lparr>r_ready := r_ready a OR push_bit i 1\<rparr> else a);
          a = (if bit w i \<and> sel_writable f s then a\<lparr>w_ready := w_ready a OR push_bit i 1\<rparr> else a)
      in if bit r i then
           (case fd_inode s f of
              None \<Rightarrow> a\<lparr>watch_console := True\<rparr>
            | Some n \<Rightarrow> if i_pipe (inode_table s n) \<and> pipe_wait a = None then a\<lparr>pipe_wait := Some n\<rparr> else a)
         else a)"

definition sel_scan :: "nat \<Rightarrow> u32 \<Rightarrow> u32 \<Rightarrow> 'z sys_state_scheme \<Rightarrow> sel" where
  "sel_scan nfds r w s =
     fold (sel_fd r w s) [0..<nfds] \<lparr>r_ready = 0, w_ready = 0, watch_console = False, pipe_wait = None\<rparr>"

definition sel_store :: "u32 \<Rightarrow> u32 \<Rightarrow> stores" where
  "sel_store v p = (if p \<noteq> 0 then put_fs_long v p else [])"

definition sel_sleep :: "('z sys_state_scheme \<Rightarrow> 'z sys_state_scheme) \<Rightarrow> sel \<Rightarrow> 'z sys_state_scheme \<Rightarrow> 'z sys_state_scheme option" where
  "sel_sleep e a s =
     (if watch_console a then
        if read_cnt (tty0 s) = 0
        then do { s \<leftarrow> schedule (upd_tty (\<lambda>t. t\<lparr>read_waiter := current s\<rparr>) s);
                  let s = e s in Some (upd_tty (\<lambda>t. t\<lparr>read_waiter := 0\<rparr>) s) }
        else Some s
      else case pipe_wait a of
             Some n \<Rightarrow> pipe_sleep e n s
           | None \<Rightarrow> do { s \<leftarrow> schedule s; Some (e s) })"

fun sel_loop :: "('z sys_state_scheme \<Rightarrow> 'z sys_state_scheme) list \<Rightarrow> nat \<Rightarrow> u32 \<Rightarrow> u32 \<Rightarrow> u32 \<Rightarrow>
    u32 \<times> u32 \<times> u32 \<Rightarrow> 'z sys_state_scheme \<Rightarrow> (int \<times> stores \<times> 'z sys_state_scheme) option" where
  "sel_loop es nfds r w deadline (readfds, writefds, exceptfds) s =
     (let a = sel_scan nfds r w s
      in if r_ready a \<noteq> 0 \<or> w_ready a \<noteq> 0 then
           Some (int (sel_ready_count (r_ready a) + sel_ready_count (w_ready a)),
                 sel_store (r_ready a) readfds @ sel_store (w_ready a) writefds @ sel_store 0 exceptfds, s)
         else if deadline \<noteq> 0 \<and> sint (jiffies s - deadline) \<ge> 0 then
           Some (0, sel_store 0 readfds @ sel_store 0 writefds @ sel_store 0 exceptfds, s)
         else if t_signal (cur s) \<noteq> 0 then Some (-1, [], s)
         else case es of [] \<Rightarrow> None
              | e # es' \<Rightarrow> do {
                  s \<leftarrow> sel_sleep e a (set_state TASK_INTERRUPTIBLE (set_deadline deadline s));
                  sel_loop es' nfds r w deadline (readfds, writefds, exceptfds)
                    (let s = set_deadline 0 s in set_state TASK_RUNNING s) })"

declare sel_loop.simps [simp del]

definition sys_select :: "umem \<Rightarrow> ('z sys_state_scheme \<Rightarrow> 'z sys_state_scheme) list \<Rightarrow> int \<Rightarrow> u32 \<Rightarrow> u32 \<Rightarrow> u32 \<Rightarrow> u32 \<Rightarrow>
    'z sys_state_scheme \<Rightarrow> (int \<times> stores \<times> 'z sys_state_scheme) option" where
  "sys_select um es nfds readfds writefds exceptfds timeout s =
     (let r = (if readfds \<noteq> 0 then get_fs_long um readfds else 0);
          w = (if writefds \<noteq> 0 then get_fs_long um writefds else 0);
          ticks = (if timeout \<noteq> 0 then get_fs_long um timeout else 0);
          deadline = (if ticks \<noteq> 0 then jiffies s + ticks else 0)
      in sel_loop es (nat (min nfds 32)) r w deadline (readfds, writefds, exceptfds) s)"

subsection \<open>Reading and writing\<close>

primrec console_write :: "umem \<Rightarrow> u32 \<Rightarrow> nat \<Rightarrow> 'z sys_state_scheme \<Rightarrow> 'z sys_state_scheme option" where
  "console_write um buf 0 s = Some s"
| "console_write um buf (Suc n) s = do {
     let c = um buf;
     s \<leftarrow> (if c = 10 then tty_write [13] s else Some s);
     s \<leftarrow> tty_write [c] s;
     console_write um (buf + 1) n s }"

definition is_proc :: "u16 \<Rightarrow> bool" where
  "is_proc dev \<longleftrightarrow> dev = DEV_PROC_VERSION \<or> dev = DEV_PROC_PS \<or> dev = DEV_PROC_MEMINFO"

definition advance :: "fptr \<Rightarrow> int \<Rightarrow> 'z sys_state_scheme \<Rightarrow> 'z sys_state_scheme" where
  "advance fp result s = (if result > 0 then upd_fp fp (\<lambda>f. f\<lparr>f_pos := f_pos f + word_of_int result\<rparr>) s else s)"

definition sys_write :: "umem \<Rightarrow> ('z sys_state_scheme \<Rightarrow> 'z sys_state_scheme) list \<Rightarrow> nat \<Rightarrow> u32 \<Rightarrow> u32 \<Rightarrow>
    'z sys_state_scheme \<Rightarrow> (int \<times> 'z sys_state_scheme) option" where
  "sys_write um es fd buf count s =
     (if fd \<ge> NR_OPEN then Some (-1, s)
      else let f = t_filp (cur s) fd; dev = fd_dev s f
        in if is_proc dev then Some (-1, s)
           else if dev = DEV_NULL \<or> dev = DEV_ZERO then Some (sint count, s)
           else case f of
             None \<Rightarrow>
               if fd = 0 then Some (-1, s)
               else do { s \<leftarrow> console_write um buf (unat count) s; Some (sint count, s) }
           | Some fp \<Rightarrow>
               case f_inode (the_file s fp) of
                 None \<Rightarrow>
                   if fd = 0 then Some (-1, s)
                   else do { s \<leftarrow> console_write um buf (unat count) s; Some (sint count, s) }
               | Some n \<Rightarrow>
                   if f_mode (the_file s fp) = 0 then Some (-1, s)
                   else if i_pipe (inode_table s n) then write_pipe um es n buf (sint count) s
                   else do {
                     (result, s) \<leftarrow> file_write um (Some n) (f_pos (the_file s fp)) buf (sint count) s;
                     Some (result, advance fp result s) })"

text \<open>The texts \<open>pid %d state %d\<close> and \<open>free_pages %lu\<close>, and the one of \<open>/proc/version\<close>.\<close>

definition ps_fmt :: cstr where
  "ps_fmt = [112, 105, 100, 32, 37, 100, 32, 115, 116, 97, 116, 101, 32, 37, 100, 10]"

definition meminfo_fmt :: cstr where
  "meminfo_fmt = [102, 114, 101, 101, 95, 112, 97, 103, 101, 115, 32, 37, 108, 117, 10]"

definition version_text :: cstr where
  "version_text = [76, 105, 110, 117, 120, 32, 48, 46, 48, 49, 32, 40, 77, 105, 110, 105, 109, 97, 108, 32, 116, 101, 97,
     99, 104, 105, 110, 103, 32, 107, 101, 114, 110, 101, 108, 41, 10]"

definition state_num :: "tstate \<Rightarrow> u32" where
  "state_num st = (case st of TASK_RUNNING \<Rightarrow> 0 | TASK_INTERRUPTIBLE \<Rightarrow> 1 | TASK_UNINTERRUPTIBLE \<Rightarrow> 2
     | TASK_ZOMBIE \<Rightarrow> 3 | TASK_STOPPED \<Rightarrow> 4)"

fun proc_ps_format :: "nat list \<Rightarrow> nat \<Rightarrow> cstr \<Rightarrow> 'z task_state_scheme \<Rightarrow> cstr option" where
  "proc_ps_format [] bufsize buf s = Some buf"
| "proc_ps_format (i # is) bufsize buf s =
     (if task s i = 0 then proc_ps_format is bufsize buf s
      else let t = tstruct s (task s i)
        in do { line \<leftarrow> sprintf ps_fmt [Word (of_nat (t_pid t)), Word (state_num (t_state t))];
                if length buf + length line \<ge> bufsize then Some buf
                else proc_ps_format is bufsize (buf @ line) s })"

definition serve_text :: "fptr \<Rightarrow> cstr \<Rightarrow> u32 \<Rightarrow> u32 \<Rightarrow> 'z sys_state_scheme \<Rightarrow> int \<times> stores \<times> 'z sys_state_scheme" where
  "serve_text fp txt buf count s =
     (let cs = take (unat count) (drop (unat (f_pos (the_file s fp))) txt)
      in (int (length cs), put_fs_bytes cs buf, upd_fp fp (\<lambda>f. f\<lparr>f_pos := f_pos f + of_nat (length cs)\<rparr>) s))"

definition ps_snapshot :: "fptr \<Rightarrow> 'z sys_state_scheme \<Rightarrow> 'z sys_state_scheme option" where
  "ps_snapshot fp s =
     (if f_pos (the_file s fp) = 0
      then do { txt \<leftarrow> proc_ps_format [0..<NR_TASKS] 2048 [] s; Some (s\<lparr>ps_text := txt\<rparr>) }
      else Some s)"

definition meminfo_snapshot :: "fptr \<Rightarrow> 'z sys_state_scheme \<Rightarrow> 'z sys_state_scheme option" where
  "meminfo_snapshot fp s =
     (if f_pos (the_file s fp) = 0
      then do { txt \<leftarrow> sprintf meminfo_fmt [Word (of_nat (count_free_pages s))]; Some (s\<lparr>meminfo_text := txt\<rparr>) }
      else Some s)"

text \<open>
  The console: sleep until there is a character, then take characters until the request is filled, a newline has
  been taken or the input is used up.
\<close>

fun tty_wait :: "('z sys_state_scheme \<Rightarrow> 'z sys_state_scheme) list \<Rightarrow> 'z sys_state_scheme \<Rightarrow> 'z sys_state_scheme option" where
  "tty_wait es s =
     (if read_cnt (tty0 s) \<noteq> 0 then Some s
      else case es of [] \<Rightarrow> None
           | e # es' \<Rightarrow> do {
               s \<leftarrow> schedule (upd_tty (\<lambda>t. t\<lparr>read_waiter := current s\<rparr>) (set_state TASK_INTERRUPTIBLE s));
               tty_wait es' (let s = upd_tty (\<lambda>t. t\<lparr>read_waiter := 0\<rparr>) (e s) in set_state TASK_RUNNING s) })"

declare tty_wait.simps [simp del]

primrec tty_take :: "nat \<Rightarrow> 'z tty_state_scheme \<Rightarrow> byte list \<times> 'z tty_state_scheme" where
  "tty_take 0 s = ([], s)"
| "tty_take (Suc n) s =
     (if read_cnt (tty0 s) = 0 then ([], s)
      else let (c, s) = tty_getc s
           in if c = 10 then ([c], s) else let (cs, s) = tty_take n s in (c # cs, s))"

definition console_read :: "('z sys_state_scheme \<Rightarrow> 'z sys_state_scheme) list \<Rightarrow> u32 \<Rightarrow> u32 \<Rightarrow> 'z sys_state_scheme \<Rightarrow>
    (int \<times> stores \<times> 'z sys_state_scheme) option" where
  "console_read es buf count s = do {
     s \<leftarrow> (if count = 0 then Some s else tty_wait es s);
     let (cs, s) = tty_take (unat count) s;
         s = set_state TASK_RUNNING s
     in Some (int (length cs), put_fs_bytes cs buf, s) }"

definition sys_read :: "('z sys_state_scheme \<Rightarrow> 'z sys_state_scheme) list \<Rightarrow> nat \<Rightarrow> u32 \<Rightarrow> u32 \<Rightarrow>
    'z sys_state_scheme \<Rightarrow> (int \<times> stores \<times> 'z sys_state_scheme) option" where
  "sys_read es fd buf count s =
     (if fd \<ge> NR_OPEN then Some (-1, [], s)
      else case t_filp (cur s) fd of
        None \<Rightarrow> console_read es buf count s
      | Some fp \<Rightarrow>
          let f = the_file s fp; dev = f_dev f
          in if dev = DEV_PROC_VERSION then Some (serve_text fp version_text buf count s)
             else if dev = DEV_PROC_PS then
               do { s \<leftarrow> ps_snapshot fp s; Some (serve_text fp (ps_text s) buf count s) }
             else if dev = DEV_PROC_MEMINFO then
               do { s \<leftarrow> meminfo_snapshot fp s; Some (serve_text fp (meminfo_text s) buf count s) }
             else if dev = DEV_NULL then Some (0, [], s)
             else if dev = DEV_ZERO then Some (sint count, put_fs_bytes (replicate (unat count) 0) buf, s)
             else case f_inode f of
               None \<Rightarrow> console_read es buf count s
             | Some n \<Rightarrow>
                 if i_pipe (inode_table s n)
                 then do { (cs, s) \<leftarrow> read_pipe es n (sint count) s; Some (int (length cs), put_fs_bytes cs buf, s) }
                 else if f_mode f = 1 then Some (-1, [], s)
                 else do {
                   (result, cs, s) \<leftarrow> file_read n (f_pos f) (sint count) s;
                   Some (result, put_fs_bytes cs buf, advance fp result s) })"

subsection \<open>Opening and closing\<close>

definition O_RDONLY :: u32 where "O_RDONLY = 0"
definition O_WRONLY :: u32 where "O_WRONLY = 1"
definition O_RDWR :: u32 where "O_RDWR = 2"
definition O_CREAT :: u32 where "O_CREAT = 0x40"
definition O_TRUNC :: u32 where "O_TRUNC = 0x200"

lemmas open_consts = O_RDONLY_def O_WRONLY_def O_RDWR_def O_CREAT_def O_TRUNC_def

text \<open>The six names that are no files of the disk.\<close>

definition synthetic_dev :: "cstr \<Rightarrow> u16" where
  "synthetic_dev path =
     (if path = [47, 100, 101, 118, 47, 110, 117, 108, 108] then DEV_NULL
      else if path = [47, 100, 101, 118, 47, 122, 101, 114, 111] then DEV_ZERO
      else if path = [47, 100, 101, 118, 47, 116, 116, 121] then DEV_TTY
      else if path = [47, 112, 114, 111, 99, 47, 118, 101, 114, 115, 105, 111, 110] then DEV_PROC_VERSION
      else if path = [47, 112, 114, 111, 99, 47, 112, 115] then DEV_PROC_PS
      else if path = [47, 112, 114, 111, 99, 47, 109, 101, 109, 105, 110, 102, 111] then DEV_PROC_MEMINFO
      else 0)"

definition free_file :: "'z sys_state_scheme \<Rightarrow> nat option" where
  "free_file s = scan (\<lambda>i. f_count (file_table s i) = 0) 0 NR_FILE"

definition open_synthetic :: "nat \<Rightarrow> u32 \<Rightarrow> u16 \<Rightarrow> 'z sys_state_scheme \<Rightarrow> int \<times> 'z sys_state_scheme" where
  "open_synthetic fd flag dev s =
     (case free_file s of
        None \<Rightarrow> (-1, s)
      | Some i \<Rightarrow>
          (int fd, set_filp fd (Some (File_slot i))
             (upd_file i (\<lambda>f. f\<lparr>f_count := 1, f_mode := 2, f_flags := ucast flag, f_inode := None, f_pos := 0, f_dev := dev\<rparr>) s)))"

definition create_in :: "nat \<Rightarrow> cstr \<Rightarrow> u32 \<Rightarrow> 'z fs_state_scheme \<Rightarrow> (nat option \<times> 'z fs_state_scheme) option" where
  "create_in dir name mode s = do {
     (inode, s) \<leftarrow> new_inode (i_dev (inode_table s dir)) s;
     case inode of
       None \<Rightarrow> do { s \<leftarrow> iput (Some dir) s; Some (None, s) }
     | Some n \<Rightarrow> do {
         let mode = mode AND 0x1FF AND NOT (ucast (t_umask (cur s)));
         let s = upd_inode n (\<lambda>ip. ip\<lparr>i_mode := ucast (mode OR 0x8000), i_uid := t_euid (cur s),
                   i_gid := ucast (t_egid (cur s)), i_dirt := True\<rparr>) s;
         (r, s) \<leftarrow> dir_add_entry (Some dir) name (ucast (i_num (inode_table s n))) s;
         if r < 0 then do {
           s \<leftarrow> free_inode (Some n) s; s \<leftarrow> iput (Some n) s; s \<leftarrow> iput (Some dir) s; Some (None, s) }
         else do { s \<leftarrow> iput (Some dir) s; Some (Some n, s) } } }"

text \<open>
  The callers of \<open>split_path\<close> give it 64 bytes for the directory part. A longer one is copied over whatever lies behind
  them on the kernel stack, before the length of the name is checked.
\<close>

definition split_path64 :: "cstr \<Rightarrow> (cstr \<times> cstr) option option" where
  "split_path64 path =
     (if length path - length (takeWhile (\<lambda>c. c \<noteq> SLASH) (rev path)) > 64 then None else Some (split_path (Some path)))"

definition open_create :: "cstr \<Rightarrow> u32 \<Rightarrow> 'z fs_state_scheme \<Rightarrow> (nat option \<times> 'z fs_state_scheme) option" where
  "open_create path mode s = do {
     r \<leftarrow> split_path64 path;
     case r of
       None \<Rightarrow> Some (None, s)
     | Some (dirpath, name) \<Rightarrow> do {
         (d, s) \<leftarrow> namei (Some dirpath) s;
         case d of
           None \<Rightarrow> Some (None, s)
         | Some dir \<Rightarrow>
             if i_mode (inode_table s dir) AND S_IFDIR = 0 \<or> \<not> permission (Some dir) MAY_WRITE s
             then do { s \<leftarrow> iput (Some dir) s; Some (None, s) }
             else do {
               (ino, s) \<leftarrow> dir_lookup (Some dir) name s;
               case ino of
                 Some ino \<Rightarrow> do {
                   (inode, s) \<leftarrow> iget (i_dev (inode_table s dir)) (ucast ino) s;
                   s \<leftarrow> iput (Some dir) s;
                   Some (inode, s) }
               | None \<Rightarrow> create_in dir name mode s } } }"

definition open_mask :: "u32 \<Rightarrow> u16" where
  "open_mask flag =
     (if flag AND 3 = O_RDONLY then MAY_READ else 0)
       OR (if flag AND 3 = O_WRONLY \<or> flag AND 3 = O_RDWR then MAY_WRITE else 0)
       OR (if flag AND O_TRUNC \<noteq> 0 then MAY_WRITE else 0)"

definition open_inode :: "nat \<Rightarrow> u32 \<Rightarrow> nat \<Rightarrow> 'z sys_state_scheme \<Rightarrow> (int \<times> 'z sys_state_scheme) option" where
  "open_inode fd flag n s =
     (if open_mask flag \<noteq> 0 \<and> \<not> permission (Some n) (open_mask flag) s
      then do { s \<leftarrow> iput (Some n) s; Some (-1, s) }
      else case free_file s of
        None \<Rightarrow> do { s \<leftarrow> iput (Some n) s; Some (-1, s) }
      | Some i \<Rightarrow> do {
          let s = upd_file i (\<lambda>f. f\<lparr>f_count := 1, f_mode := 0, f_flags := 0, f_inode := None, f_pos := 0, f_dev := 0\<rparr>) s;
          s \<leftarrow> (if flag AND O_TRUNC \<noteq> 0 \<and> i_mode (inode_table s n) AND S_IFDIR = 0 then truncate_inode (Some n) s else Some s);
          let s = upd_file i (\<lambda>f. f\<lparr>f_mode := ucast flag, f_inode := Some n\<rparr>) s
          in Some (int fd, set_filp fd (Some (File_slot i)) s) })"

definition sys_open :: "cstr \<Rightarrow> u32 \<Rightarrow> u32 \<Rightarrow> 'z sys_state_scheme \<Rightarrow> (int \<times> 'z sys_state_scheme) option" where
  "sys_open path flag mode s =
     (case scan (\<lambda>fd. t_filp (cur s) fd = None) 3 NR_OPEN of
        None \<Rightarrow> Some (-1, s)
      | Some fd \<Rightarrow>
          if synthetic_dev path \<noteq> 0 then Some (open_synthetic fd flag (synthetic_dev path) s)
          else do {
            (inode, s) \<leftarrow> namei (Some path) s;
            (inode, s) \<leftarrow> (if inode = None \<and> flag AND O_CREAT \<noteq> 0 then open_create path mode s else Some (inode, s));
            case inode of None \<Rightarrow> Some (-1, s) | Some n \<Rightarrow> open_inode fd flag n s })"

definition sys_creat :: "cstr \<Rightarrow> u32 \<Rightarrow> 'z sys_state_scheme \<Rightarrow> (int \<times> 'z sys_state_scheme) option" where
  "sys_creat path mode s = sys_open path (O_CREAT OR O_TRUNC) mode s"

text \<open>Dropping one reference to an open file, shared by \<open>close\<close>, \<open>dup2\<close> and \<open>exit\<close>.\<close>

definition file_put :: "fptr \<Rightarrow> 'z sys_state_scheme \<Rightarrow> 'z sys_state_scheme option" where
  "file_put fp s =
     (let s = upd_fp fp (\<lambda>f. f\<lparr>f_count := f_count f - 1\<rparr>) s; f = the_file s fp
      in if f_count f = 0 \<and> f_inode f \<noteq> None then iput (f_inode f) s else Some s)"

definition sys_close :: "nat \<Rightarrow> 'z sys_state_scheme \<Rightarrow> (int \<times> 'z sys_state_scheme) option" where
  "sys_close fd s =
     (case filp s fd of
        None \<Rightarrow> Some (-1, s)
      | Some fp \<Rightarrow> do { s \<leftarrow> file_put fp (set_filp fd None s); Some (0, s) })"

definition sys_lseek :: "nat \<Rightarrow> u32 \<Rightarrow> int \<Rightarrow> 'z sys_state_scheme \<Rightarrow> (int \<times> 'z sys_state_scheme) option" where
  "sys_lseek fd offset origin s =
     (case filp s fd of
        None \<Rightarrow> Some (-1, s)
      | Some fp \<Rightarrow>
          let pos = f_pos (the_file s fp);
              seek = (\<lambda>p. Some (sint p, upd_fp fp (\<lambda>f. f\<lparr>f_pos := p\<rparr>) s))
          in if origin = 0 then seek offset
             else if origin = 1 then seek (pos + offset)
             else if origin = 2 then
               (case f_inode (the_file s fp) of None \<Rightarrow> None | Some n \<Rightarrow> seek (i_size (inode_table s n) + offset))
             else Some (-1, s))"

definition share_file :: "nat \<Rightarrow> fptr \<Rightarrow> 'z sys_state_scheme \<Rightarrow> 'z sys_state_scheme" where
  "share_file fd fp s = upd_fp fp (\<lambda>f. f\<lparr>f_count := f_count f + 1\<rparr>) (set_filp fd (Some fp) s)"

definition sys_dup :: "nat \<Rightarrow> 'z sys_state_scheme \<Rightarrow> int \<times> 'z sys_state_scheme" where
  "sys_dup fildes s =
     (case filp s fildes of
        None \<Rightarrow> (-1, s)
      | Some fp \<Rightarrow>
          case scan (\<lambda>fd. t_filp (cur s) fd = None) 0 NR_OPEN of
            None \<Rightarrow> (-1, s)
          | Some fd \<Rightarrow> (int fd, share_file fd fp s))"

definition sys_dup2 :: "nat \<Rightarrow> nat \<Rightarrow> 'z sys_state_scheme \<Rightarrow> (int \<times> 'z sys_state_scheme) option" where
  "sys_dup2 oldfd newfd s =
     (case filp s oldfd of
        None \<Rightarrow> Some (-1, s)
      | Some fp \<Rightarrow>
          if newfd \<ge> NR_OPEN then Some (-1, s)
          else if oldfd = newfd then Some (int newfd, s)
          else do {
            s \<leftarrow> (case t_filp (cur s) newfd of Some old \<Rightarrow> file_put old s | None \<Rightarrow> Some s);
            Some (int newfd, share_file newfd fp s) })"

definition dupfd :: "nat \<Rightarrow> nat \<Rightarrow> 'z sys_state_scheme \<Rightarrow> int \<times> 'z sys_state_scheme" where
  "dupfd fd arg s =
     (case filp s fd of
        None \<Rightarrow> (-1, s)
      | Some fp \<Rightarrow>
          case scan (\<lambda>fd. t_filp (cur s) fd = None) arg NR_OPEN of
            None \<Rightarrow> (-1, s)
          | Some new \<Rightarrow> (int new, share_file new fp s))"

definition sys_fcntl :: "nat \<Rightarrow> nat \<Rightarrow> u32 \<Rightarrow> 'z sys_state_scheme \<Rightarrow> int \<times> 'z sys_state_scheme" where
  "sys_fcntl fd cmd arg s =
     (case filp s fd of
        None \<Rightarrow> (-1, s)
      | Some fp \<Rightarrow>
          if cmd = 0 then dupfd fd (unat arg) s
          else if cmd = 1 \<or> cmd = 2 then (0, s)
          else if cmd = 3 then (uint (f_flags (the_file s fp)), s)
          else if cmd = 4 then (0, upd_fp fp (\<lambda>f. f\<lparr>f_flags := ucast arg\<rparr>) s)
          else (-1, s))"

end
