(* ===== verification/Sys_Dir.thy ===== *)
theory Sys_Dir
  imports Sys_File
begin

text \<open>
  The system calls on names: the part of \<open>kernel/sys.c\<close> that makes, links, renames and removes files and
  directories, changes the working directory and the root, and reports and changes an inode's attributes.
\<close>

subsection \<open>Releasing inodes on the way out\<close>

fun iputs :: "nat list \<Rightarrow> 'z fs_state_scheme \<Rightarrow> 'z fs_state_scheme option" where
  "iputs [] s = Some s"
| "iputs (n # ns) s = do { s \<leftarrow> iput (Some n) s; iputs ns s }"

definition fail_with :: "nat list \<Rightarrow> 'z fs_state_scheme \<Rightarrow> (int \<times> 'z fs_state_scheme) option" where
  "fail_with ns s = do { s \<leftarrow> iputs ns s; Some (-1, s) }"

definition done_with :: "nat list \<Rightarrow> 'z fs_state_scheme \<Rightarrow> (int \<times> 'z fs_state_scheme) option" where
  "done_with ns s = do { s \<leftarrow> iputs ns s; Some (0, s) }"

abbreviation is_dir :: "nat \<Rightarrow> 'z fs_state_scheme \<Rightarrow> bool" where
  "is_dir n s \<equiv> i_mode (inode_table s n) AND S_IFDIR \<noteq> 0"

text \<open>
  The opening moves of every call that changes a directory: split the path, resolve the directory, insist that it
  is one and that the caller may write it.
\<close>

definition with_parent :: "cstr \<Rightarrow> (nat \<Rightarrow> cstr \<Rightarrow> 'z fs_state_scheme \<Rightarrow> (int \<times> 'z fs_state_scheme) option) \<Rightarrow>
    'z fs_state_scheme \<Rightarrow> (int \<times> 'z fs_state_scheme) option" where
  "with_parent path body s = do {
     r \<leftarrow> split_path64 path;
     case r of
       None \<Rightarrow> Some (-1, s)
     | Some (dirpath, name) \<Rightarrow> do {
         (d, s) \<leftarrow> namei (Some dirpath) s;
         case d of
           None \<Rightarrow> Some (-1, s)
         | Some dir \<Rightarrow>
             if \<not> is_dir dir s \<or> \<not> permission (Some dir) MAY_WRITE s then fail_with [dir] s
             else body dir name s } }"

subsection \<open>Making files and directories\<close>

definition mknod_in :: "u32 \<Rightarrow> nat \<Rightarrow> cstr \<Rightarrow> 'z fs_state_scheme \<Rightarrow> (int \<times> 'z fs_state_scheme) option" where
  "mknod_in mode dir name s = do {
     (ino, s) \<leftarrow> dir_lookup (Some dir) name s;
     if ino \<noteq> None then fail_with [dir] s
     else do {
       (inode, s) \<leftarrow> new_inode (i_dev (inode_table s dir)) s;
       case inode of
         None \<Rightarrow> fail_with [dir] s
       | Some n \<Rightarrow> do {
           (r, s) \<leftarrow> dir_add_entry (Some dir) name (ucast (i_num (inode_table s n))) s;
           if r < 0 then do { s \<leftarrow> free_inode (Some n) s; fail_with [n, dir] s }
           else done_with [dir, n]
                  (upd_inode n (\<lambda>ip. ip\<lparr>i_mode := ucast mode, i_uid := t_euid (cur s), i_size := 0, i_mtime := 0,
                     i_gid := ucast (t_egid (cur s)), i_nlinks := 1, i_dirt := True\<rparr>) s) } } }"

definition sys_mknod :: "cstr \<Rightarrow> u32 \<Rightarrow> 'z fs_state_scheme \<Rightarrow> (int \<times> 'z fs_state_scheme) option" where
  "sys_mknod path mode s = with_parent path (mknod_in mode) s"

text \<open>The entries of a new directory's first block; the bytes behind a name's terminating 0 keep their value.\<close>

definition dot_entries :: "u16 \<Rightarrow> u16 \<Rightarrow> bytes \<Rightarrow> bytes" where
  "dot_entries ino parent d =
     (let d = (put16 0 ino d)(2 := DOT, 3 := 0)
      in (put16 16 parent d)(18 := DOT, 19 := DOT, 20 := 0))"

definition mkdir_in :: "u32 \<Rightarrow> nat \<Rightarrow> cstr \<Rightarrow> 'z fs_state_scheme \<Rightarrow> (int \<times> 'z fs_state_scheme) option" where
  "mkdir_in mode dir name s = do {
     let dev = i_dev (inode_table s dir);
     (ino, s) \<leftarrow> dir_lookup (Some dir) name s;
     if ino \<noteq> None then fail_with [dir] s
     else do {
       (inode, s) \<leftarrow> new_inode dev s;
       case inode of
         None \<Rightarrow> fail_with [dir] s
       | Some n \<Rightarrow> do {
           let ino = ucast (i_num (inode_table s n));
           (block, s) \<leftarrow> new_block dev s;
           if block = 0 then do { s \<leftarrow> free_inode (Some n) s; fail_with [n, dir] s }
           else do {
             (bh, s) \<leftarrow> bread dev block s;
             case bh of
               None \<Rightarrow> do { s \<leftarrow> free_block dev block s; s \<leftarrow> free_inode (Some n) s; fail_with [n, dir] s }
             | Some b \<Rightarrow> do {
                 s \<leftarrow> brelse (Some b) (bput b (dot_entries ino (ucast (i_num (inode_table s dir))) (b_data (heads s b))) s);
                 let s = upd_inode n (\<lambda>ip. ip\<lparr>i_zone := (i_zone ip)(0 := of_nat block), i_mode := ucast ((mode AND 0x1FF) OR 0x4000),
                           i_uid := t_euid (cur s), i_size := of_nat (2 * DIRENT_SIZE), i_mtime := 0,
                           i_gid := ucast (t_egid (cur s)), i_nlinks := 2, i_dirt := True\<rparr>) s;
                 (r, s) \<leftarrow> dir_add_entry (Some dir) name ino s;
                 if r < 0 then do { s \<leftarrow> free_block dev block s; s \<leftarrow> free_inode (Some n) s; fail_with [n, dir] s }
                 else done_with [dir, n] (upd_inode dir (\<lambda>ip. ip\<lparr>i_nlinks := i_nlinks ip + 1, i_dirt := True\<rparr>) s) } } } } }"

definition sys_mkdir :: "cstr \<Rightarrow> u32 \<Rightarrow> 'z fs_state_scheme \<Rightarrow> (int \<times> 'z fs_state_scheme) option" where
  "sys_mkdir path mode s = with_parent path (mkdir_in mode) s"

subsection \<open>Removing them\<close>

definition is_dots :: "cstr \<Rightarrow> bool" where
  "is_dots name \<longleftrightarrow> name = [DOT] \<or> name = [DOT, DOT]"

text \<open>Look the entry up and hold its inode as well.\<close>

definition with_target :: "(nat \<Rightarrow> nat \<Rightarrow> cstr \<Rightarrow> 'z fs_state_scheme \<Rightarrow> (int \<times> 'z fs_state_scheme) option) \<Rightarrow>
    nat \<Rightarrow> cstr \<Rightarrow> 'z fs_state_scheme \<Rightarrow> (int \<times> 'z fs_state_scheme) option" where
  "with_target body dir name s = do {
     (ino, s) \<leftarrow> dir_lookup (Some dir) name s;
     case ino of
       None \<Rightarrow> fail_with [dir] s
     | Some ino \<Rightarrow> do {
         (inode, s) \<leftarrow> iget (i_dev (inode_table s dir)) (ucast ino) s;
         case inode of None \<Rightarrow> fail_with [dir] s | Some n \<Rightarrow> body n dir name s } }"

definition unlink_entry :: "nat \<Rightarrow> nat \<Rightarrow> cstr \<Rightarrow> 'z fs_state_scheme \<Rightarrow> (int \<times> 'z fs_state_scheme) option" where
  "unlink_entry n dir name s =
     (if is_dir n s then fail_with [n, dir] s
      else do {
        (r, s) \<leftarrow> dir_remove_entry dir name s;
        if r < 0 then fail_with [n, dir] s
        else do {
          let s = upd_inode n (\<lambda>ip. ip\<lparr>i_nlinks := i_nlinks ip - 1\<rparr>) s;
          s \<leftarrow> (if i_nlinks (inode_table s n) = 0 then truncate_inode (Some n) s else Some s);
          done_with [n, dir] (upd_inode n (\<lambda>ip. ip\<lparr>i_dirt := True\<rparr>) s) } })"

definition no_dots :: "cstr \<Rightarrow> (int \<times> 'z fs_state_scheme) option \<Rightarrow> 'z fs_state_scheme \<Rightarrow> (int \<times> 'z fs_state_scheme) option" where
  "no_dots path r s = do {
     p \<leftarrow> split_path64 path;
     case p of Some (_, name) \<Rightarrow> if is_dots name then Some (-1, s) else r | None \<Rightarrow> r }"

definition sys_unlink :: "cstr \<Rightarrow> 'z fs_state_scheme \<Rightarrow> (int \<times> 'z fs_state_scheme) option" where
  "sys_unlink path s = no_dots path (with_parent path (with_target unlink_entry) s) s"

definition rmdir_entry :: "nat \<Rightarrow> nat \<Rightarrow> cstr \<Rightarrow> 'z fs_state_scheme \<Rightarrow> (int \<times> 'z fs_state_scheme) option" where
  "rmdir_entry n dir name s =
     (if \<not> is_dir n s then fail_with [n, dir] s
      else do {
        (empty, s) \<leftarrow> dir_is_empty n s;
        if \<not> empty then fail_with [n, dir] s
        else do {
          (r, s) \<leftarrow> dir_remove_entry dir name s;
          if r < 0 then fail_with [n, dir] s
          else do {
            s \<leftarrow> free_dir_zones n s;
            let s = upd_inode n (\<lambda>ip. ip\<lparr>i_dirt := True\<rparr>) s;
            let s = upd_inode dir (\<lambda>ip. ip\<lparr>i_nlinks := i_nlinks ip - 1, i_dirt := True\<rparr>) s;
            let s = upd_inode n (\<lambda>ip. ip\<lparr>i_nlinks := 0, i_dirt := True\<rparr>) s;
            s \<leftarrow> free_inode (Some n) s;
            done_with [n, dir] s } } })"

definition sys_rmdir :: "cstr \<Rightarrow> 'z fs_state_scheme \<Rightarrow> (int \<times> 'z fs_state_scheme) option" where
  "sys_rmdir path s = no_dots path (with_parent path (with_target rmdir_entry) s) s"

subsection \<open>Linking and renaming\<close>

definition link_in :: "nat \<Rightarrow> nat \<Rightarrow> cstr \<Rightarrow> 'z fs_state_scheme \<Rightarrow> (int \<times> 'z fs_state_scheme) option" where
  "link_in old dir name s = do {
     (ino, s) \<leftarrow> dir_lookup (Some dir) name s;
     if ino \<noteq> None then fail_with [old, dir] s
     else do {
       (r, s) \<leftarrow> dir_add_entry (Some dir) name (ucast (i_num (inode_table s old))) s;
       if r < 0 then fail_with [old, dir] s
       else done_with [old, dir] (upd_inode old (\<lambda>ip. ip\<lparr>i_nlinks := i_nlinks ip + 1, i_dirt := True\<rparr>) s) } }"

definition sys_link :: "cstr \<Rightarrow> cstr \<Rightarrow> 'z fs_state_scheme \<Rightarrow> (int \<times> 'z fs_state_scheme) option" where
  "sys_link oldname newname s = do {
     (oi, s) \<leftarrow> namei (Some oldname) s;
     case oi of
       None \<Rightarrow> Some (-1, s)
     | Some old \<Rightarrow>
         if is_dir old s then fail_with [old] s
         else do {
           r \<leftarrow> split_path64 newname;
           case r of
             None \<Rightarrow> fail_with [old] s
           | Some (dirpath, name) \<Rightarrow> do {
               (d, s) \<leftarrow> namei (Some dirpath) s;
               case d of
                 None \<Rightarrow> fail_with [old] s
               | Some dir \<Rightarrow>
                   if \<not> is_dir dir s \<or> \<not> permission (Some dir) MAY_WRITE s then fail_with [old, dir] s
                   else link_in old dir name s } } }"

text \<open>Moving the entry, within a directory or to another; on failure of the second step the first is not undone.\<close>

definition rename_move :: "nat \<Rightarrow> nat \<Rightarrow> cstr \<Rightarrow> nat \<Rightarrow> cstr \<Rightarrow> 'z fs_state_scheme \<Rightarrow> (int \<times> 'z fs_state_scheme) option" where
  "rename_move old dir_old oldbase dir_new newbase s =
     (let ino = ucast (i_num (inode_table s old))
      in if dir_new \<noteq> dir_old then do {
           (r, s) \<leftarrow> dir_add_entry (Some dir_new) newbase ino s;
           if r < 0 then fail_with [old, dir_old, dir_new] s
           else do {
             (r, s) \<leftarrow> dir_remove_entry dir_old oldbase s;
             if r < 0 then fail_with [old, dir_old, dir_new] s
             else do {
               let s = upd_inode dir_old (\<lambda>ip. ip\<lparr>i_nlinks := i_nlinks ip - 1, i_dirt := True\<rparr>) s;
               let s = upd_inode dir_new (\<lambda>ip. ip\<lparr>i_nlinks := i_nlinks ip + 1, i_dirt := True\<rparr>) s;
               done_with [old, dir_old, dir_new] s } } }
         else do {
           (r, s) \<leftarrow> dir_remove_entry dir_old oldbase s;
           if r < 0 then fail_with [old, dir_old, dir_new] s
           else do {
             (r, s) \<leftarrow> dir_add_entry (Some dir_old) newbase ino s;
             if r < 0 then fail_with [old, dir_old, dir_new] s
             else done_with [old, dir_old, dir_new] s } })"

definition rename_to :: "nat \<Rightarrow> nat \<Rightarrow> cstr \<Rightarrow> cstr \<Rightarrow> cstr \<Rightarrow> 'z fs_state_scheme \<Rightarrow> (int \<times> 'z fs_state_scheme) option" where
  "rename_to old dir_old oldbase newdir newbase s = do {
     (d, s) \<leftarrow> namei (Some newdir) s;
     case d of
       None \<Rightarrow> fail_with [dir_old, old] s
     | Some dir_new \<Rightarrow>
         if dir_new \<noteq> dir_old \<and> i_dev (inode_table s dir_old) \<noteq> i_dev (inode_table s dir_new)
         then fail_with [old, dir_old, dir_new] s
         else if dir_new \<noteq> dir_old \<and> \<not> permission (Some dir_new) MAY_WRITE s
         then fail_with [old, dir_old, dir_new] s
         else do {
           (ino, s) \<leftarrow> dir_lookup (Some dir_new) newbase s;
           case ino of
             Some ino \<Rightarrow>
               if ucast ino \<noteq> i_num (inode_table s old) then fail_with [old, dir_old, dir_new] s
               else rename_move old dir_old oldbase dir_new newbase s
           | None \<Rightarrow> rename_move old dir_old oldbase dir_new newbase s } }"

definition sys_rename :: "cstr \<Rightarrow> cstr \<Rightarrow> 'z fs_state_scheme \<Rightarrow> (int \<times> 'z fs_state_scheme) option" where
  "sys_rename oldname newname s = do {
     p \<leftarrow> split_path64 oldname;
     case p of
       None \<Rightarrow> Some (-1, s)
     | Some (olddir, oldbase) \<Rightarrow> do {
         q \<leftarrow> split_path64 newname;
         case q of
           None \<Rightarrow> Some (-1, s)
         | Some (newdir, newbase) \<Rightarrow> do {
             (d, s) \<leftarrow> namei (Some olddir) s;
             case d of
               None \<Rightarrow> Some (-1, s)
             | Some dir_old \<Rightarrow>
                 if \<not> permission (Some dir_old) MAY_WRITE s then fail_with [dir_old] s
                 else do {
                   (ino, s) \<leftarrow> dir_lookup (Some dir_old) oldbase s;
                   case ino of
                     None \<Rightarrow> fail_with [dir_old] s
                   | Some ino \<Rightarrow> do {
                       (oi, s) \<leftarrow> iget (i_dev (inode_table s dir_old)) (ucast ino) s;
                       case oi of
                         None \<Rightarrow> fail_with [dir_old] s
                       | Some old \<Rightarrow> rename_to old dir_old oldbase newdir newbase s } } } } }"

subsection \<open>The working directory\<close>

definition sys_chdir :: "cstr \<Rightarrow> 'z fs_state_scheme \<Rightarrow> (int \<times> 'z fs_state_scheme) option" where
  "sys_chdir path s = do {
     (i, s) \<leftarrow> namei (Some path) s;
     case i of
       None \<Rightarrow> Some (-1, s)
     | Some n \<Rightarrow>
         if \<not> is_dir n s \<or> \<not> permission (Some n) MAY_EXEC s then fail_with [n] s
         else do { s \<leftarrow> iput (t_pwd (cur s)) s; Some (0, upd_cur (\<lambda>t. t\<lparr>t_pwd := Some n\<rparr>) s) } }"

definition sys_chroot :: "cstr \<Rightarrow> 'z fs_state_scheme \<Rightarrow> (int \<times> 'z fs_state_scheme) option" where
  "sys_chroot path s = do {
     (i, s) \<leftarrow> namei (Some path) s;
     case i of
       None \<Rightarrow> Some (-1, s)
     | Some n \<Rightarrow>
         if \<not> is_dir n s then fail_with [n] s
         else do { s \<leftarrow> iput (t_root (cur s)) s; Some (0, upd_cur (\<lambda>t. t\<lparr>t_root := Some n\<rparr>) s) } }"

text \<open>The name in \<open>dir\<close> of the entry for inode number \<open>ino\<close>; the blocks are read one by one and a bad one is skipped.\<close>

definition entry_name :: "bytes \<Rightarrow> nat \<Rightarrow> cstr" where
  "entry_name d off = takeWhile (\<lambda>c. c \<noteq> 0) (map (de_name d off) [0..<NAME_LEN])"

definition dir_entry_name :: "nat \<Rightarrow> u16 \<Rightarrow> 'z fs_state_scheme \<Rightarrow> (cstr option \<times> 'z fs_state_scheme) option" where
  "dir_entry_name dir ino s =
     (if \<not> is_dir dir s then Some (None, s)
      else do {
        (e, s) \<leftarrow> scan_dir (\<lambda>d off. de_inode d off = ino) dir 0 (dir_entries dir s) s;
        case e of
          None \<Rightarrow> Some (None, s)
        | Some (b, off, i) \<Rightarrow> do {
            let name = entry_name (b_data (heads s b)) off;
            s \<leftarrow> brelse (Some b) s;
            Some (Some name, s) } })"

definition GETCWD_DEPTH :: nat where "GETCWD_DEPTH = 64"

text \<open>Climb to the root; the names found, the outermost first, and the directory reached.\<close>

primrec getcwd_climb :: "nat \<Rightarrow> nat \<Rightarrow> cstr list \<Rightarrow> 'z fs_state_scheme \<Rightarrow> (cstr list option \<times> 'z fs_state_scheme) option" where
  "getcwd_climb 0 cwd names s = do { s \<leftarrow> iput (Some cwd) s; Some (Some names, s) }"
| "getcwd_climb (Suc k) cwd names s =
     (if i_num (inode_table s cwd) = 1 then do { s \<leftarrow> iput (Some cwd) s; Some (Some names, s) }
      else do {
        (up, s) \<leftarrow> dir_lookup (Some cwd) [DOT, DOT] s;
        if up = None \<or> up = Some 0 then do { s \<leftarrow> iput (Some cwd) s; Some (None, s) }
        else do {
          (p, s) \<leftarrow> iget (i_dev (inode_table s cwd)) (ucast (the up)) s;
          case p of
            None \<Rightarrow> do { s \<leftarrow> iput (Some cwd) s; Some (None, s) }
          | Some parent \<Rightarrow> do {
              (name, s) \<leftarrow> dir_entry_name parent (ucast (i_num (inode_table s cwd))) s;
              case name of
                None \<Rightarrow> do { s \<leftarrow> iputs [parent, cwd] s; Some (None, s) }
              | Some name \<Rightarrow> do { s \<leftarrow> iput (Some cwd) s; getcwd_climb k parent (name # names) s } } } })"

text \<open>The path as far as it fits, and whether all of it did.\<close>

fun cwd_path :: "cstr list \<Rightarrow> cstr \<Rightarrow> int \<Rightarrow> cstr \<times> bool" where
  "cwd_path [] buf sz = (buf, True)"
| "cwd_path (name # names) buf sz =
     (if int (length buf) + int (length name) + 2 > sz then (buf, False) else cwd_path names (buf @ SLASH # name) sz)"

definition sys_getcwd :: "u32 \<Rightarrow> int \<Rightarrow> 'z fs_state_scheme \<Rightarrow> (int \<times> stores \<times> 'z fs_state_scheme) option" where
  "sys_getcwd buf sz s =
     (if sz \<le> 0 then Some (-1, [], s)
      else case t_pwd (cur s) of
        None \<Rightarrow> Some (-1, [], s)
      | Some cwd \<Rightarrow> do {
          (r, s) \<leftarrow> getcwd_climb GETCWD_DEPTH cwd [] (upd_inode cwd (\<lambda>ip. ip\<lparr>i_count := i_count ip + 1\<rparr>) s);
          case r of
            None \<Rightarrow> Some (-1, [], s)
          | Some [] \<Rightarrow> if sz < 2 then Some (-1, [], s) else Some (0, put_fs_bytes [SLASH, 0] buf, s)
          | Some names \<Rightarrow>
              let (path, fits) = cwd_path names [] sz
              in if fits then Some (0, put_fs_bytes (path @ [0]) buf, s) else Some (-1, put_fs_bytes path buf, s) })"

subsection \<open>Attributes\<close>

text \<open>
  \<open>struct stat\<close> as the compiler lays it out: two-byte fields, a one-byte link count and a gap, then words. The two
  gaps are copied from the kernel stack, so their bytes are whatever was there; they are the parameters \<open>gap\<close>.
\<close>

definition stat_bytes :: "byte \<times> byte \<times> byte \<Rightarrow> m_inode \<Rightarrow> byte list" where
  "stat_bytes gap ip =
     (let le16 = (\<lambda>v. map (put16 0 v (\<lambda>_. 0)) [0..<2]); le32 = (\<lambda>v. map (put32 0 v (\<lambda>_. 0)) [0..<4])
      in le16 (i_dev ip) @ le16 (ucast (i_num ip)) @ le16 (i_mode ip) @ [i_nlinks ip, fst gap]
         @ le16 (i_uid ip) @ le16 (ucast (i_gid ip)) @ le16 (i_zone ip 0) @ [fst (snd gap), snd (snd gap)]
         @ le32 (i_size ip) @ le32 (i_mtime ip) @ le32 (i_mtime ip) @ le32 (i_mtime ip))"

definition cp_stat :: "byte \<times> byte \<times> byte \<Rightarrow> nat \<Rightarrow> u32 \<Rightarrow> 'z fs_state_scheme \<Rightarrow> stores" where
  "cp_stat gap n statbuf s = put_fs_bytes (stat_bytes gap (inode_table s n)) statbuf"

definition sys_stat :: "byte \<times> byte \<times> byte \<Rightarrow> cstr \<Rightarrow> u32 \<Rightarrow> 'z fs_state_scheme \<Rightarrow> (int \<times> stores \<times> 'z fs_state_scheme) option" where
  "sys_stat gap path statbuf s = do {
     (i, s) \<leftarrow> namei (Some path) s;
     case i of
       None \<Rightarrow> Some (-1, [], s)
     | Some n \<Rightarrow> let ws = cp_stat gap n statbuf s in do { s \<leftarrow> iput (Some n) s; Some (0, ws, s) } }"

definition sys_fstat :: "byte \<times> byte \<times> byte \<Rightarrow> nat \<Rightarrow> u32 \<Rightarrow> 'z sys_state_scheme \<Rightarrow> int \<times> stores \<times> 'z sys_state_scheme" where
  "sys_fstat gap fd statbuf s =
     (case fd_inode s (filp s fd) of None \<Rightarrow> (-1, [], s) | Some n \<Rightarrow> (0, cp_stat gap n statbuf s, s))"

text \<open>The calls that resolve a name, check, change the inode and let go of it.\<close>

definition on_inode :: "cstr \<Rightarrow> (nat \<Rightarrow> 'z fs_state_scheme \<Rightarrow> bool) \<Rightarrow> (nat \<Rightarrow> 'z fs_state_scheme \<Rightarrow> m_inode \<Rightarrow> m_inode) \<Rightarrow>
    'z fs_state_scheme \<Rightarrow> (int \<times> 'z fs_state_scheme) option" where
  "on_inode path allowed change s = do {
     (i, s) \<leftarrow> namei (Some path) s;
     case i of
       None \<Rightarrow> Some (-1, s)
     | Some n \<Rightarrow>
         if \<not> allowed n s then fail_with [n] s
         else done_with [n] (upd_inode n (\<lambda>ip. (change n s ip)\<lparr>i_dirt := True\<rparr>) s) }"

abbreviation owns :: "nat \<Rightarrow> 'z fs_state_scheme \<Rightarrow> bool" where
  "owns n s \<equiv> t_euid (cur s) = i_uid (inode_table s n)"

definition sys_chmod :: "cstr \<Rightarrow> u32 \<Rightarrow> 'z fs_state_scheme \<Rightarrow> (int \<times> 'z fs_state_scheme) option" where
  "sys_chmod path mode s = on_inode path (\<lambda>n s. owns n s \<or> suser s)
     (\<lambda>_ _ ip. ip\<lparr>i_mode := ucast ((ucast (i_mode ip) AND 0xF000) OR (mode AND 0x1FF))\<rparr>) s"

definition sys_chown :: "cstr \<Rightarrow> u32 \<Rightarrow> u32 \<Rightarrow> 'z fs_state_scheme \<Rightarrow> (int \<times> 'z fs_state_scheme) option" where
  "sys_chown path uid gid s = on_inode path (\<lambda>n s. suser s)
     (\<lambda>_ _ ip. ip\<lparr>i_uid := ucast uid, i_gid := ucast gid\<rparr>) s"

definition sys_utime :: "cstr \<Rightarrow> 'z fs_state_scheme \<Rightarrow> (int \<times> 'z fs_state_scheme) option" where
  "sys_utime path s = on_inode path (\<lambda>n s. owns n s \<or> permission (Some n) MAY_WRITE s)
     (\<lambda>_ s ip. ip\<lparr>i_mtime := secs (jiffies s)\<rparr>) s"

definition sys_access :: "cstr \<Rightarrow> u32 \<Rightarrow> 'z fs_state_scheme \<Rightarrow> (int \<times> 'z fs_state_scheme) option" where
  "sys_access path mode s = do {
     (i, s) \<leftarrow> namei (Some path) s;
     case i of
       None \<Rightarrow> Some (-1, s)
     | Some n \<Rightarrow>
         let msk = (if mode AND 4 \<noteq> 0 then MAY_READ else 0) OR (if mode AND 2 \<noteq> 0 then MAY_WRITE else 0)
                     OR (if mode AND 1 \<noteq> 0 then MAY_EXEC else 0)
         in if msk = 0 \<or> permission (Some n) msk s then done_with [n] s else fail_with [n] s }"

end
