(* ===== verification/Sys_Task.thy ===== *)
theory Sys_Task
  imports Sys_Dir
begin

text \<open>
  The system calls on the calling task's own attributes, on process groups and signals sent by \<open>kill\<close>, and the ones
  left unimplemented: the rest of \<open>kernel/sys.c\<close> except \<open>execve\<close>.
\<close>

subsection \<open>Sending signals\<close>

text \<open>Post a signal to one task; an interruptible sleeper is woken, and SIGCONT also resumes a stopped task.\<close>

definition post_signal :: "nat \<Rightarrow> tptr \<Rightarrow> 'z task_state_scheme \<Rightarrow> 'z task_state_scheme" where
  "post_signal sig p s = upd_task p (\<lambda>t. t\<lparr>t_signal := t_signal t OR sig_bit sig,
     t_state := (if t_state t = TASK_INTERRUPTIBLE then TASK_RUNNING
                 else if sig = 18 \<and> t_state t = TASK_STOPPED then TASK_RUNNING else t_state t)\<rparr>) s"

definition kill_group :: "int \<Rightarrow> 'z task_state_scheme \<Rightarrow> u32" where
  "kill_group pid s = (if pid < 0 then word_of_int (- pid) else t_pgrp (cur s))"

definition in_group :: "u32 \<Rightarrow> 'z task_state_scheme \<Rightarrow> nat \<Rightarrow> bool" where
  "in_group g s i \<longleftrightarrow> task s i \<noteq> 0 \<and> t_pgrp (tstruct s (task s i)) = g"

definition sys_kill :: "int \<Rightarrow> int \<Rightarrow> 'z task_state_scheme \<Rightarrow> int \<times> 'z task_state_scheme" where
  "sys_kill pid sig s =
     (if sig = 0 then
        if pid > 0 then (if pid < int NR_TASKS \<and> task s (nat pid) \<noteq> 0 then 0 else -1, s)
        else (if scan (in_group (kill_group pid s) s) 0 NR_TASKS \<noteq> None then 0 else -1, s)
      else if sig < 1 \<or> sig \<ge> 32 then (-1, s)
      else if pid > 0 then
        if pid \<ge> int NR_TASKS \<or> task s (nat pid) = 0 then (-1, s)
        else (0, post_signal (nat sig) (task s (nat pid)) s)
      else
        let g = kill_group pid s;
            s' = fold (\<lambda>i s. if in_group g s i then post_signal (nat sig) (task s i) s else s) [0..<NR_TASKS] s
        in (if scan (in_group g s) 0 NR_TASKS \<noteq> None then 0 else -1, s'))"

definition sys_sync :: "'z fs_state_scheme \<Rightarrow> (int \<times> 'z fs_state_scheme) option" where
  "sys_sync s = do {
     s \<leftarrow> for_range 0 NR_SUPER (\<lambda>i s.
            if s_dev (super_tab s i) \<noteq> 0 then do { (_, s) \<leftarrow> sync_dev (s_dev (super_tab s i)) s; Some s } else Some s) s;
     Some (0, s) }"

subsection \<open>Identity\<close>

definition sys_umask :: "u32 \<Rightarrow> 'z task_state_scheme \<Rightarrow> int \<times> 'z task_state_scheme" where
  "sys_umask msk s = (uint (t_umask (cur s)), upd_cur (\<lambda>t. t\<lparr>t_umask := ucast (msk AND 0x1FF)\<rparr>) s)"

definition uts_src :: "cstr list" where
  "uts_src = [[108, 105, 110, 117, 120], [116, 101, 97, 99, 104, 105, 110, 103], [48, 46, 48, 46, 49],
     [35, 49, 32, 40, 48, 46, 48, 49, 41], [105, 51, 56, 54]]"

text \<open>
  Eight bytes are copied of every string, so a short one is read past its terminating 0: \<open>after i\<close> gives the bytes
  the linker placed behind string \<open>i\<close>.
\<close>

definition uts_field :: "(nat \<Rightarrow> nat \<Rightarrow> byte) \<Rightarrow> nat \<Rightarrow> byte list" where
  "uts_field after i =
     map (\<lambda>k. let src = uts_src ! i
               in if k < length src then src ! k else if k = length src then 0 else after i (k - length src - 1)) [0..<8]"

definition sys_uname :: "(nat \<Rightarrow> nat \<Rightarrow> byte) \<Rightarrow> u32 \<Rightarrow> int \<times> stores" where
  "sys_uname after utsbuf = (0, put_fs_bytes (concat (map (\<lambda>i. uts_field after i @ [0]) [0..<5])) utsbuf)"

definition sys_setuid :: "u32 \<Rightarrow> 'z task_state_scheme \<Rightarrow> int \<times> 'z task_state_scheme" where
  "sys_setuid uid s =
     (let u = ucast uid; t = cur s
      in if t_euid t = 0 then (0, upd_cur (\<lambda>t. t\<lparr>t_uid := u, t_euid := u, t_suid := u\<rparr>) s)
         else if t_uid t = u \<or> t_suid t = u then (0, upd_cur (\<lambda>t. t\<lparr>t_euid := u\<rparr>) s)
         else (-1, s))"

definition sys_setgid :: "u32 \<Rightarrow> 'z task_state_scheme \<Rightarrow> int \<times> 'z task_state_scheme" where
  "sys_setgid gid s =
     (let g = ucast gid; t = cur s
      in if t_euid t = 0 then (0, upd_cur (\<lambda>t. t\<lparr>t_gid := g, t_egid := g, t_sgid := g\<rparr>) s)
         else if t_gid t = g \<or> t_sgid t = g then (0, upd_cur (\<lambda>t. t\<lparr>t_egid := g\<rparr>) s)
         else (-1, s))"

definition sys_getuid :: "'z task_state_scheme \<Rightarrow> int" where "sys_getuid s = uint (t_uid (cur s))"
definition sys_geteuid :: "'z task_state_scheme \<Rightarrow> int" where "sys_geteuid s = uint (t_euid (cur s))"
definition sys_getgid :: "'z task_state_scheme \<Rightarrow> int" where "sys_getgid s = uint (t_gid (cur s))"
definition sys_getegid :: "'z task_state_scheme \<Rightarrow> int" where "sys_getegid s = uint (t_egid (cur s))"

subsection \<open>Time and priority\<close>

definition sys_alarm :: "int \<Rightarrow> 'z task_state_scheme \<Rightarrow> int \<times> 'z task_state_scheme" where
  "sys_alarm seconds s =
     (seconds, upd_cur (\<lambda>t. t\<lparr>t_alarm := (if seconds > 0 then jiffies s + of_nat HZ * word_of_int seconds else 0)\<rparr>) s)"

definition sys_nice :: "int \<Rightarrow> 'z task_state_scheme \<Rightarrow> int \<times> 'z task_state_scheme" where
  "sys_nice increment s =
     (0, if t_priority (cur s) - increment > 0 then upd_cur (\<lambda>t. t\<lparr>t_priority := t_priority t - increment\<rparr>) s else s)"

definition sys_times :: "u32 \<Rightarrow> 'z task_state_scheme \<Rightarrow> int \<times> stores" where
  "sys_times tbuf s =
     (sint (secs (jiffies s)),
      put_fs_long (t_utime (cur s)) tbuf @ put_fs_long (t_stime (cur s)) (tbuf + 4)
        @ put_fs_long (t_cutime (cur s)) (tbuf + 8) @ put_fs_long (t_cstime (cur s)) (tbuf + 12))"

definition sys_brk :: "u32 \<Rightarrow> 'z task_state_scheme \<Rightarrow> int \<times> 'z task_state_scheme" where
  "sys_brk end_data_seg s =
     (let s = (if end_data_seg \<ge> t_end_code (cur s) \<and> end_data_seg < t_start_stack (cur s) - 16384
               then upd_cur (\<lambda>t. t\<lparr>t_brk := end_data_seg\<rparr>) s else s)
      in (sint (t_brk (cur s)), s))"

subsection \<open>Process groups\<close>

text \<open>A negative \<open>pid\<close> passes the test \<open>pid < NR_TASKS\<close> and indexes \<open>task[]\<close> before its start.\<close>

definition sys_setpgid :: "int \<Rightarrow> int \<Rightarrow> 'z task_state_scheme \<Rightarrow> (int \<times> 'z task_state_scheme) option" where
  "sys_setpgid pid pgid s =
     (let setp = (\<lambda>p. Some (0, upd_task p (\<lambda>t. t\<lparr>t_pgrp := (if pgid = 0 then of_nat (t_pid t) else word_of_int pgid)\<rparr>) s))
      in if pid = 0 then setp (current s)
         else if pid < 0 then None
         else if pid < int NR_TASKS \<and> task s (nat pid) \<noteq> 0 then setp (task s (nat pid))
         else Some (-1, s))"

definition sys_getpgrp :: "'z task_state_scheme \<Rightarrow> int" where
  "sys_getpgrp s = sint (t_pgrp (cur s))"

definition sys_setsid :: "'z task_state_scheme \<Rightarrow> int \<times> 'z task_state_scheme" where
  "sys_setsid s =
     (int (t_pid (cur s)),
      upd_cur (\<lambda>t. t\<lparr>t_pgrp := of_nat (t_pid t), t_session := of_nat (t_pid t), t_leader := 1\<rparr>) s)"

subsection \<open>Calls left unimplemented\<close>

definition sys_nosys :: "'z task_state_scheme \<Rightarrow> int \<times> 'z task_state_scheme" where
  "sys_nosys s = (-1, s)"

end
