(* ===== verification/Process.thy ===== *)
theory Process
  imports Sys_Task
begin

text \<open>
  Creating, ending and waiting for processes: the first half of \<open>kernel/process.c\<close>.

  A task's page holds its \<open>task_struct\<close> at the bottom, which is \<open>tstruct\<close> in the model, and its kernel stack above it,
  which is the page's content in \<open>ram\<close>. \<open>syscall_esp\<close> and \<open>syscall_cpl\<close>, which the system call entry stores for
  \<open>fork\<close>, are arguments.
\<close>

subsection \<open>Kernel stacks\<close>

definition SIZEOF_TASK_STRUCT :: nat where "SIZEOF_TASK_STRUCT = 712"
definition SIG_SA_MAX :: nat where "SIG_SA_MAX = 18"

definition ram8 :: "'z mem_state_scheme \<Rightarrow> u32 \<Rightarrow> byte" where
  "ram8 s a = ram s (unat a div PAGE_SIZE) (unat a mod PAGE_SIZE)"

definition set_ram8 :: "u32 \<Rightarrow> byte \<Rightarrow> 'z mem_state_scheme \<Rightarrow> 'z mem_state_scheme" where
  "set_ram8 a v s = s\<lparr>ram := (ram s)(unat a div PAGE_SIZE := (ram s (unat a div PAGE_SIZE))(unat a mod PAGE_SIZE := v))\<rparr>"

definition kcopy :: "u32 \<Rightarrow> u32 \<Rightarrow> nat \<Rightarrow> 'z mem_state_scheme \<Rightarrow> 'z mem_state_scheme" where
  "kcopy dst src n s = fold (\<lambda>i s. set_ram8 (dst + of_nat i) (ram8 s (src + of_nat i)) s) [0..<n] s"

text \<open>The system call's return frame, from the slot of \<open>ebx\<close> up: 16 words with a user stack pointer, 14 without.\<close>

definition copy_frame :: "u32 \<Rightarrow> u32 \<Rightarrow> nat \<Rightarrow> 'z mem_state_scheme \<Rightarrow> 'z mem_state_scheme" where
  "copy_frame dst src words s =
     fold (\<lambda>i s. set_ram32 (dst + 4 * of_nat i) (ram32 s (src + 4 * of_nat i)) s) [0..<words] s"

subsection \<open>fork\<close>

definition drop_inode :: "nat option \<Rightarrow> 'z fs_state_scheme \<Rightarrow> 'z fs_state_scheme" where
  "drop_inode i s = (case i of None \<Rightarrow> s | Some n \<Rightarrow> upd_inode n (\<lambda>ip. ip\<lparr>i_count := i_count ip - 1\<rparr>) s)"

definition task_index :: "'z task_state_scheme \<Rightarrow> nat" where
  "task_index s = (case scan (\<lambda>i. task s i = current s) 0 NR_TASKS of Some i \<Rightarrow> i | None \<Rightarrow> NR_TASKS)"

definition share_files :: "task_struct \<Rightarrow> 'z sys_state_scheme \<Rightarrow> 'z sys_state_scheme" where
  "share_files t s = fold (\<lambda>fd s. case t_filp t fd of None \<Rightarrow> s | Some fp \<Rightarrow> upd_fp fp (\<lambda>f. f\<lparr>f_count := f_count f + 1\<rparr>) s)
     [0..<NR_OPEN] s"

definition inherit_signals :: "nat \<Rightarrow> nat \<Rightarrow> 'z sys_state_scheme \<Rightarrow> 'z sys_state_scheme" where
  "inherit_signals pid par s = s\<lparr>sig_blocked := (sig_blocked s)(pid := sig_blocked s par),
     sig_sa := (sig_sa s)(pid := sig_sa s par),
     sig_handler_mask := (sig_handler_mask s)(pid := sig_handler_mask s par),
     sig_handler_mask_saved := (sig_handler_mask_saved s)(pid := False),
     sig_sa_mask := (sig_sa_mask s)(pid := (\<lambda>k. if k < SIG_SA_MAX then sig_sa_mask s par k else sig_sa_mask s pid k))\<rparr>"

text \<open>The child's task structure and references, before its stack and address space.\<close>

definition fork_task :: "tptr \<Rightarrow> nat \<Rightarrow> 'z sys_state_scheme \<Rightarrow> 'z sys_state_scheme" where
  "fork_task p nr s =
     (let s = s\<lparr>task := (task s)(nr := p)\<rparr>;
          s = upd_task p (\<lambda>_. cur s) s;
          s = bump_inode (t_exe_inode (cur s)) (bump_inode (t_root (cur s)) (bump_inode (t_pwd (cur s)) s));
          s = upd_task p (\<lambda>t. t\<lparr>t_parent := task_index s\<rparr>) s;
          s = share_files (tstruct s p) s;
          s = upd_task p (\<lambda>t. t\<lparr>t_pid := nr\<rparr>) s;
          s = inherit_signals nr (t_pid (cur s)) s
      in upd_task p (\<lambda>t. t\<lparr>t_counter := t_priority t, t_state := TASK_RUNNING\<rparr>) s)"

definition fork_fail :: "tptr \<Rightarrow> nat \<Rightarrow> 'z sys_state_scheme \<Rightarrow> (int \<times> 'z sys_state_scheme) option" where
  "fork_fail p nr s = do {
     s \<leftarrow> (if t_pg_dir (tstruct s p) \<noteq> 0
            then do { s \<leftarrow> free_user_space (t_pg_dir (tstruct s p)) s; Some (upd_task p (\<lambda>t. t\<lparr>t_pg_dir := 0\<rparr>) s) }
            else Some s);
     let s = drop_inode (t_root (tstruct s p)) (drop_inode (t_pwd (tstruct s p)) s);
         s = s\<lparr>task := (task s)(nr := 0)\<rparr>
     in Some (-1, free_page p s) }"

definition fork_tss :: "tptr \<Rightarrow> u32 \<Rightarrow> u32 \<Rightarrow> u32 \<Rightarrow> nat \<Rightarrow> tss_struct \<Rightarrow> tss_struct" where
  "fork_tss p pg_dir frame ret_from_sys_call nr t = t\<lparr>tss_back_link := 0, tss_esp0 := p + of_nat PAGE_SIZE, tss_ss0 := KERNEL_DS,
     tss_cr3 := (if pg_dir \<noteq> 0 then pg_dir else PAGE_DIRECTORY), tss_eip := ret_from_sys_call, tss_eflags := 0x202,
     tss_eax := 0, tss_ebx := 0, tss_ecx := 0, tss_edx := 0, tss_esi := 0, tss_edi := 0, tss_ebp := 0, tss_esp := frame,
     tss_cs := KERNEL_CS, tss_ss := KERNEL_DS, tss_ds := KERNEL_DS, tss_es := KERNEL_DS, tss_fs := KERNEL_DS,
     tss_gs := KERNEL_DS, tss_ldt := of_nat ((8 + nr * 2 + 1) * 8)\<rparr>"

text \<open>
  The child's address space. The copy of the caller's frames is bounded against the page, but not the return frame
  below it, which may reach into the task structure: that outcome is \<open>None\<close>.
\<close>

definition fork_space :: "u32 \<Rightarrow> tptr \<Rightarrow> 'z sys_state_scheme \<Rightarrow> (bool \<times> 'z sys_state_scheme) option" where
  "fork_space syscall_cpl p s =
     (let s = upd_task p (\<lambda>t. t\<lparr>t_pg_dir := 0\<rparr>) s
      in if t_pg_dir (cur s) \<noteq> 0 \<and> syscall_cpl = 3
         then let (dir, s) = alloc_user_pgdir s; s = upd_task p (\<lambda>t. t\<lparr>t_pg_dir := dir\<rparr>) s
              in if dir = 0 then Some (False, s)
                 else let (r, s) = copy_page_tables (t_pg_dir (cur s)) dir s
                      in if r < 0 then do { s \<leftarrow> free_user_space dir s; Some (False, upd_task p (\<lambda>t. t\<lparr>t_pg_dir := 0\<rparr>) s) }
                         else Some (True, s)
         else Some (True, s))"

definition fork_child :: "u32 \<Rightarrow> u32 \<Rightarrow> u32 \<Rightarrow> tptr \<Rightarrow> nat \<Rightarrow> 'z sys_state_scheme \<Rightarrow> (int \<times> 'z sys_state_scheme) option" where
  "fork_child syscall_esp syscall_cpl ret_from_sys_call p nr s =
     (let words = (if syscall_cpl = 3 then 16 else 14);
          parent_sp = syscall_esp + (if syscall_cpl = 3 then 20 else 12);
          need = sint (tss_esp0 (t_tss (cur s)) - parent_sp)
      in if need < 0 \<or> int SIZEOF_TASK_STRUCT + need > int PAGE_SIZE then fork_fail p nr s
         else if SIZEOF_TASK_STRUCT + nat need + 4 * words > PAGE_SIZE then None
         else let child_sp = p + of_nat PAGE_SIZE - word_of_int need;
                  s = kcopy child_sp parent_sp (nat need) s;
                  frame = child_sp - of_nat (4 * words);
                  s = copy_frame frame (syscall_esp - 44) words s
              in do {
                (ok, s) \<leftarrow> fork_space syscall_cpl p s;
                if \<not> ok then fork_fail p nr s
                else Some (int nr, upd_task p (\<lambda>t. t\<lparr>t_tss := fork_tss p (t_pg_dir t) frame ret_from_sys_call nr (t_tss t)\<rparr>) s) })"

definition sys_fork :: "u32 \<Rightarrow> u32 \<Rightarrow> u32 \<Rightarrow> 'z sys_state_scheme \<Rightarrow> (int \<times> 'z sys_state_scheme) option" where
  "sys_fork syscall_esp syscall_cpl ret_from_sys_call s =
     (let (p, s) = get_free_page s
      in if p = 0 then Some (-1, s)
         else case scan (\<lambda>i. task s i = 0) 0 NR_TASKS of
           None \<Rightarrow> Some (-1, free_page p s)
         | Some nr \<Rightarrow>
             if nr = 0 then Some (-1, free_page p (s\<lparr>task := (task s)(0 := p)\<rparr>))
             else fork_child syscall_esp syscall_cpl ret_from_sys_call p nr (fork_task p nr s))"

subsection \<open>exit\<close>

definition exit_files :: "'z sys_state_scheme \<Rightarrow> 'z sys_state_scheme option" where
  "exit_files s = for_range 0 NR_OPEN (\<lambda>fd s.
     case t_filp (cur s) fd of
       None \<Rightarrow> Some s
     | Some fp \<Rightarrow> do { s \<leftarrow> file_put fp s; Some (set_filp fd None s) }) s"

definition exit_inodes :: "'z sys_state_scheme \<Rightarrow> 'z sys_state_scheme option" where
  "exit_inodes s = do {
     s \<leftarrow> (case t_pwd (cur s) of None \<Rightarrow> Some s
            | Some n \<Rightarrow> do { s \<leftarrow> iput (Some n) s; Some (upd_cur (\<lambda>t. t\<lparr>t_pwd := None\<rparr>) s) });
     s \<leftarrow> (case t_root (cur s) of None \<Rightarrow> Some s
            | Some n \<Rightarrow> do { s \<leftarrow> iput (Some n) s; Some (upd_cur (\<lambda>t. t\<lparr>t_root := None\<rparr>) s) });
     (case t_exe_inode (cur s) of None \<Rightarrow> Some s
      | Some n \<Rightarrow> do { s \<leftarrow> iput (Some n) s; Some (upd_cur (\<lambda>t. t\<lparr>t_exe_inode := None, t_nr_exe_regions := 0\<rparr>) s) }) }"

definition exit_space :: "'z sys_state_scheme \<Rightarrow> 'z sys_state_scheme option" where
  "exit_space s =
     (let dir = t_pg_dir (cur s)
      in if dir \<noteq> 0 \<and> dir \<noteq> PAGE_DIRECTORY
         then do { s \<leftarrow> free_user_space dir (upd_cur (\<lambda>t. t\<lparr>t_tss := (t_tss t)\<lparr>tss_cr3 := PAGE_DIRECTORY\<rparr>\<rparr>) s);
                   Some (upd_cur (\<lambda>t. t\<lparr>t_pg_dir := 0\<rparr>) s) }
         else Some s)"

definition notify_parent :: "'z task_state_scheme \<Rightarrow> 'z task_state_scheme" where
  "notify_parent s =
     (let par = task s (t_parent (cur s))
      in if par \<noteq> 0 \<and> t_handlers (tstruct s par) SIGCHLD \<noteq> SIG_IGN
         then upd_task par (\<lambda>t. t\<lparr>t_signal := t_signal t OR sig_bit SIGCHLD,
                t_state := (if t_state t = TASK_INTERRUPTIBLE then TASK_RUNNING else t_state t)\<rparr>) s
         else s)"

definition zombify :: "int \<Rightarrow> 'z task_state_scheme \<Rightarrow> 'z task_state_scheme" where
  "zombify ret s = notify_parent (upd_cur (\<lambda>t. t\<lparr>t_exit_code := ret, t_state := TASK_ZOMBIE\<rparr>) s)"

text \<open>
  \<open>exit\<close> does not return: the result is the state once the processor has been handed on. The first task turns into
  the idle loop instead of a zombie. The parent's slot number is an index without a check: a task whose parent was
  not in the table when it was forked has the index 64.
\<close>

definition sys_exit :: "int \<Rightarrow> 'z sys_state_scheme \<Rightarrow> 'z sys_state_scheme option" where
  "sys_exit ret s = do {
     s \<leftarrow> exit_files s;
     s \<leftarrow> exit_inodes s;
     if current s = task s 0 then schedule (set_state TASK_RUNNING s)
     else do {
       s \<leftarrow> exit_space s;
       if t_parent (cur s) \<ge> NR_TASKS then None else schedule (zombify ret s) } }"

definition sys_getpid :: "'z task_state_scheme \<Rightarrow> int" where
  "sys_getpid s = int (t_pid (cur s))"

definition sys_getppid :: "'z task_state_scheme \<Rightarrow> int option" where
  "sys_getppid s =
     (if t_parent (cur s) \<ge> NR_TASKS then None
      else let p = task s (t_parent (cur s)) in Some (if p \<noteq> 0 then int (t_pid (tstruct s p)) else 0))"

subsection \<open>waitpid and pause\<close>

definition child_of :: "nat \<Rightarrow> 'z task_state_scheme \<Rightarrow> nat \<Rightarrow> bool" where
  "child_of me s i \<longleftrightarrow> task s i \<noteq> 0 \<and> t_parent (tstruct s (task s i)) = me"

definition waited_for :: "nat \<Rightarrow> int \<Rightarrow> 'z task_state_scheme \<Rightarrow> nat \<Rightarrow> bool" where
  "waited_for me pid s i \<longleftrightarrow> child_of me s i \<and> (pid > 0 \<longrightarrow> int (t_pid (tstruct s (task s i))) = pid) \<and>
     t_state (tstruct s (task s i)) = TASK_ZOMBIE"

definition reap :: "u32 \<Rightarrow> nat \<Rightarrow> 'z mem_state_scheme \<Rightarrow> int \<times> stores \<times> 'z mem_state_scheme" where
  "reap stat_addr i s =
     (let p = task s i
      in (int (t_pid (tstruct s p)),
          if stat_addr \<noteq> 0 then put_fs_long (word_of_int (t_exit_code (tstruct s p))) stat_addr else [],
          free_page p (s\<lparr>task := (task s)(i := 0)\<rparr>)))"

fun wait_loop :: "('z sys_state_scheme \<Rightarrow> 'z sys_state_scheme) list \<Rightarrow> nat \<Rightarrow> int \<Rightarrow> u32 \<Rightarrow> bool \<Rightarrow> 'z sys_state_scheme \<Rightarrow>
    (int \<times> stores \<times> 'z sys_state_scheme) option" where
  "wait_loop es me pid stat_addr nohang s =
     (case scan (waited_for me pid s) 1 NR_TASKS of
        Some i \<Rightarrow> Some (reap stat_addr i s)
      | None \<Rightarrow>
          if scan (child_of me s) 1 NR_TASKS = None then Some (-1, [], s)
          else if nohang then Some (0, [], s)
          else case es of [] \<Rightarrow> None
               | e # es' \<Rightarrow> do {
                   s \<leftarrow> schedule (set_state TASK_INTERRUPTIBLE s);
                   wait_loop es' me pid stat_addr nohang (let s = e s in set_state TASK_RUNNING s) })"

declare wait_loop.simps [simp del]

definition sys_waitpid :: "('z sys_state_scheme \<Rightarrow> 'z sys_state_scheme) list \<Rightarrow> int \<Rightarrow> u32 \<Rightarrow> u32 \<Rightarrow> 'z sys_state_scheme \<Rightarrow>
    (int \<times> stores \<times> 'z sys_state_scheme) option" where
  "sys_waitpid es pid stat_addr options s =
     (if t_handlers (cur s) SIGCHLD = SIG_IGN then Some (-1, [], s)
      else wait_loop es (task_index s) pid stat_addr (options AND 1 \<noteq> 0) s)"

text \<open>Waiting for a signal that is not blocked, shared by \<open>pause\<close> and \<open>sigsuspend\<close>.\<close>

fun signal_wait :: "('z sys_state_scheme \<Rightarrow> 'z sys_state_scheme) list \<Rightarrow> ('z sys_state_scheme \<Rightarrow> u32) \<Rightarrow> 'z sys_state_scheme \<Rightarrow>
    'z sys_state_scheme option" where
  "signal_wait es blocked s =
     (if t_signal (cur s) AND NOT (blocked s) \<noteq> 0 then Some s
      else case es of [] \<Rightarrow> None
           | e # es' \<Rightarrow> do {
               s \<leftarrow> schedule s;
               signal_wait es' blocked (let s = e s in set_state TASK_INTERRUPTIBLE s) })"

declare signal_wait.simps [simp del]

definition sys_pause :: "('z sys_state_scheme \<Rightarrow> 'z sys_state_scheme) list \<Rightarrow> 'z sys_state_scheme \<Rightarrow> (int \<times> 'z sys_state_scheme) option" where
  "sys_pause es s = do {
     s \<leftarrow> signal_wait es (\<lambda>s. sig_blocked s (t_pid (cur s))) (set_state TASK_INTERRUPTIBLE s);
     Some (0, set_state TASK_RUNNING s) }"

end
