(* ===== verification/Signal.thy ===== *)
theory Signal
  imports Process
begin

text \<open>
  Signal dispositions, masks and delivery: the second half of \<open>kernel/process.c\<close>, and \<open>sys_sigreturn\<close> of
  \<open>kernel/asm.s\<close>. The frame of the interrupted system call is a function from the slot number, counted in words from
  the saved \<open>ebx\<close>, to its content.
\<close>

subsection \<open>Dispositions\<close>

definition handler_ok :: "u32 \<Rightarrow> bool" where
  "handler_ok h \<longleftrightarrow> h = SIG_DFL \<or> h = SIG_IGN \<or> USER_PROG_START \<le> h \<and> h < USER_PROG_END"

definition sys_signal :: "int \<Rightarrow> u32 \<Rightarrow> 'z task_state_scheme \<Rightarrow> int \<times> 'z task_state_scheme" where
  "sys_signal sig handler s =
     (if sig < 1 \<or> sig \<ge> 32 \<or> sig = int SIGKILL \<or> \<not> handler_ok handler then (-1, s)
      else (sint (t_handlers (cur s) (nat sig)), upd_cur (\<lambda>t. t\<lparr>t_handlers := (t_handlers t)(nat sig := handler)\<rparr>) s))"

definition sig_action_mask :: "nat \<Rightarrow> nat \<Rightarrow> 'z sys_state_scheme \<Rightarrow> u16" where
  "sig_action_mask pid sig s = (if 0 < sig \<and> sig < SIG_SA_MAX then sig_sa_mask s pid sig else 0)"

text \<open>
  Taking an action back writes \<open>sig_sa_mask\<close> without the bound its other accesses have: for a signal above 17 the
  store falls into the row of the next task, or behind the table.
\<close>

definition clear_sa_mask :: "nat \<Rightarrow> nat \<Rightarrow> (nat \<Rightarrow> nat \<Rightarrow> u16) \<Rightarrow> (nat \<Rightarrow> nat \<Rightarrow> u16) option" where
  "clear_sa_mask pid sig m =
     (let k = pid * SIG_SA_MAX + sig
      in if k \<ge> NR_TASKS * SIG_SA_MAX then None
         else Some (m(k div SIG_SA_MAX := (m (k div SIG_SA_MAX))(k mod SIG_SA_MAX := 0))))"

definition sa_install :: "nat \<Rightarrow> u32 \<Rightarrow> u32 \<Rightarrow> 'z sys_state_scheme \<Rightarrow> 'z sys_state_scheme option" where
  "sa_install sig handler msk s =
     (let s = upd_cur (\<lambda>t. t\<lparr>t_handlers := (t_handlers t)(sig := handler)\<rparr>) s; pid = t_pid (cur s)
      in if handler = SIG_DFL \<or> handler = SIG_IGN
         then do { m \<leftarrow> clear_sa_mask pid sig (sig_sa_mask s);
                   Some (s\<lparr>sig_sa := (sig_sa s)(pid := sig_sa s pid AND NOT (sig_bit sig)), sig_sa_mask := m\<rparr>) }
         else let s = s\<lparr>sig_sa := (sig_sa s)(pid := sig_sa s pid OR sig_bit sig)\<rparr>
              in Some (if sig < SIG_SA_MAX
                       then s\<lparr>sig_sa_mask := (sig_sa_mask s)(pid := (sig_sa_mask s pid)(sig := ucast (msk AND 0x1FFFF)))\<rparr>
                       else s))"

definition sys_sigaction :: "umem \<Rightarrow> int \<Rightarrow> u32 \<Rightarrow> u32 \<Rightarrow> 'z sys_state_scheme \<Rightarrow> (int \<times> stores \<times> 'z sys_state_scheme) option" where
  "sys_sigaction um sig act oldact s =
     (if sig < 1 \<or> sig \<ge> 32 \<or> sig = int SIGKILL then Some (-1, [], s)
      else let n = nat sig; pid = t_pid (cur s);
               ws = (if oldact \<noteq> 0
                     then put_fs_long (t_handlers (cur s) n) oldact @ put_fs_long (ucast (sig_action_mask pid n s)) (oldact + 4)
                            @ put_fs_long (if bit (sig_sa s pid) n then 1 else 0) (oldact + 8)
                     else []);
               um = apply_stores ws um
           in if act = 0 then Some (0, ws, s)
              else let handler = get_fs_long um act; msk = get_fs_long um (act + 4)
                   in if \<not> handler_ok handler then Some (-1, ws, s)
                      else do { s \<leftarrow> sa_install n handler msk s; Some (0, ws, s) })"

subsection \<open>Masks\<close>

definition SIG_UNBLOCKABLE :: u32 where "SIG_UNBLOCKABLE = sig_bit SIGKILL"

abbreviation set_blocked :: "u32 \<Rightarrow> 'z sys_state_scheme \<Rightarrow> 'z sys_state_scheme" where
  "set_blocked m s \<equiv> s\<lparr>sig_blocked := (sig_blocked s)(t_pid (cur s) := m)\<rparr>"

abbreviation blocked :: "'z sys_state_scheme \<Rightarrow> u32" where
  "blocked s \<equiv> sig_blocked s (t_pid (cur s))"

definition sys_sigprocmask :: "umem \<Rightarrow> int \<Rightarrow> u32 \<Rightarrow> u32 \<Rightarrow> 'z sys_state_scheme \<Rightarrow> int \<times> stores \<times> 'z sys_state_scheme" where
  "sys_sigprocmask um how newset oldset s =
     (let old = blocked s;
          ws = (if oldset \<noteq> 0 then put_fs_long old oldset else []);
          arg = get_fs_long (apply_stores ws um) newset;
          install = (\<lambda>m. (0, ws, set_blocked (m AND NOT SIG_UNBLOCKABLE) s))
      in if newset = 0 then (0, ws, s)
         else if how = 1 then install (old OR arg)
         else if how = 2 then install (old AND NOT arg)
         else if how = 3 then install arg
         else (-1, ws, s))"

definition sys_sigsuspend :: "umem \<Rightarrow> ('z sys_state_scheme \<Rightarrow> 'z sys_state_scheme) list \<Rightarrow> u32 \<Rightarrow> 'z sys_state_scheme \<Rightarrow>
    (int \<times> 'z sys_state_scheme) option" where
  "sys_sigsuspend um es msk s =
     (let old = blocked s;
          new = (if msk \<noteq> 0 then get_fs_long um msk AND NOT SIG_UNBLOCKABLE else 0)
      in do {
        s \<leftarrow> signal_wait es (\<lambda>_. new) (set_state TASK_INTERRUPTIBLE (set_blocked new s));
        let s = set_state TASK_RUNNING s; pid = t_pid (cur s)
        in Some (-1, s\<lparr>sig_suspend_mask := (sig_suspend_mask s)(pid := old),
                       sig_suspend_pending := (sig_suspend_pending s)(pid := True)\<rparr>) })"

definition sig_restore_suspend_mask :: "'z sys_state_scheme \<Rightarrow> 'z sys_state_scheme" where
  "sig_restore_suspend_mask s =
     (let pid = t_pid (cur s)
      in if sig_suspend_pending s pid
         then set_blocked (sig_suspend_mask s pid) (s\<lparr>sig_suspend_pending := (sig_suspend_pending s)(pid := False)\<rparr>)
         else s)"

definition sigreturn_restore_mask :: "'z sys_state_scheme \<Rightarrow> 'z sys_state_scheme" where
  "sigreturn_restore_mask s =
     (let pid = t_pid (cur s)
      in if sig_handler_mask_saved s pid
         then set_blocked (sig_handler_mask s pid) (s\<lparr>sig_handler_mask_saved := (sig_handler_mask_saved s)(pid := False)\<rparr>)
         else s)"

subsection \<open>Entering a handler\<close>

type_synonym uframe = "nat \<Rightarrow> u32"

definition UFRAME_EAX :: nat where "UFRAME_EAX = 6"
definition UFRAME_EIP :: nat where "UFRAME_EIP = 11"
definition UFRAME_CS :: nat where "UFRAME_CS = 12"
definition UFRAME_EFLAGS :: nat where "UFRAME_EFLAGS = 13"
definition UFRAME_ESP :: nat where "UFRAME_ESP = 14"
definition UFRAME_SS :: nat where "UFRAME_SS = 15"
definition USER_SIGRETURN_ENTRY :: u32 where "USER_SIGRETURN_ENTRY = 0x083FF100"
definition SIGFRAME_BYTES :: u32 where "SIGFRAME_BYTES = 92"
definition SIGFRAME_MAGIC :: u32 where "SIGFRAME_MAGIC = 0x51475346"

lemmas uframe_consts = UFRAME_EAX_def UFRAME_EIP_def UFRAME_CS_def UFRAME_EFLAGS_def UFRAME_ESP_def UFRAME_SS_def

definition sigreturn_stub :: "byte list" where
  "sigreturn_stub = [0xB8, 67, 0, 0, 0, 0xCD, 0x80, 0xEB, 0xFE]"

definition save_context :: "nat \<Rightarrow> u32 \<Rightarrow> uframe \<Rightarrow> sig_context" where
  "save_context sig handler kf = \<lparr>sc_magic = SIGFRAME_MAGIC, sc_retaddr = USER_SIGRETURN_ENTRY, sc_handler = handler,
     sc_signo = of_nat sig, sc_eip = kf UFRAME_EIP, sc_cs = kf UFRAME_CS, sc_eflags = kf UFRAME_EFLAGS,
     sc_esp = kf UFRAME_ESP, sc_ss = kf UFRAME_SS, sc_gs = kf 7, sc_fs = kf 8, sc_es = kf 9, sc_ds = kf 10,
     sc_eax = kf UFRAME_EAX, sc_ebx = kf 0, sc_ecx = kf 1, sc_edx = kf 2, sc_esi = kf 3, sc_edi = kf 4, sc_ebp = kf 5\<rparr>"

definition user_regs :: "sig_context \<Rightarrow> u32 list" where
  "user_regs c = [sc_eip c, sc_cs c, sc_eflags c, sc_esp c, sc_ss c, sc_gs c, sc_fs c, sc_es c, sc_ds c, sc_eax c,
     sc_ebx c, sc_ecx c, sc_edx c, sc_esi c, sc_edi c, sc_ebp c]"

definition put_longs :: "u32 list \<Rightarrow> u32 \<Rightarrow> stores" where
  "put_longs vs a = concat (map (\<lambda>i. put_fs_long (vs ! i) (a + 4 * of_nat i)) [0..<length vs])"

definition deliver_signal :: "nat \<Rightarrow> u32 \<Rightarrow> uframe \<Rightarrow> 'z sys_state_scheme \<Rightarrow> uframe \<times> stores \<times> 'z sys_state_scheme" where
  "deliver_signal sig handler kf s =
     (let user_esp = kf UFRAME_ESP; frame = user_esp - 4 - SIGFRAME_BYTES
      in if sint user_esp < sint USER_STACK_FLOOR \<or> sint user_esp > sint USER_STACK_TOP \<or> sint frame < sint USER_STACK_FLOOR
         then (kf, [], s)
         else let c = save_context sig handler kf
              in (kf(UFRAME_EIP := handler, UFRAME_ESP := frame),
                  put_longs (user_regs c) (frame + 8) @ put_fs_long USER_SIGRETURN_ENTRY frame
                    @ put_fs_long (of_nat sig) (frame + 4) @ put_fs_bytes sigreturn_stub USER_SIGRETURN_ENTRY,
                  s\<lparr>sigreturn_frame := c\<rparr>))"

subsection \<open>Delivery\<close>

datatype 's sigres = Resume uframe stores 's | Gone 's

fun stop_wait :: "('z sys_state_scheme \<Rightarrow> 'z sys_state_scheme) list \<Rightarrow> 'z sys_state_scheme \<Rightarrow>
    (('z sys_state_scheme \<Rightarrow> 'z sys_state_scheme) list \<times> 'z sys_state_scheme) option" where
  "stop_wait es s =
     (if t_state (cur s) = TASK_RUNNING then Some (es, s)
      else case es of [] \<Rightarrow> None | e # es' \<Rightarrow> do { s \<leftarrow> schedule s; stop_wait es' (e s) })"

declare stop_wait.simps [simp del]

abbreviation take_signal :: "nat \<Rightarrow> 'z task_state_scheme \<Rightarrow> 'z task_state_scheme" where
  "take_signal sig s \<equiv> upd_cur (\<lambda>t. t\<lparr>t_signal := t_signal t AND NOT (sig_bit sig)\<rparr>) s"

definition enter_handler :: "nat \<Rightarrow> uframe \<Rightarrow> 'z sys_state_scheme \<Rightarrow> uframe \<times> stores \<times> 'z sys_state_scheme" where
  "enter_handler sig kf s =
     (let handler = t_handlers (cur s) sig; pid = t_pid (cur s);
          s = (if sig \<noteq> SIGCHLD \<and> \<not> bit (sig_sa s pid) sig
               then upd_cur (\<lambda>t. t\<lparr>t_handlers := (t_handlers t)(sig := SIG_DFL)\<rparr>) s else s);
          s = sig_restore_suspend_mask s;
          s = s\<lparr>sig_handler_mask := (sig_handler_mask s)(pid := sig_blocked s pid),
                sig_handler_mask_saved := (sig_handler_mask_saved s)(pid := True),
                sig_blocked := (sig_blocked s)(pid := sig_blocked s pid OR sig_bit sig OR ucast (sig_action_mask pid sig s))\<rparr>
      in deliver_signal sig handler kf s)"

definition fatal :: "nat \<Rightarrow> bool" where
  "fatal sig \<longleftrightarrow> sig \<in> set [SIGINT, SIGQUIT, SIGKILL, SIGSEGV, SIGPIPE, SIGALRM]"

fun signal_loop :: "nat list \<Rightarrow> ('z sys_state_scheme \<Rightarrow> 'z sys_state_scheme) list \<Rightarrow> uframe \<Rightarrow> 'z sys_state_scheme \<Rightarrow>
    'z sys_state_scheme sigres option" where
  "signal_loop [] es kf s = Some (Resume kf [] (sig_restore_suspend_mask s))"
| "signal_loop (sig # sigs) es kf s =
     (if \<not> bit (t_signal (cur s)) sig then signal_loop sigs es kf s
      else if sig = SIGSTOP then do {
        (es, s) \<leftarrow> stop_wait es (set_state TASK_STOPPED (take_signal sig s));
        signal_loop sigs es kf s }
      else if sig = SIGCONT then
        let s = take_signal sig s
        in signal_loop sigs es kf (if t_state (cur s) = TASK_STOPPED then set_state TASK_RUNNING s else s)
      else if bit (blocked s) sig then signal_loop sigs es kf s
      else let s = take_signal sig s; handler = t_handlers (cur s) sig
           in if handler = SIG_IGN then signal_loop sigs es kf s
              else if handler \<noteq> SIG_DFL \<and> kf UFRAME_CS AND 3 = 3
              then let (kf, ws, s) = enter_handler sig kf s in Some (Resume kf ws s)
              else if fatal sig then do { s \<leftarrow> sys_exit (128 + int sig) s; Some (Gone s) }
              else signal_loop sigs es kf s)"

definition do_signal :: "('z sys_state_scheme \<Rightarrow> 'z sys_state_scheme) list \<Rightarrow> uframe \<Rightarrow> 'z sys_state_scheme \<Rightarrow>
    'z sys_state_scheme sigres option" where
  "do_signal es kf s =
     (if t_signal (cur s) = 0 then Some (Resume kf [] (sig_restore_suspend_mask s)) else signal_loop [1..<32] es kf s)"

text \<open>
  From the timer interrupt: the frame \<open>pushal\<close> leaves is rearranged, and only the two slots a delivery rewrites are
  copied back.
\<close>

definition canon :: "uframe \<Rightarrow> uframe" where
  "canon f = (\<lambda>k. if k < 16 then f ([4, 6, 5, 1, 0, 2, 7, 8, 9, 10, 11, 12, 13, 14, 15, 16] ! k) else 0)"

definition do_signal_from_intr :: "('z sys_state_scheme \<Rightarrow> 'z sys_state_scheme) list \<Rightarrow> uframe \<Rightarrow> 'z sys_state_scheme \<Rightarrow>
    'z sys_state_scheme sigres option" where
  "do_signal_from_intr es f s =
     (if current s = 0 \<or> t_signal (cur s) = 0 \<or> f 13 AND 3 \<noteq> 3 then Some (Resume f [] s)
      else do {
        r \<leftarrow> do_signal es (canon f) s;
        Some (case r of Resume kf ws s \<Rightarrow> Resume (f(12 := kf UFRAME_EIP, 15 := kf UFRAME_ESP)) ws s | Gone s \<Rightarrow> Gone s) })"

text \<open>Returning from a handler; a frame that does not look like one the kernel made stops the machine.\<close>

definition context_ok :: "sig_context \<Rightarrow> bool" where
  "context_ok c \<longleftrightarrow> sc_magic c = SIGFRAME_MAGIC \<and> sc_retaddr c = USER_SIGRETURN_ENTRY \<and> sc_eip c \<noteq> 0 \<and> sc_cs c = 0x1B \<and>
     sc_ss c = 0x23 \<and> sc_esp c AND 3 = 0 \<and> USER_STACK_FLOOR \<le> sc_esp c \<and> sc_esp c < USER_WINDOW_TOP"

definition restore_frame :: "sig_context \<Rightarrow> uframe \<Rightarrow> uframe" where
  "restore_frame c kf = kf(UFRAME_SS := sc_ss c, UFRAME_ESP := sc_esp c, UFRAME_EFLAGS := sc_eflags c, UFRAME_CS := sc_cs c,
     UFRAME_EIP := sc_eip c, 7 := sc_gs c, 8 := sc_fs c, 9 := sc_es c, 10 := sc_ds c, UFRAME_EAX := sc_eax c,
     0 := sc_ebx c, 1 := sc_ecx c, 2 := sc_edx c, 3 := sc_esi c, 4 := sc_edi c, 5 := sc_ebp c)"

definition sys_sigreturn :: "uframe \<Rightarrow> 'z sys_state_scheme \<Rightarrow> (uframe \<times> 'z sys_state_scheme) option" where
  "sys_sigreturn kf s =
     (let s = sigreturn_restore_mask s; c = sigreturn_frame s
      in if context_ok c then Some (restore_frame c kf, s) else None)"

end
