(* ===== verification/Exec.thy ===== *)
theory Exec
  imports Signal
begin

text \<open>
  Address spaces in use: the page-fault handler of \<open>mm/memory.c\<close>, which fills pages on first touch, from the program
  file, from swap or by breaking a copy-on-write share, and \<open>execve\<close> of \<open>kernel/sys.c\<close>.
\<close>

subsection \<open>Filling a page of the program\<close>

definition in_region :: "u32 \<Rightarrow> exe_region \<Rightarrow> bool" where
  "in_region va r \<longleftrightarrow> \<not> (va < r_va r \<or> va \<ge> r_va r + r_memsz r)"

text \<open>The bytes arrive in the frame as they are read, also when the read comes up short.\<close>

definition fill_frame :: "u32 \<Rightarrow> byte list \<Rightarrow> 'z mem_state_scheme \<Rightarrow> 'z mem_state_scheme" where
  "fill_frame pa bs s = s\<lparr>ram := (ram s)(unat pa div PAGE_SIZE :=
     (\<lambda>k. if k < length bs then bs ! k else ram s (unat pa div PAGE_SIZE) k))\<rparr>"

definition page_in_image :: "u32 \<Rightarrow> u32 \<Rightarrow> 'z fs_state_scheme \<Rightarrow> (int \<times> 'z fs_state_scheme) option" where
  "page_in_image va pa s =
     (case t_exe_inode (cur s) of
        None \<Rightarrow> Some (-1, s)
      | Some exe \<Rightarrow>
          case scan (\<lambda>i. in_region va (t_exe_regions (cur s) i)) 0 (t_nr_exe_regions (cur s)) of
            None \<Rightarrow> Some (-1, s)
          | Some i \<Rightarrow>
              let r = t_exe_regions (cur s) i; delta = va - r_va r
              in if delta \<ge> r_filesz r then Some (0, s)
                 else let n = min (r_filesz r - delta) (of_nat PAGE_SIZE)
                      in do {
                        (got, bs, s) \<leftarrow> file_read exe (r_file_off r + delta) (sint n) s;
                        let s = fill_frame pa bs s
                        in if got \<noteq> sint n then Some (-1, s) else Some (1, s\<lparr>nr_page_ins := nr_page_ins s + 1\<rparr>) })"

subsection \<open>The page fault\<close>

datatype 's fault = Retry 's | Killed 's

definition fault_kill :: "'z sys_state_scheme \<Rightarrow> 'z sys_state_scheme fault option" where
  "fault_kill s = do { s \<leftarrow> sys_exit (128 + int SIGSEGV) s; Some (Killed s) }"

definition fault_cow :: "u32 \<Rightarrow> 'z sys_state_scheme \<Rightarrow> 'z sys_state_scheme fault option" where
  "fault_cow address s =
     (let (r, s) = un_wp_page address s
      in if r = 0 then Some (Retry (s\<lparr>nr_cow_breaks := nr_cow_breaks s + 1\<rparr>))
         else fault_kill (s\<lparr>nr_oom := nr_oom s + 1\<rparr>))"

definition fault_swap :: "u32 \<Rightarrow> u32 \<Rightarrow> int \<Rightarrow> 'z sys_state_scheme \<Rightarrow> 'z sys_state_scheme fault option" where
  "fault_swap pgdir va slot s =
     (let (pa, s) = get_free_page s
      in if pa = 0 then fault_kill s
         else let (r, s) = swap_in_page slot pa s
              in if r = 0 then Some (Retry (map_user_page pgdir va pa (PTE_PRESENT OR PTE_RW OR PTE_USER) (swap_free_slot slot s)))
                 else fault_kill (free_page pa s))"

definition fault_demand :: "u32 \<Rightarrow> u32 \<Rightarrow> 'z sys_state_scheme \<Rightarrow> 'z sys_state_scheme fault option" where
  "fault_demand pgdir va s =
     (let (pa, s) = get_free_page s
      in if pa = 0 then fault_kill (s\<lparr>nr_oom := nr_oom s + 1\<rparr>)
         else let s = s\<lparr>nr_demand_pages := nr_demand_pages s + 1\<rparr>
              in do {
                s \<leftarrow> (if USER_PROG_START \<le> va \<and> va < USER_PROG_END
                      then do { (_, s) \<leftarrow> page_in_image va pa s; Some s } else Some s);
                Some (Retry (map_user_page pgdir va pa (PTE_PRESENT OR PTE_RW OR PTE_USER) s)) })"

definition do_no_page :: "u32 \<Rightarrow> u32 \<Rightarrow> 'z sys_state_scheme \<Rightarrow> 'z sys_state_scheme fault option" where
  "do_no_page error_code address s =
     (let pgdir = (if current s \<noteq> 0 then t_pg_dir (cur s) else 0);
          s = s\<lparr>nr_page_faults := nr_page_faults s + 1\<rparr>
      in if error_code AND PTE_PRESENT \<noteq> 0 then
           if error_code AND PTE_RW \<noteq> 0 \<and> pgdir \<noteq> 0 then
             (case pte_slot pgdir address s of
                Some pte \<Rightarrow> if ram32 s pte AND PTE_COW \<noteq> 0 then fault_cow address s else fault_kill s
              | None \<Rightarrow> fault_kill s)
           else fault_kill s
         else if pgdir \<noteq> 0 \<and> user_addr_ok address 1 then
           let va = address AND PT_MASK
           in case pte_slot pgdir va s of
                Some pte \<Rightarrow>
                  if ram32 s pte AND PTE_SWAPPED \<noteq> 0 \<and> ram32 s pte AND PTE_PRESENT = 0
                  then fault_swap pgdir va (uint (drop_bit 12 (ram32 s pte))) s
                  else fault_demand pgdir va s
              | None \<Rightarrow> fault_demand pgdir va s
         else fault_kill s)"

subsection \<open>The program file\<close>

definition rd16 :: "byte list \<Rightarrow> nat \<Rightarrow> u32" where
  "rd16 b k = ucast (get16 (\<lambda>i. b ! (k + i)) 0)"

definition rd32 :: "byte list \<Rightarrow> nat \<Rightarrow> u32" where
  "rd32 b k = get32 (\<lambda>i. b ! (k + i)) 0"

definition ELF_MAGIC :: u32 where "ELF_MAGIC = 0x464C457F"
definition NR_EXE_REGIONS :: nat where "NR_EXE_REGIONS = 4"

text \<open>
  What a program header asks for: nothing, something refused, or a region to record together with the end it gives
  the image. Sums of header fields wrap around.
\<close>

datatype seg = Seg_skip | Seg_bad | Seg_load u32 u32 u32 u32 u32

definition trim_segment :: "u32 \<Rightarrow> u32 \<Rightarrow> u32 \<Rightarrow> u32 \<Rightarrow> (u32 \<times> u32 \<times> u32 \<times> u32) option" where
  "trim_segment p_offset p_vaddr p_filesz p_memsz =
     (if p_vaddr < USER_PROG_START
      then let skip = USER_PROG_START - p_vaddr
           in if skip > of_nat PAGE_SIZE then None
              else let skip = min skip p_filesz
                   in Some (p_offset + skip, p_vaddr + skip, p_filesz - skip, if p_memsz > skip then p_memsz - skip else 0)
      else Some (p_offset, p_vaddr, p_filesz, p_memsz))"

definition segment :: "byte list \<Rightarrow> seg" where
  "segment ph =
     (let p_vaddr = rd32 ph 8; p_memsz = rd32 ph 20
      in if rd32 ph 0 \<noteq> 1 \<or> p_memsz = 0 \<or> p_vaddr + p_memsz \<le> USER_PROG_START then Seg_skip
         else case trim_segment (rd32 ph 4) p_vaddr (rd32 ph 16) p_memsz of
           None \<Rightarrow> Seg_bad
         | Some (off, va, fsz, msz) \<Rightarrow>
             if va + fsz > USER_PROG_END \<or> va + msz > USER_PROG_END \<or> va < USER_PROG_START then Seg_bad
             else Seg_load off va fsz msz (rd32 ph 24))"

definition region_of :: "u32 \<Rightarrow> u32 \<Rightarrow> u32 \<Rightarrow> u32 \<Rightarrow> u32 \<Rightarrow> exe_region" where
  "region_of off va fsz msz flags =
     (let page = va AND NOT (of_nat PAGE_SIZE - 1); back = va - page
      in \<lparr>r_va = page, r_file_off = (if off \<ge> back then off - back else 0), r_filesz = fsz + back, r_memsz = msz + back,
          r_flags = flags\<rparr>)"

text \<open>Recording one segment: \<open>None\<close> for the refusal, otherwise the end of the image so far.\<close>

definition add_segment :: "byte list \<Rightarrow> u32 \<Rightarrow> 'z task_state_scheme \<Rightarrow> u32 option \<times> 'z task_state_scheme" where
  "add_segment ph max_end s =
     (case segment ph of
        Seg_skip \<Rightarrow> (Some max_end, s)
      | Seg_bad \<Rightarrow> (None, s)
      | Seg_load off va fsz msz flags \<Rightarrow>
          let nr = t_nr_exe_regions (cur s)
          in if msz \<noteq> 0 \<and> nr \<ge> NR_EXE_REGIONS then (None, s)
             else (Some (if va + msz > max_end then va + msz else max_end),
                   if msz = 0 then s
                   else upd_cur (\<lambda>t. t\<lparr>t_exe_regions := (t_exe_regions t)(nr := region_of off va fsz msz flags),
                          t_nr_exe_regions := Suc nr\<rparr>) s))"

text \<open>Reading into a kernel buffer: the bytes and the state.\<close>

definition kread :: "nat \<Rightarrow> nat \<Rightarrow> 'z sys_state_scheme \<Rightarrow> (byte list option \<times> 'z sys_state_scheme) option" where
  "kread fd n s = do {
     (r, ws, s) \<leftarrow> sys_read [] fd 0 (of_nat n) s;
     Some (if r = int n then Some (map snd ws) else None, s) }"

fun load_segments :: "nat \<Rightarrow> nat \<Rightarrow> u32 \<Rightarrow> u32 \<Rightarrow> nat \<Rightarrow> u32 \<Rightarrow> 'z sys_state_scheme \<Rightarrow>
    (u32 option \<times> 'z sys_state_scheme) option" where
  "load_segments 0 fd phoff phentsize i max_end s = Some (Some max_end, s)"
| "load_segments (Suc k) fd phoff phentsize i max_end s = do {
     (r, s) \<leftarrow> sys_lseek fd (phoff + of_nat i * phentsize) 0 s;
     if r < 0 then Some (None, s)
     else do {
       (ph, s) \<leftarrow> kread fd 32 s;
       case ph of
         None \<Rightarrow> Some (None, s)
       | Some ph \<Rightarrow>
           (case add_segment ph max_end s of
              (None, s) \<Rightarrow> Some (None, s)
            | (Some max_end, s) \<Rightarrow> load_segments k fd phoff phentsize (Suc i) max_end s) } }"

subsection \<open>Arguments\<close>

definition USER_ARGC_ADDR :: u32 where "USER_ARGC_ADDR = 0x083FF004"
definition USER_ARGV_PTR_ADDR :: u32 where "USER_ARGV_PTR_ADDR = 0x083FF008"
definition USER_ARGV_ADDR :: u32 where "USER_ARGV_ADDR = 0x083FF00C"
definition USER_ARGV_STR_TOP :: u32 where "USER_ARGV_STR_TOP = 0x083FF100"

text \<open>At most 15 pointers, and at most 63 characters of each string.\<close>

primrec argv_ptrs :: "umem \<Rightarrow> u32 \<Rightarrow> nat \<Rightarrow> u32 list" where
  "argv_ptrs um argv 0 = []"
| "argv_ptrs um argv (Suc n) =
     (let p = get_fs_long um argv in if p = 0 then [] else p # argv_ptrs um (argv + 4) n)"

definition arg_string :: "umem \<Rightarrow> u32 \<Rightarrow> cstr" where
  "arg_string um p = takeWhile (\<lambda>c. c \<noteq> 0) (map (\<lambda>k. um (p + of_nat k)) [0..<63])"

text \<open>
  Packing the strings downwards, the last one first, above the pointer array: the addresses in the order of the
  arguments, or \<open>None\<close> when they would run into the array. The page is written on the way.
\<close>

fun pack_args :: "cstr list \<Rightarrow> u32 \<Rightarrow> u32 \<Rightarrow> u32 \<Rightarrow> u32 list \<Rightarrow> 'z mem_state_scheme \<Rightarrow> u32 list option \<times> 'z mem_state_scheme" where
  "pack_args [] tail_pa sp frame_end ptrs s = (Some ptrs, s)"
| "pack_args (a # args) tail_pa sp frame_end ptrs s =
     (let sp = sp - of_nat (length a + 1)
      in if sp < frame_end then (None, s)
         else let s = fold (\<lambda>k. set_ram8 (sp + of_nat k) ((a @ [0]) ! k)) [0..<length a + 1] s
              in pack_args args tail_pa sp frame_end ((USER_STACK_TOP + (sp - tail_pa)) # ptrs) s)"

definition put_args :: "cstr list \<Rightarrow> u32 \<Rightarrow> 'z mem_state_scheme \<Rightarrow> bool \<times> 'z mem_state_scheme" where
  "put_args args tail_pa s =
     (let at = (\<lambda>va. tail_pa + (va - USER_STACK_TOP));
          frame_end = USER_ARGV_ADDR + 4 * of_nat (length args + 1)
      in case pack_args (rev args) tail_pa (at (USER_ARGV_STR_TOP - 1)) (at frame_end) [] s of
           (None, s) \<Rightarrow> (False, s)
         | (Some ptrs, s) \<Rightarrow>
             let s = fold (\<lambda>i. set_ram32 (at USER_ARGV_ADDR + 4 * of_nat i) ((ptrs @ [0]) ! i)) [0..<length args + 1] s;
                 s = set_ram32 (at USER_ARGC_ADDR) (of_nat (length args)) s
             in (True, set_ram32 (at USER_ARGV_PTR_ADDR) USER_ARGV_ADDR s))"

subsection \<open>execve\<close>

text \<open>It returns -1 to the caller, or leaves the kernel into the new program.\<close>

datatype 's exec = Exec_fail 's | Exec_go u32 u32 's

definition exec_fail_as :: "nat option \<Rightarrow> nat option \<Rightarrow> u32 \<Rightarrow> 'z sys_state_scheme \<Rightarrow> 'z sys_state_scheme exec option" where
  "exec_fail_as fd exe_inode new_pgdir s = do {
     s \<leftarrow> (case fd of Some fd \<Rightarrow> do { (_, s) \<leftarrow> sys_close fd s; Some s } | None \<Rightarrow> Some s);
     s \<leftarrow> iput exe_inode s;
     s \<leftarrow> free_user_space new_pgdir s;
     Some (Exec_fail s) }"

definition exec_switch :: "nat option \<Rightarrow> u32 \<Rightarrow> u32 \<Rightarrow> u32 \<Rightarrow> 'z sys_state_scheme \<Rightarrow> 'z sys_state_scheme exec option" where
  "exec_switch exe_inode new_pgdir entry max_end s =
     (let old_pgdir = t_pg_dir (cur s);
          s = upd_cur (\<lambda>t. t\<lparr>t_pg_dir := new_pgdir, t_tss := (t_tss t)\<lparr>tss_cr3 := new_pgdir\<rparr>, t_start_code := USER_PROG_START,
                t_end_code := max_end, t_end_data := max_end, t_brk := USER_HEAP_START, t_start_stack := USER_STACK_TOP\<rparr>) s
      in do {
        s \<leftarrow> iput (t_exe_inode (cur s)) s;
        let s = upd_cur (\<lambda>t. t\<lparr>t_exe_inode := exe_inode\<rparr>) s;
        s \<leftarrow> (if old_pgdir \<noteq> 0 \<and> old_pgdir \<noteq> PAGE_DIRECTORY then free_user_space old_pgdir s else Some s);
        Some (Exec_go entry USER_STACK_TOP s) })"

definition exec_image :: "umem \<Rightarrow> u32 \<Rightarrow> u32 \<Rightarrow> nat option \<Rightarrow> u32 \<Rightarrow> u32 \<Rightarrow> 'z sys_state_scheme \<Rightarrow> 'z sys_state_scheme exec option" where
  "exec_image um argv new_pgdir exe_inode entry max_end s =
     (if max_end > USER_PROG_END \<or> max_end > 0 \<and> max_end \<le> USER_PROG_START then exec_fail_as None exe_inode new_pgdir s
      else let args = map (arg_string um) (argv_ptrs um argv 15);
               (tail_pa, s) = alloc_user_page new_pgdir USER_STACK_TOP s
           in if tail_pa = 0 then exec_fail_as None exe_inode new_pgdir s
              else let (ok, s) = put_args args tail_pa s
                   in if \<not> ok then exec_fail_as None exe_inode new_pgdir s
                      else exec_switch exe_inode new_pgdir entry max_end s)"

definition exec_load :: "umem \<Rightarrow> u32 \<Rightarrow> nat \<Rightarrow> byte list \<Rightarrow> 'z sys_state_scheme \<Rightarrow> 'z sys_state_scheme exec option" where
  "exec_load um argv fd eh s =
     (let entry = rd32 eh 24; (new_pgdir, s) = alloc_user_pgdir s
      in if new_pgdir = 0 then do { (_, s) \<leftarrow> sys_close fd s; Some (Exec_fail s) }
         else do {
           (r, s) \<leftarrow> load_segments (min (unat (rd16 eh 44)) 16) fd (rd32 eh 28) (rd16 eh 42) 0 0
                      (upd_cur (\<lambda>t. t\<lparr>t_nr_exe_regions := 0\<rparr>) s);
           case r of
             None \<Rightarrow> exec_fail_as (Some fd) None new_pgdir s
           | Some max_end \<Rightarrow> do {
               let exe_inode = fd_inode s (filp s fd);
               (_, s) \<leftarrow> sys_close fd (bump_inode exe_inode s);
               exec_image um argv new_pgdir exe_inode entry max_end s } })"

definition elf_ok :: "byte list \<Rightarrow> bool" where
  "elf_ok eh \<longleftrightarrow> rd32 eh 0 = ELF_MAGIC \<and> rd16 eh 18 = 3 \<and> USER_PROG_START \<le> rd32 eh 24 \<and> rd32 eh 24 < USER_PROG_END"

definition sys_execve :: "umem \<Rightarrow> cstr \<Rightarrow> u32 \<Rightarrow> 'z sys_state_scheme \<Rightarrow> 'z sys_state_scheme exec option" where
  "sys_execve um path argv s = do {
     (r, s) \<leftarrow> sys_open path 0 0 s;
     if r < 0 then Some (Exec_fail s)
     else let fd = nat r
       in if filp s fd \<noteq> None \<and> \<not> permission (fd_inode s (filp s fd)) MAY_EXEC s
          then do { (_, s) \<leftarrow> sys_close fd s; Some (Exec_fail s) }
          else do {
            (eh, s) \<leftarrow> kread fd 52 s;
            case eh of
              Some eh \<Rightarrow> if elf_ok eh then exec_load um argv fd eh s else do { (_, s) \<leftarrow> sys_close fd s; Some (Exec_fail s) }
            | None \<Rightarrow> do { (_, s) \<leftarrow> sys_close fd s; Some (Exec_fail s) } } }"

end
