(* ===== verification/Delivery.thy ===== *)
theory Delivery
  imports Exec
begin

text \<open>
  What signal delivery guarantees, and where it falls short: which signal is delivered, that a handler's return
  resumes the interrupted program, what the masks may contain.
\<close>

subsection \<open>Which signal is delivered\<close>

lemma bit_sig_bit: "bit (sig_bit n) j \<longleftrightarrow> j = n \<and> n < 32"
  by (auto simp: sig_bit_def bit_simps)

text \<open>A signal that delivery looks at and leaves alone: not pending, or blocked and not one of the two for job control.\<close>

definition passed_over :: "'z sys_state_scheme \<Rightarrow> nat \<Rightarrow> bool" where
  "passed_over s j \<longleftrightarrow> \<not> bit (t_signal (cur s)) j \<or> bit (blocked s) j \<and> j \<noteq> SIGSTOP \<and> j \<noteq> SIGCONT"

lemma signal_loop_pass: "\<forall>j\<in>set js. passed_over s j \<Longrightarrow> signal_loop (js @ sigs) es kf s = signal_loop sigs es kf s"
  by (induction js) (auto simp: passed_over_def)

definition deliverable :: "'z sys_state_scheme \<Rightarrow> nat \<Rightarrow> bool" where
  "deliverable s sig \<longleftrightarrow> 0 < sig \<and> sig < 32 \<and> sig \<noteq> SIGSTOP \<and> sig \<noteq> SIGCONT \<and> bit (t_signal (cur s)) sig \<and>
     \<not> bit (blocked s) sig \<and> (\<forall>j. 0 < j \<and> j < sig \<longrightarrow> passed_over s j)"

lemma do_signal_first:
  assumes "deliverable s sig"
  shows "do_signal es kf s = signal_loop (sig # [Suc sig..<32]) es kf s"
proof -
  have "t_signal (cur s) \<noteq> 0" using assms by (auto simp: deliverable_def)
  moreover have "[1..<32] = [1..<sig] @ sig # [Suc sig..<32]"
    using assms upt_add_eq_append [of 1 sig "32 - sig"] by (simp add: deliverable_def upt_conv_Cons del: upt_Suc)
  moreover have "\<forall>j\<in>set [1..<sig]. passed_over s j" using assms by (simp add: deliverable_def)
  ultimately show ?thesis using signal_loop_pass [of "[1..<sig]" s "sig # [Suc sig..<32]" es kf] by (simp add: do_signal_def)
qed

definition caught :: "'z task_state_scheme \<Rightarrow> nat \<Rightarrow> bool" where
  "caught s sig \<longleftrightarrow> t_handlers (cur s) sig \<noteq> SIG_DFL \<and> t_handlers (cur s) sig \<noteq> SIG_IGN"

lemma do_signal_caught:
  assumes "deliverable s sig" "caught s sig" "kf UFRAME_CS AND 3 = 3"
  shows "do_signal es kf s = (let (kf', ws, s') = enter_handler sig kf (take_signal sig s) in Some (Resume kf' ws s'))"
  unfolding do_signal_first [OF assms(1)] using assms by (simp add: deliverable_def caught_def)

text \<open>What entering a handler leaves.\<close>

definition frame_fits :: "uframe \<Rightarrow> bool" where
  "frame_fits kf \<longleftrightarrow> sint USER_STACK_FLOOR \<le> sint (kf UFRAME_ESP - 4 - SIGFRAME_BYTES) \<and>
     sint USER_STACK_FLOOR \<le> sint (kf UFRAME_ESP) \<and> sint (kf UFRAME_ESP) \<le> sint USER_STACK_TOP"

text \<open>The mask the interrupted program runs with: the one \<open>sigsuspend\<close> replaced, if it is still in force.\<close>

definition own_mask :: "'z sys_state_scheme \<Rightarrow> u32" where
  "own_mask s = (if sig_suspend_pending s (t_pid (cur s)) then sig_suspend_mask s (t_pid (cur s)) else blocked s)"

lemma restore_suspend_spec:
  "sig_blocked (sig_restore_suspend_mask s) = (sig_blocked s)(t_pid (cur s) := own_mask s)"
  "current (sig_restore_suspend_mask s) = current s" "tstruct (sig_restore_suspend_mask s) = tstruct s" "task (sig_restore_suspend_mask s) = task s"
  "sig_sa_mask (sig_restore_suspend_mask s) = sig_sa_mask s" "sig_handler_mask (sig_restore_suspend_mask s) = sig_handler_mask s"
  "sig_handler_mask_saved (sig_restore_suspend_mask s) = sig_handler_mask_saved s"
  by (simp_all add: sig_restore_suspend_mask_def own_mask_def Let_def)

lemma deliver_fits:
  assumes "frame_fits kf"
  obtains ws where "deliver_signal sig h kf s = (kf(UFRAME_EIP := h, UFRAME_ESP := kf UFRAME_ESP - 4 - SIGFRAME_BYTES), ws,
    s\<lparr>sigreturn_frame := save_context sig h kf\<rparr>)"
proof -
  have "\<not> (sint (kf UFRAME_ESP) < sint USER_STACK_FLOOR \<or> sint (kf UFRAME_ESP) > sint USER_STACK_TOP \<or>
    sint (kf UFRAME_ESP - 4 - SIGFRAME_BYTES) < sint USER_STACK_FLOOR)" using assms unfolding frame_fits_def by linarith
  then have "deliver_signal sig h kf s = (kf(UFRAME_EIP := h, UFRAME_ESP := kf UFRAME_ESP - 4 - SIGFRAME_BYTES),
    fst (snd (deliver_signal sig h kf s)), s\<lparr>sigreturn_frame := save_context sig h kf\<rparr>)"
    unfolding deliver_signal_def Let_def by (simp only: if_False fst_conv snd_conv)
  then show ?thesis by (rule that)
qed

lemma enter_handler_spec:
  fixes s :: "'z sys_state_scheme"
  assumes "enter_handler sig kf s = (kf', ws, s')" "frame_fits kf"
  shows "kf' = kf(UFRAME_EIP := t_handlers (cur s) sig, UFRAME_ESP := kf UFRAME_ESP - 4 - SIGFRAME_BYTES)"
    "sigreturn_frame s' = save_context sig (t_handlers (cur s) sig) kf"
    "sig_handler_mask s' = (sig_handler_mask s)(t_pid (cur s) := own_mask s)"
    "sig_handler_mask_saved s' = (sig_handler_mask_saved s)(t_pid (cur s) := True)"
    "sig_blocked s' = (sig_blocked s)(t_pid (cur s) := own_mask s OR sig_bit sig OR ucast (sig_action_mask (t_pid (cur s)) sig s))"
    "current s' = current s" "\<And>p. t_pid (tstruct s' p) = t_pid (tstruct s p)" "\<And>p. t_signal (tstruct s' p) = t_signal (tstruct s p)" "task s' = task s"
proof -
  let ?pid = "t_pid (cur s)" and ?h = "t_handlers (cur s) sig"
  define s1 where "s1 = (if sig \<noteq> SIGCHLD \<and> \<not> bit (sig_sa s ?pid) sig
    then upd_cur (\<lambda>t. t\<lparr>t_handlers := (t_handlers t)(sig := SIG_DFL)\<rparr>) s else s)"
  define s2 where "s2 = sig_restore_suspend_mask s1"
  define s3 where "s3 = s2\<lparr>sig_handler_mask := (sig_handler_mask s2)(?pid := sig_blocked s2 ?pid),
    sig_handler_mask_saved := (sig_handler_mask_saved s2)(?pid := True),
    sig_blocked := (sig_blocked s2)(?pid := sig_blocked s2 ?pid OR sig_bit sig OR ucast (sig_action_mask ?pid sig s2))\<rparr>"
  have e: "enter_handler sig kf s = deliver_signal sig ?h kf s3"
    unfolding enter_handler_def Let_def s3_def s2_def s1_def by (rule refl)
  have one: "current s1 = current s" "\<And>p. t_pid (tstruct s1 p) = t_pid (tstruct s p)" "\<And>p. t_signal (tstruct s1 p) = t_signal (tstruct s p)"
    "task s1 = task s" "sig_blocked s1 = sig_blocked s" "sig_sa_mask s1 = sig_sa_mask s" "sig_handler_mask s1 = sig_handler_mask s"
    "sig_handler_mask_saved s1 = sig_handler_mask_saved s" "sig_suspend_pending s1 = sig_suspend_pending s" "sig_suspend_mask s1 = sig_suspend_mask s"
    by (simp_all add: s1_def upd_task_def)
  then have om: "own_mask s1 = own_mask s" by (simp add: own_mask_def)
  obtain ws' where D: "deliver_signal sig ?h kf s3 = (kf(UFRAME_EIP := ?h, UFRAME_ESP := kf UFRAME_ESP - 4 - SIGFRAME_BYTES), ws',
    s3\<lparr>sigreturn_frame := save_context sig ?h kf\<rparr>)" by (rule deliver_fits [OF assms(2)])
  have k: "kf' = kf(UFRAME_EIP := ?h, UFRAME_ESP := kf UFRAME_ESP - 4 - SIGFRAME_BYTES)"
    and s': "s' = s3\<lparr>sigreturn_frame := save_context sig ?h kf\<rparr>" using assms(1) unfolding e D by simp_all
  have am: "sig_action_mask ?pid sig s2 = sig_action_mask ?pid sig s" by (simp add: sig_action_mask_def s2_def restore_suspend_spec one)
  have b2: "sig_blocked s2 = (sig_blocked s)(?pid := own_mask s)" unfolding s2_def restore_suspend_spec one om by simp
  show "kf' = kf(UFRAME_EIP := ?h, UFRAME_ESP := kf UFRAME_ESP - 4 - SIGFRAME_BYTES)" by (rule k)
  show "sigreturn_frame s' = save_context sig ?h kf" by (simp add: s')
  show "sig_handler_mask s' = (sig_handler_mask s)(?pid := own_mask s)" by (simp add: s' s3_def b2) (simp add: s2_def restore_suspend_spec one)
  show "sig_handler_mask_saved s' = (sig_handler_mask_saved s)(?pid := True)" by (simp add: s' s3_def s2_def restore_suspend_spec one)
  show "sig_blocked s' = (sig_blocked s)(?pid := own_mask s OR sig_bit sig OR ucast (sig_action_mask ?pid sig s))"
    by (simp add: s' s3_def b2 am)
  show "current s' = current s" "\<And>p. t_pid (tstruct s' p) = t_pid (tstruct s p)" "\<And>p. t_signal (tstruct s' p) = t_signal (tstruct s p)" "task s' = task s"
    by (simp_all add: s' s3_def s2_def restore_suspend_spec one)
qed

subsection \<open>Returning from a handler\<close>

text \<open>The frame of a program interrupted in user mode.\<close>

definition user_frame :: "uframe \<Rightarrow> bool" where
  "user_frame kf \<longleftrightarrow> kf UFRAME_CS = 0x1B \<and> kf UFRAME_SS = 0x23 \<and> kf UFRAME_EIP \<noteq> 0 \<and> kf UFRAME_ESP AND 3 = 0 \<and> frame_fits kf"

lemma user_stack_unsigned:
  assumes "sint USER_STACK_FLOOR \<le> sint esp" "sint esp \<le> sint USER_STACK_TOP"
  shows "USER_STACK_FLOOR \<le> esp" "esp < USER_WINDOW_TOP"
proof -
  have f: "sint USER_STACK_FLOOR = 0x08300000" "sint USER_STACK_TOP = 0x083FF000"
    by (simp_all add: USER_STACK_FLOOR_def USER_STACK_TOP_def)
  have "uint esp = sint esp mod 2 ^ 32" using uint_word_of_int [of "sint esp", where 'a = 32] by simp
  then have u: "uint esp = sint esp" using assms f by simp
  show "USER_STACK_FLOOR \<le> esp" "esp < USER_WINDOW_TOP" using assms f
    by (simp_all add: word_le_def word_less_def u USER_STACK_FLOOR_def USER_WINDOW_TOP_def)
qed

lemma saved_context_ok: "user_frame kf \<Longrightarrow> context_ok (save_context sig h kf)"
  using user_stack_unsigned [of "kf UFRAME_ESP"] by (simp add: user_frame_def frame_fits_def context_ok_def save_context_def)

lemma restore_saved: "k < 16 \<Longrightarrow> restore_frame (save_context sig h kf) kf2 k = kf k"
proof -
  assume "k < 16"
  then have "k \<in> set [0..<16]" by simp
  then show ?thesis by (auto simp: upt_rec restore_frame_def save_context_def uframe_consts)
qed

lemma sigreturn_saved:
  assumes "sigreturn_frame t = save_context sig h kf" "user_frame kf"
  obtains kf' where "sys_sigreturn kf2 t = Some (kf', sigreturn_restore_mask t)" "\<And>k. k < 16 \<Longrightarrow> kf' k = kf k"
proof -
  have "sigreturn_frame (sigreturn_restore_mask t) = sigreturn_frame t" by (simp add: sigreturn_restore_mask_def Let_def)
  then have "sys_sigreturn kf2 t = Some (restore_frame (save_context sig h kf) kf2, sigreturn_restore_mask t)"
    using assms saved_context_ok [OF assms(2)] by (simp add: sys_sigreturn_def Let_def)
  then show ?thesis using restore_saved by (rule that)
qed

text \<open>The kernel's side while a handler runs in user mode: the same task, and nothing of its own delivery is touched.\<close>

definition handler_runs :: "'z sys_state_scheme \<Rightarrow> 'z sys_state_scheme \<Rightarrow> bool" where
  "handler_runs s t \<longleftrightarrow> current t = current s \<and> t_pid (cur t) = t_pid (cur s) \<and> sigreturn_frame t = sigreturn_frame s \<and>
     sig_handler_mask t (t_pid (cur s)) = sig_handler_mask s (t_pid (cur s)) \<and>
     sig_handler_mask_saved t (t_pid (cur s)) = sig_handler_mask_saved s (t_pid (cur s))"

lemma caught_user: "user_frame kf \<Longrightarrow> kf UFRAME_CS AND 3 = 3"
  by (simp add: user_frame_def)

lemma take_signal_frame: "own_mask (take_signal sig s) = own_mask s" "blocked (take_signal sig s) = blocked s"
  "t_handlers (cur (take_signal sig s)) = t_handlers (cur s)" "sig_action_mask pid sig (take_signal sig s) = sig_action_mask pid sig s"
  by (simp_all add: own_mask_def upd_task_def sig_action_mask_def)

lemma delivery:
  assumes "deliverable s sig" "caught s sig" "user_frame kf"
  obtains kf' ws s' where "do_signal es kf s = Some (Resume kf' ws s')" "kf' UFRAME_EIP = t_handlers (cur s) sig"
    "sigreturn_frame s' = save_context sig (t_handlers (cur s) sig) kf" "current s' = current s" "t_pid (cur s') = t_pid (cur s)"
    "t_signal (cur s') = t_signal (cur s) AND NOT (sig_bit sig)"
    "sig_handler_mask s' (t_pid (cur s)) = own_mask s" "sig_handler_mask_saved s' (t_pid (cur s))"
    "blocked s' = own_mask s OR sig_bit sig OR ucast (sig_action_mask (t_pid (cur s)) sig s)"
proof -
  obtain kf' ws s' where e: "enter_handler sig kf (take_signal sig s) = (kf', ws, s')" by (cases "enter_handler sig kf (take_signal sig s)")
  have "do_signal es kf s = Some (Resume kf' ws s')"
    using do_signal_caught [OF assms(1,2), of kf es] caught_user [OF assms(3)] e by simp
  moreover have "frame_fits kf" using assms(3) by (simp add: user_frame_def)
  ultimately show ?thesis using enter_handler_spec [OF e]
    by (intro that [of kf' ws s']) (simp_all add: take_signal_frame uframe_consts)
qed

subsection \<open>A program with a handler\<close>

text \<open>
  One task that catches SIGUSR1, with SIGKILL in the handler's mask, interrupted in user mode with SIGUSR1 pending.
\<close>

definition catching :: "'z \<Rightarrow> 'z sys_state_scheme" where
  "catching m = (let s = upd_cur (\<lambda>t. t\<lparr>t_signal := sig_bit SIGUSR1, t_handlers := (t_handlers t)(SIGUSR1 := 0x08000100)\<rparr>) (one_task m)
     in s\<lparr>sig_blocked := (\<lambda>_. 0), sig_sa_mask := (\<lambda>_ _. 2 ^ SIGKILL)\<rparr>)"

definition interrupted :: uframe where
  "interrupted = (\<lambda>_. 0)(UFRAME_EIP := 0x08000050, UFRAME_CS := 0x1B, UFRAME_ESP := 0x083FE000, UFRAME_SS := 0x23)"

lemma catching_delivers: "deliverable (catching m) SIGUSR1" "caught (catching m) SIGUSR1" "user_frame interrupted"
  "bit (sig_action_mask (t_pid (cur (catching m))) SIGUSR1 (catching m)) SIGKILL"
proof -
  have "t_signal (cur (catching m)) = sig_bit SIGUSR1" "blocked (catching m) = 0" by (simp_all add: catching_def Let_def)
  then show "deliverable (catching m) SIGUSR1"
    unfolding deliverable_def passed_over_def by (auto simp: bit_sig_bit) (simp_all add: sig_consts)
  show "caught (catching m) SIGUSR1" by (simp add: caught_def catching_def Let_def SIG_DFL_def SIG_IGN_def)
  show "user_frame interrupted" by (simp add: user_frame_def frame_fits_def interrupted_def uframe_consts SIGFRAME_BYTES_def
    USER_STACK_FLOOR_def USER_STACK_TOP_def)
  show "bit (sig_action_mask (t_pid (cur (catching m))) SIGUSR1 (catching m)) SIGKILL"
    by (simp add: sig_action_mask_def catching_def Let_def sig_consts SIG_SA_MAX_def bit_simps)
qed

subsection \<open>The guarantees\<close>

text \<open>
  C35. A caught signal is delivered and undone without a trace. Delivery picks the lowest pending signal that is not
  blocked, clears exactly its pending bit, blocks it and points the frame at the handler; when the handler returns,
  \<open>sigreturn\<close> gives back all sixteen words of the interrupted frame and the mask the program had.
\<close>

theorem handler_return_resumes:
  fixes s :: "'z sys_state_scheme"
  assumes "deliverable s sig" and "caught s sig" and "user_frame kf"
  shows "\<exists>kf' ws s'. do_signal es kf s = Some (Resume kf' ws s') \<and> kf' UFRAME_EIP = t_handlers (cur s) sig \<and>
    t_signal (cur s') = t_signal (cur s) AND NOT (sig_bit sig) \<and> bit (blocked s') sig \<and>
    (\<forall>t kf2. handler_runs s' t \<longrightarrow> (\<exists>kf3 t'. sys_sigreturn kf2 t = Some (kf3, t') \<and> (\<forall>k<16. kf3 k = kf k) \<and> blocked t' = own_mask s))"
proof -
  obtain kf' ws s' where D: "do_signal es kf s = Some (Resume kf' ws s')" "kf' UFRAME_EIP = t_handlers (cur s) sig"
    "sigreturn_frame s' = save_context sig (t_handlers (cur s) sig) kf" "current s' = current s" "t_pid (cur s') = t_pid (cur s)"
    "t_signal (cur s') = t_signal (cur s) AND NOT (sig_bit sig)"
    "sig_handler_mask s' (t_pid (cur s)) = own_mask s" "sig_handler_mask_saved s' (t_pid (cur s))"
    "blocked s' = own_mask s OR sig_bit sig OR ucast (sig_action_mask (t_pid (cur s)) sig s)"
    by (rule delivery [OF assms]) (rule that)
  have "bit (blocked s') sig" using assms(1) unfolding D(9) deliverable_def by (simp add: sig_bit_def bit_simps)
  moreover have "\<exists>kf3 t'. sys_sigreturn kf2 t = Some (kf3, t') \<and> (\<forall>k<16. kf3 k = kf k) \<and> blocked t' = own_mask s"
    if "handler_runs s' t" for t kf2
  proof -
    have f: "sigreturn_frame t = save_context sig (t_handlers (cur s) sig) kf" using that D(3) by (simp add: handler_runs_def)
    obtain kf3 where k: "sys_sigreturn kf2 t = Some (kf3, sigreturn_restore_mask t)" "\<And>k. k < 16 \<Longrightarrow> kf3 k = kf k"
      by (rule sigreturn_saved [OF f assms(3), where ?kf2.0 = kf2]) (rule that)
    have "t_pid (cur t) = t_pid (cur s)" "sig_handler_mask t (t_pid (cur s)) = own_mask s" "sig_handler_mask_saved t (t_pid (cur s))"
      using that D(5,7,8) unfolding handler_runs_def by metis+
    then have "blocked (sigreturn_restore_mask t) = own_mask s" by (simp add: sigreturn_restore_mask_def Let_def)
    with k show ?thesis by blast
  qed
  ultimately show ?thesis using D by blast
qed

theorem handler_return_resumes_witness:
  "deliverable (catching ()) SIGUSR1 \<and> caught (catching ()) SIGUSR1 \<and> user_frame interrupted \<and>
   (\<exists>kf' ws s'. do_signal [] interrupted (catching ()) = Some (Resume kf' ws s') \<and> bit (blocked s') SIGUSR1)"
  using handler_return_resumes [OF catching_delivers(1,2) [of "()"] catching_delivers(3), of "[]"] catching_delivers(1,2) [of "()"] catching_delivers(3) by blast

text \<open>
  C36. There is one slot for the interrupted context in the whole kernel. When a second task is delivered a signal
  before the first has returned from its handler, the first resumes in the second's context: whichever task calls
  \<open>sigreturn\<close> next gets all sixteen words of the frame saved last, program counter and stack pointer included.
\<close>

theorem sigreturn_resumes_last_delivered:
  fixes s :: "'z sys_state_scheme"
  assumes "deliverable s sig" and "caught s sig" and "user_frame kf"
  shows "\<exists>kf' ws s'. do_signal es kf s = Some (Resume kf' ws s') \<and>
    (\<forall>other kf2. \<exists>kf3 t. sys_sigreturn kf2 (s'\<lparr>current := other\<rparr>) = Some (kf3, t) \<and> (\<forall>k<16. kf3 k = kf k))"
proof -
  obtain kf' ws s' where D: "do_signal es kf s = Some (Resume kf' ws s')" "sigreturn_frame s' = save_context sig (t_handlers (cur s) sig) kf"
    by (rule delivery [OF assms, of es])
  have "\<exists>kf3 t. sys_sigreturn kf2 (s'\<lparr>current := other\<rparr>) = Some (kf3, t) \<and> (\<forall>k<16. kf3 k = kf k)" for other kf2
  proof -
    have "sigreturn_frame (s'\<lparr>current := other\<rparr>) = save_context sig (t_handlers (cur s) sig) kf" using D(2) by simp
    then obtain kf3 where "sys_sigreturn kf2 (s'\<lparr>current := other\<rparr>) = Some (kf3, sigreturn_restore_mask (s'\<lparr>current := other\<rparr>))"
      "\<And>k. k < 16 \<Longrightarrow> kf3 k = kf k" using assms(3) by (rule sigreturn_saved [where ?kf2.0 = kf2]) (rule that)
    then show ?thesis by blast
  qed
  with D(1) show ?thesis by blast
qed

theorem sigreturn_resumes_last_delivered_witness:
  "deliverable (catching ()) SIGUSR1 \<and> caught (catching ()) SIGUSR1 \<and> user_frame interrupted \<and>
   (\<exists>kf' ws s' kf3 t. do_signal [] interrupted (catching ()) = Some (Resume kf' ws s') \<and>
      sys_sigreturn (\<lambda>_. 0) (s'\<lparr>current := 0x30000\<rparr>) = Some (kf3, t) \<and> kf3 UFRAME_EIP = 0x08000050)"
proof -
  have "interrupted UFRAME_EIP = 0x08000050" "UFRAME_EIP < 16" by (simp_all add: interrupted_def uframe_consts)
  then show ?thesis using sigreturn_resumes_last_delivered [OF catching_delivers(1,2) [of "()"] catching_delivers(3), of "[]"] catching_delivers(1,2) [of "()"] catching_delivers(3)
    by metis
qed

subsection \<open>What the masks may contain\<close>

text \<open>
  C37. A handler installed with SIGKILL in its \<open>sa_mask\<close> holds SIGKILL off: once it has been entered, a SIGKILL that
  arrives stays pending on every return to user mode until the handler returns, although the comments and
  \<open>sigprocmask\<close> exclude it from the mask.
\<close>

theorem sa_mask_blocks_sigkill:
  fixes s :: "'z sys_state_scheme"
  assumes "deliverable s sig" and "caught s sig" and "user_frame kf" and "bit (sig_action_mask (t_pid (cur s)) sig s) SIGKILL"
  shows "\<exists>kf' ws s'. do_signal es kf s = Some (Resume kf' ws s') \<and> bit (blocked s') SIGKILL \<and>
    (\<forall>t kf2. blocked t = blocked s' \<and> t_signal (cur t) = sig_bit SIGKILL \<longrightarrow>
       do_signal es kf2 t = Some (Resume kf2 [] (sig_restore_suspend_mask t)) \<and>
       bit (t_signal (cur (sig_restore_suspend_mask t))) SIGKILL)"
proof -
  obtain kf' ws s' where D: "do_signal es kf s = Some (Resume kf' ws s')"
    "blocked s' = own_mask s OR sig_bit sig OR ucast (sig_action_mask (t_pid (cur s)) sig s)"
    by (rule delivery [OF assms(1-3), of es])
  have b: "bit (blocked s') SIGKILL" unfolding D(2) using assms(4) by (simp add: bit_simps SIGKILL_def)
  have "do_signal es kf2 t = Some (Resume kf2 [] (sig_restore_suspend_mask t))"
    if t: "blocked t = blocked s'" "t_signal (cur t) = sig_bit SIGKILL" for t kf2
  proof -
    have "bit (blocked t) SIGKILL" unfolding t(1) by (rule b)
    then have "passed_over t j" for j using t(2) unfolding passed_over_def by (auto simp: bit_sig_bit) (simp_all add: sig_consts)
    then have "signal_loop ([1..<32] @ []) es kf2 t = signal_loop [] es kf2 t" by (intro signal_loop_pass) simp
    moreover have "bit (t_signal (cur t)) SIGKILL" unfolding t(2) bit_sig_bit by (simp add: sig_consts)
    then have "t_signal (cur t) \<noteq> 0" by auto
    ultimately show ?thesis by (simp add: do_signal_def)
  qed
  moreover have "bit (t_signal (cur (sig_restore_suspend_mask t))) SIGKILL" if "t_signal (cur t) = sig_bit SIGKILL" for t :: "'z sys_state_scheme"
    using that by (simp add: restore_suspend_spec bit_sig_bit) (simp add: SIGKILL_def)
  ultimately show ?thesis using D(1) b by blast
qed

theorem sa_mask_blocks_sigkill_witness:
  "deliverable (catching ()) SIGUSR1 \<and> caught (catching ()) SIGUSR1 \<and> user_frame interrupted \<and>
   bit (sig_action_mask (t_pid (cur (catching ()))) SIGUSR1 (catching ())) SIGKILL \<and>
   (\<exists>kf' ws s'. do_signal [] interrupted (catching ()) = Some (Resume kf' ws s') \<and> bit (blocked s') SIGKILL)"
  using sa_mask_blocks_sigkill [OF catching_delivers(1,2) [of "()"] catching_delivers(3) catching_delivers(4) [of "()"], of "[]"] catching_delivers(1,2) [of "()"] catching_delivers(3) catching_delivers(4) [of "()"] by blast

end
