(* ===== verification/Frames.thy ===== *)
theory Frames
  imports Memory
begin

text \<open>
  The page frames and who uses them. Every frame that an address space or the kernel relies on is a \<open>use\<close>; the
  invariant says that the page map counts at least the uses of a frame, that page tables, page directories and kernel
  pages are used once, and that a page mapped writable is mapped nowhere else. It is kept by every operation of
  \<open>mm/memory.c\<close>, under memory pressure too, and gives the isolation of address spaces.
\<close>

subsection \<open>Uses of a frame\<close>

datatype use = Dir u32 | Tab u32 | Page u32 nat | Kern u32

primrec shareable :: "use \<Rightarrow> bool" where
  "shareable (Dir d) = False"
| "shareable (Tab d) = False"
| "shareable (Page d i) = True"
| "shareable (Kern p) = False"

text \<open>The page directories in use and the pages the kernel holds for itself (task pages, pipe buffers).\<close>

type_synonym world = "u32 set \<times> u32 set"

definition uses :: "world \<Rightarrow> use set" where
  "uses W = Dir ` fst W \<union> Tab ` fst W \<union> case_prod Page ` (fst W \<times> {..<1024}) \<union> Kern ` snd W"

lemma uses_iff [simp]:
  "Dir d \<in> uses W \<longleftrightarrow> d \<in> fst W" "Tab d \<in> uses W \<longleftrightarrow> d \<in> fst W" "Page d i \<in> uses W \<longleftrightarrow> d \<in> fst W \<and> i < 1024"
  "Kern p \<in> uses W \<longleftrightarrow> p \<in> snd W"
  by (auto simp: uses_def)

lemma finite_uses: "finite (fst W) \<Longrightarrow> finite (snd W) \<Longrightarrow> finite (uses W)"
  by (simp add: uses_def)

definition holders :: "world \<Rightarrow> (use \<Rightarrow> nat option) \<Rightarrow> nat \<Rightarrow> use set" where
  "holders W fo f = {u \<in> uses W. fo u = Some f}"

text \<open>\<open>k\<close> more references to the frame may be dropped before its count falls below its uses.\<close>

definition slack :: "world \<Rightarrow> (use \<Rightarrow> nat option) \<Rightarrow> (nat \<Rightarrow> u32) \<Rightarrow> nat \<Rightarrow> nat \<Rightarrow> bool" where
  "slack W fo cnt f k \<longleftrightarrow> USED \<le> cnt (f - 256) \<or> card (holders W fo f) + k \<le> unat (cnt (f - 256))"

text \<open>
  The abstract state: where each use lives, which are exclusive, and the page map over \<open>n\<close> frames, the first of
  which is frame 256 (1 MB).
\<close>

definition sep :: "world \<Rightarrow> (use \<Rightarrow> nat option) \<Rightarrow> (use \<Rightarrow> bool) \<Rightarrow> (nat \<Rightarrow> u32) \<Rightarrow> nat \<Rightarrow> bool" where
  "sep W fo ex cnt n \<longleftrightarrow> finite (fst W) \<and> finite (snd W) \<and>
     (\<forall>u\<in>uses W. \<forall>f. fo u = Some f \<longrightarrow> 256 \<le> f \<and> f < 256 + n) \<and>
     (\<forall>u\<in>uses W. \<forall>v\<in>uses W. fo u \<noteq> None \<and> ex u \<and> fo v = fo u \<longrightarrow> v = u) \<and>
     (\<forall>f. 256 \<le> f \<and> f < 256 + n \<longrightarrow> slack W fo cnt f 0)"

lemma sepD:
  assumes "sep W fo ex cnt n"
  shows "finite (fst W)" "finite (snd W)" "finite (uses W)" "u \<in> uses W \<Longrightarrow> fo u = Some f \<Longrightarrow> 256 \<le> f \<and> f < 256 + n"
    "u \<in> uses W \<Longrightarrow> v \<in> uses W \<Longrightarrow> fo u = Some f \<Longrightarrow> fo v = Some f \<Longrightarrow> ex u \<Longrightarrow> v = u"
    "256 \<le> f \<Longrightarrow> f < 256 + n \<Longrightarrow> slack W fo cnt f 0"
  using assms by (auto simp: sep_def intro: finite_uses)

lemma finite_holders: "sep W fo ex cnt n \<Longrightarrow> finite (holders W fo f)"
  by (simp add: holders_def sepD(3))

lemma holders_remap:
  assumes "finite (uses W)" "u \<in> uses W" "fo u \<noteq> x"
  shows "card (holders W (fo(u := x)) f) =
    (if x = Some f then card (holders W fo f) + 1 else if fo u = Some f then card (holders W fo f) - 1 else card (holders W fo f))"
proof -
  have f: "finite (holders W fo f)" using assms(1) by (simp add: holders_def)
  have "holders W (fo(u := x)) f = (if x = Some f then insert u (holders W fo f - {u}) else holders W fo f - {u})"
    using assms(2) by (auto simp: holders_def)
  moreover have "u \<in> holders W fo f \<longleftrightarrow> fo u = Some f" using assms(2) by (simp add: holders_def)
  ultimately show ?thesis using f assms(3) by auto
qed

lemma holders_cong: "\<forall>u\<in>uses W. fo u = fo' u \<Longrightarrow> holders W fo = holders W fo'"
  by (auto simp: holders_def fun_eq_iff)

lemma slack_cong: "\<forall>u\<in>uses W. fo u = fo' u \<Longrightarrow> slack W fo cnt = slack W fo' cnt"
  using holders_cong [of W fo fo'] by (simp add: slack_def fun_eq_iff)

lemma sep_cong:
  assumes "\<forall>u\<in>uses W. fo u = fo' u" "\<forall>u\<in>uses W. fo u \<noteq> None \<longrightarrow> ex u = ex' u"
  shows "sep W fo ex cnt n \<longleftrightarrow> sep W fo' ex' cnt n"
  using assms slack_cong [OF assms(1)] unfolding sep_def by (auto; metis)

lemma slack_mono: "slack W fo cnt f k \<Longrightarrow> j \<le> k \<Longrightarrow> slack W fo cnt f j"
  by (auto simp: slack_def)

text \<open>A use gives up its frame: one more reference than uses remains on it.\<close>

lemma sep_unmap:
  assumes s: "sep W fo ex cnt n" and u: "u \<in> uses W"
  shows "\<forall>v. v \<noteq> u \<and> ex' v \<longrightarrow> ex v \<Longrightarrow> sep W (fo(u := None)) ex' cnt n"
    "slack W fo cnt f k \<Longrightarrow> slack W (fo(u := None)) cnt f k"
    "fo u = Some f \<Longrightarrow> slack W fo cnt f k \<Longrightarrow> slack W (fo(u := None)) cnt f (Suc k)"
proof -
  have c: "card (holders W (fo(u := None)) f) = card (holders W fo f) - (if fo u = Some f then 1 else 0)" for f
    using holders_remap [OF sepD(3) [OF s] u, of fo None f] by (cases "fo u = None") (auto simp: fun_upd_idem)
  show k: "slack W fo cnt f k \<Longrightarrow> slack W (fo(u := None)) cnt f k" for f k by (auto simp: slack_def c)
  show "sep W (fo(u := None)) ex' cnt n" if ex: "\<forall>v. v \<noteq> u \<and> ex' v \<longrightarrow> ex v"
    unfolding sep_def
  proof (intro conjI ballI allI impI)
    fix v w assume "v \<in> uses W" "w \<in> uses W" and a: "(fo(u := None)) v \<noteq> None \<and> ex' v \<and> (fo(u := None)) w = (fo(u := None)) v"
    then have "v \<noteq> u" "w \<noteq> u" by (auto split: if_splits)
    with a ex show "w = v" using sepD(5) [OF s \<open>v \<in> uses W\<close> \<open>w \<in> uses W\<close>] by auto
  qed (use s k in \<open>auto simp: sep_def split: if_splits\<close>)
  assume a: "fo u = Some f"
  then have "u \<in> holders W fo f" using u by (simp add: holders_def)
  then have "0 < card (holders W fo f)" using finite_holders [OF s] by (auto simp: card_gt_0_iff)
  moreover assume "slack W fo cnt f k"
  ultimately show "slack W (fo(u := None)) cnt f (Suc k)" using a by (auto simp: slack_def c)
qed

text \<open>A use takes a frame on which a reference is left over, alone or next to uses that are not exclusive.\<close>

lemma sep_set:
  assumes s: "sep W fo ex cnt n" and u: "u \<in> uses W" and f: "256 \<le> f" "f < 256 + n"
    and sl: "slack W (fo(u := None)) cnt f 1"
    and ex: "\<forall>v\<in>uses W. v \<noteq> u \<and> ex' v \<longrightarrow> ex v" "\<forall>v\<in>uses W. v \<noteq> u \<and> fo v = Some f \<longrightarrow> \<not> ex' v \<and> \<not> ex' u"
  shows "sep W (fo(u := Some f)) ex' cnt n"
    "slack W (fo(u := None)) cnt g k \<Longrightarrow> g \<noteq> f \<Longrightarrow> slack W (fo(u := Some f)) cnt g k"
    "slack W (fo(u := None)) cnt f (Suc k) \<Longrightarrow> slack W (fo(u := Some f)) cnt f k"
proof -
  note c = holders_remap [OF sepD(3) [OF s] u]
  have "holders W (fo(u := Some f)) g = holders W (fo(u := None)) g" if "g \<noteq> f" for g using that by (auto simp: holders_def)
  then show other: "slack W (fo(u := Some f)) cnt g k" if "slack W (fo(u := None)) cnt g k" "g \<noteq> f" for g k
    using that by (simp add: slack_def)
  have e: "fo(u := None, u := Some f) = fo(u := Some f)" by simp
  have "card (holders W (fo(u := Some f)) f) = card (holders W (fo(u := None)) f) + 1"
    using c [of "fo(u := None)" "Some f" f] unfolding e by simp
  then show own: "slack W (fo(u := Some f)) cnt f k" if "slack W (fo(u := None)) cnt f (Suc k)" for k
    using that by (auto simp: slack_def)
  have "slack W (fo(u := Some f)) cnt f 0" using own [of 0] sl by simp
  then have sl': "slack W (fo(u := Some f)) cnt g 0" if "256 \<le> g" "g < 256 + n" for g
    using other [of g 0] sep_unmap(2) [OF s u] sepD(6) [OF s that] by (cases "g = f") auto
  show "sep W (fo(u := Some f)) ex' cnt n" unfolding sep_def
  proof (intro conjI ballI allI impI)
    fix v w assume v: "v \<in> uses W" "w \<in> uses W"
      and a: "(fo(u := Some f)) v \<noteq> None \<and> ex' v \<and> (fo(u := Some f)) w = (fo(u := Some f)) v"
    show "w = v"
    proof (cases "v = u \<or> w = u")
      case True
      with a ex(2) v show ?thesis by (auto split: if_splits)
    next
      case False
      with a obtain g where "fo v = Some g" "fo w = Some g" by auto
      with False a ex(1) v show ?thesis using sepD(5) [OF s v] by auto
    qed
  qed (use s sl' f in \<open>auto simp: sep_def split: if_splits\<close>)
qed

lemma slack_card: "card (holders W fo f) + k \<le> unat (cnt (f - 256)) \<Longrightarrow> slack W fo cnt f k"
  by (simp add: slack_def)

text \<open>Dropping a reference that is left over.\<close>

lemma sep_drop:
  assumes s: "sep W fo ex cnt n" and sl: "slack W fo cnt f 1" and c: "cnt (f - 256) < USED" "256 \<le> f"
  shows "sep W fo ex (cnt(f - 256 := cnt (f - 256) - 1)) n"
    "slack W fo cnt g k \<Longrightarrow> g \<noteq> f \<Longrightarrow> 256 \<le> g \<Longrightarrow> slack W fo (cnt(f - 256 := cnt (f - 256) - 1)) g k"
    "slack W fo cnt f (Suc k) \<Longrightarrow> slack W fo (cnt(f - 256 := cnt (f - 256) - 1)) f k"
proof -
  have ne: "\<not> USED \<le> cnt (f - 256)" using c by (simp add: not_le)
  show other: "slack W fo (cnt(f - 256 := cnt (f - 256) - 1)) g k" if "slack W fo cnt g k" "g \<noteq> f" "256 \<le> g" for g k
    using that c(2) by (auto simp: slack_def)
  have dec: "unat (cnt (f - 256) - 1) = unat (cnt (f - 256)) - 1" if "0 < unat (cnt (f - 256))"
    using that by (intro unat_minus_one) auto
  show own: "slack W fo (cnt(f - 256 := cnt (f - 256) - 1)) f k" if "slack W fo cnt f (Suc k)" for k
    using that ne dec by (auto simp: slack_def)
  have "slack W fo (cnt(f - 256 := cnt (f - 256) - 1)) g 0" if "256 \<le> g" "g < 256 + n" for g
    using other [of g 0] own [of 0] sl sepD(6) [OF s that] that by (cases "g = f") auto
  then show "sep W fo ex (cnt(f - 256 := cnt (f - 256) - 1)) n" using s by (simp add: sep_def)
qed

text \<open>One more reference.\<close>

lemma sep_raise:
  assumes s: "sep W fo ex cnt n" and f: "256 \<le> f"
    and c: "cnt (f - 256) < USED"
  shows "sep W fo ex (cnt(f - 256 := cnt (f - 256) + 1)) n"
    "slack W fo cnt g k \<Longrightarrow> 256 \<le> g \<Longrightarrow> slack W fo (cnt(f - 256 := cnt (f - 256) + 1)) g k"
    "slack W fo cnt f k \<Longrightarrow> slack W fo (cnt(f - 256 := cnt (f - 256) + 1)) f (Suc k)"
proof -
  have "unat (cnt (f - 256)) < 100" using c by (simp add: USED_def word_less_nat_alt)
  then have i: "unat (cnt (f - 256) + 1) = unat (cnt (f - 256)) + 1" by (simp add: unat_word_ariths)
  show own: "slack W fo (cnt(f - 256 := cnt (f - 256) + 1)) f (Suc k)" if "slack W fo cnt f k" for k
    using that i c by (auto simp: slack_def)
  show other: "slack W fo (cnt(f - 256 := cnt (f - 256) + 1)) g k" if "slack W fo cnt g k" "256 \<le> g" for g k
    using that f own [of k] by (cases "g = f") (auto simp: slack_def)
  then show "sep W fo ex (cnt(f - 256 := cnt (f - 256) + 1)) n" using s by (simp add: sep_def)
qed

text \<open>A free frame is taken.\<close>

lemma sep_take:
  assumes s: "sep W fo ex cnt n" and f: "256 \<le> f" "f < 256 + n" and c: "cnt (f - 256) = 0"
  shows "sep W fo ex (cnt(f - 256 := 1)) n" "holders W fo f = {}"
    "slack W fo cnt g k \<Longrightarrow> 256 \<le> g \<Longrightarrow> slack W fo (cnt(f - 256 := 1)) g k" "slack W fo (cnt(f - 256 := 1)) f 1"
proof -
  have "\<not> USED \<le> cnt (f - 256)" "cnt (f - 256) < USED" by (simp_all add: c USED_def)
  then show h: "holders W fo f = {}" using sepD(6) [OF s f] finite_holders [OF s] c by (simp add: slack_def)
  note r = sep_raise [OF s f(1) \<open>cnt (f - 256) < USED\<close>, unfolded c, simplified]
  show "sep W fo ex (cnt(f - 256 := 1)) n" by (rule r(1))
  show "slack W fo cnt g k \<Longrightarrow> 256 \<le> g \<Longrightarrow> slack W fo (cnt(f - 256 := 1)) g k" by (rule r(2))
  show "slack W fo (cnt(f - 256 := 1)) f 1" by (rule slack_card) (simp add: h)
qed

text \<open>Uses leave and enter the world.\<close>

lemma sep_shrink:
  assumes s: "sep W fo ex cnt n" and W: "fst W' \<subseteq> fst W" "snd W' \<subseteq> snd W"
  shows "sep W' fo ex cnt n" "slack W fo cnt f k \<Longrightarrow> slack W' fo cnt f k"
    "u \<in> uses W \<Longrightarrow> u \<notin> uses W' \<Longrightarrow> fo u = Some f \<Longrightarrow> slack W' fo cnt f 1"
proof -
  have sub: "uses W' \<subseteq> uses W" using W by (auto simp: uses_def)
  then have h: "holders W' fo g \<subseteq> holders W fo g" for g by (auto simp: holders_def)
  then have le: "card (holders W' fo g) \<le> card (holders W fo g)" for g by (intro card_mono finite_holders [OF s])
  show k: "slack W fo cnt g k \<Longrightarrow> slack W' fo cnt g k" for g k using le [of g] by (auto simp: slack_def)
  show "sep W' fo ex cnt n" using s k sub W finite_subset unfolding sep_def by (meson subset_iff)
  assume u: "u \<in> uses W" "u \<notin> uses W'" "fo u = Some f"
  then have "u \<in> holders W fo f" "u \<notin> holders W' fo f" by (auto simp: holders_def)
  then have "card (holders W' fo f) < card (holders W fo f)" using h [of f] by (intro psubset_card_mono finite_holders [OF s]) blast
  moreover have "slack W fo cnt f 0" using sepD(4) [OF s u(1,3)] sepD(6) [OF s] by blast
  ultimately show "slack W' fo cnt f 1" by (auto simp: slack_def)
qed

lemma sep_grow:
  assumes s: "sep W fo ex cnt n" and fin: "finite (fst W')" "finite (snd W')" and W: "uses W' = uses W \<union> N" "N \<inter> uses W = {}"
    and fresh: "\<And>u f. u \<in> N \<Longrightarrow> fo u = Some f \<Longrightarrow> 256 \<le> f \<and> f < 256 + n \<and> holders W fo f = {} \<and> slack W fo cnt f 1"
    and inj: "\<And>u v f. u \<in> N \<Longrightarrow> v \<in> N \<Longrightarrow> fo u = Some f \<Longrightarrow> fo v = Some f \<Longrightarrow> u = v"
  shows "sep W' fo ex cnt n" "(\<And>u. u \<in> N \<Longrightarrow> fo u \<noteq> Some f) \<Longrightarrow> slack W fo cnt f k \<Longrightarrow> slack W' fo cnt f k"
proof -
  have h: "holders W' fo f = holders W fo f \<union> {u \<in> N. fo u = Some f}" for f using W by (auto simp: holders_def)
  show k: "slack W' fo cnt f k" if "\<And>u. u \<in> N \<Longrightarrow> fo u \<noteq> Some f" "slack W fo cnt f k" for f k
  proof -
    have "holders W' fo f = holders W fo f" using that(1) unfolding h by auto
    then show ?thesis using that(2) by (simp add: slack_def)
  qed
  have new: "slack W' fo cnt f 0" if u: "u \<in> N" "fo u = Some f" for u f
  proof -
    have "holders W' fo f = {u}" using fresh [OF u] inj u unfolding h by auto
    then show ?thesis using fresh [OF u] by (auto simp: slack_def)
  qed
  have none: "fo v \<noteq> Some f" if "u \<in> N" "fo u = Some f" "v \<in> uses W" for u v f
    using fresh [OF that(1,2)] that(3) by (auto simp: holders_def)
  show "sep W' fo ex cnt n" unfolding sep_def
  proof (intro conjI ballI allI impI)
    fix u v assume m: "u \<in> uses W'" "v \<in> uses W'" and a: "fo u \<noteq> None \<and> ex u \<and> fo v = fo u"
    then obtain f where f: "fo u = Some f" "fo v = Some f" by auto
    show "v = u" using m none [OF _ f(1)] none [OF _ f(2)] inj [OF _ _ f] sepD(5) [OF s _ _ f] a f unfolding W by blast
  next
    fix f assume f: "256 \<le> f \<and> f < 256 + n"
    show "slack W' fo cnt f 0"
    proof (cases "\<exists>u\<in>N. fo u = Some f")
      case True then show ?thesis using new by blast
    next
      case False then show ?thesis using k sepD(6) [OF s] f by blast
    qed
  qed (use fin s fresh in \<open>auto simp: W sep_def\<close>)
qed

end
