(* ===== verification/Spaces.thy ===== *)
theory Spaces
  imports Frames
begin

text \<open>
  Page tables as uses of frames: the invariant of \<open>Frames\<close> on the memory manager's state, and the effect of writing
  one page table entry, of releasing a page and of filling a frame.
\<close>

subsection \<open>Entries of a page table\<close>

abbreviation fr :: "u32 \<Rightarrow> nat" where "fr pa \<equiv> unat pa div PAGE_SIZE"

definition page_aligned :: "u32 \<Rightarrow> bool" where "page_aligned pa \<longleftrightarrow> pa AND 0xFFF = 0"

lemma page_aligned_unat: "page_aligned pa \<longleftrightarrow> unat pa = fr pa * PAGE_SIZE"
proof -
  have "pa AND 0xFFF = take_bit 12 pa" by (simp add: take_bit_eq_mask mask_eq_exp_minus_1)
  then have "unat (pa AND 0xFFF) = unat pa mod 4096" unfolding unsigned_take_bit_eq by (simp add: take_bit_eq_mod unat_mod)
  then have "page_aligned pa \<longleftrightarrow> unat pa mod 4096 = 0" by (metis page_aligned_def unat_0 unat_eq_zero)
  moreover have "unat pa = fr pa * PAGE_SIZE + unat pa mod 4096" by (simp add: PAGE_SIZE_def)
  ultimately show ?thesis by linarith
qed

lemma page_aligned_eq: "page_aligned a \<Longrightarrow> page_aligned b \<Longrightarrow> fr a = fr b \<Longrightarrow> a = b"
  by (metis page_aligned_unat word_unat_eq_iff)

lemma bit_PT_MASK: "bit PT_MASK n \<longleftrightarrow> n < 32 \<and> 12 \<le> n"
proof -
  have m: "PT_MASK = NOT (mask 12)" by (simp add: PT_MASK_def mask_eq_exp_minus_1)
  show ?thesis unfolding m by (simp only: bit_not_iff bit_mask_iff possible_bit_word, auto)
qed

lemma pt_mask: "x AND PT_MASK = push_bit 12 (drop_bit 12 x)"
  by (rule bit_word_eqI) (auto simp: bit_PT_MASK bit_simps)

lemma fr_mask [simp]: "fr (x AND PT_MASK) = unat x div PAGE_SIZE"
proof -
  have "unat (push_bit 12 (drop_bit 12 x) :: u32) = unat x div 4096 * 4096"
  proof -
    have "unat x < 2 ^ 32" using unsigned_less [of x] by simp
    moreover have "unat x div 4096 * 4096 \<le> unat x" by simp
    ultimately have "unat x div 4096 * 4096 < 2 ^ 32" by linarith
    then show ?thesis unfolding unsigned_push_bit_eq unsigned_drop_bit_eq by (simp add: push_bit_eq_mult drop_bit_eq_div take_bit_eq_mod)
  qed
  then show ?thesis by (simp add: pt_mask PAGE_SIZE_def)
qed

lemma page_aligned_mask [simp]: "page_aligned (x AND PT_MASK)"
proof -
  have "(0xFFF :: u32) = mask 12" by (simp add: mask_eq_exp_minus_1)
  show ?thesis unfolding page_aligned_def \<open>0xFFF = mask 12\<close>
    by (rule bit_word_eqI) (simp only: bit_and_iff bit_mask_iff bit_PT_MASK bit_0_eq bot_apply bot_bool_def, auto)
qed

definition ent :: "'z mem_state_scheme \<Rightarrow> nat \<Rightarrow> nat \<Rightarrow> u32" where
  "ent s f k = get32 (ram s f) (4 * k)"

lemma slot_at:
  assumes "page_aligned pa" "k < 1024"
  shows "unat (pa + 4 * of_nat k) = fr pa * PAGE_SIZE + 4 * k"
proof -
  have "unat pa < 2 ^ 32" using unsigned_less [of pa] by simp
  then have "fr pa < 2 ^ 20" by (simp add: PAGE_SIZE_def less_mult_imp_div_less)
  then have "fr pa * PAGE_SIZE + 4 * k < 2 ^ 32" using assms(2) by (simp add: PAGE_SIZE_def)
  moreover have "unat (4 * of_nat k :: u32) = 4 * k" using assms(2) by (simp add: unat_word_ariths unat_of_nat)
  ultimately show ?thesis using assms(1) by (simp add: unat_word_ariths page_aligned_unat)
qed

lemma slot_split:
  assumes "page_aligned pa" "k < 1024"
  shows "fr (pa + 4 * of_nat k) = fr pa" "unat (pa + 4 * of_nat k) mod PAGE_SIZE = 4 * k"
proof -
  have "4 * k < PAGE_SIZE" using assms(2) by (simp add: PAGE_SIZE_def)
  then show "fr (pa + 4 * of_nat k) = fr pa" "unat (pa + 4 * of_nat k) mod PAGE_SIZE = 4 * k"
    unfolding slot_at [OF assms] by simp_all
qed

lemma ram32_slot: "page_aligned pa \<Longrightarrow> k < 1024 \<Longrightarrow> ram32 s (pa + 4 * of_nat k) = ent s (fr pa) k"
  by (simp add: ram32_def ent_def slot_split)

lemma set_ram32_slot: "page_aligned pa \<Longrightarrow> k < 1024 \<Longrightarrow>
    set_ram32 (pa + 4 * of_nat k) v s = s\<lparr>ram := (ram s)(fr pa := put32 (4 * k) v (ram s (fr pa)))\<rparr>"
  by (simp add: set_ram32_def slot_split)

lemma ent_set: "page_aligned pa \<Longrightarrow> k < 1024 \<Longrightarrow>
    ent (set_ram32 (pa + 4 * of_nat k) v s) f j = (if f = fr pa \<and> j = k then v else ent s f j)"
proof -
  have "j \<noteq> k \<Longrightarrow> get32 (put32 (4 * k) v d) (4 * j) = get32 d (4 * j)" for d by (rule get32_put32_other) linarith
  then show "page_aligned pa \<Longrightarrow> k < 1024 \<Longrightarrow> ?thesis" by (auto simp: set_ram32_slot ent_def)
qed

lemma ent_cong: "ram s' f = ram s f \<Longrightarrow> ent s' f = ent s f"
  by (rule ext) (simp add: ent_def)

subsection \<open>Address spaces\<close>

definition pde :: "'z mem_state_scheme \<Rightarrow> u32 \<Rightarrow> u32" where "pde s d = ent s (fr d) 32"
definition tabf :: "'z mem_state_scheme \<Rightarrow> u32 \<Rightarrow> nat" where "tabf s d = unat (pde s d) div PAGE_SIZE"
definition pte :: "'z mem_state_scheme \<Rightarrow> u32 \<Rightarrow> nat \<Rightarrow> u32" where "pte s d i = ent s (tabf s d) i"

primrec frame_of :: "'z mem_state_scheme \<Rightarrow> use \<Rightarrow> nat option" where
  "frame_of s (Dir d) = Some (fr d)"
| "frame_of s (Tab d) = (if pde s d AND PTE_PRESENT = 0 then None else Some (tabf s d))"
| "frame_of s (Page d i) = (if pte s d i AND PTE_PRESENT = 0 then None else Some (unat (pte s d i) div PAGE_SIZE))"
| "frame_of s (Kern p) = Some (fr p)"

primrec exclusive :: "'z mem_state_scheme \<Rightarrow> use \<Rightarrow> bool" where
  "exclusive s (Dir d) = True"
| "exclusive s (Tab d) = True"
| "exclusive s (Page d i) = (pte s d i AND PTE_RW \<noteq> 0)"
| "exclusive s (Kern p) = True"

definition mm_inv :: "world \<Rightarrow> 'z mem_state_scheme \<Rightarrow> bool" where
  "mm_inv W s \<longleftrightarrow> sep W (frame_of s) (exclusive s) (mem_map s) (max_map_nr s) \<and> 256 + max_map_nr s \<le> 2 ^ 20 \<and>
     (\<forall>d\<in>fst W. page_aligned d \<and> pde s d AND PTE_PRESENT \<noteq> 0) \<and> (\<forall>p\<in>snd W. page_aligned p)"

abbreviation spare :: "world \<Rightarrow> 'z mem_state_scheme \<Rightarrow> nat \<Rightarrow> nat \<Rightarrow> bool" where
  "spare W s \<equiv> slack W (frame_of s) (mem_map s)"

lemma mm_invD:
  assumes "mm_inv W s"
  shows "sep W (frame_of s) (exclusive s) (mem_map s) (max_map_nr s)" "256 + max_map_nr s \<le> 2 ^ 20"
    "d \<in> fst W \<Longrightarrow> page_aligned d" "d \<in> fst W \<Longrightarrow> pde s d AND PTE_PRESENT \<noteq> 0" "p \<in> snd W \<Longrightarrow> page_aligned p"
    "d \<in> fst W \<Longrightarrow> frame_of s (Tab d) = Some (tabf s d)"
  using assms by (simp_all add: mm_inv_def)

lemma mm_frame_range: "mm_inv W s \<Longrightarrow> u \<in> uses W \<Longrightarrow> frame_of s u = Some f \<Longrightarrow> 256 \<le> f \<and> f < 256 + max_map_nr s"
  by (rule sepD(4) [OF mm_invD(1)])

lemma mm_spare: "mm_inv W s \<Longrightarrow> u \<in> uses W \<Longrightarrow> frame_of s u = Some f \<Longrightarrow> spare W s f 0"
  by (rule sepD(6) [OF mm_invD(1)]) (simp_all add: mm_frame_range)

lemma pgdir_nonzero: "mm_inv W s \<Longrightarrow> d \<in> fst W \<Longrightarrow> d \<noteq> 0"
  using mm_frame_range [of W s "Dir d" "fr d"] by (auto simp: PAGE_SIZE_def)

lemma slot_pde: "page_aligned d \<Longrightarrow> ram32 s (pde_slot d USER_BASE) = pde s d"
  using ram32_slot [of d 32 s] by (simp add: pde_slot_def USER_BASE_def pde_def)

lemma user_pt_in: "mm_inv W s \<Longrightarrow> d \<in> fst W \<Longrightarrow> user_pt d s = Some (pde s d AND PT_MASK)"
  by (simp add: user_pt_def pgdir_nonzero mm_invD slot_pde)

text \<open>The frames that hold page directories and page tables.\<close>

definition table_frame :: "world \<Rightarrow> 'z mem_state_scheme \<Rightarrow> nat \<Rightarrow> bool" where
  "table_frame W s f \<longleftrightarrow> (\<exists>d\<in>fst W. f = fr d \<or> f = tabf s d)"

lemma held_not_table:
  assumes "mm_inv W s" "u \<in> uses W" "shareable u \<or> (\<exists>p. u = Kern p)" "frame_of s u = Some f"
  shows "\<not> table_frame W s f"
proof
  assume "table_frame W s f"
  then obtain d where d: "d \<in> fst W" "f = fr d \<or> f = tabf s d" by (auto simp: table_frame_def)
  then consider "frame_of s (Dir d) = Some f" | "frame_of s (Tab d) = Some f" using mm_invD(6) [OF assms(1) d(1)] by auto
  then show False
  proof cases
    case 1 then show False using sepD(5) [OF mm_invD(1) [OF assms(1)] _ assms(2) 1 assms(4)] d(1) assms(3) by auto
  next
    case 2 then show False using sepD(5) [OF mm_invD(1) [OF assms(1)] _ assms(2) 2 assms(4)] d(1) assms(3) by auto
  qed
qed

lemma fresh_not_table:
  assumes "mm_inv W s" "holders W (frame_of s) f = {}"
  shows "\<not> table_frame W s f"
proof
  assume "table_frame W s f"
  then obtain d where "d \<in> fst W" "f = fr d \<or> f = tabf s d" by (auto simp: table_frame_def)
  then have "Dir d \<in> holders W (frame_of s) f \<or> Tab d \<in> holders W (frame_of s) f"
    using mm_invD(6) [OF assms(1)] by (auto simp: holders_def)
  with assms(2) show False by blast
qed

text \<open>Memory outside the tables may change freely.\<close>

lemma tables_same:
  assumes "\<forall>f. table_frame W s f \<longrightarrow> ram s' f = ram s f"
  shows "d \<in> fst W \<Longrightarrow> pde s' d = pde s d" "d \<in> fst W \<Longrightarrow> tabf s' d = tabf s d" "d \<in> fst W \<Longrightarrow> pte s' d i = pte s d i"
proof -
  assume d: "d \<in> fst W"
  then have "table_frame W s (fr d)" "table_frame W s (tabf s d)" by (auto simp: table_frame_def)
  then have r: "ram s' (fr d) = ram s (fr d)" "ram s' (tabf s d) = ram s (tabf s d)" using assms by blast+
  show p: "pde s' d = pde s d" using ent_cong [OF r(1)] by (simp add: pde_def)
  then show t: "tabf s' d = tabf s d" by (simp add: tabf_def)
  show "pte s' d i = pte s d i" using ent_cong [OF r(2)] t by (simp add: pte_def)
qed

lemma frame_of_cong:
  assumes "\<forall>d\<in>fst W. pde s' d = pde s d \<and> (\<forall>i<1024. pte s' d i = pte s d i)" "u \<in> uses W"
  shows "frame_of s' u = frame_of s u" "exclusive s' u = exclusive s u"
  using assms by (cases u; simp add: tabf_def)+

lemma mm_inv_cong:
  assumes "mm_inv W s" "\<forall>d\<in>fst W. pde s' d = pde s d \<and> (\<forall>i<1024. pte s' d i = pte s d i)"
    "mem_map s' = mem_map s" "max_map_nr s' = max_map_nr s"
  shows "mm_inv W s'" "spare W s' = spare W s" "\<forall>u\<in>uses W. frame_of s' u = frame_of s u"
proof -
  note f = frame_of_cong [OF assms(2)]
  show "\<forall>u\<in>uses W. frame_of s' u = frame_of s u" using f(1) by blast
  show "spare W s' = spare W s" unfolding assms(3) using f(1) by (intro slack_cong) blast
  have "sep W (frame_of s') (exclusive s') (mem_map s) (max_map_nr s)"
    using sep_cong [of W "frame_of s'" "frame_of s" "exclusive s'" "exclusive s"] f mm_invD(1) [OF assms(1)] by simp
  then show "mm_inv W s'" using assms unfolding mm_inv_def by simp
qed

subsection \<open>One entry is written\<close>

abbreviation pte_at :: "'z mem_state_scheme \<Rightarrow> u32 \<Rightarrow> nat \<Rightarrow> u32" where
  "pte_at s d i \<equiv> (pde s d AND PT_MASK) + 4 * of_nat i"

lemma pte_at_read: "i < 1024 \<Longrightarrow> ram32 s (pte_at s d i) = pte s d i"
  by (simp add: ram32_slot pte_def tabf_def)

lemma set_pte:
  assumes inv: "mm_inv W s" and d: "d \<in> fst W" "i < 1024" and e: "e \<in> fst W"
  shows "pde (set_ram32 (pte_at s d i) v s) e = pde s e"
    "tabf (set_ram32 (pte_at s d i) v s) e = tabf s e"
    "pte (set_ram32 (pte_at s d i) v s) e j = (if e = d \<and> j = i then v else pte s e j)"
proof -
  note sep = mm_invD(1) [OF inv]
  let ?s = "set_ram32 (pte_at s d i) v s"
  have ent: "ent ?s f k = (if f = tabf s d \<and> k = i then v else ent s f k)" for f k
    using ent_set [of "pde s d AND PT_MASK" i v s f k] d(2) by (simp add: tabf_def)
  have "fr e \<noteq> tabf s d"
    using sepD(5) [OF sep, of "Tab d" "Dir e" "tabf s d"] mm_invD(6) [OF inv d(1)] d(1) e by auto
  then have "ent ?s (fr e) 32 = ent s (fr e) 32" unfolding ent by simp
  then show p: "pde ?s e = pde s e" by (simp only: pde_def [of ?s e] pde_def [of s e])
  show t: "tabf ?s e = tabf s e" by (simp only: tabf_def p)
  have "tabf s e = tabf s d \<Longrightarrow> e = d"
    using sepD(5) [OF sep, of "Tab d" "Tab e" "tabf s d"] mm_invD(6) [OF inv] d(1) e by auto
  then show "pte ?s e j = (if e = d \<and> j = i then v else pte s e j)" unfolding pte_def [of ?s] pte_def [of s] t ent by auto
qed

definition pte_frame :: "u32 \<Rightarrow> nat option" where
  "pte_frame v = (if v AND PTE_PRESENT = 0 then None else Some (unat v div PAGE_SIZE))"

lemma frame_of_Page: "frame_of s (Page d i) = pte_frame (pte s d i)"
  by (simp add: pte_frame_def)

lemma frame_of_set:
  assumes inv: "mm_inv W s" and d: "d \<in> fst W" "i < 1024" and u: "u \<in> uses W"
  shows "frame_of (set_ram32 (pte_at s d i) v s) u = ((frame_of s)(Page d i := pte_frame v)) u"
    "exclusive (set_ram32 (pte_at s d i) v s) u = (if u = Page d i then v AND PTE_RW \<noteq> 0 else exclusive s u)"
proof -
  define t where "t = set_ram32 (pte_at s d i) v s"
  have p: "e \<in> fst W \<Longrightarrow> pde t e = pde s e" "e \<in> fst W \<Longrightarrow> tabf t e = tabf s e"
    "e \<in> fst W \<Longrightarrow> pte t e j = (if e = d \<and> j = i then v else pte s e j)" for e j
    unfolding t_def by (rule set_pte [OF inv d], assumption)+
  have "frame_of t u = ((frame_of s)(Page d i := pte_frame v)) u" using u by (cases u) (auto simp: p pte_frame_def)
  moreover have "exclusive t u = (if u = Page d i then v AND PTE_RW \<noteq> 0 else exclusive s u)" using u by (cases u) (auto simp: p)
  ultimately show "frame_of (set_ram32 (pte_at s d i) v s) u = ((frame_of s)(Page d i := pte_frame v)) u"
    "exclusive (set_ram32 (pte_at s d i) v s) u = (if u = Page d i then v AND PTE_RW \<noteq> 0 else exclusive s u)"
    unfolding t_def by blast+
qed

lemma set_ram32_mem [simp]: "mem_map (set_ram32 a v s) = mem_map s" "max_map_nr (set_ram32 a v s) = max_map_nr s"
  "memory_end (set_ram32 a v s) = memory_end s" "task (set_ram32 a v s) = task s" "tstruct (set_ram32 a v s) = tstruct s"
  "current (set_ram32 a v s) = current s" "swap_map (set_ram32 a v s) = swap_map s" "hd_sectors (set_ram32 a v s) = hd_sectors s"
  by (simp_all add: set_ram32_def)

lemma mm_inv_set:
  assumes inv: "mm_inv W s" and d: "d \<in> fst W" "i < 1024"
    and sep: "sep W ((frame_of s)(Page d i := pte_frame v)) (\<lambda>u. if u = Page d i then v AND PTE_RW \<noteq> 0 else exclusive s u)
      (mem_map s) (max_map_nr s)"
  shows "mm_inv W (set_ram32 (pte_at s d i) v s)"
    "spare W (set_ram32 (pte_at s d i) v s) = slack W ((frame_of s)(Page d i := pte_frame v)) (mem_map s)"
proof -
  let ?s = "set_ram32 (pte_at s d i) v s"
  have "sep W (frame_of ?s) (exclusive ?s) (mem_map s) (max_map_nr s)"
    by (rule iffD2 [OF sep_cong sep]) (simp_all add: frame_of_set [OF inv d])
  then show "mm_inv W ?s" using inv d by (simp add: mm_inv_def set_pte [OF inv d])
  show "spare W ?s = slack W ((frame_of s)(Page d i := pte_frame v)) (mem_map s)"
    using frame_of_set [OF inv d] by (simp add: slack_cong)
qed

text \<open>Clearing an entry leaves a reference over on the page it mapped.\<close>

lemma unmap_pte:
  assumes inv: "mm_inv W s" and d: "d \<in> fst W" "i < 1024" and v: "v AND PTE_PRESENT = 0"
  shows "mm_inv W (set_ram32 (pte_at s d i) v s)" "spare W s f k \<Longrightarrow> spare W (set_ram32 (pte_at s d i) v s) f k"
    "frame_of s (Page d i) = Some f \<Longrightarrow> spare W s f k \<Longrightarrow> spare W (set_ram32 (pte_at s d i) v s) f (Suc k)"
proof -
  have n: "pte_frame v = None" using v by (simp add: pte_frame_def)
  have u: "Page d i \<in> uses W" using d by simp
  define ex where "ex u = (if u = Page d i then v AND PTE_RW \<noteq> 0 else exclusive s u)" for u
  have e: "\<forall>v. v \<noteq> Page d i \<and> ex v \<longrightarrow> exclusive s v" by (simp add: ex_def)
  note un = sep_unmap [OF mm_invD(1) [OF inv] u]
  have "sep W ((frame_of s)(Page d i := pte_frame v)) ex (mem_map s) (max_map_nr s)" unfolding n by (rule un(1) [OF e])
  note st = mm_inv_set [OF inv d this [unfolded ex_def]]
  show "mm_inv W (set_ram32 (pte_at s d i) v s)" by (rule st(1))
  show "spare W s f k \<Longrightarrow> spare W (set_ram32 (pte_at s d i) v s) f k" unfolding st(2) n by (rule un(2))
  show "frame_of s (Page d i) = Some f \<Longrightarrow> spare W s f k \<Longrightarrow> spare W (set_ram32 (pte_at s d i) v s) f (Suc k)"
    unfolding st(2) n by (rule un(3))
qed

text \<open>Setting an entry to a frame with a reference left over.\<close>

lemma map_pte:
  assumes inv: "mm_inv W s" and d: "d \<in> fst W" "i < 1024" and v: "pte_frame v = Some f" and f: "256 \<le> f" "f < 256 + max_map_nr s"
    and sp: "slack W ((frame_of s)(Page d i := None)) (mem_map s) f 1"
    and ex: "\<forall>u\<in>uses W. u \<noteq> Page d i \<and> frame_of s u = Some f \<longrightarrow> \<not> exclusive s u \<and> v AND PTE_RW = 0"
  shows "mm_inv W (set_ram32 (pte_at s d i) v s)"
    "slack W ((frame_of s)(Page d i := None)) (mem_map s) g k \<Longrightarrow> g \<noteq> f \<Longrightarrow> spare W (set_ram32 (pte_at s d i) v s) g k"
    "slack W ((frame_of s)(Page d i := None)) (mem_map s) f (Suc k) \<Longrightarrow> spare W (set_ram32 (pte_at s d i) v s) f k"
proof -
  have u: "Page d i \<in> uses W" using d by simp
  define ex' where "ex' u = (if u = Page d i then v AND PTE_RW \<noteq> 0 else exclusive s u)" for u
  have e: "\<forall>v\<in>uses W. v \<noteq> Page d i \<and> ex' v \<longrightarrow> exclusive s v"
    "\<forall>v\<in>uses W. v \<noteq> Page d i \<and> frame_of s v = Some f \<longrightarrow> \<not> ex' v \<and> \<not> ex' (Page d i)"
    using ex by (auto simp: ex'_def)
  note st = sep_set [OF mm_invD(1) [OF inv] u f sp e]
  have "sep W ((frame_of s)(Page d i := pte_frame v)) ex' (mem_map s) (max_map_nr s)" unfolding v by (rule st(1))
  note mi = mm_inv_set [OF inv d this [unfolded ex'_def]]
  show "mm_inv W (set_ram32 (pte_at s d i) v s)" by (rule mi(1))
  show "slack W ((frame_of s)(Page d i := None)) (mem_map s) g k \<Longrightarrow> g \<noteq> f \<Longrightarrow> spare W (set_ram32 (pte_at s d i) v s) g k"
    unfolding mi(2) v by (rule st(2))
  show "slack W ((frame_of s)(Page d i := None)) (mem_map s) f (Suc k) \<Longrightarrow> spare W (set_ram32 (pte_at s d i) v s) f k"
    unfolding mi(2) v by (rule st(3))
qed

subsection \<open>A page is released\<close>

lemma map_nr:
  assumes "page_aligned pa" "256 \<le> fr pa"
  shows "\<not> unat pa < LOW_MEM" "MAP_NR pa = fr pa - 256" "pa AND 0xFFF = 0"
proof -
  have u: "unat pa = fr pa * 4096" using assms(1) by (simp add: page_aligned_unat PAGE_SIZE_def)
  then have ge: "LOW_MEM \<le> unat pa" using assms(2) by (simp add: LOW_MEM_def)
  then show "\<not> unat pa < LOW_MEM" by simp
  have "unat (pa - of_nat LOW_MEM) = unat pa - LOW_MEM" using ge by (simp add: LOW_MEM_def unat_sub_if')
  then show "MAP_NR pa = fr pa - 256" unfolding MAP_NR_def using u by (simp add: LOW_MEM_def PAGE_SIZE_def)
  show "pa AND 0xFFF = 0" using assms(1) by (simp add: page_aligned_def)
qed

lemma free_page_cases:
  assumes "page_aligned pa" "256 \<le> fr pa"
  obtains "free_page pa s = s" |
    "free_page pa s = s\<lparr>mem_map := (mem_map s)(fr pa - 256 := mem_map s (fr pa - 256) - 1)\<rparr>" "mem_map s (fr pa - 256) < USED"
proof -
  have "free_page pa s = s \<or> free_page pa s = s\<lparr>mem_map := (mem_map s)(fr pa - 256 := mem_map s (fr pa - 256) - 1)\<rparr> \<and>
    mem_map s (fr pa - 256) < USED"
    using map_nr [OF assms] by (auto simp: free_page_def Let_def)
  then show ?thesis using that by blast
qed

lemma mm_inv_counts:
  "pde (s\<lparr>mem_map := m\<rparr>) = pde s" "tabf (s\<lparr>mem_map := m\<rparr>) = tabf s" "pte (s\<lparr>mem_map := m\<rparr>) = pte s"
  "frame_of (s\<lparr>mem_map := m\<rparr>) = frame_of s" "exclusive (s\<lparr>mem_map := m\<rparr>) = exclusive s"
proof -
  show p: "pde (s\<lparr>mem_map := m\<rparr>) = pde s" by (rule ext) (simp add: pde_def ent_def)
  then show t: "tabf (s\<lparr>mem_map := m\<rparr>) = tabf s" by (rule_tac ext) (simp add: tabf_def)
  then show q: "pte (s\<lparr>mem_map := m\<rparr>) = pte s" by (intro ext) (simp add: pte_def ent_def)
  show "frame_of (s\<lparr>mem_map := m\<rparr>) = frame_of s" by (rule ext, rename_tac u, case_tac u) (simp_all add: p t q)
  show "exclusive (s\<lparr>mem_map := m\<rparr>) = exclusive s" by (rule ext, rename_tac u, case_tac u) (simp_all add: q)
qed

lemma free_page_inv:
  assumes inv: "mm_inv W s" and pa: "page_aligned pa" "256 \<le> fr pa" and sp: "spare W s (fr pa) 1"
  shows "mm_inv W (free_page pa s)" "spare W s g k \<Longrightarrow> g \<noteq> fr pa \<Longrightarrow> 256 \<le> g \<Longrightarrow> spare W (free_page pa s) g k"
    "spare W s (fr pa) (Suc k) \<Longrightarrow> spare W (free_page pa s) (fr pa) k"
    "frame_of (free_page pa s) = frame_of s" "pde (free_page pa s) = pde s" "pte (free_page pa s) = pte s"
proof -
  show f: "frame_of (free_page pa s) = frame_of s" "pde (free_page pa s) = pde s" "pte (free_page pa s) = pte s"
    by (rule free_page_cases [OF pa, of s]; simp add: mm_inv_counts)+
  show "mm_inv W (free_page pa s)"
  proof (rule free_page_cases [OF pa, of s])
    assume e: "free_page pa s = s\<lparr>mem_map := (mem_map s)(fr pa - 256 := mem_map s (fr pa - 256) - 1)\<rparr>" and c: "mem_map s (fr pa - 256) < USED"
    show ?thesis using inv sep_drop(1) [OF mm_invD(1) [OF inv] sp c pa(2)] unfolding e by (simp add: mm_inv_def mm_inv_counts)
  qed (use inv in simp)
  show "spare W s g k \<Longrightarrow> g \<noteq> fr pa \<Longrightarrow> 256 \<le> g \<Longrightarrow> spare W (free_page pa s) g k"
    by (rule free_page_cases [OF pa, of s]) (use sep_drop(2) [OF mm_invD(1) [OF inv] sp _ pa(2)] in \<open>auto simp: mm_inv_counts\<close>)
  show "spare W s (fr pa) (Suc k) \<Longrightarrow> spare W (free_page pa s) (fr pa) k"
    by (rule free_page_cases [OF pa, of s])
      (use sep_drop(3) [OF mm_invD(1) [OF inv] sp _ pa(2)] slack_mono [of W "frame_of s" "mem_map s" "fr pa" "Suc k" k] in \<open>auto simp: mm_inv_counts\<close>)
qed

end
