(* ===== verification/Reclaim.thy ===== *)
theory Reclaim
  imports Spaces
begin

text \<open>
  What the page allocator does to the address spaces when memory is short: pages are taken away, never given, and the
  counts of the frames stay above their uses.
\<close>

subsection \<open>The drive leaves memory alone\<close>

lemma hd_write_loop_frame: "\<exists>w S. snd (hd_write_loop cmd j n buf s) = s\<lparr>hd_sectors := S, hd_waits := w\<rparr>"
proof (induction n arbitrary: j s)
  case 0
  show ?case by (rule exI [of _ "hd_waits s"], rule exI [of _ "hd_sectors s"]) simp
next
  case (Suc n)
  show ?case
  proof (cases "cmd = None \<or> \<not> hd_resp s (hd_waits s)")
    case True
    then have "snd (hd_write_loop cmd j (Suc n) buf s) = s\<lparr>hd_sectors := hd_sectors s, hd_waits := Suc (hd_waits s)\<rparr>"
      by (auto simp: hd_wait_bits_def split: option.splits)
    then show ?thesis by blast
  next
    case False
    then obtain c where c: "cmd = Some c" "hd_resp s (hd_waits s)" by auto
    define t where "t = s\<lparr>hd_waits := Suc (hd_waits s), hd_sectors := (hd_sectors s)(c + j := (\<lambda>k. if k < 512 then buf (j * 512 + k) else 0))\<rparr>"
    have "hd_write_loop cmd j (Suc n) buf s = hd_write_loop cmd (Suc j) n buf t" by (simp add: hd_wait_bits_def c t_def)
    moreover obtain w S where "snd (hd_write_loop cmd (Suc j) n buf t) = t\<lparr>hd_sectors := S, hd_waits := w\<rparr>" using Suc.IH by blast
    ultimately have "snd (hd_write_loop cmd j (Suc n) buf s) = s\<lparr>hd_sectors := S, hd_waits := w\<rparr>" by (simp add: t_def)
    then show ?thesis by blast
  qed
qed

lemma hd_write_frame: "\<exists>w S. snd (hd_write_sectors lba n buf s) = s\<lparr>hd_sectors := S, hd_waits := w\<rparr>"
proof -
  have t: "\<exists>w S. s\<lparr>hd_waits := v\<rparr> = s\<lparr>hd_sectors := S, hd_waits := w\<rparr>" for v
    by (intro exI [of _ v] exI [of _ "hd_sectors s"]) simp
  define t where "t = s\<lparr>hd_waits := Suc (Suc (hd_waits s))\<rparr>"
  have l: "\<exists>w S. snd (hd_write_loop cmd 0 n buf t) = s\<lparr>hd_sectors := S, hd_waits := w\<rparr>" for cmd
  proof -
    obtain w S where "snd (hd_write_loop cmd 0 n buf t) = t\<lparr>hd_sectors := S, hd_waits := w\<rparr>" using hd_write_loop_frame by blast
    then have "snd (hd_write_loop cmd 0 n buf t) = s\<lparr>hd_sectors := S, hd_waits := w\<rparr>" by (simp add: t_def)
    then show ?thesis by blast
  qed
  have m: "\<exists>w S. snd (let (ret, u) = hd_write_loop cmd 0 n buf t in if ret = 0 then let (ok, u) = hd_wait_bits u in (if ok then 0 else - 1, u) else (ret, u))
    = s\<lparr>hd_sectors := S, hd_waits := w\<rparr>" for cmd
  proof -
    obtain r u where e: "hd_write_loop cmd 0 n buf t = (r, u)" by fastforce
    obtain w S where "u = s\<lparr>hd_sectors := S, hd_waits := w\<rparr>" using l [of cmd] e by auto
    then have "u\<lparr>hd_waits := Suc (hd_waits u)\<rparr> = s\<lparr>hd_sectors := S, hd_waits := Suc w\<rparr>" "u = s\<lparr>hd_sectors := S, hd_waits := w\<rparr>" by simp_all
    then show ?thesis by (cases "r = 0") (auto simp: e hd_wait_bits_def)
  qed
  show ?thesis
  proof (cases "hd_resp s (hd_waits s)")
    case False
    then have "snd (hd_write_sectors lba n buf s) = s\<lparr>hd_waits := Suc (hd_waits s)\<rparr>" by (simp add: hd_write_sectors_def hd_busy_def hd_wait_bits_def)
    then show ?thesis using t by simp
  next
    case True
    then have "\<exists>cmd. hd_write_sectors lba n buf s =
      (let (ret, u) = hd_write_loop cmd 0 n buf t in if ret = 0 then let (ok, u) = hd_wait_bits u in (if ok then 0 else - 1, u) else (ret, u))"
      by (simp add: hd_write_sectors_def hd_busy_def hd_out_def hd_wait_bits_def [of s] hd_wait_bits_def [of "s\<lparr>hd_waits := v\<rparr>" for v] t_def Let_def) blast
    then show ?thesis using m by auto
  qed
qed

lemma hd_read_loop_frame: "\<exists>w. snd (snd (hd_read_loop cmd j n buf s)) = s\<lparr>hd_waits := w\<rparr>"
proof (induction n arbitrary: j s buf)
  case 0
  show ?case by (rule exI [of _ "hd_waits s"]) simp
next
  case (Suc n)
  show ?case
  proof (cases "cmd = None \<or> \<not> hd_resp s (hd_waits s)")
    case True
    then have "snd (snd (hd_read_loop cmd j (Suc n) buf s)) = s\<lparr>hd_waits := Suc (hd_waits s)\<rparr>"
      by (auto simp: hd_wait_bits_def split: option.splits)
    then show ?thesis by blast
  next
    case False
    then obtain c where c: "cmd = Some c" "hd_resp s (hd_waits s)" by auto
    obtain b where "hd_read_loop cmd j (Suc n) buf s = hd_read_loop cmd (Suc j) n b (s\<lparr>hd_waits := Suc (hd_waits s)\<rparr>)"
      by (simp add: hd_wait_bits_def c)
    then show ?thesis using Suc.IH [of "Suc j" b "s\<lparr>hd_waits := Suc (hd_waits s)\<rparr>"] by auto
  qed
qed

lemma hd_read_frame: "\<exists>w. snd (snd (hd_read_sectors lba n buf s)) = s\<lparr>hd_waits := w\<rparr>"
proof -
  have "\<exists>w. snd (snd (hd_read_loop cmd 0 n buf (s\<lparr>hd_waits := v\<rparr>))) = s\<lparr>hd_waits := w\<rparr>" for cmd v
    using hd_read_loop_frame [of cmd 0 n buf "s\<lparr>hd_waits := v\<rparr>"] by auto
  then show ?thesis by (auto simp: hd_read_sectors_def hd_busy_def hd_out_def hd_wait_bits_def Let_def)
qed

subsection \<open>Pages are only taken away\<close>

text \<open>Two entries that differ at most in the accessed bit.\<close>

definition same_entry :: "u32 \<Rightarrow> u32 \<Rightarrow> bool" where
  "same_entry v w \<longleftrightarrow> v AND NOT PTE_ACCESSED = w AND NOT PTE_ACCESSED"

lemma same_entry_bits:
  assumes "same_entry v w"
  shows "v AND PTE_PRESENT = w AND PTE_PRESENT" "v AND PTE_RW = w AND PTE_RW" "v AND PTE_COW = w AND PTE_COW"
    "v AND PTE_USER = w AND PTE_USER" "pte_frame v = pte_frame w" "unat v div PAGE_SIZE = unat w div PAGE_SIZE"
proof -
  have m: "v AND m = w AND m" if "NOT PTE_ACCESSED AND m = m" for m
  proof -
    have "v AND (NOT PTE_ACCESSED AND m) = w AND (NOT PTE_ACCESSED AND m)" using assms unfolding same_entry_def and.assoc [symmetric] by simp
    then show ?thesis unfolding that .
  qed
  show p: "v AND PTE_PRESENT = w AND PTE_PRESENT" "v AND PTE_RW = w AND PTE_RW" "v AND PTE_COW = w AND PTE_COW"
    "v AND PTE_USER = w AND PTE_USER" by (rule m, simp add: pte_consts)+
  have "v AND PT_MASK = w AND PT_MASK" by (rule m) (simp add: pte_consts)
  then show f: "unat v div PAGE_SIZE = unat w div PAGE_SIZE" by (metis fr_mask)
  then show "pte_frame v = pte_frame w" using p by (simp add: pte_frame_def)
qed

lemma same_entry_clear: "same_entry (v AND NOT PTE_ACCESSED) v"
  by (simp add: same_entry_def)

definition cow_frame :: "world \<Rightarrow> 'z mem_state_scheme \<Rightarrow> nat \<Rightarrow> bool" where
  "cow_frame W s f \<longleftrightarrow> (\<exists>d\<in>fst W. \<exists>i<1024. pte s d i AND PTE_COW \<noteq> 0 \<and> pte_frame (pte s d i) = Some f)"

lemma cow_frame_held: "cow_frame W s f \<Longrightarrow> holders W (frame_of s) f \<noteq> {}"
proof -
  assume "cow_frame W s f"
  then obtain d i where "d \<in> fst W" "i < 1024" "pte_frame (pte s d i) = Some f" by (auto simp: cow_frame_def)
  then have "Page d i \<in> holders W (frame_of s) f" by (simp add: holders_def frame_of_Page del: frame_of.simps)
  then show ?thesis by blast
qed

text \<open>
  From \<open>s\<close> to \<open>s'\<close> entries were at most cleared; where a shared entry was, its reference is left over. The frames that are
  still in use, or spoken for, keep their contents.
\<close>

definition reclaims :: "world \<Rightarrow> 'z mem_state_scheme \<Rightarrow> 'z mem_state_scheme \<Rightarrow> bool" where
  "reclaims W s s' \<longleftrightarrow> mm_inv W s' \<and> max_map_nr s' = max_map_nr s \<and> task s' = task s \<and> tstruct s' = tstruct s \<and> current s' = current s \<and>
     (\<forall>d\<in>fst W. pde s' d = pde s d \<and> (\<forall>i<1024. same_entry (pte s' d i) (pte s d i) \<or>
        pte s' d i AND PTE_PRESENT = 0 \<and> (\<forall>f. pte s d i AND PTE_COW \<noteq> 0 \<and> pte_frame (pte s d i) = Some f \<longrightarrow> spare W s' f 1))) \<and>
     (\<forall>f k. 256 \<le> f \<and> spare W s f k \<longrightarrow> spare W s' f k) \<and>
     (\<forall>f. \<not> table_frame W s f \<and> (holders W (frame_of s') f \<noteq> {} \<or> 256 \<le> f \<and> spare W s f 1 \<or> cow_frame W s f) \<longrightarrow> ram s' f = ram s f)"

lemma reclaimsD:
  assumes "reclaims W s s'"
  shows "mm_inv W s'" "max_map_nr s' = max_map_nr s" "task s' = task s" "tstruct s' = tstruct s" "current s' = current s"
    "d \<in> fst W \<Longrightarrow> pde s' d = pde s d" "256 \<le> f \<Longrightarrow> spare W s f k \<Longrightarrow> spare W s' f k"
    "\<not> table_frame W s f \<Longrightarrow> holders W (frame_of s') f \<noteq> {} \<or> 256 \<le> f \<and> spare W s f 1 \<or> cow_frame W s f \<Longrightarrow> ram s' f = ram s f"
    "d \<in> fst W \<Longrightarrow> i < 1024 \<Longrightarrow> same_entry (pte s' d i) (pte s d i) \<or>
        pte s' d i AND PTE_PRESENT = 0 \<and> (\<forall>f. pte s d i AND PTE_COW \<noteq> 0 \<and> pte_frame (pte s d i) = Some f \<longrightarrow> spare W s' f 1)"
  using assms by (simp_all add: reclaims_def)

lemma reclaims_refl: "mm_inv W s \<Longrightarrow> reclaims W s s"
  by (simp add: reclaims_def same_entry_def)

lemma table_frame_cong: "\<forall>d\<in>fst W. pde s' d = pde s d \<Longrightarrow> table_frame W s' = table_frame W s"
  by (auto simp: table_frame_def tabf_def fun_eq_iff)

lemma reclaims_holders:
  assumes "reclaims W s s'"
  shows "holders W (frame_of s') f \<subseteq> holders W (frame_of s) f"
proof
  fix u assume "u \<in> holders W (frame_of s') f"
  then have u: "u \<in> uses W" "frame_of s' u = Some f" by (auto simp: holders_def)
  have "frame_of s u = Some f"
  proof (cases u)
    case (Page d i)
    then have d: "d \<in> fst W" "i < 1024" "pte_frame (pte s' d i) = Some f" using u by (auto simp: frame_of_Page simp del: frame_of.simps(3))
    then have "pte s' d i AND PTE_PRESENT \<noteq> 0" by (auto simp: pte_frame_def split: if_splits)
    then have "same_entry (pte s' d i) (pte s d i)" using reclaimsD(9) [OF assms d(1,2)] by blast
    then show ?thesis using d(3) Page by (simp add: same_entry_bits(5) frame_of_Page del: frame_of.simps)
  qed (use u reclaimsD(6) [OF assms] in \<open>auto simp: tabf_def\<close>)
  with u(1) show "u \<in> holders W (frame_of s) f" by (simp add: holders_def)
qed

lemma cow_frame_reclaims:
  assumes "mm_inv W s" "reclaims W s t" "cow_frame W s f"
  shows "256 \<le> f \<and> spare W t f 1 \<or> cow_frame W t f"
proof -
  obtain d i where d: "d \<in> fst W" "i < 1024" "pte s d i AND PTE_COW \<noteq> 0" "pte_frame (pte s d i) = Some f"
    using assms(3) by (auto simp: cow_frame_def)
  have f: "256 \<le> f" using mm_frame_range [OF assms(1), of "Page d i" f] d by (simp add: frame_of_Page del: frame_of.simps)
  from reclaimsD(9) [OF assms(2) d(1,2)] show ?thesis
  proof
    assume e: "same_entry (pte t d i) (pte s d i)"
    then have "cow_frame W t f" unfolding cow_frame_def using d same_entry_bits(3,5) [OF e] by (intro bexI [of _ d] exI [of _ i]) auto
    then show ?thesis ..
  qed (use d f in blast)
qed

lemma reclaims_trans:
  assumes a: "mm_inv W s" "reclaims W s t" and b: "reclaims W t u"
  shows "reclaims W s u"
  unfolding reclaims_def
proof (intro conjI ballI allI impI)
  note A = reclaimsD [OF a(2)] and B = reclaimsD [OF b]
  show "mm_inv W u" "max_map_nr u = max_map_nr s" "task u = task s" "tstruct u = tstruct s" "current u = current s"
    using A B by simp_all
  show "pde u d = pde s d" if "d \<in> fst W" for d using A(6) B(6) that by simp
  show "spare W u f k" if "256 \<le> f \<and> spare W s f k" for f k using A(7) B(7) that by blast
  show "ram u f = ram s f" if f: "\<not> table_frame W s f \<and> (holders W (frame_of u) f \<noteq> {} \<or> 256 \<le> f \<and> spare W s f 1 \<or> cow_frame W s f)" for f
  proof -
    have "\<not> table_frame W t f" using f table_frame_cong [of W t s] A(6) by simp
    moreover have "holders W (frame_of u) f \<noteq> {} \<or> 256 \<le> f \<and> spare W t f 1 \<or> cow_frame W t f"
      using f A(7) cow_frame_reclaims [OF a] by blast
    moreover have "holders W (frame_of t) f \<noteq> {} \<or> 256 \<le> f \<and> spare W s f 1 \<or> cow_frame W s f" using f reclaims_holders [OF b, of f] by blast
    ultimately show ?thesis using A(8) [of f] B(8) [of f] f by simp
  qed
  fix d i assume d: "d \<in> fst W" "i < (1024 :: nat)"
  have keep: "spare W u f 1" if "pte_frame (pte s d i) = Some f" "spare W t f 1" for f
    using mm_frame_range [OF a(1), of "Page d i" f] B(7) d that by (simp add: frame_of_Page del: frame_of.simps)
  from A(9) [OF d] show "same_entry (pte u d i) (pte s d i) \<or>
        pte u d i AND PTE_PRESENT = 0 \<and> (\<forall>f. pte s d i AND PTE_COW \<noteq> 0 \<and> pte_frame (pte s d i) = Some f \<longrightarrow> spare W u f 1)"
  proof
    assume e: "same_entry (pte t d i) (pte s d i)"
    show ?thesis using B(9) [OF d]
    proof
      assume "same_entry (pte u d i) (pte t d i)"
      then show ?thesis using e by (simp add: same_entry_def)
    next
      assume "pte u d i AND PTE_PRESENT = 0 \<and> (\<forall>f. pte t d i AND PTE_COW \<noteq> 0 \<and> pte_frame (pte t d i) = Some f \<longrightarrow> spare W u f 1)"
      then show ?thesis unfolding same_entry_bits(3,5) [OF e] ..
    qed
  next
    assume t: "pte t d i AND PTE_PRESENT = 0 \<and> (\<forall>f. pte s d i AND PTE_COW \<noteq> 0 \<and> pte_frame (pte s d i) = Some f \<longrightarrow> spare W t f 1)"
    then have "pte u d i AND PTE_PRESENT = 0" using B(9) [OF d] same_entry_bits(1) [of "pte u d i" "pte t d i"] by argo
    then show ?thesis using t keep by blast
  qed
qed

text \<open>Changes outside the tables and the page map do not count.\<close>

lemma reclaims_outside:
  assumes "mm_inv W s" "ram s' = ram s" "mem_map s' = mem_map s" "max_map_nr s' = max_map_nr s"
    "task s' = task s" "tstruct s' = tstruct s" "current s' = current s"
  shows "reclaims W s s'"
proof -
  have t: "\<forall>f. table_frame W s f \<longrightarrow> ram s' f = ram s f" using assms(2) by simp
  note p = tables_same [OF t]
  have "\<forall>d\<in>fst W. pde s' d = pde s d \<and> (\<forall>i<1024. pte s' d i = pte s d i)" using p by simp
  note c = mm_inv_cong [OF assms(1) this assms(3,4)]
  show ?thesis unfolding reclaims_def using c p assms by (simp add: same_entry_def)
qed

text \<open>Writing an entry touches no memory but its table.\<close>

lemma ram_set_pte: "i < 1024 \<Longrightarrow> f \<noteq> tabf s d \<Longrightarrow> ram (set_ram32 (pte_at s d i) v s) f = ram s f"
  by (simp add: set_ram32_slot tabf_def)

lemma reclaims_set:
  assumes inv: "mm_inv W s" and d: "d \<in> fst W" "i < 1024" and m: "mm_inv W (set_ram32 (pte_at s d i) v s)"
    and e: "same_entry v (pte s d i) \<or> v AND PTE_PRESENT = 0 \<and>
      (\<forall>f. pte s d i AND PTE_COW \<noteq> 0 \<and> pte_frame (pte s d i) = Some f \<longrightarrow> spare W (set_ram32 (pte_at s d i) v s) f 1)"
    and sp: "\<And>f k. 256 \<le> f \<Longrightarrow> spare W s f k \<Longrightarrow> spare W (set_ram32 (pte_at s d i) v s) f k"
  shows "reclaims W s (set_ram32 (pte_at s d i) v s)"
  unfolding reclaims_def
proof (intro conjI ballI allI impI m)
  define t where "t = set_ram32 (pte_at s d i) v s"
  have p: "b \<in> fst W \<Longrightarrow> pde t b = pde s b" "b \<in> fst W \<Longrightarrow> pte t b j = (if b = d \<and> j = i then v else pte s b j)" for b j
    unfolding t_def by (rule set_pte [OF inv d], assumption)+
  show "pde (set_ram32 (pte_at s d i) v s) b = pde s b" if "b \<in> fst W" for b using p(1) [OF that] by (simp only: t_def)
  fix b j assume b: "b \<in> fst W" "j < (1024 :: nat)"
  have "same_entry (pte t b j) (pte s b j) \<or>
    pte t b j AND PTE_PRESENT = 0 \<and> (\<forall>f. pte s b j AND PTE_COW \<noteq> 0 \<and> pte_frame (pte s b j) = Some f \<longrightarrow> spare W t f 1)"
    using e p(2) [OF b(1)] by (cases "b = d \<and> j = i") (auto simp: t_def same_entry_def)
  then show "same_entry (pte (set_ram32 (pte_at s d i) v s) b j) (pte s b j) \<or>
    pte (set_ram32 (pte_at s d i) v s) b j AND PTE_PRESENT = 0 \<and>
    (\<forall>f. pte s b j AND PTE_COW \<noteq> 0 \<and> pte_frame (pte s b j) = Some f \<longrightarrow> spare W (set_ram32 (pte_at s d i) v s) f 1)"
    by (simp only: t_def)
next
  fix f assume "\<not> table_frame W s f \<and> (holders W (frame_of (set_ram32 (pte_at s d i) v s)) f \<noteq> {} \<or> 256 \<le> f \<and> spare W s f 1 \<or> cow_frame W s f)"
  then have "f \<noteq> tabf s d" using d(1) by (auto simp: table_frame_def)
  then show "ram (set_ram32 (pte_at s d i) v s) f = ram s f" by (rule ram_set_pte [OF d(2)])
qed (use sp in auto)

lemma reclaims_accessed:
  assumes inv: "mm_inv W s" and d: "d \<in> fst W" "i < 1024" and e: "same_entry v (pte s d i)"
  shows "reclaims W s (set_ram32 (pte_at s d i) v s)"
proof -
  have f: "(frame_of s)(Page d i := pte_frame v) = frame_of s"
    using same_entry_bits(5) [OF e] by (intro fun_upd_idem) (simp add: frame_of_Page del: frame_of.simps)
  have x: "(\<lambda>u. if u = Page d i then v AND PTE_RW \<noteq> 0 else exclusive s u) = exclusive s"
    using same_entry_bits(2) [OF e] by (auto simp: fun_eq_iff)
  have sep: "sep W ((frame_of s)(Page d i := pte_frame v)) (\<lambda>u. if u = Page d i then v AND PTE_RW \<noteq> 0 else exclusive s u) (mem_map s) (max_map_nr s)"
    unfolding f x by (rule mm_invD(1) [OF inv])
  show ?thesis using mm_inv_set [OF inv d sep] e unfolding f by (intro reclaims_set [OF inv d]) simp_all
qed

lemma reclaims_unmap:
  assumes inv: "mm_inv W s" and d: "d \<in> fst W" "i < 1024" and v: "v AND PTE_PRESENT = 0"
  shows "reclaims W s (set_ram32 (pte_at s d i) v s)"
proof (rule reclaims_set [OF inv d])
  note u = unmap_pte [OF inv d v]
  have "spare W (set_ram32 (pte_at s d i) v s) f 1" if "pte_frame (pte s d i) = Some f" for f
    using u(3) [of f 0] mm_spare [OF inv, of "Page d i" f] d that by (simp add: frame_of_Page del: frame_of.simps)
  then show "same_entry v (pte s d i) \<or> v AND PTE_PRESENT = 0 \<and>
      (\<forall>f. pte s d i AND PTE_COW \<noteq> 0 \<and> pte_frame (pte s d i) = Some f \<longrightarrow> spare W (set_ram32 (pte_at s d i) v s) f 1)" using v by blast
qed (rule unmap_pte [OF inv d v], assumption?)+

lemma free_page_fields [simp]: "max_map_nr (free_page pa s) = max_map_nr s" "task (free_page pa s) = task s"
  "tstruct (free_page pa s) = tstruct s" "current (free_page pa s) = current s" "ram (free_page pa s) = ram s"
  by (simp_all add: free_page_def Let_def)

text \<open>Taking a page that is mapped once, away from its space and back to the allocator.\<close>

lemma unmap_free:
  assumes inv: "mm_inv W s" and d: "d \<in> fst W" "i < 1024" and v: "v AND PTE_PRESENT = 0" and p: "pte_frame (pte s d i) = Some (fr pa)" "page_aligned pa"
  shows "mm_inv W (free_page pa (set_ram32 (pte_at s d i) v s))"
    "256 \<le> g \<Longrightarrow> spare W s g k \<Longrightarrow> spare W (free_page pa (set_ram32 (pte_at s d i) v s)) g k"
proof -
  define t where "t = set_ram32 (pte_at s d i) v s"
  have fo: "frame_of s (Page d i) = Some (fr pa)" using p(1) by (simp add: frame_of_Page del: frame_of.simps)
  then have r: "256 \<le> fr pa" using mm_frame_range [OF inv, of "Page d i"] d by simp
  have t: "mm_inv W t" "spare W s f k \<Longrightarrow> spare W t f k" "spare W s (fr pa) k \<Longrightarrow> spare W t (fr pa) (Suc k)" for f k
    unfolding t_def using unmap_pte [OF inv d v] fo by blast+
  have one: "spare W t (fr pa) 1" using t(3) [of 0] mm_spare [OF inv _ fo] d by simp
  note fp = free_page_inv [OF t(1) p(2) r one]
  show "mm_inv W (free_page pa (set_ram32 (pte_at s d i) v s))" using fp(1) by (simp only: t_def)
  show "spare W (free_page pa (set_ram32 (pte_at s d i) v s)) g k" if "256 \<le> g" "spare W s g k"
    using fp(2) [of g k] fp(3) [of k] t(2,3) that unfolding t_def by (cases "g = fr pa") auto
qed

lemma reclaims_evict:
  assumes inv: "mm_inv W s" and d: "d \<in> fst W" "i < 1024" and v: "v AND PTE_PRESENT = 0"
    and p: "pte s d i AND PTE_PRESENT \<noteq> 0" "pte s d i AND PTE_COW = 0"
  shows "reclaims W s (evict_page (pte_at s d i) v (pte s d i AND PT_MASK) n s)"
proof -
  define t where "t = set_ram32 (pte_at s d i) v s"
  define u where "u = free_page (pte s d i AND PT_MASK) t"
  have f: "pte_frame (pte s d i) = Some (fr (pte s d i AND PT_MASK))" using p(1) by (simp add: pte_frame_def)
  note uf = unmap_free [OF inv d v f page_aligned_mask, folded t_def, folded u_def]
  have "256 \<le> fr (pte s d i AND PT_MASK)"
    using mm_frame_range [OF inv, of "Page d i"] d f by (simp add: frame_of_Page del: frame_of.simps)
  then have tu: "pde u = pde t" "pte u = pte t"
    unfolding u_def by (rule free_page_cases [OF page_aligned_mask, of "pte s d i" t]; simp add: mm_inv_counts)+
  have R: "reclaims W s t" unfolding t_def by (rule reclaims_unmap [OF inv d v])
  have st: "b \<in> fst W \<Longrightarrow> pte t b j = (if b = d \<and> j = i then v else pte s b j)" for b j
    unfolding t_def by (rule set_pte [OF inv d], assumption)
  have "reclaims W s u" unfolding reclaims_def
  proof (intro conjI ballI allI impI)
    show "mm_inv W u" "max_map_nr u = max_map_nr s" "task u = task s" "tstruct u = tstruct s" "current u = current s"
      using uf(1) by (simp_all add: u_def t_def)
    show "pde u b = pde s b" if "b \<in> fst W" for b using reclaimsD(6) [OF R that] tu by simp
    show "ram u f = ram s f" if "\<not> table_frame W s f \<and> (holders W (frame_of u) f \<noteq> {} \<or> 256 \<le> f \<and> spare W s f 1 \<or> cow_frame W s f)" for f
    proof -
      have "f \<noteq> tabf s d" using that d(1) by (auto simp: table_frame_def)
      then show ?thesis using ram_set_pte [OF d(2)] by (simp add: u_def t_def)
    qed
    show "spare W u g k" if "256 \<le> g \<and> spare W s g k" for g k using uf(2) that by blast
    fix b j assume b: "b \<in> fst W" "j < (1024 :: nat)"
    show "same_entry (pte u b j) (pte s b j) \<or> pte u b j AND PTE_PRESENT = 0 \<and>
      (\<forall>f. pte s b j AND PTE_COW \<noteq> 0 \<and> pte_frame (pte s b j) = Some f \<longrightarrow> spare W u f 1)"
      unfolding tu st [OF b(1)] using v p(2) by (cases "b = d \<and> j = i") (auto simp: same_entry_def)
  qed
  moreover have "reclaims W u (evict_page (pte_at s d i) v (pte s d i AND PT_MASK) n s)"
    by (rule reclaims_outside [OF uf(1)]) (simp_all add: evict_page_def Let_def u_def t_def)
  ultimately show ?thesis by (rule reclaims_trans [OF inv])
qed

lemma swap_out_frame:
  "ram (snd (swap_out_page pa s)) = ram s" "mem_map (snd (swap_out_page pa s)) = mem_map s"
  "max_map_nr (snd (swap_out_page pa s)) = max_map_nr s" "task (snd (swap_out_page pa s)) = task s"
  "tstruct (snd (swap_out_page pa s)) = tstruct s" "current (snd (swap_out_page pa s)) = current s"
proof -
  have h: "\<exists>w S. snd (hd_write_sectors lba n buf t) = t\<lparr>hd_sectors := S, hd_waits := w\<rparr>" for lba n buf and t :: "'a mem_state_scheme"
    by (rule hd_write_frame)
  obtain slot t where a: "swap_alloc_slot s = (slot, t)" by fastforce
  then have t: "ram t = ram s" "mem_map t = mem_map s" "max_map_nr t = max_map_nr s" "task t = task s" "tstruct t = tstruct s" "current t = current s"
    by (auto simp: swap_alloc_slot_def split: option.splits)
  obtain r u where w: "hd_write_sectors (SWAP_START_LBA + nat slot * SWAP_SLOT_SECTORS) SWAP_SLOT_SECTORS (ram s (fr pa)) t = (r, u)" by fastforce
  then obtain x S where u: "u = t\<lparr>hd_sectors := S, hd_waits := x\<rparr>" using h by (metis snd_conv)
  show "ram (snd (swap_out_page pa s)) = ram s" "mem_map (snd (swap_out_page pa s)) = mem_map s"
    "max_map_nr (snd (swap_out_page pa s)) = max_map_nr s" "task (snd (swap_out_page pa s)) = task s"
    "tstruct (snd (swap_out_page pa s)) = tstruct s" "current (snd (swap_out_page pa s)) = current s"
    by (simp_all add: swap_out_page_def a w u t swap_free_slot_def)
qed

subsection \<open>The eviction scan\<close>

text \<open>The address spaces of the task table are among those of the world.\<close>

definition tasks_in :: "world \<Rightarrow> 'z task_state_scheme \<Rightarrow> bool" where
  "tasks_in W s \<longleftrightarrow> (\<forall>i<NR_TASKS. task s i \<noteq> 0 \<and> t_pg_dir (tstruct s (task s i)) \<noteq> 0 \<and>
     t_pg_dir (tstruct s (task s i)) \<noteq> PAGE_DIRECTORY \<longrightarrow> t_pg_dir (tstruct s (task s i)) \<in> fst W)"

definition fb_ok :: "world \<Rightarrow> 'z mem_state_scheme \<Rightarrow> fallback \<Rightarrow> bool" where
  "fb_ok W s fb \<longleftrightarrow> (\<forall>a pa t. fb = Some (a, pa, t) \<longrightarrow> (\<exists>d\<in>fst W. \<exists>i<1024. a = pte_at s d i))"

definition evict_ok :: "world \<Rightarrow> 'z mem_state_scheme \<Rightarrow> 'z mem_state_scheme evict \<Rightarrow> bool" where
  "evict_ok W s r = (case r of Found _ s' \<Rightarrow> reclaims W s s' | Scan fb s' \<Rightarrow> reclaims W s s' \<and> fb_ok W s' fb)"

lemma evict_ok_simps [simp]: "evict_ok W s (Found r s') \<longleftrightarrow> reclaims W s s'" "evict_ok W s (Scan fb s') \<longleftrightarrow> reclaims W s s' \<and> fb_ok W s' fb"
  by (simp_all add: evict_ok_def)

lemma fb_ok_reclaims: "fb_ok W s fb \<Longrightarrow> reclaims W s s' \<Longrightarrow> fb_ok W s' fb"
  unfolding fb_ok_def by (metis reclaimsD(6))

lemma evict_loop_ok:
  assumes body: "\<And>j fb t. i \<le> j \<Longrightarrow> j < i + k \<Longrightarrow> reclaims W s t \<Longrightarrow> fb_ok W t fb \<Longrightarrow> evict_ok W t (body j fb t)"
    and inv: "mm_inv W s" and t: "reclaims W s t" "fb_ok W t fb"
  shows "evict_ok W s (evict_loop i k body fb t)"
  using body t
proof (induction k arbitrary: i fb t)
  case 0
  then show ?case by simp
next
  case (Suc k)
  have b: "evict_ok W t (body i fb t)" using Suc.prems by simp
  show ?case
  proof (cases "body i fb t")
    case (Found r u)
    then show ?thesis using b reclaims_trans [OF inv Suc.prems(2)] by simp
  next
    case (Scan fb' u)
    then have "reclaims W s u" "fb_ok W u fb'" using b reclaims_trans [OF inv Suc.prems(2)] by simp_all
    with Scan show ?thesis using Suc.IH [of "Suc i" u fb'] Suc.prems(1) by simp
  qed
qed

lemma swapped_absent: "(PTE_SWAPPED OR push_bit 12 x) AND PTE_PRESENT = 0"
  by (rule bit_word_eqI) (auto simp: pte_consts bit_simps bit_numeral_rec split: nat.splits)

lemma evict_pte_ok:
  assumes inv: "mm_inv W s" and d: "d \<in> fst W" "i < 1024" and fb: "fb_ok W s fb"
  shows "evict_ok W s (evict_pte round pass n idx t (pde s d AND PT_MASK) i fb s)"
proof -
  define p where "p = pte s d i"
  have p: "ram32 s (pte_at s d i) = p" unfolding p_def by (rule pte_at_read [OF d(2)])
  have refl: "reclaims W s s" by (rule reclaims_refl [OF inv])
  have acc: "reclaims W s (set_ram32 (pte_at s d i) (p AND NOT PTE_ACCESSED) s)"
    unfolding p_def by (rule reclaims_accessed [OF inv d same_entry_clear])
  have fb': "fb_ok W s (Some (pte_at s d i, p AND PT_MASK, t))" using d by (auto simp: fb_ok_def)
  have zero: "reclaims W s (evict_page (pte_at s d i) 0 (p AND PT_MASK) n s)" if "p AND PTE_PRESENT \<noteq> 0" "p AND PTE_COW = 0"
    using that unfolding p_def by (intro reclaims_evict [OF inv d]) auto
  obtain slot u where w: "swap_out_page (p AND PT_MASK) s = (slot, u)" by fastforce
  have ru: "reclaims W s u" using reclaims_outside [OF inv swap_out_frame] w by (metis snd_conv)
  have pu: "pde u d = pde s d" "pte u d i = p"
    using tables_same [of W s u d] swap_out_frame(1) [of "p AND PT_MASK" s] w d by (auto simp: p_def)
  have swap: "reclaims W s (evict_page (pte_at s d i) (PTE_SWAPPED OR push_bit 12 x) (p AND PT_MASK) n u)"
    if "p AND PTE_PRESENT \<noteq> 0" "p AND PTE_COW = 0" for x
    using reclaims_evict [OF reclaimsD(1) [OF ru] d swapped_absent, of x n] that reclaims_trans [OF inv ru] unfolding pu by blast
  have free: "reclaims W s (swap_free_slot slot u)"
    by (rule reclaims_trans [OF inv ru reclaims_outside [OF reclaimsD(1) [OF ru]]]) (simp_all add: swap_free_slot_def)
  show ?thesis unfolding evict_pte_def Let_def p
    using refl fb acc fb' zero swap free ru fb_ok_reclaims [OF fb ru] fb_ok_reclaims [OF fb acc] by (auto simp: w)
qed

lemma evict_task_ok:
  assumes inv: "mm_inv W s" and tasks: "tasks_in W s" and fb: "fb_ok W s fb"
  shows "evict_ok W s (evict_task round pass n fb s)"
proof -
  define idx where "idx = unat ((evict_cursor s + of_nat n) mod of_nat NR_TASKS)"
  define d where "d = t_pg_dir (tstruct s (task s idx))"
  have idx: "idx < NR_TASKS" by (simp add: idx_def NR_TASKS_def unat_mod)
  show ?thesis
  proof (cases "task s idx = 0 \<or> d = 0 \<or> d = PAGE_DIRECTORY")
    case True
    then show ?thesis using fb reclaims_refl [OF inv] by (auto simp: evict_task_def Let_def idx_def d_def)
  next
    case False
    then have d: "d \<in> fst W" using tasks idx by (auto simp: tasks_in_def d_def)
    have "evict_task round pass n fb s = evict_loop 0 1024 (evict_pte round pass n idx (task s idx) (pde s d AND PT_MASK)) fb s"
      using False user_pt_in [OF inv d] by (simp add: evict_task_def Let_def idx_def d_def)
    moreover have "evict_ok W s (evict_loop 0 1024 (evict_pte round pass n idx (task s idx) (pde s d AND PT_MASK)) fb s)"
    proof (rule evict_loop_ok [OF _ inv reclaims_refl [OF inv] fb])
      fix j fb t assume a: "j < 0 + (1024 :: nat)" "reclaims W s t" "fb_ok W t fb"
      then show "evict_ok W t (evict_pte round pass n idx (task s idx) (pde s d AND PT_MASK) j fb t)"
        using evict_pte_ok [OF reclaimsD(1) [OF a(2)] d, of j fb] reclaimsD(6) [OF a(2) d] by simp
    qed
    ultimately show ?thesis by simp
  qed
qed

lemma tasks_in_reclaims: "tasks_in W s \<Longrightarrow> reclaims W s t \<Longrightarrow> tasks_in W t"
  by (simp add: tasks_in_def reclaimsD(3,4))

lemma try_to_free_page_reclaims:
  assumes inv: "mm_inv W s" and tasks: "tasks_in W s"
  shows "reclaims W s (snd (try_to_free_page s))"
proof -
  have 1: "evict_ok W t (evict_loop 0 NR_TASKS (evict_task round pass) fb t)" if "mm_inv W t" "tasks_in W t" "fb_ok W t fb" for round pass fb t
    by (rule evict_loop_ok [OF _ that(1) reclaims_refl [OF that(1)] that(3)]) (use that evict_task_ok reclaimsD(1) tasks_in_reclaims in blast)
  have 2: "evict_ok W t (evict_loop 0 3 (\<lambda>pass. evict_loop 0 NR_TASKS (evict_task round pass)) fb t)" if "mm_inv W t" "tasks_in W t" "fb_ok W t fb" for round fb t
    by (rule evict_loop_ok [OF _ that(1) reclaims_refl [OF that(1)] that(3)]) (use that 1 reclaimsD(1) tasks_in_reclaims in blast)
  have fb: "fb_ok W s None" by (simp add: fb_ok_def)
  have 3: "evict_ok W s (evict_loop 0 2 (\<lambda>round. evict_loop 0 3 (\<lambda>pass. evict_loop 0 NR_TASKS (evict_task round pass))) None s)"
    by (rule evict_loop_ok [OF _ inv reclaims_refl [OF inv] fb]) (use assms 2 reclaimsD(1) tasks_in_reclaims in blast)
  show ?thesis
  proof (cases "evict_loop 0 2 (\<lambda>round. evict_loop 0 3 (\<lambda>pass. evict_loop 0 NR_TASKS (evict_task round pass))) None s")
    case (Found r t)
    then show ?thesis using 3 by (simp add: try_to_free_page_def)
  next
    case (Scan fb t)
    then have t: "reclaims W s t" "fb_ok W t fb" using 3 by simp_all
    show ?thesis
    proof (cases fb)
      case None
      then show ?thesis using Scan t by (simp add: try_to_free_page_def)
    next
      case (Some e)
      obtain a pa q where e: "e = (a, pa, q)" by (cases e)
      obtain d i where d: "d \<in> fst W" "i < 1024" "a = pte_at t d i" using t(2) Some e by (auto simp: fb_ok_def)
      have r: "reclaims W t (set_ram32 a 0 t)" unfolding d(3) by (rule reclaims_unmap [OF reclaimsD(1) [OF t(1)] d(1,2)]) simp
      have "reclaims W (set_ram32 a 0 t) ((set_ram32 a 0 t)\<lparr>nr_unmapped := nr_unmapped t + 1\<rparr>)"
        by (rule reclaims_outside [OF reclaimsD(1) [OF r]]) simp_all
      then have "reclaims W s ((set_ram32 a 0 t)\<lparr>nr_unmapped := nr_unmapped t + 1\<rparr>)"
        using reclaims_trans [OF inv t(1) reclaims_trans [OF reclaimsD(1) [OF t(1)] r]] by blast
      then show ?thesis using Scan Some e by (simp add: try_to_free_page_def)
    qed
  qed
qed

subsection \<open>A page for the asking\<close>

text \<open>A page nobody uses, all zero, with the caller's reference on it.\<close>

definition fresh :: "world \<Rightarrow> 'z mem_state_scheme \<Rightarrow> u32 \<Rightarrow> bool" where
  "fresh W s pa \<longleftrightarrow> page_aligned pa \<and> 256 \<le> fr pa \<and> fr pa < 256 + max_map_nr s \<and> holders W (frame_of s) (fr pa) = {} \<and>
     spare W s (fr pa) 1 \<and> ram s (fr pa) = (\<lambda>_. 0)"

lemma take_page_fresh:
  assumes inv: "mm_inv W s" and i: "i < max_map_nr s" "mem_map s i = 0" and t: "take_page i s = (pa, t)"
  shows "reclaims W s t" "fresh W t pa" "d \<in> fst W \<Longrightarrow> pte t d k = pte s d k"
proof -
  have n: "LOW_MEM + i * PAGE_SIZE < 2 ^ 32" using mm_invD(2) [OF inv] i(1) by (simp add: LOW_MEM_def PAGE_SIZE_def)
  have pa: "pa = of_nat (LOW_MEM + i * PAGE_SIZE)" and
    t: "t = s\<lparr>mem_map := (mem_map s)(i := 1), ram := (ram s)((LOW_MEM + i * PAGE_SIZE) div PAGE_SIZE := (\<lambda>_. 0))\<rparr>"
    using t by (simp_all add: take_page_def)
  have "unat pa = LOW_MEM + i * PAGE_SIZE" unfolding pa unat_of_nat using n by (simp del: of_nat_add of_nat_mult)
  then have f: "fr pa = 256 + i" "page_aligned pa" "(LOW_MEM + i * PAGE_SIZE) div PAGE_SIZE = 256 + i"
    unfolding page_aligned_unat by (simp_all add: LOW_MEM_def PAGE_SIZE_def)
  have r: "256 \<le> 256 + i" "256 + i < 256 + max_map_nr s" "mem_map s (256 + i - 256) = 0" using i by simp_all
  note tk = sep_take [OF mm_invD(1) [OF inv] r, simplified]
  have nt: "\<not> table_frame W s (256 + i)" by (rule fresh_not_table [OF inv tk(2)])
  have ram: "ram t g = ram s g" if "g \<noteq> 256 + i" for g using that by (simp add: t f(3))
  have same: "\<forall>g. table_frame W s g \<longrightarrow> ram t g = ram s g" using ram nt by metis
  note p = tables_same [OF same]
  show "d \<in> fst W \<Longrightarrow> pte t d k = pte s d k" by (rule p(3))
  have "\<forall>d\<in>fst W. pde t d = pde s d \<and> (\<forall>j<1024. pte t d j = pte s d j)" using p by simp
  note fo = frame_of_cong [OF this]
  have sep: "sep W (frame_of t) (exclusive t) (mem_map t) (max_map_nr t)"
    using tk(1) sep_cong [of W "frame_of t" "frame_of s" "exclusive t" "exclusive s"] fo by (simp add: t)
  then have m: "mm_inv W t" using inv p by (simp add: mm_inv_def t)
  have sl: "spare W t = slack W (frame_of s) ((mem_map s)(i := 1))" using slack_cong [of W "frame_of t" "frame_of s" "mem_map t"] fo by (simp add: t)
  have h: "holders W (frame_of t) = holders W (frame_of s)" using fo by (intro holders_cong) simp
  show "fresh W t pa" unfolding fresh_def f(1) using f(2) i(1) tk(2,4) by (simp add: h sl) (simp add: t f(3))
  have ns: "\<not> spare W s (256 + i) 1" using i(2) by (simp add: slack_def USED_def)
  show "reclaims W s t" unfolding reclaims_def
  proof (intro conjI ballI allI impI m)
    show "max_map_nr t = max_map_nr s" "task t = task s" "tstruct t = tstruct s" "current t = current s" by (simp_all add: t)
    show "spare W t g k" if "256 \<le> g \<and> spare W s g k" for g k unfolding sl using tk(3) that by blast
    show "ram t g = ram s g" if "\<not> table_frame W s g \<and> (holders W (frame_of t) g \<noteq> {} \<or> 256 \<le> g \<and> spare W s g 1 \<or> cow_frame W s g)" for g
    proof -
      have "g \<noteq> 256 + i" using that ns tk(2) cow_frame_held [of W s g] unfolding h by blast
      then show ?thesis by (rule ram)
    qed
  qed (use p in \<open>simp_all add: same_entry_def\<close>)
qed

text \<open>A page is handed out in two moves: pages are reclaimed, then a free frame is taken.\<close>

definition gets :: "world \<Rightarrow> 'z mem_state_scheme \<Rightarrow> u32 \<Rightarrow> 'z mem_state_scheme \<Rightarrow> bool" where
  "gets W s pa t \<longleftrightarrow> (\<exists>u. reclaims W s u \<and>
     (pa = 0 \<and> t = u \<or> (\<exists>j. j < max_map_nr u \<and> mem_map u j = 0 \<and> take_page j u = (pa, t))))"

lemma reclaim_page_gets:
  assumes "mm_inv W s" "tasks_in W s" "reclaim_page k s = (pa, t)"
  shows "gets W s pa t"
  using assms
proof (induction k arbitrary: s)
  case 0
  then show ?case using reclaims_refl [OF 0(1)] by (auto simp: gets_def)
next
  case (Suc k)
  obtain r u where u: "try_to_free_page s = (r, u)" by fastforce
  have ru: "reclaims W s u" using try_to_free_page_reclaims [OF Suc.prems(1,2)] u by simp
  note inv = reclaimsD(1) [OF ru]
  show ?case
  proof (cases "r = 0")
    case True
    then show ?thesis using Suc.prems(3) u ru by (auto simp: gets_def)
  next
    case False
    show ?thesis
    proof (cases "scan (\<lambda>j. mem_map u j = 0) 0 (max_map_nr u)")
      case None
      then have "reclaim_page k u = (pa, t)" using Suc.prems(3) u False by simp
      then have "gets W u pa t" by (rule Suc.IH [OF inv tasks_in_reclaims [OF Suc.prems(2) ru]])
      then show ?thesis unfolding gets_def using reclaims_trans [OF Suc.prems(1) ru] by blast
    next
      case (Some j)
      then have "take_page j u = (pa, t)" using Suc.prems(3) u False by simp
      moreover have "j < max_map_nr u" "mem_map u j = 0" using scan_SomeD [OF Some] by auto
      ultimately show ?thesis using ru by (auto simp: gets_def)
    qed
  qed
qed

lemma get_free_page_gets:
  assumes "mm_inv W s" "tasks_in W s" "get_free_page s = (pa, t)"
  shows "gets W s pa t"
proof (cases "scan (\<lambda>i. mem_map s i = 0) 0 (max_map_nr s)")
  case None
  then show ?thesis using reclaim_page_gets [OF assms(1,2), of 32] assms(3) by (simp add: get_free_page_def)
next
  case (Some j)
  then have "take_page j s = (pa, t)" using assms(3) by (simp add: get_free_page_def)
  moreover have "j < max_map_nr s" "mem_map s j = 0" using scan_SomeD [OF Some] by auto
  ultimately show ?thesis using reclaims_refl [OF assms(1)] by (auto simp: gets_def)
qed

lemma gets_fresh:
  assumes inv: "mm_inv W s" and g: "gets W s pa t"
  shows "reclaims W s t" "pa \<noteq> 0 \<Longrightarrow> fresh W t pa" "pa \<noteq> 0 \<Longrightarrow> cow_frame W s f \<Longrightarrow> f \<noteq> fr pa"
    "pa \<noteq> 0 \<Longrightarrow> 256 \<le> f \<Longrightarrow> spare W s f 1 \<Longrightarrow> f \<noteq> fr pa"
proof -
  obtain u where u: "reclaims W s u" and c: "pa = 0 \<and> t = u \<or> (\<exists>j. j < max_map_nr u \<and> mem_map u j = 0 \<and> take_page j u = (pa, t))"
    using g by (auto simp: gets_def)
  note iu = reclaimsD(1) [OF u]
  show "reclaims W s t" using c u reclaims_trans [OF inv u] take_page_fresh(1) [OF iu] by blast
  show "pa \<noteq> 0 \<Longrightarrow> fresh W t pa" using c take_page_fresh(2) [OF iu] by blast
  assume "pa \<noteq> 0"
  then obtain j where j: "j < max_map_nr u" "mem_map u j = 0" "take_page j u = (pa, t)" using c by blast
  have pa: "fr pa = 256 + j"
  proof -
    have "LOW_MEM + j * PAGE_SIZE < 2 ^ 32" using mm_invD(2) [OF iu] j(1) by (simp add: LOW_MEM_def PAGE_SIZE_def)
    moreover have "pa = of_nat (LOW_MEM + j * PAGE_SIZE)" using j(3) by (simp add: take_page_def)
    ultimately have "unat pa = LOW_MEM + j * PAGE_SIZE" by (simp add: unat_of_nat del: of_nat_add of_nat_mult)
    then show ?thesis by (simp add: LOW_MEM_def PAGE_SIZE_def)
  qed
  have n: "\<not> spare W u (256 + j) 1" using j(2) by (simp add: slack_def USED_def)
  show "256 \<le> f \<Longrightarrow> spare W s f 1 \<Longrightarrow> f \<noteq> fr pa" using reclaimsD(7) [OF u] n pa by auto
  have "holders W (frame_of u) (256 + j) = {}" using sep_take(2) [OF mm_invD(1) [OF iu], of "256 + j"] j by simp
  then have "\<not> cow_frame W u (256 + j)" using cow_frame_held by blast
  then show "cow_frame W s f \<Longrightarrow> f \<noteq> fr pa" using cow_frame_reclaims [OF inv u, of f] n pa by auto
qed

lemmas get_free_page_fresh = gets_fresh [OF _ get_free_page_gets]

text \<open>A fresh page stays fresh while further pages are taken.\<close>

lemma fresh_reclaims:
  assumes "mm_inv W s" "fresh W s pa" "reclaims W s t"
  shows "fresh W t pa"
proof -
  have "\<not> table_frame W s (fr pa)" using fresh_not_table [OF assms(1)] assms(2) by (simp add: fresh_def)
  then have "ram t (fr pa) = ram s (fr pa)" using reclaimsD(8) [OF assms(3)] assms(2) by (simp add: fresh_def)
  then show ?thesis using assms(2) reclaims_holders [OF assms(3), of "fr pa"] reclaimsD(2,7) [OF assms(3)] by (auto simp: fresh_def)
qed

end
