(* ===== verification/Space_Ops.thy ===== *)
theory Space_Ops
  imports Reclaim
begin

text \<open>
  The operations on address spaces keep the frames apart: mapping a page of one's own, breaking and making shares,
  bringing pages back from swap, making and giving up an address space.
\<close>

subsection \<open>Mapping a page of one's own\<close>

text \<open>A page with the caller's reference that no address space uses; its contents do not matter.\<close>

definition owned :: "world \<Rightarrow> 'z mem_state_scheme \<Rightarrow> u32 \<Rightarrow> bool" where
  "owned W s pa \<longleftrightarrow> page_aligned pa \<and> 256 \<le> fr pa \<and> fr pa < 256 + max_map_nr s \<and> holders W (frame_of s) (fr pa) = {} \<and> spare W s (fr pa) 1"

lemma fresh_owned: "fresh W s pa \<Longrightarrow> owned W s pa"
  by (simp add: fresh_def owned_def)

lemma owned_unused: "owned W s pa \<Longrightarrow> u \<in> uses W \<Longrightarrow> frame_of s u \<noteq> Some (fr pa)"
  by (auto simp: owned_def holders_def)

lemma fill_owned:
  assumes inv: "mm_inv W s" and o: "owned W s pa"
    and s': "\<forall>f. f \<noteq> fr pa \<longrightarrow> ram s' f = ram s f" "mem_map s' = mem_map s" "max_map_nr s' = max_map_nr s"
  shows "mm_inv W s'" "owned W s' pa" "spare W s' = spare W s" "u \<in> uses W \<Longrightarrow> frame_of s' u = frame_of s u"
    "d \<in> fst W \<Longrightarrow> pde s' d = pde s d" "d \<in> fst W \<Longrightarrow> pte s' d i = pte s d i"
proof -
  have nt: "\<not> table_frame W s (fr pa)" using fresh_not_table [OF inv] o by (simp add: owned_def)
  have same: "\<forall>f. table_frame W s f \<longrightarrow> ram s' f = ram s f" using s'(1) nt by metis
  note p = tables_same [OF same]
  have "\<forall>d\<in>fst W. pde s' d = pde s d \<and> (\<forall>i<1024. pte s' d i = pte s d i)" using p by simp
  note c = mm_inv_cong [OF inv this s'(2,3)]
  show "mm_inv W s'" "spare W s' = spare W s" by (rule c)+
  show "u \<in> uses W \<Longrightarrow> frame_of s' u = frame_of s u" using c(3) by blast
  show "owned W s' pa" using o c(2) holders_cong [OF c(3)] s'(3) by (simp add: owned_def)
  show "d \<in> fst W \<Longrightarrow> pde s' d = pde s d" "d \<in> fst W \<Longrightarrow> pte s' d i = pte s d i" using p by simp_all
qed

lemma map_owned:
  assumes inv: "mm_inv W s" and o: "owned W s pa" and d: "d \<in> fst W" "i < 1024" and v: "pte_frame v = Some (fr pa)"
  shows "mm_inv W (set_ram32 (pte_at s d i) v s)"
    "slack W ((frame_of s)(Page d i := None)) (mem_map s) g k \<Longrightarrow> g \<noteq> fr pa \<Longrightarrow> spare W (set_ram32 (pte_at s d i) v s) g k"
proof -
  have u: "Page d i \<in> uses W" using d by simp
  have sp: "slack W ((frame_of s)(Page d i := None)) (mem_map s) (fr pa) 1"
    using sep_unmap(2) [OF mm_invD(1) [OF inv] u] o by (simp add: owned_def)
  have ex: "\<forall>u\<in>uses W. u \<noteq> Page d i \<and> frame_of s u = Some (fr pa) \<longrightarrow> \<not> exclusive s u \<and> v AND PTE_RW = 0"
    using o by (auto simp: owned_def holders_def)
  have f: "256 \<le> fr pa" "fr pa < 256 + max_map_nr s" using o by (simp_all add: owned_def)
  note m = map_pte [OF inv d v f sp ex]
  show "mm_inv W (set_ram32 (pte_at s d i) v s)" by (rule m(1))
  show "slack W ((frame_of s)(Page d i := None)) (mem_map s) g k \<Longrightarrow> g \<noteq> fr pa \<Longrightarrow> spare W (set_ram32 (pte_at s d i) v s) g k"
    by (rule m(2))
qed

lemma free_owned:
  assumes "mm_inv W s" "owned W s pa"
  shows "mm_inv W (free_page pa s)" "256 \<le> g \<Longrightarrow> g \<noteq> fr pa \<Longrightarrow> spare W s g k \<Longrightarrow> spare W (free_page pa s) g k"
  using free_page_inv [OF assms(1), of pa] assms(2) by (auto simp: owned_def)

text \<open>The slot of an address of the user window.\<close>

definition user_va :: "u32 \<Rightarrow> bool" where "user_va va \<longleftrightarrow> drop_bit 22 va = USER_PDE_INDEX"

definition va_index :: "u32 \<Rightarrow> nat" where "va_index va = unat (drop_bit 12 va AND 0x3FF)"

lemma va_index_less: "va_index va < 1024"
proof -
  have "drop_bit 12 va AND 0x3FF = take_bit 10 (drop_bit 12 va)" by (simp add: take_bit_eq_mask mask_eq_exp_minus_1)
  then have "va_index va = take_bit 10 (unat (drop_bit 12 va))" unfolding va_index_def by (simp add: unsigned_take_bit_eq del: take_bit_drop_bit)
  then show ?thesis by (simp add: take_bit_eq_mod)
qed

lemma pte_slot_user:
  assumes "mm_inv W s" "d \<in> fst W" "user_va va"
  shows "pte_slot d va s = Some (pte_at s d (va_index va))"
proof -
  have "pde_slot d va = pde_slot d USER_BASE" using assms(3) by (simp add: pde_slot_def user_va_def USER_BASE_def USER_PDE_INDEX_def)
  then have "ram32 s (pde_slot d va) = pde s d" using slot_pde mm_invD(3) [OF assms(1,2)] by simp
  then show ?thesis using mm_invD(4) [OF assms(1,2)] by (simp add: pte_slot_def Let_def va_index_def)
qed

lemma pte_frame_page:
  assumes "page_aligned pa" "flags AND PT_MASK = 0" "flags AND PTE_PRESENT \<noteq> 0"
  shows "pte_frame (pa OR flags) = Some (fr pa)" "pte_frame ((pa AND PT_MASK) OR flags) = Some (fr pa)"
proof -
  have m: "pa AND PT_MASK = pa" using assms(1) page_aligned_eq [OF page_aligned_mask] by simp
  have p: "(pa OR flags) AND PTE_PRESENT \<noteq> 0" using assms(3) by (simp add: bit.conj_disj_distrib2 or_eq_0_iff)
  have "(pa OR flags) AND PT_MASK = pa" using assms(2) m by (simp add: bit.conj_disj_distrib2)
  then have "unat (pa OR flags) div PAGE_SIZE = fr pa" by (metis fr_mask)
  with p show "pte_frame (pa OR flags) = Some (fr pa)" by (simp add: pte_frame_def)
  then show "pte_frame ((pa AND PT_MASK) OR flags) = Some (fr pa)" using m by simp
qed

abbreviation user_rw :: u32 where "user_rw \<equiv> PTE_PRESENT OR PTE_RW OR PTE_USER"

lemma user_rw_flags: "user_rw AND PT_MASK = 0" "user_rw AND PTE_PRESENT \<noteq> 0" "user_rw AND PTE_RW \<noteq> 0"
  by (simp_all add: pte_consts)

lemmas user_rw_frame = pte_frame_page [OF _ user_rw_flags(1,2)]

lemma map_user_page_inv:
  assumes "mm_inv W s" "owned W s pa" "d \<in> fst W" "user_va va"
  shows "mm_inv W (map_user_page d va pa user_rw s)"
  unfolding map_user_page_def pte_slot_user [OF assms(1,3,4)]
  using map_owned(1) [OF assms(1-3) va_index_less user_rw_frame(2)] assms(2) by (simp add: owned_def)

lemma alloc_user_page_inv:
  assumes "mm_inv W s" "tasks_in W s" "d \<in> fst W" "user_va va" "alloc_user_page d va s = (pa, t)"
  shows "mm_inv W t" "tasks_in W t"
proof -
  obtain q u where g: "get_free_page s = (q, u)" by fastforce
  note G = get_free_page_fresh [OF assms(1,1,2) g]
  note iu = reclaimsD(1) [OF G(1)]
  have "mm_inv W t \<and> tasks_in W t"
  proof (cases "q = 0")
    case True
    then show ?thesis using assms(5) g iu tasks_in_reclaims [OF assms(2) G(1)] by (auto simp: alloc_user_page_def)
  next
    case False
    then have o: "owned W u q" "page_aligned q" using G(2) by (auto intro: fresh_owned simp: fresh_def)
    have "t = set_ram32 (pte_at u d (va_index va)) (q OR user_rw) u"
      using assms(5) g False pte_slot_user [OF iu assms(3,4)] by (auto simp: alloc_user_page_def or.assoc)
    then show ?thesis using map_owned(1) [OF iu o(1) assms(3) va_index_less user_rw_frame(1) [OF o(2)]] tasks_in_reclaims [OF assms(2) G(1)]
      by (simp add: tasks_in_def)
  qed
  then show "mm_inv W t" "tasks_in W t" by blast+
qed

subsection \<open>What a program sees\<close>

definition page :: "'z mem_state_scheme \<Rightarrow> u32 \<Rightarrow> nat \<Rightarrow> bytes option" where
  "page s d i = map_option (ram s) (pte_frame (pte s d i))"

lemma reclaims_page:
  assumes inv: "mm_inv W s" and r: "reclaims W s t" and d: "d \<in> fst W" "i < 1024"
  shows "page t d i = None \<or> page t d i = page s d i"
proof (cases "pte_frame (pte t d i)")
  case (Some f)
  then have "pte t d i AND PTE_PRESENT \<noteq> 0" by (auto simp: pte_frame_def split: if_splits)
  then have e: "pte_frame (pte s d i) = Some f" using reclaimsD(9) [OF r d] Some same_entry_bits(5) by metis
  have "Page d i \<in> holders W (frame_of t) f" using d Some by (simp add: holders_def frame_of_Page del: frame_of.simps)
  moreover have "\<not> table_frame W s f"
    using held_not_table [OF inv, of "Page d i" f] d e by (simp add: frame_of_Page del: frame_of.simps)
  ultimately have "ram t f = ram s f" using reclaimsD(8) [OF r] by blast
  then show ?thesis using Some e by (simp add: page_def)
qed (simp add: page_def)

subsection \<open>Breaking a share\<close>

lemma free_page_tables [simp]: "pde (free_page pa s) = pde s" "tabf (free_page pa s) = tabf s" "pte (free_page pa s) = pte s"
  by (auto simp: free_page_def Let_def mm_inv_counts)

text \<open>The frame of a shared page can be let go once its user has a page of its own.\<close>

lemma cow_left_over:
  assumes inv: "mm_inv W s" and r: "reclaims W s u" and d: "d \<in> fst W" "i < 1024"
    and p: "pte s d i AND PTE_COW \<noteq> 0" "pte_frame (pte s d i) = Some f"
  shows "slack W ((frame_of u)(Page d i := None)) (mem_map u) f 1"
proof (cases "same_entry (pte u d i) (pte s d i)")
  case True
  note iu = reclaimsD(1) [OF r]
  have f: "frame_of u (Page d i) = Some f" using p(2) True by (simp add: same_entry_bits(5) frame_of_Page del: frame_of.simps)
  show ?thesis using sep_unmap(3) [OF mm_invD(1) [OF iu], of "Page d i", OF _ f] mm_spare [OF iu _ f] d by simp
next
  case False
  then have "spare W u f 1" using reclaimsD(9) [OF r d] p by blast
  then show ?thesis using sep_unmap(2) [OF mm_invD(1) [OF reclaimsD(1) [OF r]], of "Page d i"] d by simp
qed

text \<open>A copy of a shared page takes its place.\<close>

lemma replace_page:
  assumes inv: "mm_inv W s" and r: "reclaims W s u" and o: "owned W u new" and d: "d \<in> fst W" "i < 1024"
    and p: "pte s d i AND PTE_COW \<noteq> 0" "pte_frame (pte s d i) = Some (fr old)" "page_aligned old" "fr old \<noteq> fr new"
    and x: "x = u\<lparr>ram := (ram u)(fr new := ram u (fr old))\<rparr>" and t: "t = free_page old (set_ram32 (pte_at x d i) (new OR user_rw) x)"
  shows "mm_inv W t" "pde x d = pde u d" "page t d i = page s d i" "pte t d i = new OR user_rw"
    "e \<in> fst W \<Longrightarrow> j < 1024 \<Longrightarrow> (e, j) \<noteq> (d, i) \<Longrightarrow> page t e j = page u e j"
proof -
  note iu = reclaimsD(1) [OF r]
  have cf: "cow_frame W s (fr old)" using p d by (auto simp: cow_frame_def)
  have fo: "frame_of s (Page d i) = Some (fr old)" using p(2) by (simp add: frame_of_Page del: frame_of.simps)
  have ro: "ram u (fr old) = ram s (fr old)" using reclaimsD(8) [OF r] held_not_table [OF inv _ _ fo] cf d by simp
  have fx: "\<forall>f. f \<noteq> fr new \<longrightarrow> ram x f = ram u f" "mem_map x = mem_map u" "max_map_nr x = max_map_nr u" by (simp_all add: x)
  note X = fill_owned [OF iu o fx]
  show "pde x d = pde u d" by (rule X(5) [OF d(1)])
  have fn: "pte_frame (new OR user_rw) = Some (fr new)" using o by (intro user_rw_frame(1)) (simp add: owned_def)
  define y where "y = set_ram32 (pte_at x d i) (new OR user_rw) x"
  note Y = map_owned [OF X(1,2) d fn, folded y_def]
  have "\<forall>v\<in>uses W. ((frame_of x)(Page d i := None)) v = ((frame_of u)(Page d i := None)) v" using X(4) by simp
  then have "slack W ((frame_of x)(Page d i := None)) (mem_map x) (fr old) 1"
    using cow_left_over [OF inv r d p(1,2)] slack_cong fx(2) by metis
  then have sy: "spare W y (fr old) 1" by (rule Y(2) [OF _ p(4)])
  have ro': "256 \<le> fr old" using mm_frame_range [OF inv _ fo] d by simp
  show "mm_inv W t" unfolding t y_def [symmetric] by (rule free_page_inv(1) [OF Y(1) p(3) ro' sy])
  have pt: "e \<in> fst W \<Longrightarrow> pte t e j = (if e = d \<and> j = i then new OR user_rw else pte u e j)" for e j
    using set_pte(3) [OF X(1) d, of e "new OR user_rw" j] X(6) by (simp add: t)
  show "pte t d i = new OR user_rw" using pt [OF d(1), of i] by simp
  have rt: "ram t f = ram x f" if "\<not> table_frame W u f" for f
  proof -
    have "f \<noteq> tabf x d" using that d(1) X(5) [OF d(1)] by (auto simp: table_frame_def tabf_def)
    then show ?thesis using ram_set_pte [OF d(2), of f x d] by (simp add: t)
  qed
  have "\<not> table_frame W u (fr new)" using fresh_not_table [OF iu] o by (simp add: owned_def)
  then have "ram t (fr new) = ram s (fr old)" using rt ro by (simp add: x)
  then show "page t d i = page s d i" using p(2) pt [OF d(1), of i] fn by (simp add: page_def)
  show "page t e j = page u e j" if e: "e \<in> fst W" "j < 1024" "(e, j) \<noteq> (d, i)"
  proof (cases "pte_frame (pte u e j)")
    case (Some f)
    then have h: "frame_of u (Page e j) = Some f" by (simp add: frame_of_Page del: frame_of.simps)
    then have "f \<noteq> fr new" using owned_unused [OF o, of "Page e j"] e by auto
    then have "ram t f = ram u f" using rt held_not_table [OF iu _ _ h] e fx(1) by simp
    then show ?thesis using Some e pt [OF e(1), of j] by (auto simp: page_def)
  qed (use e pt [OF e(1), of j] in \<open>auto simp: page_def\<close>)
qed

lemma un_wp_page_step:
  assumes inv: "mm_inv W s" and tasks: "tasks_in W s" and d: "t_pg_dir (cur s) = d" "d \<in> fst W" "user_va a" and i: "i = va_index a"
    and cow: "pte s d i AND PTE_COW \<noteq> 0" and g: "get_free_page s = (new, u)" and w: "un_wp_page a s = (r, t)"
  shows "mm_inv W t \<and> tasks_in W t" "page s d i \<noteq> None \<Longrightarrow> new \<noteq> 0 \<Longrightarrow> r = 0"
    "r = 0 \<Longrightarrow> page t d i = page s d i \<and> pte t d i AND PTE_RW \<noteq> 0 \<and>
       (\<forall>e\<in>fst W. \<forall>j<1024. (e, j) \<noteq> (d, i) \<longrightarrow> page t e j = page u e j)"
proof -
  have i': "i < 1024" unfolding i by (rule va_index_less)
  have slot: "pte_slot d a s = Some (pte_at s d i)" unfolding i by (rule pte_slot_user [OF inv d(2,3)])
  define p where "p = pte s d i"
  have p: "ram32 s (pte_at s d i) = p" unfolding p_def by (rule pte_at_read [OF i'])
  have dz: "d \<noteq> 0" by (rule pgdir_nonzero [OF inv d(2)])
  note G = get_free_page_fresh [OF inv inv tasks g]
  note iu = reclaimsD(1) [OF G(1)] tasks_in_reclaims [OF tasks G(1)]
  have absent: "t = s \<and> r = -1" if "p AND PTE_PRESENT = 0" using that w slot p dz d(1) by (simp add: un_wp_page_def)
  have none: "t = u \<and> r = -1" if "p AND PTE_PRESENT \<noteq> 0" "new = 0" using that w slot p dz g d(1) by (simp add: un_wp_page_def)
  define x where "x = u\<lparr>ram := (ram u)(fr new := ram u (fr (p AND PT_MASK)))\<rparr>"
  define y where "y = free_page (p AND PT_MASK) (set_ram32 (pte_at x d i) (new OR user_rw) x)"
  have copied: "t = y \<and> r = 0 \<and> mm_inv W y \<and> tasks_in W y \<and> page y d i = page s d i \<and> pte y d i AND PTE_RW \<noteq> 0 \<and>
       (\<forall>e\<in>fst W. \<forall>j<1024. (e, j) \<noteq> (d, i) \<longrightarrow> page y e j = page u e j)" if a: "p AND PTE_PRESENT \<noteq> 0" "new \<noteq> 0"
  proof -
    have pf: "pte_frame (pte s d i) = Some (fr (p AND PT_MASK))" using a(1) by (simp add: pte_frame_def p_def)
    then have ne: "fr (p AND PT_MASK) \<noteq> fr new" using G(3) [OF a(2)] cow d(2) i' by (auto simp: cow_frame_def)
    note R = replace_page [OF inv G(1) fresh_owned [OF G(2) [OF a(2)]] d(2) i' cow pf page_aligned_mask ne x_def y_def]
    have "pte_at s d i = pte_at x d i" using R(2) reclaimsD(6) [OF G(1) d(2)] by simp
    then have "t = y" "r = 0" using w slot p dz a g d(1) by (simp_all add: un_wp_page_def Let_def x_def y_def or.assoc)
    moreover have "tasks_in W y" using iu(2) by (simp add: y_def x_def tasks_in_def)
    moreover have "pte y d i AND PTE_RW \<noteq> 0" using user_rw_flags(3) by (simp add: R(4) bit.conj_disj_distrib2 or_eq_0_iff)
    ultimately show ?thesis using R(1,3,5) by blast
  qed
  show "mm_inv W t \<and> tasks_in W t" using absent none copied inv tasks iu by blast
  show "page s d i \<noteq> None \<Longrightarrow> new \<noteq> 0 \<Longrightarrow> r = 0" using copied by (auto simp: page_def pte_frame_def p_def split: if_splits)
  assume "r = 0"
  then have "p AND PTE_PRESENT \<noteq> 0" "new \<noteq> 0" using absent none by auto
  note c = copied [OF this]
  show "page t d i = page s d i \<and> pte t d i AND PTE_RW \<noteq> 0 \<and>
       (\<forall>e\<in>fst W. \<forall>j<1024. (e, j) \<noteq> (d, i) \<longrightarrow> page t e j = page u e j)"
    unfolding c [THEN conjunct1] by (rule c [THEN conjunct2, THEN conjunct2, THEN conjunct2, THEN conjunct2])
qed

subsection \<open>Pages from swap\<close>

lemma swap_in_frame:
  assumes "swap_in_page slot pa s = (r, t)"
  shows "\<forall>f. f \<noteq> fr pa \<longrightarrow> ram t f = ram s f" "mem_map t = mem_map s" "max_map_nr t = max_map_nr s" "task t = task s"
    "tstruct t = tstruct s" "current t = current s"
proof -
  obtain ret d u where h: "hd_read_sectors (SWAP_START_LBA + nat slot * SWAP_SLOT_SECTORS) SWAP_SLOT_SECTORS (ram s (fr pa)) s = (ret, d, u)"
    by (metis prod_cases3)
  obtain w where u: "u = s\<lparr>hd_waits := w\<rparr>" using hd_read_frame h by (metis snd_conv)
  show "\<forall>f. f \<noteq> fr pa \<longrightarrow> ram t f = ram s f" "mem_map t = mem_map s" "max_map_nr t = max_map_nr s" "task t = task s"
    "tstruct t = tstruct s" "current t = current s"
    using assms by (auto simp: swap_in_page_def h u Let_def split: if_splits)
qed

lemma swap_free_slot_fields [simp]: "ram (swap_free_slot n s) = ram s" "mem_map (swap_free_slot n s) = mem_map s"
  "max_map_nr (swap_free_slot n s) = max_map_nr s" "task (swap_free_slot n s) = task s" "tstruct (swap_free_slot n s) = tstruct s"
  "current (swap_free_slot n s) = current s"
  by (simp_all add: swap_free_slot_def)

text \<open>A page read back from swap, mapped into the space or, when the read fails, given back.\<close>

lemma swap_in_owned:
  assumes inv: "mm_inv W s" "tasks_in W s" and o: "owned W s pa" and r: "swap_in_page slot pa s = (r, t)"
  shows "mm_inv W (free_page pa t)" "tasks_in W (free_page pa t)" "tasks_in W (swap_free_slot slot t)"
    "mm_inv W (swap_free_slot slot t)" "owned W (swap_free_slot slot t) pa" "b \<in> fst W \<Longrightarrow> pde (swap_free_slot slot t) b = pde s b"
    "b \<in> fst W \<Longrightarrow> pde (free_page pa t) b = pde s b"
proof -
  note f = swap_in_frame [OF r]
  note T = fill_owned [OF inv(1) o f(1-3)]
  show "mm_inv W (free_page pa t)" by (rule free_owned(1) [OF T(1,2)])
  show "tasks_in W (free_page pa t)" "tasks_in W (swap_free_slot slot t)" using inv(2) f by (simp_all add: tasks_in_def)
  have g: "\<forall>g. g \<noteq> fr pa \<longrightarrow> ram (swap_free_slot slot t) g = ram s g" "mem_map (swap_free_slot slot t) = mem_map s"
    "max_map_nr (swap_free_slot slot t) = max_map_nr s" using f by simp_all
  note U = fill_owned [OF inv(1) o g]
  show "mm_inv W (swap_free_slot slot t)" "owned W (swap_free_slot slot t) pa" by (rule U)+
  show "b \<in> fst W \<Longrightarrow> pde (swap_free_slot slot t) b = pde s b" by (rule U(5))
  show "b \<in> fst W \<Longrightarrow> pde (free_page pa t) b = pde s b" using T(5) by simp
qed

lemma tasks_in_set [simp]: "tasks_in W (set_ram32 a v s) = tasks_in W s" "tasks_in W (free_page pa s) = tasks_in W s"
  by (simp_all add: tasks_in_def)

lemma unswap_pte_inv:
  assumes inv: "mm_inv W s" "tasks_in W s" and d: "d \<in> fst W" "i < 1024" and r: "unswap_pte (pte_at s d i) s = (ok, t)"
  shows "mm_inv W t \<and> tasks_in W t \<and> (\<forall>b\<in>fst W. pde t b = pde s b)"
proof (cases "ram32 s (pte_at s d i) AND PTE_PRESENT = 0 \<and> ram32 s (pte_at s d i) AND PTE_SWAPPED \<noteq> 0")
  case False
  then show ?thesis using r inv by (auto simp: unswap_pte_def Let_def)
next
  case True
  define slot where "slot = int (unat (drop_bit 12 (ram32 s (pte_at s d i))))"
  obtain pa u where g: "get_free_page s = (pa, u)" by fastforce
  note G = get_free_page_fresh [OF inv(1,1,2) g]
  note iu = reclaimsD(1) [OF G(1)] tasks_in_reclaims [OF inv(2) G(1)]
  show ?thesis
  proof (cases "pa = 0")
    case True
    then have "t = u" using r g \<open>ram32 s _ AND _ = 0 \<and> _\<close> by (simp add: unswap_pte_def Let_def)
    then show ?thesis using iu reclaimsD(6) [OF G(1)] by simp
  next
    case False
    then have o: "owned W u pa" "page_aligned pa" using G(2) by (auto intro: fresh_owned simp: fresh_def)
    obtain q x where x: "swap_in_page slot pa u = (q, x)" by fastforce
    note S = swap_in_owned [OF iu o(1) x]
    have at: "pte_at s d i = pte_at (swap_free_slot slot x) d i" using S(6) [OF d(1)] reclaimsD(6) [OF G(1) d(1)] by simp
    have t: "t = (if q < 0 then free_page pa x else set_ram32 (pte_at s d i) (pa OR user_rw) (swap_free_slot slot x))"
      using r g \<open>ram32 s _ AND _ = 0 \<and> _\<close> False x by (simp add: unswap_pte_def Let_def slot_def or.assoc split: if_splits)
    show ?thesis
    proof (cases "q < 0")
      case True
      then show ?thesis using S(1,2,7) reclaimsD(6) [OF G(1)] by (simp add: t)
    next
      case False
      then have t': "t = set_ram32 (pte_at (swap_free_slot slot x) d i) (pa OR user_rw) (swap_free_slot slot x)" by (simp only: t at if_False)
      show ?thesis unfolding t'
        using map_owned(1) [OF S(4,5) d user_rw_frame(1) [OF o(2)]] S(3,6) reclaimsD(6) [OF G(1)] set_pte(1) [OF S(4) d] by simp
    qed
  qed
qed

subsection \<open>Sharing at fork\<close>

lemma share_pte_inv:
  assumes inv: "mm_inv W s" "tasks_in W s" and d: "d \<in> fst W" "e \<in> fst W" "d \<noteq> e" "i < 1024"
    and r: "share_pte (pte_at s d i) (pte_at s e i) s = (b, t)"
  shows "mm_inv W t \<and> tasks_in W t \<and> (\<forall>b\<in>fst W. pde t b = pde s b)"
proof (cases "pte s d i AND PTE_PRESENT = 0")
  case True
  then show ?thesis using r inv pte_at_read [OF d(4), of s d] by (simp add: share_pte_def Let_def)
next
  case False
  define p where "p = pte s d i"
  define f where "f = unat p div PAGE_SIZE"
  define v where "v = (p AND NOT PTE_RW) OR PTE_COW"
  define k where "k = MAP_NR (p AND PT_MASK)"
  define s1 where "s1 = (if mem_map s k < USED then s\<lparr>mem_map := (mem_map s)(k := mem_map s k + 1)\<rparr> else s)"
  define s2 where "s2 = set_ram32 (pte_at s1 d i) v s1"
  have rd: "ram32 s (pte_at s d i) = p" unfolding p_def by (rule pte_at_read [OF d(4)])
  have fo: "frame_of s (Page d i) = Some f" using False by (simp add: p_def f_def)
  have f: "256 \<le> f" "f < 256 + max_map_nr s" using mm_frame_range [OF inv(1) _ fo] d by simp_all
  have k: "k = f - 256" unfolding k_def f_def using map_nr(2) [OF page_aligned_mask, of p] f(1) by (simp add: f_def)
  have tab1: "pde s1 = pde s" "pte s1 = pte s" "frame_of s1 = frame_of s" "exclusive s1 = exclusive s" "max_map_nr s1 = max_map_nr s"
    by (simp_all add: s1_def mm_inv_counts)
  have sp0: "spare W s f 0" by (rule mm_spare [OF inv(1) _ fo]) (use d in simp)
  have inv1: "mm_inv W s1" and sp1: "spare W s1 f 1"
  proof -
    show "mm_inv W s1" using inv(1) sep_raise(1) [OF mm_invD(1) [OF inv(1)] f(1)] by (simp add: mm_inv_def s1_def mm_inv_counts k)
    show "spare W s1 f 1"
    proof (cases "mem_map s k < USED")
      case True
      then show ?thesis using sep_raise(3) [OF mm_invD(1) [OF inv(1)] f(1), of 0] sp0 by (simp add: s1_def mm_inv_counts k)
    next
      case False
      then have "s1 = s" "USED \<le> mem_map s (f - 256)" by (simp_all add: s1_def k not_less)
      then show ?thesis by (simp add: slack_def)
    qed
  qed
  have fv: "pte_frame v = Some f" and rw: "v AND PTE_RW = 0"
  proof -
    have "v AND PTE_PRESENT = p AND PTE_PRESENT" "v AND PTE_RW = 0" "v AND PT_MASK = p AND PT_MASK"
      by (simp_all add: v_def bit.conj_disj_distrib2 and.assoc) (simp_all add: pte_consts)
    then show "pte_frame v = Some f" "v AND PTE_RW = 0" using False fr_mask [of v] fr_mask [of p] by (simp_all add: pte_frame_def p_def f_def)
  qed
  have u: "Page d i \<in> uses W" "Page e i \<in> uses W" using d by simp_all
  have un1: "slack W ((frame_of s1)(Page d i := None)) (mem_map s1) f (Suc 1)"
    by (rule sep_unmap(3) [OF mm_invD(1) [OF inv1] u(1) _ sp1]) (simp add: tab1 fo del: frame_of.simps)
  have ex1: "\<forall>w\<in>uses W. w \<noteq> Page d i \<and> frame_of s1 w = Some f \<longrightarrow> \<not> exclusive s1 w \<and> v AND PTE_RW = 0"
    using sepD(5) [OF mm_invD(1) [OF inv(1)] _ u(1) _ fo] rw unfolding tab1 by metis
  note m1 = map_pte [OF inv1 d(1,4) fv f(1) f(2) [folded tab1(5)] slack_mono [OF un1] ex1, folded s2_def]
  have inv2: "mm_inv W s2" and sp2: "spare W s2 f 1" using m1(1) m1(3) [OF _ un1] by simp_all
  have p2: "c \<in> fst W \<Longrightarrow> pde s2 c = pde s c" "c \<in> fst W \<Longrightarrow> pte s2 c j = (if c = d \<and> j = i then v else pte s c j)" for c j
    unfolding s2_def using set_pte(1,3) [OF inv1 d(1,4)] by (simp_all add: tab1)
  have fo2: "frame_of s2 (Page d i) = Some f" using p2(2) [OF d(1), of i] fv by (simp add: frame_of_Page del: frame_of.simps)
  have un2: "slack W ((frame_of s2)(Page e i := None)) (mem_map s2) f 1" by (rule sep_unmap(2) [OF mm_invD(1) [OF inv2] u(2) sp2])
  have nx: "\<not> exclusive s2 (Page d i)" using p2(2) [OF d(1), of i] rw by simp
  have ex2: "\<forall>w\<in>uses W. w \<noteq> Page e i \<and> frame_of s2 w = Some f \<longrightarrow> \<not> exclusive s2 w \<and> v AND PTE_RW = 0"
    using sepD(5) [OF mm_invD(1) [OF inv2] _ u(1) _ fo2] nx rw by metis
  have f2: "f < 256 + max_map_nr s2" using f(2) by (simp add: s2_def s1_def)
  note m2 = map_pte(1) [OF inv2 d(2,4) fv f(1) f2 un2 ex2]
  have "t = set_ram32 (pte_at s e i) v (set_ram32 (pte_at s d i) v s1)"
    using r False rd by (simp add: share_pte_def Let_def p_def [symmetric] v_def [symmetric]) (auto simp: s1_def k_def)
  then have "t = set_ram32 (pte_at s2 e i) v s2" using p2(1) [OF d(2)] by (simp add: s2_def tab1(1))
  moreover from this have "tasks_in W t" using inv(2) by (simp add: s2_def s1_def tasks_in_def)
  ultimately show ?thesis using m2 set_pte(1) [OF inv2 d(2,4)] p2(1) by simp
qed

lemma copy_ptes_inv:
  assumes "mm_inv W s" "tasks_in W s" and d: "d \<in> fst W" "e \<in> fst W" "d \<noteq> e" and "i + k \<le> 1024"
    and "copy_ptes (pde s d AND PT_MASK) (pde s e AND PT_MASK) i k n s = (r, t)"
  shows "mm_inv W t \<and> tasks_in W t"
  using assms(1,2,6,7)
proof (induction k arbitrary: i n s)
  case 0
  then show ?case by simp
next
  case (Suc k)
  have i: "i < 1024" using Suc.prems(3) by simp
  obtain ok x where x: "unswap_pte (pte_at s d i) s = (ok, x)" by fastforce
  have X: "mm_inv W x" "tasks_in W x" "pde x d = pde s d" "pde x e = pde s e"
    using unswap_pte_inv [OF Suc.prems(1,2) d(1) i x] d by auto
  show ?case
  proof (cases ok)
    case False
    then show ?thesis using Suc.prems(4) x X by simp
  next
    case True
    obtain b y where y: "share_pte (pte_at x d i) (pte_at x e i) x = (b, y)" by fastforce
    have Y: "mm_inv W y" "tasks_in W y" "pde y d = pde s d" "pde y e = pde s e"
      using share_pte_inv [OF X(1,2) d i y] d X(3,4) by auto
    have "copy_ptes (pde y d AND PT_MASK) (pde y e AND PT_MASK) (Suc i) k (if b then n + 1 else n) y = (r, t)"
      using Suc.prems(4) x True y X(3,4) Y(3,4) by simp
    then show ?thesis using Suc.prems(3) by (intro Suc.IH [OF Y(1,2)]) simp_all
  qed
qed

lemma copy_page_tables_inv:
  assumes "mm_inv W s" "tasks_in W s" "d \<in> fst W" "e \<in> fst W" "d \<noteq> e" "copy_page_tables d e s = (r, t)"
  shows "mm_inv W t" "tasks_in W t"
  using copy_ptes_inv [OF assms(1-5), of 0 1024 0 r t] assms(6) by (simp_all add: copy_page_tables_def user_pt_in [OF assms(1)] assms(3,4))

subsection \<open>Giving up an address space\<close>

lemma set_free_commute: "set_ram32 a v (free_page pa s) = free_page pa (set_ram32 a v s)"
  by (simp add: set_ram32_def free_page_def Let_def)

lemma free_pte_inv:
  assumes inv: "mm_inv W s" "tasks_in W s" and d: "d \<in> fst W" "i < 1024"
  shows "mm_inv W (free_pte (pte_at s d i) s) \<and> tasks_in W (free_pte (pte_at s d i) s) \<and> (\<forall>b\<in>fst W. pde (free_pte (pte_at s d i) s) b = pde s b)"
proof -
  define p where "p = pte s d i"
  have rd: "ram32 s (pte_at s d i) = p" unfolding p_def by (rule pte_at_read [OF d(2)])
  have z: "(0 :: u32) AND PTE_PRESENT = 0" by simp
  have st: "\<forall>b\<in>fst W. pde (set_ram32 (pte_at s d i) 0 s) b = pde s b" using set_pte(1) [OF inv(1) d] by blast
  consider "p AND PTE_PRESENT \<noteq> 0" | "p AND PTE_PRESENT = 0" by blast
  then show ?thesis
  proof cases
    case 1
    then have f: "pte_frame (pte s d i) = Some (fr (p AND PT_MASK))" by (simp add: pte_frame_def p_def)
    have e: "free_pte (pte_at s d i) s = free_page (p AND PT_MASK) (set_ram32 (pte_at s d i) 0 s)"
      using 1 rd by (simp add: free_pte_def Let_def set_free_commute)
    show ?thesis unfolding e using unmap_free(1) [OF inv(1) d z f page_aligned_mask] inv(2) st by simp
  next
    case 2
    obtain x where x: "free_pte (pte_at s d i) s = set_ram32 (pte_at s d i) 0 x" "x = s \<or> x = swap_free_slot (int (unat (drop_bit 12 p))) s"
      using 2 rd by (simp add: free_pte_def Let_def)
    have t: "ram x = ram s" "mem_map x = mem_map s" "max_map_nr x = max_map_nr s" "task x = task s" "tstruct x = tstruct s" "current x = current s" using x(2) by auto
    have r: "reclaims W s x" by (rule reclaims_outside [OF inv(1) t])
    have at: "pte_at s d i = pte_at x d i" using reclaimsD(6) [OF r d(1)] by simp
    have "reclaims W x (set_ram32 (pte_at x d i) 0 x)" by (rule reclaims_unmap [OF reclaimsD(1) [OF r] d z])
    then have "reclaims W x (set_ram32 (pte_at s d i) 0 x)" by (simp only: at)
    then have r': "reclaims W x (free_pte (pte_at s d i) s)" by (simp only: x(1))
    show ?thesis using reclaimsD(1) [OF r'] tasks_in_reclaims [OF tasks_in_reclaims [OF inv(2) r] r'] reclaimsD(6) [OF r] reclaimsD(6) [OF r'] by simp
  qed
qed

lemma free_ptes_inv:
  assumes "mm_inv W s" "tasks_in W s" "d \<in> fst W" "\<forall>i\<in>set is. i < 1024"
  shows "mm_inv W (fold (\<lambda>i. free_pte ((pde s d AND PT_MASK) + 4 * of_nat i)) is s) \<and>
    tasks_in W (fold (\<lambda>i. free_pte ((pde s d AND PT_MASK) + 4 * of_nat i)) is s) \<and>
    (\<forall>b\<in>fst W. pde (fold (\<lambda>i. free_pte ((pde s d AND PT_MASK) + 4 * of_nat i)) is s) b = pde s b)"
  using assms
proof (induction "is" arbitrary: s)
  case (Cons i "is")
  note f = free_pte_inv [OF Cons.prems(1-3), of i]
  have "i < 1024" using Cons.prems(4) by simp
  with f have F: "mm_inv W (free_pte (pte_at s d i) s)" "tasks_in W (free_pte (pte_at s d i) s)" "\<forall>b\<in>fst W. pde (free_pte (pte_at s d i) s) b = pde s b" by blast+
  show ?case using Cons.IH [OF F(1,2) Cons.prems(3)] Cons.prems(3,4) F(3) by simp
qed simp

lemma mm_inv_shrink:
  assumes inv: "mm_inv W s" and W: "fst W' \<subseteq> fst W" "snd W' \<subseteq> snd W"
  shows "mm_inv W' s" "u \<in> uses W \<Longrightarrow> u \<notin> uses W' \<Longrightarrow> exclusive s u \<Longrightarrow> frame_of s u = Some (fr pa) \<Longrightarrow> page_aligned pa \<Longrightarrow> owned W' s pa"
proof -
  note sh = sep_shrink [OF mm_invD(1) [OF inv] W]
  show "mm_inv W' s" using inv sh(1) W by (auto simp: mm_inv_def)
  assume u: "u \<in> uses W" "u \<notin> uses W'" "exclusive s u" "frame_of s u = Some (fr pa)" "page_aligned pa"
  have "uses W' \<subseteq> uses W" using W by (auto simp: uses_def)
  then have "holders W' (frame_of s) (fr pa) = {}" using sepD(5) [OF mm_invD(1) [OF inv] u(1) _ u(4)] u(2,3) by (auto simp: holders_def)
  then show "owned W' s pa" using u sh(3) [OF u(1,2,4)] mm_frame_range [OF inv u(1,4)] by (simp add: owned_def)
qed

lemma owned_free_other:
  assumes "mm_inv W s" "owned W s pa" "owned W s q" "fr q \<noteq> fr pa"
  shows "owned W (free_page pa s) q"
proof -
  have "frame_of (free_page pa s) = frame_of s" using free_page_inv(4) [OF assms(1), of pa] assms(2) by (simp add: owned_def)
  then show ?thesis using assms(3,4) free_owned(2) [OF assms(1,2), of "fr q" 1] by (simp add: owned_def)
qed

lemma free_user_space_inv:
  assumes inv: "mm_inv W s" "tasks_in W s" and d: "d \<in> fst W" and t: "free_user_space d s = Some t"
  shows "mm_inv (fst W - {d}, snd W) t" "task t = task s" "tstruct t = tstruct s"
proof -
  let ?W = "(fst W - {d}, snd W)"
  define x where "x = fold (\<lambda>i. free_pte ((pde s d AND PT_MASK) + 4 * of_nat i)) [0..<1024] s"
  have X: "mm_inv W x" "tasks_in W x" "pde x d = pde s d"
    using free_ptes_inv [OF inv d, of "[0..<1024]"] d by (simp_all add: x_def)
  define y where "y = free_page (pde s d AND PT_MASK) x"
  define z where "z = set_ram32 (pde_slot d USER_BASE) 0 y"
  have tz: "t = free_page d z"
    using t pgdir_nonzero [OF inv(1) d] user_pt_in [OF inv(1) d]
    by (simp add: free_user_space_def free_page_tables_def x_def y_def z_def Let_def user_consts)
  note sh = mm_inv_shrink [OF X(1), of ?W, simplified]
  have al: "page_aligned d" by (rule mm_invD(3) [OF inv(1) d])
  have od: "owned ?W x d" using sh(2) [of "Dir d" d] d al by simp
  have ot: "owned ?W x (pde s d AND PT_MASK)" using sh(2) [of "Tab d" "pde s d AND PT_MASK"] d mm_invD(6) [OF X(1) d] X(3) by (simp add: tabf_def)
  have ne: "fr d \<noteq> fr (pde s d AND PT_MASK)"
    using sepD(5) [OF mm_invD(1) [OF X(1)], of "Tab d" "Dir d" "tabf x d"] mm_invD(6) [OF X(1) d] d X(3) by (auto simp: tabf_def)
  have Y: "mm_inv ?W y" "owned ?W y d"
    unfolding y_def by (rule free_owned(1) [OF sh(1) ot], rule owned_free_other [OF sh(1) ot od ne])
  have "z = set_ram32 (d + 4 * of_nat 32) 0 y" by (simp add: z_def pde_slot_def USER_BASE_def)
  then have "z = y\<lparr>ram := (ram y)(fr d := put32 (4 * 32) 0 (ram y (fr d)))\<rparr>" using set_ram32_slot [OF al, of 32 0 y] by simp
  then have r: "\<forall>f. f \<noteq> fr d \<longrightarrow> ram z f = ram y f" "mem_map z = mem_map y" "max_map_nr z = max_map_nr y" by simp_all
  note Z = fill_owned [OF Y r]
  show "mm_inv ?W t" unfolding tz by (rule free_owned(1) [OF Z(1,2)])
  have "task x = task s \<and> tstruct x = tstruct s" unfolding x_def
    by (rule fold_invariant [where Q = "\<lambda>_. True" and P = "\<lambda>x. task x = task s \<and> tstruct x = tstruct s"]) (simp_all add: free_pte_def Let_def)
  then show "task t = task s" "tstruct t = tstruct s" by (simp_all add: tz z_def y_def)
qed

subsection \<open>A new address space\<close>

lemma set_dir_ram:
  assumes "page_aligned d" "\<forall>i\<in>set is. i < 1024"
  shows "f \<noteq> fr d \<Longrightarrow> ram (fold (\<lambda>i. set_ram32 (d + 4 * of_nat i) (g i)) is s) f = ram s f"
    "mem_map (fold (\<lambda>i. set_ram32 (d + 4 * of_nat i) (g i)) is s) = mem_map s"
    "max_map_nr (fold (\<lambda>i. set_ram32 (d + 4 * of_nat i) (g i)) is s) = max_map_nr s"
    "tasks_in W (fold (\<lambda>i. set_ram32 (d + 4 * of_nat i) (g i)) is s) = tasks_in W s"
  using assms(2) by (induction "is" arbitrary: s) (simp_all add: set_ram32_slot [OF assms(1)] tasks_in_def)

lemma mm_inv_new_space:
  assumes inv: "mm_inv W s" and o: "owned W s d" "owned W s pt" "fr d \<noteq> fr pt"
    and e: "pde s d = pt OR user_rw" "ram s (fr pt) = (\<lambda>_. 0)"
  shows "mm_inv (insert d (fst W), snd W) s" "d \<notin> fst W" "pte s d i = 0"
proof -
  let ?W = "(insert d (fst W), snd W)"
  have al: "page_aligned d" "page_aligned pt" using o by (simp_all add: owned_def)
  have t: "tabf s d = fr pt" using user_rw_frame(1) [OF al(2)] by (auto simp: tabf_def e(1) pte_frame_def split: if_splits)
  show z: "pte s d i = 0" for i using e(2) by (simp add: pte_def t ent_def get32_def get16_def)
  show nd: "d \<notin> fst W" using owned_unused [OF o(1), of "Dir d"] by auto
  have pr: "pde s d AND PTE_PRESENT \<noteq> 0" using user_rw_flags(2) by (simp add: e(1) bit.conj_disj_distrib2 or_eq_0_iff)
  define N where "N = {Dir d, Tab d} \<union> Page d ` {..<1024}"
  have fo: "frame_of s (Dir d) = Some (fr d)" "frame_of s (Tab d) = Some (fr pt)" "frame_of s (Page d i) = None" for i using pr t z by simp_all
  have "sep ?W (frame_of s) (exclusive s) (mem_map s) (max_map_nr s)"
  proof (rule sep_grow(1) [OF mm_invD(1) [OF inv], where N = N])
    show "finite (fst ?W)" "finite (snd ?W)" using sepD(1,2) [OF mm_invD(1) [OF inv]] by simp_all
    show "uses ?W = uses W \<union> N" "N \<inter> uses W = {}" using nd by (auto simp: uses_def N_def)
    show "256 \<le> f \<and> f < 256 + max_map_nr s \<and> holders W (frame_of s) f = {} \<and> spare W s f 1" if "u \<in> N" "frame_of s u = Some f" for u f
      using that fo o(1,2) by (auto simp: N_def owned_def simp del: frame_of.simps)
    show "u = v" if "u \<in> N" "v \<in> N" "frame_of s u = Some f" "frame_of s v = Some f" for u v f
      using that fo o(3) by (auto simp: N_def simp del: frame_of.simps)
  qed
  then show "mm_inv ?W s" using inv al(1) pr by (simp add: mm_inv_def)
qed

lemma alloc_user_pgdir_inv:
  assumes inv: "mm_inv W s" "tasks_in W s" and r: "alloc_user_pgdir s = (d, t)"
  shows "d = 0 \<Longrightarrow> mm_inv W t" "d \<noteq> 0 \<Longrightarrow> mm_inv (insert d (fst W), snd W) t" "tasks_in W t" "d \<noteq> 0 \<Longrightarrow> d \<notin> fst W"
proof -
  obtain q u where g: "get_free_page s = (q, u)" by fastforce
  note G = get_free_page_fresh [OF inv(1,1,2) g]
  note iu = reclaimsD(1) [OF G(1)] tasks_in_reclaims [OF inv(2) G(1)]
  obtain pt x where h: "get_free_page u = (pt, x)" by fastforce
  note H = get_free_page_fresh [OF iu(1,1,2) h]
  note ix = reclaimsD(1) [OF H(1)] tasks_in_reclaims [OF iu(2) H(1)]
  have "(d = 0 \<longrightarrow> mm_inv W t) \<and> (d \<noteq> 0 \<longrightarrow> mm_inv (insert d (fst W), snd W) t \<and> d \<notin> fst W) \<and> tasks_in W t"
  proof (cases "q = 0 \<or> pt = 0")
    case True
    have "q \<noteq> 0 \<Longrightarrow> mm_inv W (free_page q x)"
      using free_owned(1) [OF ix(1) fresh_owned [OF fresh_reclaims [OF iu(1) G(2) H(1)]]] .
    then show ?thesis using True r g h iu ix by (cases "q = 0") (auto simp: alloc_user_pgdir_def)
  next
    case False
    then have f: "fresh W x q" "fresh W x pt" using fresh_reclaims [OF iu(1) G(2) H(1)] H(2) by blast+
    have al: "page_aligned q" using f(1) by (simp add: fresh_def)
    have ne: "fr q \<noteq> fr pt" using H(4) [of "fr q"] False G(2) by (simp add: fresh_def)
    define kd where "kd i = (PAGE_TABLE_0 + push_bit 12 (of_nat i)) OR PTE_PRESENT OR PTE_RW" for i
    define y where "y = fold (\<lambda>i. set_ram32 (q + 4 * of_nat i) (kd i)) [0..<KERNEL_PT_COUNT] x"
    define z where "z = set_ram32 (q + 4 * of_nat 32) (pt OR user_rw) y"
    have t: "t = z" "d = q" using r g h False by (auto simp: alloc_user_pgdir_def Let_def y_def z_def kd_def USER_PDE_INDEX_def or.assoc)
    have k: "\<forall>i\<in>set [0..<KERNEL_PT_COUNT]. i < 1024" by (simp add: KERNEL_PT_COUNT_def)
    note Y = set_dir_ram [OF al k, where g = kd and s = x, folded y_def]
    have rz: "\<forall>f. f \<noteq> fr q \<longrightarrow> ram z f = ram x f" "mem_map z = mem_map x" "max_map_nr z = max_map_nr x"
      using Y unfolding z_def by (simp_all add: set_ram32_slot [OF al, of 32] del: of_nat_numeral)
    note Z = fill_owned [OF ix(1) fresh_owned [OF f(1)] rz]
    have op: "owned W z pt" using fresh_owned [OF f(2)] Z(3) holders_cong [of W "frame_of z" "frame_of x"] Z(4) rz(3) by (simp add: owned_def)
    have "ent z (fr q) 32 = pt OR user_rw" unfolding z_def by (simp add: ent_set [OF al, of 32] del: of_nat_numeral)
    then have e: "pde z q = pt OR user_rw" by (simp only: pde_def)
    have r0: "ram z (fr pt) = (\<lambda>_. 0)" using rz(1) ne f(2) by (simp add: fresh_def)
    note N = mm_inv_new_space [OF Z(1,2) op ne e r0]
    show ?thesis using N(1,2) False ix(2) Y(4) by (simp add: t z_def)
  qed
  then show "d = 0 \<Longrightarrow> mm_inv W t" "d \<noteq> 0 \<Longrightarrow> mm_inv (insert d (fst W), snd W) t" "tasks_in W t" "d \<noteq> 0 \<Longrightarrow> d \<notin> fst W" by blast+
qed

subsection \<open>Pages of the kernel\<close>

lemma kernel_page_inv:
  assumes inv: "mm_inv W s" "tasks_in W s" and g: "get_free_page s = (pa, t)" "pa \<noteq> 0"
  shows "mm_inv (fst W, insert pa (snd W)) t" "tasks_in W t"
proof -
  note G = get_free_page_fresh [OF inv(1,1,2) g(1)]
  note it = reclaimsD(1) [OF G(1)]
  show "tasks_in W t" by (rule tasks_in_reclaims [OF inv(2) G(1)])
  have o: "owned W t pa" using fresh_owned [OF G(2) [OF g(2)]] .
  have "pa \<notin> snd W" using owned_unused [OF o, of "Kern pa"] by auto
  have "sep (fst W, insert pa (snd W)) (frame_of t) (exclusive t) (mem_map t) (max_map_nr t)"
  proof (rule sep_grow(1) [OF mm_invD(1) [OF it], where N = "{Kern pa}"])
    show "uses (fst W, insert pa (snd W)) = uses W \<union> {Kern pa}" "{Kern pa} \<inter> uses W = {}" using \<open>pa \<notin> snd W\<close> by (auto simp: uses_def)
  qed (use o sepD(1,2) [OF mm_invD(1) [OF it]] in \<open>auto simp: owned_def\<close>)
  then show "mm_inv (fst W, insert pa (snd W)) t" using it o by (simp add: mm_inv_def owned_def)
qed

lemma kernel_free_inv:
  assumes inv: "mm_inv W s" and pa: "pa \<in> snd W"
  shows "mm_inv (fst W, snd W - {pa}) (free_page pa s)"
proof -
  note sh = mm_inv_shrink [OF inv, of "(fst W, snd W - {pa})", simplified]
  have "owned (fst W, snd W - {pa}) s pa" using sh(2) [of "Kern pa" pa] pa mm_invD(5) [OF inv pa] by simp
  then show ?thesis by (rule free_owned(1) [OF sh(1)])
qed

end
