(* ===== verification/Isolation.thy ===== *)
theory Isolation
  imports Space_Ops
begin

text \<open>
  The memory manager as a machine: in whatever order tasks fork, fault, exit and run, and however short memory gets,
  the frames stay apart, so that no store of one program reaches the memory of another.
\<close>

subsection \<open>Steps\<close>

text \<open>
  One step is one operation of \<open>mm/memory.c\<close> as the kernel calls it, a store of a program to a page it may write, the
  processor's setting of an accessed bit, or a change of the task table. An address space is given up when no task
  has it any more.
\<close>

inductive mm_step :: "world \<Rightarrow> 'z mem_state_scheme \<Rightarrow> world \<Rightarrow> 'z mem_state_scheme \<Rightarrow> bool" where
  new_space: "alloc_user_pgdir s = (d, t) \<Longrightarrow> mm_step W s (if d = 0 then W else (insert d (fst W), snd W)) t"
| drop_space: "d \<in> fst W \<Longrightarrow> tasks_in (fst W - {d}, snd W) s \<Longrightarrow> free_user_space d s = Some t \<Longrightarrow> mm_step W s (fst W - {d}, snd W) t"
| share_space: "d \<in> fst W \<Longrightarrow> e \<in> fst W \<Longrightarrow> d \<noteq> e \<Longrightarrow> copy_page_tables d e s = (r, t) \<Longrightarrow> mm_step W s W t"
| new_page: "d \<in> fst W \<Longrightarrow> user_va va \<Longrightarrow> alloc_user_page d va s = (pa, t) \<Longrightarrow> mm_step W s W t"
| break_share: "t_pg_dir (cur s) \<in> fst W \<Longrightarrow> user_va a \<Longrightarrow> pte s (t_pg_dir (cur s)) (va_index a) AND PTE_COW \<noteq> 0 \<Longrightarrow>
    un_wp_page a s = (r, t) \<Longrightarrow> mm_step W s W t"
| demand: "d \<in> fst W \<Longrightarrow> user_va va \<Longrightarrow> get_free_page s = (pa, t) \<Longrightarrow> pa \<noteq> 0 \<Longrightarrow>
    mm_step W s W (map_user_page d va pa user_rw (t\<lparr>ram := (ram t)(fr pa := contents)\<rparr>))"
| swap_back: "d \<in> fst W \<Longrightarrow> user_va va \<Longrightarrow> get_free_page s = (pa, t) \<Longrightarrow> pa \<noteq> 0 \<Longrightarrow> swap_in_page slot pa t = (r, u) \<Longrightarrow>
    mm_step W s W (if r = 0 then map_user_page d va pa user_rw (swap_free_slot slot u) else free_page pa u)"
| kernel_page: "get_free_page s = (pa, t) \<Longrightarrow> mm_step W s (if pa = 0 then W else (fst W, insert pa (snd W))) t"
| kernel_free: "pa \<in> snd W \<Longrightarrow> mm_step W s (fst W, snd W - {pa}) (free_page pa s)"
| store: "d \<in> fst W \<Longrightarrow> i < 1024 \<Longrightarrow> pte s d i AND PTE_RW \<noteq> 0 \<Longrightarrow> pte_frame (pte s d i) = Some f \<Longrightarrow>
    mm_step W s W (s\<lparr>ram := (ram s)(f := contents)\<rparr>)"
| accessed: "d \<in> fst W \<Longrightarrow> i < 1024 \<Longrightarrow> mm_step W s W (set_ram32 (pte_at s d i) (pte s d i OR PTE_ACCESSED) s)"
| retask: "ram t = ram s \<Longrightarrow> mem_map t = mem_map s \<Longrightarrow> max_map_nr t = max_map_nr s \<Longrightarrow> tasks_in W t \<Longrightarrow> mm_step W s W t"

inductive mm_run :: "world \<Rightarrow> 'z mem_state_scheme \<Rightarrow> world \<Rightarrow> 'z mem_state_scheme \<Rightarrow> bool" for W s where
  start: "mm_run W s W s"
| more: "mm_run W s V t \<Longrightarrow> mm_step V t U u \<Longrightarrow> mm_run W s U u"

text \<open>A store into a page that is mapped writable changes nothing else.\<close>

lemma store_private:
  assumes inv: "mm_inv W s" and d: "d \<in> fst W" "i < 1024" "pte s d i AND PTE_RW \<noteq> 0" "pte_frame (pte s d i) = Some f"
  shows "mm_inv W (s\<lparr>ram := (ram s)(f := c)\<rparr>)" "u \<in> uses W \<Longrightarrow> u \<noteq> Page d i \<Longrightarrow> frame_of s u \<noteq> Some f"
    "e \<in> fst W \<Longrightarrow> pte (s\<lparr>ram := (ram s)(f := c)\<rparr>) e j = pte s e j"
proof -
  have fo: "frame_of s (Page d i) = Some f" using d(4) by (simp add: frame_of_Page del: frame_of.simps)
  show "u \<in> uses W \<Longrightarrow> u \<noteq> Page d i \<Longrightarrow> frame_of s u \<noteq> Some f"
    using sepD(5) [OF mm_invD(1) [OF inv], of "Page d i" u f] fo d by auto
  have "\<not> table_frame W s f" using held_not_table [OF inv _ _ fo] d by simp
  then have same: "\<forall>g. table_frame W s g \<longrightarrow> ram (s\<lparr>ram := (ram s)(f := c)\<rparr>) g = ram s g" by auto
  note p = tables_same [OF same]
  show "e \<in> fst W \<Longrightarrow> pte (s\<lparr>ram := (ram s)(f := c)\<rparr>) e j = pte s e j" by (rule p(3))
  have "\<forall>d\<in>fst W. pde (s\<lparr>ram := (ram s)(f := c)\<rparr>) d = pde s d \<and> (\<forall>i<1024. pte (s\<lparr>ram := (ram s)(f := c)\<rparr>) d i = pte s d i)"
    using p by blast
  then show "mm_inv W (s\<lparr>ram := (ram s)(f := c)\<rparr>)" by (rule mm_inv_cong [OF inv]) simp_all
qed

lemma same_entry_touch: "same_entry (v OR PTE_ACCESSED) v"
  unfolding same_entry_def by (simp add: bit.conj_disj_distrib2)

lemma map_user_page_tasks [simp]: "tasks_in W (map_user_page d va pa v s) = tasks_in W s"
  by (simp add: map_user_page_def split: option.splits)

lemma tasks_in_ram [simp]: "tasks_in W (s\<lparr>ram := m\<rparr>) = tasks_in W s"
  by (simp add: tasks_in_def)

lemma mm_step_inv:
  assumes "mm_step W s V t" "mm_inv W s" "tasks_in W s"
  shows "mm_inv V t \<and> tasks_in V t"
  using assms
proof (induction rule: mm_step.induct)
  case (new_space s d t W)
  have "tasks_in W t \<Longrightarrow> tasks_in (insert d (fst W), snd W) t" by (auto simp: tasks_in_def)
  then show ?case using alloc_user_pgdir_inv [OF new_space(2,3,1)] by simp
next
  case (drop_space d W s t)
  then show ?case using free_user_space_inv [OF drop_space(4,5,1,3)] by (simp add: tasks_in_def)
next
  case (share_space d W e s r t)
  then show ?case using copy_page_tables_inv [of W s d e r t] by blast
next
  case (new_page d W va s pa t)
  then show ?case using alloc_user_page_inv [of W s d va pa t] by blast
next
  case (break_share s W a r t)
  obtain new u where "get_free_page s = (new, u)" by fastforce
  then show ?case using un_wp_page_step(1) [OF break_share(5,6) refl break_share(1,2) refl break_share(3) _ break_share(4)] by blast
next
  case (demand d W va s pa t contents)
  note G = get_free_page_fresh [OF demand(5,5,6,3)]
  have o: "owned W t pa" using fresh_owned [OF G(2) [OF demand(4)]] .
  have r: "\<forall>f. f \<noteq> fr pa \<longrightarrow> ram (t\<lparr>ram := (ram t)(fr pa := contents)\<rparr>) f = ram t f" by simp
  note F = fill_owned [OF reclaimsD(1) [OF G(1)] o r, simplified]
  show ?case using map_user_page_inv [OF F(1,2) demand(1,2)] tasks_in_reclaims [OF demand(6) G(1)] by simp
next
  case (swap_back d W va s pa t slot r u)
  note G = get_free_page_fresh [OF swap_back(6,6,7,3)]
  note S = swap_in_owned [OF reclaimsD(1) [OF G(1)] tasks_in_reclaims [OF swap_back(7) G(1)] fresh_owned [OF G(2) [OF swap_back(4)]] swap_back(5)]
  show ?case using map_user_page_inv [OF S(4,5) swap_back(1,2)] S(1,2,3) by simp
next
  case (kernel_page s pa t W)
  have "tasks_in W t \<Longrightarrow> tasks_in (fst W, insert pa (snd W)) t" by (simp add: tasks_in_def)
  then show ?case using kernel_page_inv [OF kernel_page(2,3,1)] get_free_page_fresh(1) [OF kernel_page(2,2,3,1)]
      reclaimsD(1) [of W s t] tasks_in_reclaims [OF kernel_page(3), of t] by auto
next
  case (kernel_free pa W s)
  then show ?case using kernel_free_inv [of W s pa] by (simp add: tasks_in_def)
next
  case (store d W i s f contents)
  then show ?case using store_private(1) [OF store(5,1-4), of contents] by (simp add: tasks_in_def)
next
  case (accessed d W i s)
  then show ?case using reclaimsD(1) [OF reclaims_accessed [OF accessed(3,1,2) same_entry_touch]] by simp
next
  case (retask t s W)
  have "\<forall>d\<in>fst W. pde t d = pde s d \<and> (\<forall>i<1024. pte t d i = pte s d i)" using tables_same [of W s t] retask(1) by simp
  then show ?case using mm_inv_cong(1) [OF retask(5) _ retask(2,3)] retask(4) by simp
qed

lemma mm_run_inv: "mm_run W s V t \<Longrightarrow> mm_inv W s \<Longrightarrow> tasks_in W s \<Longrightarrow> mm_inv V t \<and> tasks_in V t"
  by (induction rule: mm_run.induct) (blast dest: mm_step_inv)+

lemma mm_inv_boot: "hi \<le> 2 ^ 32 \<Longrightarrow> mm_inv ({}, {}) (mem_init lo hi s)"
proof -
  assume "hi \<le> 2 ^ 32"
  then have "(hi - LOW_MEM) div PAGE_SIZE \<le> (2 ^ 32 - 0x100000) div 4096" unfolding LOW_MEM_def PAGE_SIZE_def by (intro div_le_mono) simp
  then have "256 + max_map_nr (mem_init lo hi s) \<le> 2 ^ 20" by (simp add: mem_init_def Let_def)
  moreover have "uses ({}, {}) = {}" by (simp add: uses_def)
  ultimately show ?thesis by (simp add: mm_inv_def sep_def slack_def holders_def)
qed

lemma tasks_in_boot: "tasks_in W s \<Longrightarrow> tasks_in W (mem_init lo hi s)"
  by (simp add: tasks_in_def mem_init_def Let_def)

lemma page_use:
  assumes inv: "mm_inv W s" and d: "d \<in> fst W" "i < 1024" "pte_frame (pte s d i) = Some f"
  shows "mem_map s (f - 256) \<noteq> 0" "\<not> table_frame W s f" "p \<in> snd W \<Longrightarrow> f \<noteq> fr p"
    "pte s d i AND PTE_RW \<noteq> 0 \<Longrightarrow> e \<in> fst W \<Longrightarrow> j < 1024 \<Longrightarrow> pte_frame (pte s e j) = Some f \<Longrightarrow> e = d \<and> j = i"
proof -
  have fo: "frame_of s (Page d i) = Some f" using d(3) by (simp add: frame_of_Page del: frame_of.simps)
  have u: "Page d i \<in> uses W" using d by simp
  have "Page d i \<in> holders W (frame_of s) f" using fo u by (simp add: holders_def del: frame_of.simps)
  then have "0 < card (holders W (frame_of s) f)" using finite_holders [OF mm_invD(1) [OF inv]] by (auto simp: card_gt_0_iff)
  then show "mem_map s (f - 256) \<noteq> 0" using mm_spare [OF inv u fo] by (auto simp: slack_def USED_def)
  show "\<not> table_frame W s f" by (rule held_not_table [OF inv u _ fo]) simp
  show "p \<in> snd W \<Longrightarrow> f \<noteq> fr p" using sepD(5) [OF mm_invD(1) [OF inv], of "Kern p" "Page d i" f] fo u by auto
  show "e = d \<and> j = i" if "pte s d i AND PTE_RW \<noteq> 0" "e \<in> fst W" "j < 1024" "pte_frame (pte s e j) = Some f"
    using sepD(5) [OF mm_invD(1) [OF inv] u, of "Page e j" f] fo that by (simp add: frame_of_Page del: frame_of.simps(3))
qed

subsection \<open>A machine with eighteen pages\<close>

text \<open>Just booted: the five pages of kernel tables and the last one, with the page map, are taken.\<close>

definition blank_machine :: mem_state where
  "blank_machine = \<lparr>task = (\<lambda>_. 0), tstruct = (\<lambda>_. zero_task), current = 0, jiffies = 0,
     hd_sectors = (\<lambda>_ _. 0), hd_resp = (\<lambda>_. True), hd_waits = 0, root_lba = 0,
     memory_end = 0, mem_map = (\<lambda>_. 0), max_map_nr = 0, ram = (\<lambda>_ _. 0), swap_map = (\<lambda>_. False), evict_cursor = 0,
     nr_swapouts = 0, nr_swapins = 0, nr_evicted = 0, nr_unmapped = 0, nr_page_faults = 0, nr_demand_pages = 0,
     nr_cow_breaks = 0, nr_oom = 0, nr_page_ins = 0\<rparr>"

abbreviation boot_mm :: mem_state where "boot_mm \<equiv> mem_init 0x105000 0x112000 blank_machine"

lemma boot_mm_map: "max_map_nr boot_mm = 18" "j < 18 \<Longrightarrow> mem_map boot_mm j = (if j < 5 \<or> j = 17 then 100 else 0)"
  "task boot_mm = (\<lambda>_. 0)" "mm_inv ({}, {}) boot_mm" "tasks_in W boot_mm"
proof -
  show "max_map_nr boot_mm = 18" by (simp add: mem_init_def Let_def LOW_MEM_def PAGE_SIZE_def)
  show "mem_map boot_mm j = (if j < 5 \<or> j = 17 then 100 else 0)" if "j < 18"
    using that by (auto simp: mem_init_def Let_def LOW_MEM_def PAGE_SIZE_def KERNEL_TABLES_END_def mark_used_def USED_def)
  show "task boot_mm = (\<lambda>_. 0)" by (simp add: mem_init_def Let_def blank_machine_def)
  then show "tasks_in W boot_mm" by (simp add: tasks_in_def)
  show "mm_inv ({}, {}) boot_mm" by (rule mm_inv_boot) simp
qed

lemma get_free_page_take:
  assumes "j < max_map_nr s" "mem_map s j = 0" "\<forall>i<j. mem_map s i \<noteq> 0"
  shows "get_free_page s = take_page j s"
proof -
  have "scan (\<lambda>i. mem_map s i = 0) 0 (max_map_nr s) = Some j" by (rule scan_eq_Some) (use assms in auto)
  then show ?thesis by (simp add: get_free_page_def)
qed

lemma take_page_parts: "fst (take_page j s) = of_nat (LOW_MEM + j * PAGE_SIZE)" "mem_map (snd (take_page j s)) = (mem_map s)(j := 1)"
  "max_map_nr (snd (take_page j s)) = max_map_nr s" "task (snd (take_page j s)) = task s"
  by (simp_all add: take_page_def)

lemma boot_space:
  obtains t where "alloc_user_pgdir boot_mm = (0x105000, t)" "mm_inv ({0x105000}, {}) t" "tasks_in ({0x105000}, {}) t"
    "get_free_page t = take_page 7 t" "max_map_nr t = 18" "mem_map t 7 = 0" "task t = (\<lambda>_. 0)" "mem_map t 8 = 0"
proof -
  define u where "u = snd (take_page 5 boot_mm)"
  define x where "x = snd (take_page 6 u)"
  have m0: "mem_map boot_mm i = 100" if "i < 5" for i using that boot_mm_map(2) [of i] by simp
  have m5: "mem_map boot_mm 5 = 0" "mem_map boot_mm 6 = 0" "mem_map boot_mm 7 = 0" "mem_map boot_mm 8 = 0"
    using boot_mm_map(2) [of 5] boot_mm_map(2) [of 6] boot_mm_map(2) [of 7] boot_mm_map(2) [of 8] by simp_all
  have mu: "mem_map u = (mem_map boot_mm)(5 := 1)" "max_map_nr u = 18" "task u = (\<lambda>_. 0)" using boot_mm_map(1,3) by (simp_all add: u_def take_page_parts)
  have mx: "mem_map x = (mem_map boot_mm)(5 := 1, 6 := 1)" "max_map_nr x = 18" "task x = (\<lambda>_. 0)" using mu by (simp_all add: x_def take_page_parts)
  have g1: "get_free_page boot_mm = (0x105000, u)"
    using get_free_page_take [of 5 boot_mm] boot_mm_map(1) m0 m5 take_page_parts(1) [of 5 boot_mm] by (simp add: u_def LOW_MEM_def PAGE_SIZE_def prod_eq_iff)
  have g2: "get_free_page u = (0x106000, x)"
  proof -
    have "i < 5 \<or> i = 5" if "i < 6" for i :: nat using that by linarith
    then have "\<forall>i<6. mem_map u i \<noteq> 0" using m0 mu(1) by auto
    then show ?thesis using get_free_page_take [of 6 u] mu m5 take_page_parts(1) [of 6 u] by (simp add: x_def LOW_MEM_def PAGE_SIZE_def prod_eq_iff)
  qed
  obtain d t where a: "alloc_user_pgdir boot_mm = (d, t)" by fastforce
  have t: "d = 0x105000" "mem_map t = mem_map x" "max_map_nr t = max_map_nr x" "task t = task x"
  proof -
    have k: "mem_map (fold (\<lambda>i. set_ram32 (h i) (w i)) is s) = mem_map s" "max_map_nr (fold (\<lambda>i. set_ram32 (h i) (w i)) is s) = max_map_nr s"
      "task (fold (\<lambda>i. set_ram32 (h i) (w i)) is s) = task s" for h w "is" and s :: mem_state
      by (induction "is" arbitrary: s) simp_all
    show "d = 0x105000" "mem_map t = mem_map x" "max_map_nr t = max_map_nr x" "task t = task x"
      using a g1 g2 by (auto simp: alloc_user_pgdir_def Let_def k)
  qed
  have "get_free_page t = take_page 7 t"
  proof (rule get_free_page_take)
    have "i < 5 \<or> i = 5 \<or> i = 6" if "i < 7" for i :: nat using that by linarith
    then show "\<forall>i<7. mem_map t i \<noteq> 0" using m0 mx(1) t(2) by auto
  qed (use mx m5 t in simp_all)
  moreover have "mm_inv ({0x105000}, {}) t" using alloc_user_pgdir_inv(2) [OF boot_mm_map(4,5) a] t(1) by simp
  moreover have "tasks_in ({0x105000}, {}) t" using t(4) mx(3) by (simp add: tasks_in_def)
  ultimately show ?thesis using that a t mx m5 by simp
qed

lemma boot_page:
  obtains u where "mm_run ({}, {}) boot_mm ({0x105000}, {}) u" "pte u 0x105000 0 AND PTE_RW \<noteq> 0" "pte_frame (pte u 0x105000 0) = Some 263"
proof -
  obtain t where t: "alloc_user_pgdir boot_mm = (0x105000, t)" "mm_inv ({0x105000}, {}) t" "tasks_in ({0x105000}, {}) t"
    "get_free_page t = take_page 7 t" "max_map_nr t = 18" "mem_map t 7 = 0" by (rule boot_space)
  obtain pa v where v: "take_page 7 t = (pa, v)" by fastforce
  then have pa: "pa = 0x107000" using take_page_parts(1) [of 7 t] by (simp add: LOW_MEM_def PAGE_SIZE_def)
  have tv: "reclaims ({0x105000}, {}) t v" using take_page_fresh(1) [OF t(2) _ _ v] t(5,6) by simp
  have va: "user_va USER_PROG_START" "va_index USER_PROG_START = 0" by (simp_all add: user_va_def va_index_def USER_PROG_START_def USER_PDE_INDEX_def)
  define u where "u = set_ram32 (pte_at v 0x105000 0) (pa OR user_rw) v"
  have "alloc_user_page 0x105000 USER_PROG_START t = (pa, u)"
    using pte_slot_user [OF reclaimsD(1) [OF tv], of "0x105000" USER_PROG_START] va v t(4) pa
    by (simp add: alloc_user_page_def u_def or.assoc)
  then have "mm_step ({0x105000}, {}) t ({0x105000}, {}) u" using va(1) by (intro new_page) simp_all
  moreover have "mm_step ({}, {}) boot_mm ({0x105000}, {}) t" using new_space [OF t(1), of "({}, {})"] by simp
  ultimately have run: "mm_run ({}, {}) boot_mm ({0x105000}, {}) u" by (blast intro: mm_run.intros)
  have "pte u 0x105000 0 = pa OR user_rw" using set_pte(3) [OF reclaimsD(1) [OF tv], where d = "0x105000" and i = 0 and e = "0x105000" and j = 0] by (simp add: u_def)
  then have "pte u 0x105000 0 AND PTE_RW \<noteq> 0" "pte_frame (pte u 0x105000 0) = Some 263"
    by (simp_all add: pa pte_consts pte_frame_def PAGE_SIZE_def)
  then show ?thesis using that run by blast
qed

lemma store_other_page:
  assumes "mm_inv W t" and "d \<in> fst W" and "i < 1024" and "pte t d i AND PTE_RW \<noteq> 0" and "pte_frame (pte t d i) = Some f"
    and "e \<in> fst W" and "j < 1024" and "(e, j) \<noteq> (d, i)"
  shows "pte_frame (pte t e j) \<noteq> Some f" and "page (t\<lparr>ram := (ram t)(f := c)\<rparr>) e j = page t e j"
proof -
  note pr = store_private [OF assms(1-5)]
  show n: "pte_frame (pte t e j) \<noteq> Some f" using pr(2) [of "Page e j"] assms(6-8) by (auto simp: frame_of_Page simp del: frame_of.simps(3))
  then show "page (t\<lparr>ram := (ram t)(f := c)\<rparr>) e j = page t e j" using pr(3) [OF assms(6)] by (cases "pte_frame (pte t e j)") (auto simp: page_def)
qed

subsection \<open>The guarantees\<close>

text \<open>
  C2. From boot on, whatever the kernel and the programs do, a page frame that some address space maps is counted as in
  use, is no page table, page directory or page of the kernel, and if it is mapped writable it is mapped once. So the
  allocator never hands out memory that a program still sees, also when it reclaims pages under pressure.
\<close>

theorem frames_stay_apart:
  assumes "mm_run ({}, {}) (mem_init lo hi s) W t" and "hi \<le> 2 ^ 32" and "tasks_in ({}, {}) s"
    and "d \<in> fst W" and "i < 1024" and "pte_frame (pte t d i) = Some f"
  shows "mem_map t (f - 256) \<noteq> 0 \<and> \<not> table_frame W t f \<and> (\<forall>p\<in>snd W. f \<noteq> fr p) \<and>
    (pte t d i AND PTE_RW \<noteq> 0 \<longrightarrow> (\<forall>e\<in>fst W. \<forall>j<1024. pte_frame (pte t e j) = Some f \<longrightarrow> e = d \<and> j = i))"
proof -
  have inv: "mm_inv W t" using mm_run_inv [OF assms(1) mm_inv_boot [OF assms(2)] tasks_in_boot [OF assms(3)]] by blast
  show ?thesis using page_use [OF inv assms(4-6)] by blast
qed

theorem frames_stay_apart_witness:
  "\<exists>t. mm_run ({}, {}) boot_mm ({0x105000}, {}) t \<and> pte_frame (pte t 0x105000 0) = Some 263 \<and> mem_map t 7 \<noteq> 0"
proof -
  obtain t where t: "mm_run ({}, {}) boot_mm ({0x105000}, {}) t" "pte_frame (pte t 0x105000 0) = Some 263" by (rule boot_page)
  have "tasks_in ({}, {}) blank_machine" by (simp add: tasks_in_def blank_machine_def)
  then have "mem_map t 7 \<noteq> 0" using frames_stay_apart [OF t(1) _ _ _ _ t(2)] by simp
  with t show ?thesis by blast
qed

text \<open>
  C3. A program's store reaches its own memory only. After any run of the memory manager, writing anything into a page
  that is mapped writable leaves every other page of every address space, and every page of the kernel, as it was.
\<close>

theorem stores_stay_private:
  assumes "mm_run ({}, {}) (mem_init lo hi s) W t" and "hi \<le> 2 ^ 32" and "tasks_in ({}, {}) s"
    and "d \<in> fst W" and "i < 1024" and "pte t d i AND PTE_RW \<noteq> 0" and "pte_frame (pte t d i) = Some f"
  shows "page (t\<lparr>ram := (ram t)(f := c)\<rparr>) d i = Some c \<and>
    (\<forall>e\<in>fst W. \<forall>j<1024. (e, j) \<noteq> (d, i) \<longrightarrow> page (t\<lparr>ram := (ram t)(f := c)\<rparr>) e j = page t e j) \<and>
    (\<forall>p\<in>snd W. ram (t\<lparr>ram := (ram t)(f := c)\<rparr>) (fr p) = ram t (fr p))"
proof -
  have inv: "mm_inv W t" using mm_run_inv [OF assms(1) mm_inv_boot [OF assms(2)] tasks_in_boot [OF assms(3)]] by blast
  note pr = store_private [OF inv assms(4-7)]
  have "page (t\<lparr>ram := (ram t)(f := c)\<rparr>) e j = page t e j" if e: "e \<in> fst W" "j < 1024" "(e, j) \<noteq> (d, i)" for e j
    by (rule store_other_page(2) [OF inv assms(4-7) e])
  moreover have "f \<noteq> fr p" if "p \<in> snd W" for p using pr(2) [of "Kern p"] that by auto
  ultimately show ?thesis using pr(3) [OF assms(4)] assms(7) by (auto simp: page_def)
qed

theorem stores_stay_private_witness:
  "\<exists>t. mm_run ({}, {}) boot_mm ({0x105000}, {}) t \<and> page (t\<lparr>ram := (ram t)(263 := (\<lambda>_. 1))\<rparr>) 0x105000 0 = Some (\<lambda>_. 1)"
proof -
  obtain t where t: "mm_run ({}, {}) boot_mm ({0x105000}, {}) t" "pte t 0x105000 0 AND PTE_RW \<noteq> 0" "pte_frame (pte t 0x105000 0) = Some 263"
    by (rule boot_page)
  have "tasks_in ({}, {}) blank_machine" by (simp add: tasks_in_def blank_machine_def)
  then have "page (t\<lparr>ram := (ram t)(263 := (\<lambda>_. 1))\<rparr>) 0x105000 0 = Some (\<lambda>_. 1)" using stores_stay_private [OF t(1) _ _ _ _ t(2,3)] by simp
  with t(1) show ?thesis by blast
qed

text \<open>
  C25. Breaking a copy-on-write share gives the writer a page of its own with the same bytes and disturbs nobody. When a
  frame is free the fault succeeds: the faulting page is then writable and holds what it held, and every page of every
  address space, those that shared the frame included, reads as before. The frame behind the page is private: no other
  page of any address space is mapped to it, it is neither a page table nor a frame of the kernel, and whatever is stored
  into it later changes no other page.
\<close>

theorem cow_break_copies:
  assumes "mm_inv W s" and "tasks_in W s" and "t_pg_dir (cur s) = d" and "d \<in> fst W" and "user_va a"
    and "pte s d (va_index a) AND PTE_COW \<noteq> 0" and "page s d (va_index a) = Some b" and "k < max_map_nr s" and "mem_map s k = 0"
  shows "\<exists>t. un_wp_page a s = (0, t) \<and> page t d (va_index a) = Some b \<and> pte t d (va_index a) AND PTE_RW \<noteq> 0 \<and>
    (\<forall>e\<in>fst W. \<forall>j<1024. page t e j = page s e j) \<and>
    (\<exists>f. pte_frame (pte t d (va_index a)) = Some f \<and> \<not> table_frame W t f \<and> (\<forall>p\<in>snd W. f \<noteq> fr p) \<and>
      (\<forall>e\<in>fst W. \<forall>j<1024. (e, j) \<noteq> (d, va_index a) \<longrightarrow> pte_frame (pte t e j) \<noteq> Some f \<and>
        (\<forall>c. page (t\<lparr>ram := (ram t)(f := c)\<rparr>) e j = page s e j)))"
proof -
  obtain r t where w: "un_wp_page a s = (r, t)" by fastforce
  have "\<exists>n. scan (\<lambda>i. mem_map s i = 0) 0 (max_map_nr s) = Some n" using assms(8,9) scan_None_iff [of "\<lambda>i. mem_map s i = 0" 0] by auto
  then obtain n where sc: "scan (\<lambda>i. mem_map s i = 0) 0 (max_map_nr s) = Some n" ..
  have n: "n < max_map_nr s" "mem_map s n = 0" "get_free_page s = take_page n s"
    using scan_SomeD [OF sc] sc by (simp_all add: get_free_page_def)
  obtain new u where u: "take_page n s = (new, u)" by fastforce
  note T = take_page_fresh [OF assms(1) n(1,2) u]
  have "256 \<le> fr new" using T(2) by (simp add: fresh_def)
  then have nz: "new \<noteq> 0" by (auto simp: PAGE_SIZE_def)
  have g: "get_free_page s = (new, u)" using n(3) u by simp
  note S = un_wp_page_step [OF assms(1-5) refl assms(6) g w]
  have r: "r = 0" using S(2) nz assms(7) by simp
  have pu: "page u e j = page s e j" if "e \<in> fst W" "j < 1024" for e j
    using reclaims_page [OF assms(1) T(1) that] T(3) [OF that(1), of j] by (auto simp: page_def)
  have "page t e j = page s e j" if "e \<in> fst W" "j < 1024" for e j
    using S(3) [OF r] pu [OF that] that assms(7) by (cases "(e, j) = (d, va_index a)") auto
  note same = this
  obtain f where f: "pte_frame (pte t d (va_index a)) = Some f" using S(3) [OF r] assms(7) by (auto simp: page_def split: option.splits)
  note P = page_use [OF conjunct1 [OF S(1)] assms(4) va_index_less f]
  have rw: "pte t d (va_index a) AND PTE_RW \<noteq> 0" using S(3) [OF r] by blast
  have "pte_frame (pte t e j) \<noteq> Some f \<and> (\<forall>c. page (t\<lparr>ram := (ram t)(f := c)\<rparr>) e j = page s e j)"
    if "e \<in> fst W" "j < 1024" "(e, j) \<noteq> (d, va_index a)" for e j
    using store_other_page [OF conjunct1 [OF S(1)] assms(4) va_index_less rw f that] same [OF that(1,2)] by simp
  note others = this
  have "un_wp_page a s = (0, t)" "page t d (va_index a) = Some b" using w r S(3) [OF r] assms(7) by auto
  then show ?thesis using rw same f P(2,3) others by (intro exI conjI ballI allI impI) auto
qed

text \<open>The machine with one address space whose first page is marked copy-on-write.\<close>

lemma boot_cow:
  obtains s :: mem_state where "mm_inv ({0x105000}, {}) s" "tasks_in ({0x105000}, {}) s" "t_pg_dir (cur s) = 0x105000"
    "pte s 0x105000 0 AND PTE_COW \<noteq> 0" "page s 0x105000 0 = Some (\<lambda>_. 0)" "max_map_nr s = 18" "mem_map s 8 = 0"
proof -
  let ?W = "({0x105000}, {}) :: world"
  obtain t where "alloc_user_pgdir boot_mm = (0x105000, t)" and t: "mm_inv ?W t" "tasks_in ?W t" "get_free_page t = take_page 7 t"
    "max_map_nr t = 18" "mem_map t 7 = 0" "task t = (\<lambda>_. 0)" "mem_map t 8 = 0" by (rule boot_space)
  obtain pa v where v: "take_page 7 t = (pa, v)" by fastforce
  have pa: "pa = 0x107000" using take_page_parts(1) [of 7 t] v by (simp add: LOW_MEM_def PAGE_SIZE_def)
  have v2: "mem_map v 8 = 0" "max_map_nr v = 18" "task v = (\<lambda>_. 0)" using take_page_parts(2-4) [of 7 t] v t by simp_all
  note T = take_page_fresh [OF t(1) _ t(5) v]
  have f: "fresh ?W v pa" "mm_inv ?W v" using T(2) reclaimsD(1) [OF T(1)] t(4) by simp_all
  let ?e = "pa OR 0x205"
  have e: "pte_frame ?e = Some (fr pa)" by (simp add: pa pte_frame_def pte_consts PAGE_SIZE_def)
  define y where "y = set_ram32 (pte_at v 0x105000 0) ?e v"
  have d: "(0x105000 :: u32) \<in> fst ?W" "(0 :: nat) < 1024" by simp_all
  have iy: "mm_inv ?W y" unfolding y_def by (rule map_owned(1) [OF f(2) fresh_owned [OF f(1)] d e])
  have py: "pte y 0x105000 0 = ?e" using set_pte(3) [OF f(2) d d(1), of ?e 0] by (simp add: y_def)
  have ry: "ram y (fr pa) = (\<lambda>_. 0)"
  proof -
    have "\<not> table_frame ?W v (fr pa)" using fresh_not_table [OF f(2)] f(1) by (simp add: fresh_def)
    then have "fr pa \<noteq> tabf v 0x105000" by (simp add: table_frame_def)
    then have "ram y (fr pa) = ram v (fr pa)" unfolding y_def by (rule ram_set_pte [OF d(2)])
    then show ?thesis using f(1) by (simp add: fresh_def)
  qed
  define z where "z = y\<lparr>tstruct := (\<lambda>_. zero_task\<lparr>t_pg_dir := 0x105000\<rparr>)\<rparr>"
  have z: "ram z = ram y" "mem_map z = mem_map y" "max_map_nr z = max_map_nr y" by (simp_all add: z_def)
  have p: "\<forall>d\<in>fst ?W. pde z d = pde y d \<and> (\<forall>i<1024. pte z d i = pte y d i)" using tables_same [of ?W y z] z(1) by simp
  have "pte z 0x105000 0 = ?e" using p py by simp
  then have "pte z 0x105000 0 AND PTE_COW \<noteq> 0" "page z 0x105000 0 = Some (\<lambda>_. 0)" using e ry z(1) by (simp_all add: page_def pa pte_consts)
  moreover have "mm_inv ?W z" by (rule mm_inv_cong(1) [OF iy p z(2,3)])
  moreover have "tasks_in ?W z" using v2(3) by (simp add: z_def y_def tasks_in_def)
  moreover have "t_pg_dir (cur z) = 0x105000" "max_map_nr z = 18" "mem_map z 8 = 0" using v2 by (simp_all add: z_def y_def)
  ultimately show ?thesis using that by blast
qed

theorem cow_break_copies_witness:
  "\<exists>(s :: mem_state) t. mm_inv ({0x105000}, {}) s \<and> un_wp_page 0x08000000 s = (0, t) \<and> page t 0x105000 0 = page s 0x105000 0"
proof -
  obtain s :: mem_state where s: "mm_inv ({0x105000}, {}) s" "tasks_in ({0x105000}, {}) s" "t_pg_dir (cur s) = 0x105000"
    "pte s 0x105000 0 AND PTE_COW \<noteq> 0" "page s 0x105000 0 = Some (\<lambda>_. 0)" "max_map_nr s = 18" "mem_map s 8 = 0" by (rule boot_cow)
  have va: "user_va 0x08000000" "va_index 0x08000000 = 0" by (simp_all add: user_va_def va_index_def USER_PDE_INDEX_def)
  show ?thesis using cow_break_copies [OF s(1-3) _ va(1), of "\<lambda>_. 0" 8] s va(2) by auto
qed

subsection \<open>Swap\<close>

definition slot_sector :: "'z hd_state_scheme \<Rightarrow> nat \<Rightarrow> nat \<Rightarrow> bool" where
  "slot_sector s slot i \<longleftrightarrow> SWAP_START_LBA + slot * SWAP_SLOT_SECTORS + root_lba s \<le> i \<and>
     i < SWAP_START_LBA + slot * SWAP_SLOT_SECTORS + root_lba s + SWAP_SLOT_SECTORS"

definition swap_fits :: "'z hd_state_scheme \<Rightarrow> bool" where
  "swap_fits s \<longleftrightarrow> SWAP_START_LBA + NR_SWAP_SLOTS * SWAP_SLOT_SECTORS + root_lba s \<le> HD_LIMIT"

lemma slot_fits: "swap_fits s \<Longrightarrow> n < NR_SWAP_SLOTS \<Longrightarrow> SWAP_START_LBA + n * SWAP_SLOT_SECTORS + root_lba s + SWAP_SLOT_SECTORS \<le> HD_LIMIT"
  by (simp add: swap_fits_def swap_consts)

text \<open>
  C26. A page that goes out to swap comes back as it was. With a slot free and a drive that answers, the page is written to
  a slot that held nothing, only that slot's eight sectors change on the disk, and reading the slot later, into any
  frame, gives the same 4096 bytes as long as those sectors were left alone.
\<close>

theorem swap_roundtrip:
  fixes s :: "'z mem_state_scheme"
  assumes "hd_ok s" and "swap_fits s" and "k < NR_SWAP_SLOTS" and "\<not> swap_map s k"
  shows "\<exists>n t. swap_out_page pa s = (int n, t) \<and> n < NR_SWAP_SLOTS \<and> \<not> swap_map s n \<and> swap_map t = (swap_map s)(n := True) \<and>
    ram t = ram s \<and> (\<forall>i. \<not> slot_sector s n i \<longrightarrow> hd_sectors t i = hd_sectors s i) \<and>
    (\<forall>(u :: 'z mem_state_scheme) pb. hd_ok u \<and> root_lba u = root_lba s \<and> (\<forall>i. slot_sector s n i \<longrightarrow> hd_sectors u i = hd_sectors t i) \<longrightarrow>
      (\<exists>v. swap_in_page (int n) pb u = (0, v) \<and> (\<forall>j<PAGE_SIZE. ram v (fr pb) j = ram s (fr pa) j) \<and> (\<forall>f. f \<noteq> fr pb \<longrightarrow> ram v f = ram u f)))"
proof -
  have "\<exists>n. scan (\<lambda>i. \<not> swap_map s i) 0 NR_SWAP_SLOTS = Some n" using assms(3,4) scan_None_iff [of "\<lambda>i. \<not> swap_map s i" 0] by auto
  then obtain n where sc: "scan (\<lambda>i. \<not> swap_map s i) 0 NR_SWAP_SLOTS = Some n" ..
  have n: "n < NR_SWAP_SLOTS" "\<not> swap_map s n" using scan_SomeD [OF sc] by auto
  let ?a = "SWAP_START_LBA + n * SWAP_SLOT_SECTORS"
  have fit: "?a + root_lba s + SWAP_SLOT_SECTORS \<le> HD_LIMIT" "0 < SWAP_SLOT_SECTORS" using slot_fits [OF assms(2) n(1)] by (simp_all add: swap_consts)
  define x where "x = s\<lparr>swap_map := (swap_map s)(n := True)\<rparr>"
  have xo: "hd_ok x" "root_lba x = root_lba s" "ram x = ram s" "hd_sectors x = hd_sectors s" using assms(1) by (simp_all add: x_def hd_ok_def)
  define S where "S = (\<lambda>i. if slot_sector s n i then (\<lambda>k. if k < 512 then ram s (fr pa) ((i - (?a + root_lba s)) * 512 + k) else 0) else hd_sectors s i)"
  have "hd_write_sectors ?a SWAP_SLOT_SECTORS (ram s (fr pa)) x = (0, x\<lparr>hd_waits := hd_waits x + 3 + SWAP_SLOT_SECTORS, hd_sectors := S\<rparr>)"
    using hd_write_sectors_ok [OF xo(1), of ?a SWAP_SLOT_SECTORS "ram s (fr pa)"] fit by (simp add: xo S_def slot_sector_def cong: if_cong)
  then obtain t where t: "swap_out_page pa s = (int n, t)" "swap_map t = (swap_map s)(n := True)" "ram t = ram s" "hd_sectors t = S"
    by (simp add: swap_out_page_def swap_alloc_slot_def sc x_def [symmetric] xo) (simp add: x_def)
  have rd: "\<exists>v. swap_in_page (int n) pb u = (0, v) \<and> (\<forall>j<PAGE_SIZE. ram v (fr pb) j = ram s (fr pa) j) \<and> (\<forall>f. f \<noteq> fr pb \<longrightarrow> ram v f = ram u f)"
    if u: "hd_ok u" "root_lba u = root_lba s" "\<forall>i. slot_sector s n i \<longrightarrow> hd_sectors u i = hd_sectors t i" for u :: "'z mem_state_scheme" and pb
  proof -
    define d where "d = (\<lambda>k. if k < SWAP_SLOT_SECTORS * 512 then hd_sectors u (?a + root_lba u + k div 512) (k mod 512) else ram u (fr pb) k)"
    have r: "hd_read_sectors ?a SWAP_SLOT_SECTORS (ram u (fr pb)) u = (0, d, u\<lparr>hd_waits := hd_waits u + 2 + SWAP_SLOT_SECTORS\<rparr>)"
      using hd_read_sectors_ok [OF u(1), of ?a SWAP_SLOT_SECTORS "ram u (fr pb)"] fit u(2) by (simp add: d_def)
    have "d j = ram s (fr pa) j" if "j < PAGE_SIZE" for j
    proof -
      have j: "j < 8 * 512" "j div 512 < 8" using that by (simp_all add: PAGE_SIZE_def)
      then have "slot_sector s n (?a + root_lba s + j div 512)" by (simp add: slot_sector_def swap_consts)
      then have "hd_sectors u (?a + root_lba s + j div 512) (j mod 512) = ram s (fr pa) (j div 512 * 512 + j mod 512)" using u(3) by (simp add: t(4) S_def)
      then show ?thesis using j(1) u(2) by (simp add: d_def swap_consts)
    qed
    then show ?thesis using r n(1) by (simp add: swap_in_page_def Let_def)
  qed
  have "hd_sectors t i = hd_sectors s i" if "\<not> slot_sector s n i" for i using that by (simp add: t(4) S_def)
  with t n rd show ?thesis by blast
qed

theorem swap_roundtrip_witness:
  "hd_ok blank_machine \<and> swap_fits blank_machine \<and> (\<exists>n t. swap_out_page 0x105000 blank_machine = (int n, t) \<and> n < NR_SWAP_SLOTS)"
proof -
  have h: "hd_ok blank_machine" "swap_fits blank_machine" "0 < NR_SWAP_SLOTS" "\<not> swap_map blank_machine 0"
    by (simp_all add: hd_ok_def swap_fits_def blank_machine_def swap_consts HD_LIMIT_def)
  show ?thesis using swap_roundtrip [OF h, of "0x105000"] h by blast
qed

end
