(* ===== verification/Boot.thy ===== *)
theory Boot
  imports Delivery Isolation
begin

text \<open>
  Starting the kernel: \<open>main\<close> of \<open>kernel/main.c\<close>, the layout it assumes (\<open>include/linux/memmap.h\<close>) and the check of
  the memory map in \<open>mm/memcheck.c\<close>. What the boot code left in memory is an argument: the extended memory in KB, the
  sector of the root image, the link-time end of the kernel. A panic is \<open>None\<close>.
\<close>

unbundle bit_operations_syntax

subsection \<open>The layout\<close>

definition KERNEL_IMG_BASE :: nat where "KERNEL_IMG_BASE = 0x10800"
definition KERNEL_IMAGE_LIMIT :: nat where "KERNEL_IMAGE_LIMIT = 0x30000"
definition KERNEL_LOW_MEM :: nat where "KERNEL_LOW_MEM = 0x100000"
definition KERNEL_IDENTITY_TOP :: nat where "KERNEL_IDENTITY_TOP = KERNEL_PT_COUNT * 2 ^ 22"
definition PHYS_MEM_TOP :: nat where "PHYS_MEM_TOP = KERNEL_IDENTITY_TOP"
definition MEMORY_END_MINIMUM :: nat where "MEMORY_END_MINIMUM = 0x400000"
definition BUFFER_CACHE_TOP :: nat where "BUFFER_CACHE_TOP = 0x3F0000"
definition USER_STACK_END :: u32 where "USER_STACK_END = USER_WINDOW_TOP"
definition BUFFER_CACHE_WINDOW :: nat where "BUFFER_CACHE_WINDOW = BUFFER_CACHE_TOP - BUFFER_CACHE_FLOOR"

text \<open>The build stops unless these hold.\<close>

definition memmap_asserts :: bool where
  "memmap_asserts \<longleftrightarrow>
     KERNEL_IMG_BASE < KERNEL_IMAGE_LIMIT \<and> KERNEL_IMAGE_LIMIT \<le> unat KERNEL_HEAP_START \<and>
     unat KERNEL_HEAP_END \<le> KERNEL_LOW_MEM \<and> KERNEL_LOW_MEM < KERNEL_IDENTITY_TOP \<and>
     PAGE_TABLE_0 = PAGE_DIRECTORY + 0x1000 \<and> KERNEL_LOW_MEM \<le> unat PAGE_DIRECTORY \<and>
     KERNEL_TABLES_END \<le> MEMORY_END_MINIMUM \<and> KERNEL_IMG_BASE = KERNEL_LOW_MEM - 0xEF800 \<and>
     USER_BASE = push_bit 22 USER_PDE_INDEX \<and> USER_WINDOW_SIZE = 0x400000 \<and> USER_PROG_START = USER_BASE \<and>
     USER_PROG_START < USER_PROG_END \<and> USER_PROG_END \<le> USER_HEAP_START \<and> USER_HEAP_START < USER_HEAP_END \<and>
     USER_HEAP_END \<le> USER_STACK_FLOOR \<and> USER_STACK_FLOOR < USER_STACK_TOP \<and> USER_STACK_TOP < USER_WINDOW_TOP \<and>
     USER_ARGV_STR_TOP > USER_STACK_TOP \<and> USER_ARGV_STR_TOP < USER_WINDOW_TOP \<and>
     USER_STACK_END = USER_WINDOW_TOP \<and> USER_SIGRETURN_ENTRY = USER_ARGV_STR_TOP \<and>
     BUFFER_CACHE_WINDOW \<ge> 8 * (BLOCK_SIZE + 64) \<and> NR_BUFFERS * (BLOCK_SIZE + 64) \<le> BUFFER_CACHE_WINDOW \<and>
     KERNEL_TABLES_END \<le> BUFFER_CACHE_FLOOR \<and> MEMORY_END_MINIMUM > BUFFER_CACHE_TOP \<and>
     SWAP_SLOT_SECTORS * 512 = 4096 \<and> NR_SWAP_SLOTS \<le> 4096"

subsection \<open>Panic\<close>

text \<open>What \<open>panic\<close> leaves on the serial line and on the screen before it halts for good.\<close>

definition panic :: "byte list \<Rightarrow> 'z tty_state_scheme \<Rightarrow> 'z tty_state_scheme" where
  "panic msg s =
     (let t = map (\<lambda>c. of_nat (of_char c)) ''KERNEL PANIC: '' @ msg
      in (fold serial_putc (t @ [13, 10]) s)
           \<lparr>video_mem := (\<lambda>i. if i < length t \<and> i < COLS * ROWS then 0x0700 OR ucast (t ! i) else video_mem s i)\<rparr>)"

subsection \<open>The memory map check\<close>

text \<open>
  Each numbered check of \<open>mem_check\<close> is one conjunct; any that fails ends in a panic. A map that was never set up has
  no frames.
\<close>

definition mem_check :: "u32 \<Rightarrow> 'z buf_state_scheme \<Rightarrow> 'z buf_state_scheme option" where
  "mem_check kernel_end s =
     (let used = (\<lambda>i. mem_map s i = USED);
          free_pages = length (filter (\<lambda>i. mem_map s i = 0) [0..<max_map_nr s])
      in if max_map_nr s = 0 then None
         else if unat (memory_end s) < MEMORY_END_MINIMUM then None
         else if buf_mem_start s = 0 \<or> buffer_cache_end s = 0 then None
         else if unat (memory_end s) \<le> KERNEL_IDENTITY_TOP
               \<and> kernel_end < KERNEL_HEAP_START
               \<and> list_all used [MAP_NR PAGE_DIRECTORY..<min (MAP_NR (of_nat KERNEL_TABLES_END)) (max_map_nr s)]
               \<and> buffer_cache_end s \<le> BUFFER_CACHE_TOP
               \<and> buf_mem_start s \<ge> BUFFER_CACHE_FLOOR
               \<and> list_all (\<lambda>i. i < max_map_nr s \<longrightarrow> used i)
                   [MAP_NR (of_nat (buf_mem_start s) AND NOT 0xFFF)..<(buffer_cache_end s + PAGE_SIZE - 1 - LOW_MEM) div PAGE_SIZE]
               \<and> USER_STACK_TOP < USER_ARGC_ADDR \<and> USER_ARGV_ADDR < USER_ARGV_STR_TOP
               \<and> USER_SIGRETURN_ENTRY + 20 \<le> USER_TAIL_TOP \<and> USER_TAIL_TOP = USER_WINDOW_TOP
               \<and> nr_buffers s = NR_BUFFERS
               \<and> USER_PROG_START < USER_PROG_END \<and> USER_PROG_END \<le> USER_HEAP_START \<and> USER_HEAP_START < USER_HEAP_END
               \<and> USER_HEAP_END \<le> USER_STACK_FLOOR \<and> USER_STACK_FLOOR < USER_STACK_TOP \<and> USER_STACK_TOP < USER_WINDOW_TOP
               \<and> ram32 s (PAGE_DIRECTORY + 4 * USER_PDE_INDEX) AND PTE_PRESENT = 0
               \<and> free_pages \<ge> 32
              then Some s else None)"

subsection \<open>\<open>main\<close>\<close>

definition phys_mem_end :: "u16 \<Rightarrow> u32" where
  "phys_mem_end ext_kb =
     (let e = (if ext_kb = 0 then of_nat PHYS_MEM_TOP else push_bit 20 1 + push_bit 10 (ucast ext_kb));
          e = (if e > of_nat KERNEL_IDENTITY_TOP then of_nat KERNEL_IDENTITY_TOP else e);
          e = e AND 0xFFFFF000
      in if e < of_nat MEMORY_END_MINIMUM then of_nat MEMORY_END_MINIMUM else e)"

definition hd_set_root_lba :: "u32 \<Rightarrow> 'z hd_state_scheme \<Rightarrow> 'z hd_state_scheme" where
  "hd_set_root_lba lba s = s\<lparr>root_lba := unat lba\<rparr>"

definition main_memory :: "u16 \<Rightarrow> u32 \<Rightarrow> u32 \<Rightarrow> 'z buf_state_scheme \<Rightarrow> 'z buf_state_scheme option" where
  "main_memory ext_kb fs_base kernel_end s = do {
     let s = hd_set_root_lba fs_base s;
     let s = mem_init (unat (kernel_end + 0x1000)) (unat (phys_mem_end ext_kb)) s;
     s \<leftarrow> buffer_init BUFFER_CACHE_TOP s;
     mem_check kernel_end s }"

text \<open>
  The drivers' initialisations program ports only, except for the screen; a root file system that cannot be mounted is
  reported and boot goes on.
\<close>

definition tty_init :: "'z tty_state_scheme \<Rightarrow> 'z tty_state_scheme" where
  "tty_init s = con_init s"

definition main_init :: "u16 \<Rightarrow> u32 \<Rightarrow> u32 \<Rightarrow> u32 \<Rightarrow> u32 \<Rightarrow> u32 \<Rightarrow> 'z sys_state_scheme \<Rightarrow> 'z sys_state_scheme option" where
  "main_init ext_kb fs_base kernel_end init_task sync_page sync_entry s = do {
     s \<leftarrow> main_memory ext_kb fs_base kernel_end s;
     let s = sched_init_early init_task (tty_init s);
     (r, s) \<leftarrow> sys_setup s;
     sched_init init_task kernel_end sync_page sync_entry s }"

subsection \<open>What the boot sequence guarantees\<close>

lemma memmap_asserts_hold: "memmap_asserts"
  unfolding memmap_asserts_def KERNEL_IMG_BASE_def KERNEL_IMAGE_LIMIT_def KERNEL_LOW_MEM_def KERNEL_IDENTITY_TOP_def
    PHYS_MEM_TOP_def MEMORY_END_MINIMUM_def BUFFER_CACHE_TOP_def BUFFER_CACHE_WINDOW_def BUFFER_CACHE_FLOOR_def
    KERNEL_HEAP_START_def KERNEL_HEAP_END_def PAGE_TABLE_0_def PAGE_DIRECTORY_def KERNEL_TABLES_END_def
    KERNEL_PT_COUNT_def user_consts USER_ARGV_STR_TOP_def USER_SIGRETURN_ENTRY_def USER_STACK_END_def
    BLOCK_SIZE_def NR_BUFFERS_def swap_consts
  by (simp add: push_bit_eq_mult)

lemma phys_mem_end_range:
  obtains n where "unat (phys_mem_end k) = 4096 * (n + 256)" "768 \<le> n" "n \<le> 3840"
proof -
  define e where "e = (if k = 0 then of_nat PHYS_MEM_TOP else push_bit 20 1 + push_bit 10 (ucast k) :: u32)"
  define f where "f = (if e > of_nat KERNEL_IDENTITY_TOP then of_nat KERNEL_IDENTITY_TOP else e)"
  define g where "g = f AND PT_MASK"
  have top: "f \<le> 0x1000000" by (auto simp: f_def KERNEL_IDENTITY_TOP_def KERNEL_PT_COUNT_def not_less)
  have m: "unat g = unat f div 4096 * 4096"
    using page_aligned_mask [of f] fr_mask [of f] unfolding page_aligned_unat g_def by (simp add: PAGE_SIZE_def)
  have p: "phys_mem_end k = (if g < 0x400000 then 0x400000 else g)"
    by (simp add: phys_mem_end_def Let_def g_def f_def e_def MEMORY_END_MINIMUM_def PT_MASK_def)
  have "unat f \<le> 0x1000000" using top by (simp add: word_le_nat_alt)
  then have le: "unat f div 4096 \<le> 4096" by simp
  show thesis
  proof (cases "g < 0x400000")
    case True
    with p show ?thesis by (intro that [of 768]) simp_all
  next
    case False
    then have "1024 \<le> unat f div 4096" using m by (simp add: word_less_nat_alt not_less)
    with le p m False show ?thesis
      by (intro that [of "unat f div 4096 - 256"]) simp_all
  qed
qed

lemma diff_split: "a \<le> b \<Longrightarrow> b \<le> c \<Longrightarrow> c - a = (b - a) + (c - b)" for a b c :: nat
  by simp

lemma mem_init_map:
  assumes "lo \<le> 0x105000" "768 \<le> n" "n \<le> 3840"
  shows "max_map_nr (mem_init lo (4096 * (n + 256)) s) = n"
    "memory_end (mem_init lo (4096 * (n + 256)) s) = of_nat (4096 * (n + 256))"
    "mem_map (mem_init lo (4096 * (n + 256)) s) i =
       (if i < n then if i < 5 \<or> n - (4 * n + 4095) div 4096 \<le> i then USED else 0 else mem_map s i)"
proof -
  have l: "(4096 * (n + 256) - 0x100000) div 4096 = n" by simp
  define q where "q = (4 * n + 4095) div 4096"
  have q: "4096 * (n + 256) - 4 * n - (4096 * (n + 256) - 4 * n) mod 4096 = 4096 * (n + 256 - q)" "q \<le> 4" "1 \<le> q"
  proof -
    have b: "4 * n \<le> 4096 * q" "4096 * q < 4 * n + 4096" unfolding q_def by linarith+
    then show "q \<le> 4" "1 \<le> q" using assms by simp_all
    then have "4096 * q \<le> 4096 * (n + 256)" using assms by simp
    from diff_split [OF b(1) this] have e: "4096 * (n + 256) - 4 * n = (4096 * q - 4 * n) + 4096 * (n + 256 - q)"
      unfolding diff_mult_distrib2 .
    have "(4096 * (n + 256) - 4 * n) mod 4096 = 4096 * q - 4 * n" unfolding e mod_mult_self2 using b by simp
    then show "4096 * (n + 256) - 4 * n - (4096 * (n + 256) - 4 * n) mod 4096 = 4096 * (n + 256 - q)" by (metis e diff_add_inverse)
  qed
  have l2: "(4096 * (n + 256 - q) - 0x100000) div 4096 = n - q" using q(2) assms by simp
  have l3: "4096 * (n + 256) - 4 * n + 4 * n - 1 - 0x100000 = 4096 * (n - 1) + 4095" using assms by simp
  have l4: "(4096 * (n - 1) + 4095) div 4096 = n - 1" by presburger
  show "max_map_nr (mem_init lo (4096 * (n + 256)) s) = n"
    "memory_end (mem_init lo (4096 * (n + 256)) s) = of_nat (4096 * (n + 256))"
    by (simp_all add: mem_init_def Let_def LOW_MEM_def PAGE_SIZE_def)
  show "mem_map (mem_init lo (4096 * (n + 256)) s) i =
       (if i < n then if i < 5 \<or> n - (4 * n + 4095) div 4096 \<le> i then USED else 0 else mem_map s i)"
    unfolding mem_init_def Let_def LOW_MEM_def PAGE_SIZE_def l KERNEL_TABLES_END_def mult.commute [of n 4] q(1) l2 l3 l4
    using assms q(2,3) by (simp add: mark_used_def q_def [symmetric])
qed

text \<open>The pages the boot sequence sets aside: the kernel's page tables, the buffer cache and the page map.\<close>

definition reserved :: "'z mem_state_scheme \<Rightarrow> u32 set" where
  "reserved s = (\<lambda>i. of_nat (LOW_MEM + i * PAGE_SIZE)) ` {i. i < max_map_nr s \<and> mem_map s i = USED}"

lemma buffer_init_top:
  obtains t where "buffer_init BUFFER_CACHE_TOP u = Some t" "mem_map t = mark_used 0x2AD (min 0x2F0 (max_map_nr u)) (mem_map u)"
    "buf_mem_start t = 0x3ADC00" "buffer_cache_end t = 0x3F0000" "nr_buffers t = NR_BUFFERS"
    "max_map_nr t = max_map_nr u" "memory_end t = memory_end u" "ram t = ram u" "task t = task u" "tstruct t = tstruct u"
proof -
  have c: "BUFFER_CACHE_TOP - NR_BUFFERS * SIZEOF_BUFFER_HEAD - NR_BUFFERS * BLOCK_SIZE = 0x3ADC00" "\<not> 0x3ADC00 < BUFFER_CACHE_FLOOR"
    "(0x3ADC00 - 0x3ADC00 mod PAGE_SIZE - LOW_MEM) div PAGE_SIZE = 0x2AD" "(BUFFER_CACHE_TOP - 1 - LOW_MEM) div PAGE_SIZE + 1 = 0x2F0"
    by (simp_all add: BUFFER_CACHE_TOP_def NR_BUFFERS_def SIZEOF_BUFFER_HEAD_def BLOCK_SIZE_def BUFFER_CACHE_FLOOR_def LOW_MEM_def PAGE_SIZE_def)
  show thesis
    by (rule that [of "the (buffer_init BUFFER_CACHE_TOP u)"], unfold buffer_init_def Let_def c if_False option.sel)
      (simp_all add: BUFFER_CACHE_TOP_def BUFFER_CACHE_FLOOR_def)
qed

lemma mem_check_passes:
  assumes "kernel_end < KERNEL_HEAP_START" "max_map_nr t = n" "768 \<le> n" "n \<le> 3840" "unat (memory_end t) = 4096 * (n + 256)"
    "buf_mem_start t = 0x3ADC00" "buffer_cache_end t = 0x3F0000" "nr_buffers t = NR_BUFFERS"
    and m: "\<forall>i<n. mem_map t i = (if i < 5 \<or> n - (4 * n + 4095) div 4096 \<le> i \<or> (0x2AD \<le> i \<and> i < 0x2F0) then USED else 0)"
    and p: "ram32 t (PAGE_DIRECTORY + 4 * USER_PDE_INDEX) AND PTE_PRESENT = 0"
  shows "mem_check kernel_end t = Some t"
proof -
  have nr: "MAP_NR PAGE_DIRECTORY = 0" "MAP_NR (of_nat KERNEL_TABLES_END) = 5" "MAP_NR (of_nat 0x3ADC00 AND NOT 0xFFF) = 0x2AD"
    by (simp_all add: MAP_NR_def LOW_MEM_def PAGE_SIZE_def PAGE_DIRECTORY_def KERNEL_TABLES_END_def)
  have "[5..<37] = filter (\<lambda>i. mem_map t i = 0) [5..<37]"
    using m assms(3,4) by (intro filter_True [symmetric]) (auto simp: USED_def simp del: upt_rec_numeral)
  also have "length (filter (\<lambda>i. mem_map t i = 0) [5..<37]) \<le> length (filter (\<lambda>i. mem_map t i = 0) [0..<n])"
  proof -
    have "[0..<n] = [0..<5] @ [5..<37] @ [37..<n]" using assms(3) upt_add_eq_append [of 0 5 "n - 5"] upt_add_eq_append [of 5 37 "n - 37"] by simp
    then show ?thesis by simp
  qed
  finally have free: "32 \<le> length (filter (\<lambda>i. mem_map t i = 0) [0..<n])" by simp
  have u: "list_all (\<lambda>i. mem_map t i = USED) [0..<5]" "list_all (\<lambda>i. i < n \<longrightarrow> mem_map t i = USED) [0x2AD..<0x2F0]"
    using m assms(3) by (auto simp: list_all_iff simp del: upt_rec_numeral)
  show ?thesis
    unfolding mem_check_def Let_def assms(2,5,6,7,8) nr
    using assms(1,3,4) p free u by (simp add: MEMORY_END_MINIMUM_def KERNEL_IDENTITY_TOP_def KERNEL_PT_COUNT_def BUFFER_CACHE_TOP_def
        BUFFER_CACHE_FLOOR_def user_consts USER_ARGC_ADDR_def USER_ARGV_ADDR_def USER_ARGV_STR_TOP_def USER_SIGRETURN_ENTRY_def PAGE_SIZE_def LOW_MEM_def
        del: upt_rec_numeral)
qed

lemma main_memory_map:
  assumes "kernel_end < KERNEL_HEAP_START" "ram32 s (PAGE_DIRECTORY + 4 * USER_PDE_INDEX) AND PTE_PRESENT = 0"
  obtains n t where "main_memory k b kernel_end s = Some t" "768 \<le> n" "n \<le> 3840" "max_map_nr t = n"
    "unat (memory_end t) = 4096 * (n + 256)" "buf_mem_start t = 0x3ADC00" "buffer_cache_end t = 0x3F0000"
    "\<And>i. i < n \<Longrightarrow> mem_map t i = (if i < 5 \<or> n - (4 * n + 4095) div 4096 \<le> i \<or> (0x2AD \<le> i \<and> i < 0x2F0) then USED else 0)"
    "task t = task s" "tstruct t = tstruct s"
proof -
  obtain n where n: "unat (phys_mem_end k) = 4096 * (n + 256)" "768 \<le> n" "n \<le> 3840" by (rule phys_mem_end_range)
  have "unat (kernel_end + 0x1000) \<le> unat kernel_end + 0x1000" by (simp add: unat_word_ariths)
  then have lo: "unat (kernel_end + 0x1000) \<le> 0x105000" using assms(1) by (simp add: KERNEL_HEAP_START_def word_less_nat_alt)
  define u where "u = mem_init (unat (kernel_end + 0x1000)) (4096 * (n + 256)) (hd_set_root_lba b s)"
  note M = mem_init_map [OF lo n(2,3), of "hd_set_root_lba b s", folded u_def]
  obtain t where t: "buffer_init BUFFER_CACHE_TOP u = Some t" "mem_map t = mark_used 0x2AD (min 0x2F0 (max_map_nr u)) (mem_map u)"
    "buf_mem_start t = 0x3ADC00" "buffer_cache_end t = 0x3F0000" "nr_buffers t = NR_BUFFERS"
    "max_map_nr t = max_map_nr u" "memory_end t = memory_end u" "ram t = ram u" "task t = task u" "tstruct t = tstruct u"
    by (rule buffer_init_top)
  have f: "ram u = ram s" "task u = task s" "tstruct u = tstruct s" by (simp_all add: u_def mem_init_def Let_def hd_set_root_lba_def)
  have e: "unat (memory_end u) = 4096 * (n + 256)" using n(3) by (simp add: M(2) unat_of_nat_w32 del: of_nat_mult of_nat_add)
  have m: "i < n \<Longrightarrow> mem_map t i = (if i < 5 \<or> n - (4 * n + 4095) div 4096 \<le> i \<or> (0x2AD \<le> i \<and> i < 0x2F0) then USED else 0)" for i
    using M(3) [of i] n(2) by (auto simp: t(2) M(1) mark_used_def)
  then have m': "\<forall>i<n. mem_map t i = (if i < 5 \<or> n - (4 * n + 4095) div 4096 \<le> i \<or> (0x2AD \<le> i \<and> i < 0x2F0) then USED else 0)" by blast
  have "mem_check kernel_end t = Some t"
    by (rule mem_check_passes [OF assms(1) t(6) [unfolded M(1)] n(2,3) _ t(3-5) m']) (use e t(7,8) f(1) assms(2) in \<open>simp_all add: ram32_def\<close>)
  then have "main_memory k b kernel_end s = Some t" unfolding main_memory_def n(1) Let_def u_def [symmetric] t(1) by simp
  then show thesis
    by (rule that [OF _ n(2,3) t(6) [unfolded M(1)] e [folded t(7)] t(3,4) m]) (use f t(9,10) in simp_all)
qed

lemma mm_inv_reserved: "256 + max_map_nr s \<le> 2 ^ 20 \<Longrightarrow> mm_inv ({}, reserved s) s"
proof -
  assume n: "256 + max_map_nr s \<le> 2 ^ 20"
  define a where "a i = (of_nat (LOW_MEM + i * PAGE_SIZE) :: u32)" for i
  define R where "R = {i. i < max_map_nr s \<and> mem_map s i = USED}"
  have W: "reserved s = a ` R" by (simp add: reserved_def R_def a_def [abs_def])
  have un: "unat (a i) = LOW_MEM + i * PAGE_SIZE" if "i \<in> R" for i
    using that n by (simp add: a_def R_def unat_of_nat_w32 LOW_MEM_def PAGE_SIZE_def del: of_nat_mult of_nat_add)
  have fr: "fr (a i) = 256 + i" if "i \<in> R" for i using un [OF that] by (simp add: LOW_MEM_def PAGE_SIZE_def)
  have al: "page_aligned (a i)" if "i \<in> R" for i
    unfolding page_aligned_unat using un [OF that] fr [OF that] by (simp add: LOW_MEM_def PAGE_SIZE_def)
  have u: "uses ({}, reserved s) = (\<lambda>i. Kern (a i)) ` R" by (auto simp: uses_def W)
  have h: "holders ({}, reserved s) (frame_of s) f \<subseteq> (if f - 256 \<in> R then {Kern (a (f - 256))} else {})" for f
    using fr by (auto simp: holders_def u)
  have "slack ({}, reserved s) (frame_of s) (mem_map s) f 0" for f
    using h [of f] by (cases "f - 256 \<in> R") (auto simp: slack_def R_def)
  moreover have "finite (reserved s)" by (simp add: W R_def)
  moreover have "\<forall>v\<in>uses ({}, reserved s). \<forall>f. frame_of s v = Some f \<longrightarrow> 256 \<le> f \<and> f < 256 + max_map_nr s"
    using fr by (auto simp: u) (simp add: R_def)
  moreover have "\<forall>v\<in>uses ({}, reserved s). \<forall>w\<in>uses ({}, reserved s). frame_of s v \<noteq> None \<and> exclusive s v \<and> frame_of s w = frame_of s v \<longrightarrow> w = v"
    using fr by (auto simp: u)
  ultimately have "sep ({}, reserved s) (frame_of s) (exclusive s) (mem_map s) (max_map_nr s)" by (simp add: sep_def)
  then show ?thesis using n al by (auto simp: mm_inv_def W)
qed

text \<open>
  C4. The boot sequence leaves a consistent memory map. Whatever amount of memory the BIOS reports, provided the kernel
  image ends below the kernel heap and its page directory has no user window, \<open>main\<close> gets past \<open>mem_check\<close> without a
  panic; a frame the allocator may hand out lies above the kernel's page tables, outside the buffer cache and below the
  page map; and however the memory manager then runs, no page of an address space is ever on one of the frames that
  were set aside, as long as the kernel does not give that frame back itself.
\<close>

theorem boot_reserves_kernel_memory:
  assumes "kernel_end < KERNEL_HEAP_START" and "ram32 s (PAGE_DIRECTORY + 4 * USER_PDE_INDEX) AND PTE_PRESENT = 0"
    and "tasks_in ({}, {}) s"
  shows "\<exists>t. main_memory ext_kb fs_base kernel_end s = Some t \<and>
    MEMORY_END_MINIMUM \<le> unat (memory_end t) \<and> unat (memory_end t) \<le> KERNEL_IDENTITY_TOP \<and>
    (\<forall>i<max_map_nr t. mem_map t i = 0 \<longrightarrow> (let a = LOW_MEM + i * PAGE_SIZE in
       KERNEL_TABLES_END \<le> a \<and> (a + PAGE_SIZE \<le> buf_mem_start t \<or> buffer_cache_end t \<le> a) \<and>
       a + PAGE_SIZE \<le> unat (memory_end t) - 4 * max_map_nr t)) \<and>
    (\<forall>W u d i f p. mm_run ({}, reserved t) t W u \<and> d \<in> fst W \<and> i < 1024 \<and> pte_frame (pte u d i) = Some f \<and>
       p \<in> reserved t \<inter> snd W \<longrightarrow> f \<noteq> fr p)"
proof -
  obtain n t where t: "main_memory ext_kb fs_base kernel_end s = Some t" "768 \<le> n" "n \<le> 3840" "max_map_nr t = n"
    "unat (memory_end t) = 4096 * (n + 256)" "buf_mem_start t = 0x3ADC00" "buffer_cache_end t = 0x3F0000"
    and m: "\<And>i. i < n \<Longrightarrow> mem_map t i = (if i < 5 \<or> n - (4 * n + 4095) div 4096 \<le> i \<or> (0x2AD \<le> i \<and> i < 0x2F0) then USED else 0)"
    and k: "task t = task s" "tstruct t = tstruct s"
    by (rule main_memory_map [OF assms(1,2), of ext_kb fs_base]) blast
  have "tasks_in ({}, reserved t) t" using assms(3) k by (simp add: tasks_in_def)
  moreover have "mm_inv ({}, reserved t) t" using mm_inv_reserved [of t] t(3,4) by simp
  ultimately have "mm_run ({}, reserved t) t W u \<Longrightarrow> mm_inv W u" for W u using mm_run_inv by blast
  note r = page_use(3) [OF this]
  have free: "let a = LOW_MEM + i * PAGE_SIZE in KERNEL_TABLES_END \<le> a \<and> (a + PAGE_SIZE \<le> buf_mem_start t \<or> buffer_cache_end t \<le> a) \<and>
       a + PAGE_SIZE \<le> unat (memory_end t) - 4 * max_map_nr t" if i: "i < n" "mem_map t i = 0" for i
  proof -
    have a: "5 \<le> i" "i < 0x2AD \<or> 0x2F0 \<le> i" "i + 1 \<le> n - (4 * n + 4095) div 4096" using m [OF i(1)] i(2) by (auto simp: USED_def split: if_splits)
    have "4 * n \<le> 4096 * ((4 * n + 4095) div 4096)" by linarith
    also have "\<dots> \<le> 4096 * (n - (i + 1))" using a(3) by (intro mult_le_mono2) simp
    finally have "4096 * (i + 1) + 4 * n \<le> 4096 * n" using a(3) by (simp add: diff_mult_distrib2)
    then show ?thesis using a(1,2) by (auto simp: t Let_def LOW_MEM_def PAGE_SIZE_def KERNEL_TABLES_END_def)
  qed
  show ?thesis
  proof (intro exI [of _ t] conjI)
    show "\<forall>i<max_map_nr t. mem_map t i = 0 \<longrightarrow> (let a = LOW_MEM + i * PAGE_SIZE in
       KERNEL_TABLES_END \<le> a \<and> (a + PAGE_SIZE \<le> buf_mem_start t \<or> buffer_cache_end t \<le> a) \<and>
       a + PAGE_SIZE \<le> unat (memory_end t) - 4 * max_map_nr t)" using free t(4) by blast
    show "\<forall>W u d i f p. mm_run ({}, reserved t) t W u \<and> d \<in> fst W \<and> i < 1024 \<and> pte_frame (pte u d i) = Some f \<and>
       p \<in> reserved t \<inter> snd W \<longrightarrow> f \<noteq> fr p" using r by blast
  qed (use t in \<open>simp_all add: MEMORY_END_MINIMUM_def KERNEL_IDENTITY_TOP_def KERNEL_PT_COUNT_def\<close>)
qed

theorem boot_reserves_kernel_memory_witness:
  "\<exists>t. main_memory 0x3C00 0 0x2A000 (blank ()) = Some t \<and> MEMORY_END_MINIMUM \<le> unat (memory_end t)"
proof -
  have a: "(0x2A000 :: u32) < KERNEL_HEAP_START" by (simp add: KERNEL_HEAP_START_def)
  have b: "ram32 (blank ()) (PAGE_DIRECTORY + 4 * USER_PDE_INDEX) AND PTE_PRESENT = 0" by (simp add: ram32_def blank_def get32_def get16_def)
  have c: "tasks_in ({}, {}) (blank ())" by (simp add: tasks_in_def blank_def)
  show ?thesis using boot_reserves_kernel_memory [OF a b c, of "0x3C00" 0] by blast
qed

text \<open>
  The floor under the memory size: a machine with less than 4 MB is run as if it had 4 MB, so \<open>mem_check\<close> cannot see
  that memory is short.
\<close>

lemma phys_mem_end_floor: "k \<noteq> 0 \<Longrightarrow> unat k < 3072 \<Longrightarrow> phys_mem_end k = of_nat MEMORY_END_MINIMUM"
proof -
  assume k: "k \<noteq> 0" "unat k < 3072"
  define e where "e = push_bit 20 1 + push_bit 10 (ucast k :: u32)"
  have "unat (push_bit 10 (ucast k :: u32)) = unat k * 1024"
    unfolding unsigned_push_bit_eq using k(2) by (simp add: push_bit_eq_mult take_bit_eq_mod unsigned_ucast_eq)
  then have e: "unat e = 0x100000 + unat k * 1024" using k(2) by (simp add: e_def unat_word_ariths push_bit_eq_mult)
  then have "unat (e AND 0xFFFFF000) < 0x400000" using k(2) word_and_le2 [of e "0xFFFFF000"] unfolding word_le_nat_alt by linarith
  then have "e AND 0xFFFFF000 < 0x400000" by (simp add: word_less_nat_alt)
  moreover have "\<not> e > 0x1000000" using e k(2) by (simp add: word_less_nat_alt)
  ultimately show ?thesis using k(1) unfolding phys_mem_end_def Let_def e_def [symmetric]
    by (simp add: MEMORY_END_MINIMUM_def KERNEL_IDENTITY_TOP_def KERNEL_PT_COUNT_def)
qed

end
