(* ===== verification/User_Lib.thy ===== *)
theory User_Lib
  imports Printf
begin

text \<open>
  The library programs are linked with, \<open>user/lib.c\<close>: \<open>printf\<close>, directory reading, number parsing and the heap. Its
  string and character functions are copies of the kernel's, modelled in \<open>Lib\<close>. The heap lives in the program's memory
  between \<open>USER_HEAP_START\<close> and \<open>USER_HEAP_END\<close>: a chunk is an 8-byte header (size, link of the free list) and the bytes
  handed out behind it.
\<close>

unbundle bit_operations_syntax

subsection \<open>Formatted output\<close>

text \<open>What is written to descriptor 1, and the count \<open>printf\<close> returns, which leaves out digits and padding.\<close>

definition u_write_num :: "u32 \<Rightarrow> nat \<Rightarrow> int \<Rightarrow> int \<Rightarrow> bool \<Rightarrow> bool \<Rightarrow> byte list" where
  "u_write_num num base width prec ljust alt =
     (let tmp = num_to_str num base;
          zlen = nat (prec - int (length tmp));
          pad = nat (width - int (length tmp + zlen));
          (prefix, pad) = (if alt \<and> base = 16 then ([48, 120], pad - 2) else if alt \<and> base = 8 then ([48], pad - 1) else ([], pad))
      in prefix @ (if ljust then [] else replicate pad 32) @ replicate zlen 48 @ tmp @ (if ljust then replicate pad 32 else []))"

fun u_flags :: "byte list \<Rightarrow> bool \<Rightarrow> bool \<Rightarrow> bool \<times> bool \<times> byte list" where
  "u_flags [] ljust alt = (ljust, alt, [])"
| "u_flags (c # fmt) ljust alt =
     (if c = 45 then u_flags fmt True alt else if c = 35 then u_flags fmt ljust True else (ljust, alt, c # fmt))"

definition u_spec :: "byte list \<Rightarrow> bool \<times> bool \<times> int \<times> int \<times> byte list" where
  "u_spec fmt =
     (let (ljust, alt, fmt) = u_flags fmt False False; (width, fmt) = fmt_num fmt 0; (prec, fmt) = fmt_prec fmt
      in (ljust, alt, width, prec, fmt_long fmt))"

definition u_convert :: "byte \<Rightarrow> bool \<Rightarrow> bool \<Rightarrow> int \<Rightarrow> int \<Rightarrow> va list \<Rightarrow> (va list \<times> nat \<times> byte list) option" where
  "u_convert c ljust alt width prec args =
     (if c = 100 \<or> c = 105 then
        (case args of Word v # args \<Rightarrow>
           Some (args, if sint v < 0 then (1, 45 # u_write_num (- v) 10 width prec ljust alt)
                       else (0, u_write_num v 10 width prec ljust alt))
         | _ \<Rightarrow> None)
      else if c = 117 then
        (case args of Word v # args \<Rightarrow> Some (args, 0, u_write_num v 10 width prec ljust alt) | _ \<Rightarrow> None)
      else if c = 120 \<or> c = 88 then
        (case args of Word v # args \<Rightarrow> Some (args, 0, u_write_num v 16 width prec ljust alt) | _ \<Rightarrow> None)
      else if c = 111 then
        (case args of Word v # args \<Rightarrow> Some (args, 0, u_write_num v 8 width prec ljust alt) | _ \<Rightarrow> None)
      else if c = 112 then
        (case args of Word v # args \<Rightarrow> Some (args, 0, [48, 120] @ u_write_num v 16 0 0 False False) | _ \<Rightarrow> None)
      else if c = 115 then
        (case args of Str p # args \<Rightarrow>
           let p = (if prec < 0 then p else take (nat prec) p); pad = replicate (nat (width - int (length p))) 32
           in Some (args, length p, if ljust then p @ pad else pad @ p)
         | _ \<Rightarrow> None)
      else if c = 99 then
        (case args of Word v # args \<Rightarrow> Some (args, 1, [ucast v]) | _ \<Rightarrow> None)
      else Some (args, 1, [37]))"

lemma u_flags_length: "length (snd (snd (u_flags fmt l a))) \<le> length fmt"
  by (induction fmt l a rule: u_flags.induct) auto

lemma u_spec_length: "u_spec fmt = (l, a, w, p, rest) \<Longrightarrow> length rest \<le> length fmt"
  using u_flags_length [of fmt False False] fmt_num_length fmt_prec_length fmt_long_length
  by (auto simp: u_spec_def Let_def split: prod.splits) (metis (no_types, lifting) le_trans snd_conv)

function u_printf :: "byte list \<Rightarrow> va list \<Rightarrow> (nat \<times> byte list) option" where
  "u_printf [] args = Some (0, [])"
| "u_printf (c # fmt) args =
     (if c \<noteq> 37 then do { (n, out) \<leftarrow> u_printf fmt args; Some (Suc n, c # out) }
      else case u_spec fmt of
             (_, _, _, _, []) \<Rightarrow> None
           | (ljust, alt, width, prec, c # rest) \<Rightarrow> do {
               (args, k, o1) \<leftarrow> u_convert c ljust alt width prec args;
               (n, o2) \<leftarrow> u_printf rest args;
               Some (k + n, o1 @ o2) })"
  by pat_completeness auto

termination
  by (relation "measure (\<lambda>(fmt, _). length fmt)") (auto dest: u_spec_length [OF sym])

subsection \<open>Number parsing\<close>

text \<open>
  A string is the list of its bytes before the 0; the result comes with the rest the end pointer points to. Digits are
  accumulated modulo \<open>2 ^ 32\<close>.
\<close>

definition digit_of :: "byte \<Rightarrow> nat option" where
  "digit_of c =
     (if 48 \<le> c \<and> c \<le> 57 then Some (unat (c - 48))
      else if 97 \<le> c \<and> c \<le> 122 then Some (unat (c - 97) + 10)
      else if 65 \<le> c \<and> c \<le> 90 then Some (unat (c - 65) + 10)
      else None)"

fun strtol_digits :: "nat \<Rightarrow> u32 \<Rightarrow> byte list \<Rightarrow> u32 \<times> byte list" where
  "strtol_digits base r [] = (r, [])"
| "strtol_digits base r (c # p) =
     (case digit_of c of
        None \<Rightarrow> (r, c # p)
      | Some d \<Rightarrow> if d \<ge> base then (r, c # p) else strtol_digits base (r * of_nat base + of_nat d) p)"

definition strtol :: "byte list \<Rightarrow> nat \<Rightarrow> u32 \<times> byte list" where
  "strtol nptr base =
     (let p = dropWhile (\<lambda>c. isspace (sint c)) nptr;
          (neg, p) = (case p of c # q \<Rightarrow> if c = 43 \<or> c = 45 then (c = 45, q) else (False, p) | [] \<Rightarrow> (False, p));
          (base, p) =
            (if base = 0 then
               (case p of c # q \<Rightarrow>
                  if c = 48 then (case q of x # q' \<Rightarrow> if x = 120 \<or> x = 88 then (16, q') else (8, q) | [] \<Rightarrow> (8, q))
                  else (10, p)
                | [] \<Rightarrow> (10, p))
             else if base = 16 then
               (case p of c # x # q \<Rightarrow> if c = 48 \<and> (x = 120 \<or> x = 88) then (16, q) else (16, p) | _ \<Rightarrow> (16, p))
             else (base, p));
          (r, p) = strtol_digits base 0 p
      in (if neg then - r else r, p))"

definition atoi :: "byte list \<Rightarrow> int" where
  "atoi nptr = sint (fst (strtol nptr 10))"

partial_function (option) strstr_loop :: "u32 \<Rightarrow> u32 \<Rightarrow> nat \<Rightarrow> mem \<Rightarrow> u32 option" where
  "strstr_loop haystack needle nlen m =
     (if m haystack = 0 then Some 0
      else if m haystack = m needle \<and> strncmp haystack needle nlen m = 0 then Some haystack
      else strstr_loop (haystack + 1) needle nlen m)"

definition strstr :: "u32 \<Rightarrow> u32 \<Rightarrow> mem \<Rightarrow> u32 option" where
  "strstr haystack needle m = do {
     nlen \<leftarrow> strlen needle m;
     if nlen = 0 then Some haystack else strstr_loop haystack needle nlen m }"

subsection \<open>Reading directories\<close>

text \<open>
  The calls into the kernel are arguments: \<open>rd fd s\<close> is \<open>read\<close> of 16 bytes with the bytes it stored, \<open>opn\<close> and \<open>cls\<close> are
  \<open>open\<close> and \<open>close\<close>. An entry is the inode number and the name.
\<close>

definition dirent_of :: "byte list \<Rightarrow> u16 \<times> byte list" where
  "dirent_of buf = (ucast (buf ! 0) OR push_bit 8 (ucast (buf ! 1)), takeWhile (\<lambda>c. c \<noteq> 0) (take 14 (drop 2 buf)))"

partial_function (option) readdir :: "('s \<Rightarrow> int \<times> byte list \<times> 's) \<Rightarrow> 's \<Rightarrow> ((u16 \<times> byte list) option \<times> 's) option" where
  "readdir rd s =
     (case rd s of (n, buf, s) \<Rightarrow>
        if n \<noteq> 16 then Some (None, s)
        else let e = dirent_of buf in if fst e = 0 then readdir rd s else Some (Some e, s))"

subsection \<open>The heap\<close>

definition ld32 :: "mem \<Rightarrow> u32 \<Rightarrow> u32" where
  "ld32 m a = ucast (m a) OR push_bit 8 (ucast (m (a + 1))) OR push_bit 16 (ucast (m (a + 2))) OR push_bit 24 (ucast (m (a + 3)))"

definition st32 :: "mem \<Rightarrow> u32 \<Rightarrow> u32 \<Rightarrow> mem" where
  "st32 m a v = m(a := ucast v, a + 1 := ucast (drop_bit 8 v), a + 2 := ucast (drop_bit 16 v), a + 3 := ucast (drop_bit 24 v))"

record heap =
  hmem :: mem
  free_list :: u32
  heap_top :: u32

text \<open>A chunk: its size at offset 0, its link at offset 4, its bytes from offset 8.\<close>

definition chunk_size :: "mem \<Rightarrow> u32 \<Rightarrow> u32" where "chunk_size m c = ld32 m c"
definition chunk_next :: "mem \<Rightarrow> u32 \<Rightarrow> u32" where "chunk_next m c = ld32 m (c + 4)"

definition heap_start :: "mem \<Rightarrow> heap" where
  "heap_start m = \<lparr>hmem = m, free_list = 0, heap_top = USER_HEAP_START\<rparr>"

text \<open>The first chunk of the free list that is large enough, with the chunk before it (0 for none).\<close>

partial_function (option) first_fit :: "mem \<Rightarrow> u32 \<Rightarrow> u32 \<Rightarrow> u32 \<Rightarrow> (u32 \<times> u32) option" where
  "first_fit m sz prev c =
     (if c = 0 then Some (prev, 0)
      else if chunk_size m c \<ge> sz then Some (prev, c)
      else first_fit m sz c (chunk_next m c))"

definition u_malloc :: "u32 \<Rightarrow> heap \<Rightarrow> (u32 \<times> heap) option" where
  "u_malloc sz h = do {
     let sz = (sz + 7) AND NOT 7;
     let sz = (if sz = 0 then 8 else sz);
     (prev, c) \<leftarrow> first_fit (hmem h) sz 0 (free_list h);
     if c \<noteq> 0
     then Some (c + 8, if prev \<noteq> 0 then h\<lparr>hmem := st32 (hmem h) (prev + 4) (chunk_next (hmem h) c)\<rparr>
                       else h\<lparr>free_list := chunk_next (hmem h) c\<rparr>)
     else if heap_top h + 8 + sz > USER_HEAP_END then Some (0, h)
     else Some (heap_top h + 8, h\<lparr>hmem := st32 (hmem h) (heap_top h) sz, heap_top := heap_top h + 8 + sz\<rparr>) }"

definition u_free :: "u32 \<Rightarrow> heap \<Rightarrow> heap" where
  "u_free p h =
     (if p = 0 then h
      else h\<lparr>hmem := st32 (hmem h) (p - 8 + 4) (free_list h), free_list := p - 8\<rparr>)"

text \<open>\<open>opendir\<close> and \<open>closedir\<close> around the heap; a \<open>DIR\<close> takes 40 bytes, of which only the descriptor matters here.\<close>

definition opendir :: "(byte list \<Rightarrow> 's \<Rightarrow> int \<times> 's) \<Rightarrow> (int \<Rightarrow> 's \<Rightarrow> int \<times> 's) \<Rightarrow> byte list \<Rightarrow> heap \<Rightarrow> 's \<Rightarrow> (u32 \<times> heap \<times> 's) option" where
  "opendir opn cls path h s =
     (let (fd, s) = opn path s
      in if fd < 0 then Some (0, h, s)
         else do {
           (d, h) \<leftarrow> u_malloc 40 h;
           if d = 0 then Some (0, h, snd (cls fd s))
           else Some (d, h\<lparr>hmem := st32 (hmem h) d (of_int fd)\<rparr>, s) })"

definition closedir :: "(int \<Rightarrow> 's \<Rightarrow> int \<times> 's) \<Rightarrow> u32 \<Rightarrow> heap \<Rightarrow> 's \<Rightarrow> int \<times> heap \<times> 's" where
  "closedir cls d h s =
     (if d = 0 then (0, h, s)
      else let (r, s) = cls (sint (ld32 (hmem h) d)) s in (r, u_free d h, s))"

end
