(* ===== verification/User_Heap.thy ===== *)
theory User_Heap
  imports User_Lib
begin

text \<open>
  The heap of \<open>user/lib.c\<close> keeps blocks apart: however a program allocates, releases and writes to what it holds, the
  free list stays a proper list, blocks in use never overlap, and neither \<open>malloc\<close> nor \<open>free\<close> touches their bytes.
\<close>

unbundle bit_operations_syntax

subsection \<open>Words in memory\<close>

lemma u8_parts: "ucast (ucast v :: byte) OR push_bit 8 (ucast (ucast (drop_bit 8 v) :: byte)) OR
    push_bit 16 (ucast (ucast (drop_bit 16 v) :: byte)) OR push_bit 24 (ucast (ucast (drop_bit 24 v) :: byte)) = (v :: u32)"
proof (rule bit_word_eqI)
  fix n assume "n < LENGTH(32)"
  then consider "n < 8" | "8 \<le> n \<and> n < 16" | "16 \<le> n \<and> n < 24" | "24 \<le> n \<and> n < 32" by fastforce
  then show "bit (ucast (ucast v :: byte) OR push_bit 8 (ucast (ucast (drop_bit 8 v) :: byte)) OR
    push_bit 16 (ucast (ucast (drop_bit 16 v) :: byte)) OR push_bit 24 (ucast (ucast (drop_bit 24 v) :: byte)) :: u32) n = bit v n"
    by cases (auto simp: bit_simps)
qed

lemma add_ne: "a + 1 \<noteq> a" "a + 2 \<noteq> a" "a + 3 \<noteq> a" "a + 2 \<noteq> a + 1" "a + 3 \<noteq> a + 1" "a + 3 \<noteq> a + 2" for a :: u32
  by simp_all

lemma ld32_st32: "ld32 (st32 m a v) a = v"
  unfolding ld32_def st32_def using add_ne [of a] by (simp add: u8_parts)

lemma unat_near: "unat a + 4 \<le> 2 ^ 32 \<Longrightarrow> i < 4 \<Longrightarrow> unat (a + of_nat i) = unat a + i" for a :: u32
  by (simp add: unat_word_ariths unat_of_nat)

lemma ld32_cong:
  assumes "unat a + 4 \<le> 2 ^ 32" "\<forall>x. unat a \<le> unat x \<and> unat x < unat a + 4 \<longrightarrow> m' x = m x"
  shows "ld32 m' a = ld32 m a"
proof -
  have "m' (a + of_nat i) = m (a + of_nat i)" if "i < 4" for i using unat_near [OF assms(1) that] assms(2) that by simp
  from this [of 0] this [of 1] this [of 2] this [of 3] show ?thesis by (simp add: ld32_def)
qed

lemma st32_outside:
  assumes "unat a + 4 \<le> 2 ^ 32" "unat x < unat a \<or> unat a + 4 \<le> unat x"
  shows "st32 m a v x = m x"
proof -
  have "x \<noteq> a + of_nat i" if "i < 4" for i using unat_near [OF assms(1) that] assms(2) that by auto
  from this [of 0] this [of 1] this [of 2] this [of 3] show ?thesis by (simp add: st32_def)
qed

subsection \<open>The free list\<close>

primrec links :: "mem \<Rightarrow> u32 \<Rightarrow> u32 list \<Rightarrow> u32 \<Rightarrow> bool" where
  "links m p [] q \<longleftrightarrow> p = q"
| "links m p (c # cs) q \<longleftrightarrow> p = c \<and> c \<noteq> 0 \<and> links m (chunk_next m c) cs q"

lemma links_append: "links m p (A @ B) r \<longleftrightarrow> (\<exists>q. links m p A q \<and> links m q B r)"
  by (induction A arbitrary: p) auto

lemma links_cong: "\<forall>c\<in>set F. chunk_next m' c = chunk_next m c \<Longrightarrow> links m' p F q = links m p F q"
  by (induction F arbitrary: p) auto

text \<open>The search ends, at the first chunk that is large enough.\<close>

lemma first_fit_links:
  assumes "links m c F 0"
  shows "(\<exists>A x B. F = A @ x # B \<and> chunk_size m x \<ge> sz \<and> first_fit m sz prev c = Some (last (prev # A), x)) \<or>
    (\<exists>p. first_fit m sz prev c = Some (p, 0))"
  using assms
proof (induction F arbitrary: prev c)
  case Nil
  then show ?case by (simp add: first_fit.simps)
next
  case (Cons y F)
  then have c: "c = y" "y \<noteq> 0" "links m (chunk_next m y) F 0" by auto
  show ?case
  proof (cases "chunk_size m y \<ge> sz")
    case True
    then show ?thesis using c(1,2) by (intro disjI1 exI [of _ "[]"]) (simp add: first_fit.simps [of m sz prev y])
  next
    case False
    then have e: "first_fit m sz prev c = first_fit m sz y (chunk_next m y)" using c(1,2) by (simp add: first_fit.simps [of m sz prev y])
    from Cons.IH [OF c(3), of y] show ?thesis
    proof
      assume "\<exists>A x B. F = A @ x # B \<and> sz \<le> chunk_size m x \<and> first_fit m sz y (chunk_next m y) = Some (last (y # A), x)"
      then obtain A x B where "F = A @ x # B" "sz \<le> chunk_size m x" "first_fit m sz y (chunk_next m y) = Some (last (y # A), x)" by blast
      then show ?thesis using e by (intro disjI1 exI [of _ "y # A"] exI [of _ x] exI [of _ B]) simp
    qed (use e in simp)
  qed
qed

subsection \<open>Chunks\<close>

abbreviation csize :: "mem \<Rightarrow> u32 \<Rightarrow> nat" where "csize m c \<equiv> unat (chunk_size m c)"

text \<open>The chunks lie between the start of the heap and its top, aligned, and do not overlap.\<close>

definition shape :: "mem \<Rightarrow> u32 \<Rightarrow> u32 set \<Rightarrow> bool" where
  "shape m tp C \<longleftrightarrow> unat USER_HEAP_START \<le> unat tp \<and> unat tp \<le> unat USER_HEAP_END \<and> 8 dvd unat tp \<and>
     (\<forall>c\<in>C. unat USER_HEAP_START \<le> unat c \<and> 8 dvd unat c \<and> 8 \<le> csize m c \<and> unat c + 8 + csize m c \<le> unat tp) \<and>
     (\<forall>c\<in>C. \<forall>d\<in>C. c \<noteq> d \<longrightarrow> unat c + 8 + csize m c \<le> unat d \<or> unat d + 8 + csize m d \<le> unat c)"

lemma shapeD:
  assumes "shape m tp C"
  shows "0x8100000 \<le> unat tp" "unat tp \<le> 0x8200000" "8 dvd unat tp"
    "c \<in> C \<Longrightarrow> 0x8100000 \<le> unat c" "c \<in> C \<Longrightarrow> 8 dvd unat c" "c \<in> C \<Longrightarrow> 8 \<le> csize m c" "c \<in> C \<Longrightarrow> unat c + 8 + csize m c \<le> unat tp"
    "c \<in> C \<Longrightarrow> d \<in> C \<Longrightarrow> c \<noteq> d \<Longrightarrow> unat c + 8 + csize m c \<le> unat d \<or> unat d + 8 + csize m d \<le> unat c"
  using assms by (simp_all add: shape_def USER_HEAP_START_def USER_HEAP_END_def)

lemma shape_cong: "\<forall>c\<in>C. chunk_size m' c = chunk_size m c \<Longrightarrow> shape m' tp C = shape m tp C"
  by (simp add: shape_def)

lemma shape_end: "shape m tp C \<Longrightarrow> c \<in> C \<Longrightarrow> unat c + 8 + csize m c \<le> 0x8200000"
  using shapeD(2) [of m tp C] shapeD(7) [of m tp C c] by linarith

lemma unat_off: "shape m tp C \<Longrightarrow> c \<in> C \<Longrightarrow> k \<le> 8 \<Longrightarrow> unat (c + of_nat k) = unat c + k"
  using shape_end [of m tp C c] by (simp add: unat_word_ariths unat_of_nat)

text \<open>A change of memory that spares the words of a header.\<close>

lemma header_same:
  assumes "shape m tp C" "c \<in> C"
  shows "\<forall>x. unat c \<le> unat x \<and> unat x < unat c + 4 \<longrightarrow> m' x = m x \<Longrightarrow> chunk_size m' c = chunk_size m c"
    "\<forall>x. unat c + 4 \<le> unat x \<and> unat x < unat c + 8 \<longrightarrow> m' x = m x \<Longrightarrow> chunk_next m' c = chunk_next m c"
proof -
  have e: "unat c + 8 \<le> 2 ^ 32" using shape_end [OF assms] by simp
  then show "\<forall>x. unat c \<le> unat x \<and> unat x < unat c + 4 \<longrightarrow> m' x = m x \<Longrightarrow> chunk_size m' c = chunk_size m c"
    unfolding chunk_size_def by (intro ld32_cong) simp_all
  have "unat (c + 4) = unat c + 4" using unat_off [OF assms, of 4] by simp
  then show "\<forall>x. unat c + 4 \<le> unat x \<and> unat x < unat c + 8 \<longrightarrow> m' x = m x \<Longrightarrow> chunk_next m' c = chunk_next m c"
    unfolding chunk_next_def using e by (intro ld32_cong) simp_all
qed

text \<open>Writing the link of a chunk, and a byte of a chunk.\<close>

lemma link_write:
  assumes s: "shape m tp C" and c: "c \<in> C" and m': "m' = st32 m (c + 4) v"
  shows "chunk_next m' c = v" "d \<in> C \<Longrightarrow> chunk_size m' d = chunk_size m d" "d \<in> C \<Longrightarrow> d \<noteq> c \<Longrightarrow> chunk_next m' d = chunk_next m d"
    "d \<in> C \<Longrightarrow> unat d + 8 \<le> unat x \<Longrightarrow> unat x < unat d + 8 + csize m d \<Longrightarrow> m' x = m x"
proof -
  have u: "unat (c + 4) = unat c + 4" using unat_off [OF s c, of 4] by simp
  have w: "unat (c + 4) + 4 \<le> 2 ^ 32" using u shape_end [OF s c] by simp
  have o: "unat x < unat c + 4 \<or> unat c + 8 \<le> unat x \<Longrightarrow> m' x = m x" for x
    unfolding m' using st32_outside [OF w, of x] u by auto
  have a: "unat c + 8 \<le> unat d \<or> unat d + 8 + csize m d \<le> unat c" if "d \<in> C" "d \<noteq> c" for d
    using shapeD(8) [OF s c that(1)] that(2) by auto
  show "chunk_next m' c = v" by (simp add: chunk_next_def m' ld32_st32)
  show "chunk_size m' d = chunk_size m d" if "d \<in> C"
    by (rule header_same(1) [OF s that]) (use a [OF that] o in \<open>cases "d = c"; force\<close>)
  show "chunk_next m' d = chunk_next m d" if "d \<in> C" "d \<noteq> c"
    by (rule header_same(2) [OF s that(1)]) (use a [OF that] o in force)
  show "m' x = m x" if "d \<in> C" "unat d + 8 \<le> unat x" "unat x < unat d + 8 + csize m d"
    using a [OF that(1)] o [of x] that(2,3) by (cases "d = c") auto
qed

lemma byte_write:
  assumes s: "shape m tp C" and x: "c \<in> C \<and> unat c + 8 \<le> unat x \<and> unat x < unat c + 8 + csize m c \<or> unat x \<notin> {0x8100000..<0x8200000}"
  shows "d \<in> C \<Longrightarrow> chunk_size (m(x := v)) d = chunk_size m d" "d \<in> C \<Longrightarrow> chunk_next (m(x := v)) d = chunk_next m d"
proof -
  have "unat x < unat d \<or> unat d + 8 \<le> unat x" if "d \<in> C" for d
    using x shapeD(8) [OF s _ that] shapeD(4) [OF s that] shape_end [OF s that] by (cases "d = c") fastforce+
  then have "(m(x := v)) y = m y" if "d \<in> C" "unat d \<le> unat y" "unat y < unat d + 8" for d y
    using that by fastforce
  then show "d \<in> C \<Longrightarrow> chunk_size (m(x := v)) d = chunk_size m d" "d \<in> C \<Longrightarrow> chunk_next (m(x := v)) d = chunk_next m d"
    using header_same [OF s, of d "m(x := v)"] by simp_all
qed

text \<open>A new chunk at the top.\<close>

lemma top_write:
  assumes s: "shape m tp C" and z: "unat tp + 8 + unat sz \<le> 0x8200000" "8 dvd unat sz" "8 \<le> unat sz" and m': "m' = st32 m tp sz"
  shows "shape m' (tp + 8 + sz) (insert tp C)" "tp \<notin> C" "chunk_size m' tp = sz"
    "d \<in> C \<Longrightarrow> chunk_size m' d = chunk_size m d" "d \<in> C \<Longrightarrow> chunk_next m' d = chunk_next m d"
    "unat x < unat tp \<Longrightarrow> m' x = m x"
proof -
  have o: "unat x < unat tp \<Longrightarrow> m' x = m x" for x unfolding m' using st32_outside [of tp x] z(1) by simp
  then show "unat x < unat tp \<Longrightarrow> m' x = m x" .
  show sz: "chunk_size m' tp = sz" by (simp add: chunk_size_def m' ld32_st32)
  have e: "unat d + 8 + csize m d \<le> unat tp" if "d \<in> C" for d using shapeD(7) [OF s that] .
  then show "tp \<notin> C" by fastforce
  show cs: "chunk_size m' d = chunk_size m d" if "d \<in> C" for d
    by (rule header_same(1) [OF s that]) (use e [OF that] o in force)
  show "chunk_next m' d = chunk_next m d" if "d \<in> C"
    by (rule header_same(2) [OF s that]) (use e [OF that] o in force)
  have e2: "unat d + csize m d \<le> unat tp + unat sz" if "d \<in> C" for d using e [OF that] by linarith
  have t: "unat (tp + 8 + sz) = unat tp + 8 + unat sz" using z(1) by (simp add: unat_word_ariths)
  show "shape m' (tp + 8 + sz) (insert tp C)"
    unfolding shape_def t using cs sz e e2 shapeD [OF s] z by (auto simp: USER_HEAP_START_def USER_HEAP_END_def intro: le_trans)
qed

subsection \<open>The invariant of the heap\<close>

text \<open>
  \<open>L\<close> records what the program holds: the pointers it got and the sizes it asked for. \<open>F\<close> are the chunks on the free
  list.
\<close>

definition live :: "(u32 \<rightharpoonup> nat) \<Rightarrow> u32 set" where "live L = (\<lambda>p. p - 8) ` dom L"

definition heap_inv :: "u32 list \<Rightarrow> (u32 \<rightharpoonup> nat) \<Rightarrow> heap \<Rightarrow> bool" where
  "heap_inv F L h \<longleftrightarrow> links (hmem h) (free_list h) F 0 \<and> distinct F \<and> shape (hmem h) (heap_top h) (set F \<union> live L) \<and>
     set F \<inter> live L = {} \<and> (\<forall>p n. L p = Some n \<longrightarrow> n \<le> csize (hmem h) (p - 8))"

lemma live_iff: "p - 8 \<in> live L \<longleftrightarrow> p \<in> dom L"
  by (auto simp: live_def)

lemma live_upd: "live (L(p \<mapsto> n)) = insert (p - 8) (live L)" "live (L(p := None)) = live L - {p - 8}"
  by (auto simp: live_def)

lemma chunk_round_up:
  fixes n :: u32
  assumes "unat n < 2 ^ 31"
  defines "sz \<equiv> if (n + 7) AND NOT 7 = 0 then 8 else (n + 7) AND NOT 7"
  shows "unat n \<le> unat sz" "8 dvd unat sz" "8 \<le> unat sz" "unat sz < 2 ^ 31 + 8"
proof -
  have "unat (n + 7) = unat n + 7" using assms(1) by (simp add: unat_word_ariths)
  then have e: "unat ((n + 7) AND NOT 7) = (unat n + 7) div 8 * 8" unfolding round_up by simp
  have z: "unat sz = (if (unat n + 7) div 8 * 8 = 0 then 8 else (unat n + 7) div 8 * 8)"
    unfolding sz_def e [symmetric] by (simp add: unat_eq_0)
  show "unat n \<le> unat sz" "8 dvd unat sz" "8 \<le> unat sz" "unat sz < 2 ^ 31 + 8" unfolding z using assms(1) by auto
qed

lemma heap_invD:
  assumes "heap_inv F L h"
  shows "links (hmem h) (free_list h) F 0" "distinct F" "shape (hmem h) (heap_top h) (set F \<union> live L)" "set F \<inter> live L = {}"
    "L p = Some n \<Longrightarrow> n \<le> csize (hmem h) (p - 8)"
  using assms by (simp_all add: heap_inv_def)

lemma held_block:
  assumes "heap_inv F L h" "L p = Some n"
  shows "p - 8 \<in> set F \<union> live L" "unat p = unat (p - 8) + 8"
proof -
  show i: "p - 8 \<in> set F \<union> live L" using assms(2) by (auto simp: live_iff)
  show "unat p = unat (p - 8) + 8" using unat_off [OF heap_invD(3) [OF assms(1)] i, of 8] by simp
qed

lemma unlink_inv:
  assumes inv: "heap_inv (A @ x # B) L h" and k: "k \<le> csize (hmem h) x"
    and h': "h' = (if last (0 # A) \<noteq> 0 then h\<lparr>hmem := st32 (hmem h) (last (0 # A) + 4) (chunk_next (hmem h) x)\<rparr>
      else h\<lparr>free_list := chunk_next (hmem h) x\<rparr>)"
  shows "heap_inv (A @ B) (L(x + 8 \<mapsto> k)) h'" "L (x + 8) = None" "x + 8 \<noteq> 0"
    "L q = Some j \<Longrightarrow> unat q \<le> unat y \<Longrightarrow> unat y < unat q + j \<Longrightarrow> hmem h' y = hmem h y"
proof -
  let ?C = "set (A @ x # B) \<union> live L"
  note I = heap_invD [OF inv]
  have n0: "c \<noteq> 0" if "c \<in> ?C" for c using shapeD(4) [OF I(3) that] by auto
  have "unat (x + 8) = unat x + 8" using unat_off [OF I(3), of x 8] by simp
  then show "x + 8 \<noteq> 0" by auto
  have "x \<notin> live L" using I(4) by auto
  then show "L (x + 8) = None" using live_iff [of "x + 8" L] by auto
  obtain a where a: "links (hmem h) (free_list h) A x" "links (hmem h) (chunk_next (hmem h) x) B 0" "a = last (0 # A)"
    using I(1) by (auto simp: links_append)
  have C: "set (A @ B) \<union> live (L(x + 8 \<mapsto> k)) = ?C" by (auto simp: live_upd)
  have main: "links (hmem h') (free_list h') (A @ B) 0 \<and> (\<forall>c\<in>?C. chunk_size (hmem h') c = chunk_size (hmem h) c) \<and> heap_top h' = heap_top h \<and>
    (L q = Some j \<longrightarrow> unat q \<le> unat y \<longrightarrow> unat y < unat q + j \<longrightarrow> hmem h' y = hmem h y)"
  proof (cases A rule: rev_cases)
    case Nil
    then show ?thesis using a h' by simp
  next
    case (snoc A' c)
    then have c: "c \<in> ?C" "c \<notin> set A'" "c \<notin> set B" "last (0 # A) = c" using I(2) by auto
    have e: "h' = h\<lparr>hmem := st32 (hmem h) (c + 4) (chunk_next (hmem h) x)\<rparr>" using h' n0 [OF c(1)] c(4) by simp
    note w = link_write [OF I(3) c(1) refl, where v = "chunk_next (hmem h) x"]
    have "links (hmem h) (free_list h) A' c" using a(1) snoc by (auto simp: links_append)
    moreover have "\<forall>d\<in>set A' \<union> set B. chunk_next (hmem h') d = chunk_next (hmem h) d" using w(3) c snoc by (auto simp: e)
    ultimately have "links (hmem h') (free_list h') A' c" "links (hmem h') (chunk_next (hmem h) x) B 0"
      using a(2) links_cong [of A' "hmem h'" "hmem h"] links_cong [of B "hmem h'" "hmem h"] by (simp_all add: e)
    then have "links (hmem h') (free_list h') (A @ B) 0" using w(1) n0 [OF c(1)] by (auto simp: snoc links_append e)
    moreover have "hmem h' y = hmem h y" if q: "L q = Some j" "unat q \<le> unat y" "unat y < unat q + j"
      using w(4) [OF held_block(1) [OF inv q(1)], of y] held_block(2) [OF inv q(1)] I(5) [OF q(1)] q(2,3) by (simp add: e)
    ultimately show ?thesis using w(2) by (simp add: e)
  qed
  then show "L q = Some j \<Longrightarrow> unat q \<le> unat y \<Longrightarrow> unat y < unat q + j \<Longrightarrow> hmem h' y = hmem h y" by blast
  have sz: "csize (hmem h') (p - 8) = csize (hmem h) (p - 8)" if "L p = Some n" for p n
    using main held_block(1) [OF inv that] by auto
  have "shape (hmem h') (heap_top h') ?C" using main shape_cong [of ?C "hmem h'" "hmem h"] I(3) by simp
  moreover have "set (A @ B) \<inter> live (L(x + 8 \<mapsto> k)) = {}" using I(2,4) by (auto simp: live_upd)
  moreover have "j \<le> csize (hmem h') (p - 8)" if "(L(x + 8 \<mapsto> k)) p = Some j" for p j
    using that k main I(5) [of p j] sz [of p j] by (cases "p = x + 8") auto
  ultimately show "heap_inv (A @ B) (L(x + 8 \<mapsto> k)) h'" using main I(2) C by (simp add: heap_inv_def)
qed

lemma bump_inv:
  assumes inv: "heap_inv F L h" and z: "unat (heap_top h) + 8 + unat sz \<le> 0x8200000" "8 dvd unat sz" "8 \<le> unat sz" and k: "k \<le> unat sz"
    and h': "h' = h\<lparr>hmem := st32 (hmem h) (heap_top h) sz, heap_top := heap_top h + 8 + sz\<rparr>"
  shows "heap_inv F (L(heap_top h + 8 \<mapsto> k)) h'" "L (heap_top h + 8) = None" "heap_top h + 8 \<noteq> 0"
    "L q = Some j \<Longrightarrow> unat q \<le> unat y \<Longrightarrow> unat y < unat q + j \<Longrightarrow> hmem h' y = hmem h y"
proof -
  let ?C = "set F \<union> live L"
  note I = heap_invD [OF inv]
  note w = top_write [OF I(3) z refl]
  have e: "hmem h' = st32 (hmem h) (heap_top h) sz" "free_list h' = free_list h" "heap_top h' = heap_top h + 8 + sz" by (simp_all add: h')
  show "heap_top h + 8 \<noteq> 0" using z(1) unat_word_ariths(1) [of "heap_top h" 8] by auto
  show "L (heap_top h + 8) = None" using w(2) live_iff [of "heap_top h + 8" L] by auto
  show "hmem h' y = hmem h y" if q: "L q = Some j" "unat q \<le> unat y" "unat y < unat q + j"
    using w(6) [of y] shapeD(7) [OF I(3) held_block(1) [OF inv q(1)]] held_block(2) [OF inv q(1)] I(5) [OF q(1)] q(2,3) by (simp add: e)
  have "j \<le> csize (hmem h') (p - 8)" if "(L(heap_top h + 8 \<mapsto> k)) p = Some j" for p j
  proof (cases "p = heap_top h + 8")
    case True
    then show ?thesis using that k w(3) by (simp add: e)
  next
    case False
    then have "L p = Some j" using that by simp
    then show ?thesis using w(4) [OF held_block(1) [OF inv]] I(5) [of p j] by (simp add: e)
  qed
  moreover have "links (hmem h') (free_list h') F 0" using I(1) links_cong [of F "hmem h'" "hmem h"] w(5) by (simp add: e)
  moreover have "set F \<union> live (L(heap_top h + 8 \<mapsto> k)) = insert (heap_top h) ?C" by (auto simp: live_upd)
  moreover have "set F \<inter> live (L(heap_top h + 8 \<mapsto> k)) = {}" using I(4) w(2) by (auto simp: live_upd)
  ultimately show "heap_inv F (L(heap_top h + 8 \<mapsto> k)) h'" using w(1) I(2) by (simp add: heap_inv_def e)
qed

text \<open>\<open>malloc\<close> returns, and hands out a block that nobody holds without touching the ones that are held.\<close>

lemma malloc_inv:
  assumes inv: "heap_inv F L h" and n: "unat n < 2 ^ 31"
  shows "\<exists>p h'. u_malloc n h = Some (p, h') \<and> (p = 0 \<longrightarrow> h' = h) \<and> (p \<noteq> 0 \<longrightarrow> L p = None \<and> (\<exists>G. heap_inv G (L(p \<mapsto> unat n)) h')) \<and>
    (\<forall>q k x. L q = Some k \<and> unat q \<le> unat x \<and> unat x < unat q + k \<longrightarrow> hmem h' x = hmem h x)"
proof -
  define sz where "sz = (if (n + 7) AND NOT 7 = 0 then 8 else (n + 7) AND NOT 7)"
  note z = chunk_round_up [OF n, folded sz_def]
  have u: "u_malloc n h = do { (prev, c) \<leftarrow> first_fit (hmem h) sz 0 (free_list h);
     if c \<noteq> 0
     then Some (c + 8, if prev \<noteq> 0 then h\<lparr>hmem := st32 (hmem h) (prev + 4) (chunk_next (hmem h) c)\<rparr>
                       else h\<lparr>free_list := chunk_next (hmem h) c\<rparr>)
     else if heap_top h + 8 + sz > USER_HEAP_END then Some (0, h)
     else Some (heap_top h + 8, h\<lparr>hmem := st32 (hmem h) (heap_top h) sz, heap_top := heap_top h + 8 + sz\<rparr>) }"
    unfolding u_malloc_def Let_def sz_def by (rule refl)
  from first_fit_links [OF heap_invD(1) [OF inv], of sz 0] show ?thesis
  proof (elim disjE exE conjE)
    fix A x B assume F: "F = A @ x # B" "sz \<le> chunk_size (hmem h) x" "first_fit (hmem h) sz 0 (free_list h) = Some (last (0 # A), x)"
    have "unat n \<le> csize (hmem h) x" using F(2) z(1) by (simp add: word_le_nat_alt)
    note r = unlink_inv [OF inv [unfolded F(1)] this refl]
    have "x \<noteq> 0" using shapeD(4) [OF heap_invD(3) [OF inv], of x] F(1) by auto
    then show ?thesis unfolding u F(3) using r by auto
  next
    fix p assume f: "first_fit (hmem h) sz 0 (free_list h) = Some (p, 0)"
    have t: "unat (heap_top h + 8 + sz) = unat (heap_top h) + 8 + unat sz"
      using shapeD(2) [OF heap_invD(3) [OF inv]] z(4) by (simp add: unat_word_ariths)
    show ?thesis
    proof (cases "heap_top h + 8 + sz > USER_HEAP_END")
      case True
      then show ?thesis unfolding u f by simp
    next
      case False
      then have "unat (heap_top h) + 8 + unat sz \<le> 0x8200000" using t by (simp add: not_less word_le_nat_alt USER_HEAP_END_def)
      note r = bump_inv [OF inv this z(2,3,1) refl]
      show ?thesis unfolding u f using False r by auto
    qed
  qed
qed

lemma free_inv:
  assumes inv: "heap_inv F L h" and p: "L p = Some n"
  shows "heap_inv ((p - 8) # F) (L(p := None)) (u_free p h)"
    "L q = Some k \<Longrightarrow> unat q \<le> unat x \<Longrightarrow> unat x < unat q + k \<Longrightarrow> hmem (u_free p h) x = hmem h x"
proof -
  note I = heap_invD [OF inv]
  note b = held_block [OF inv p]
  note w = link_write [OF I(3) b(1) refl, where v = "free_list h"]
  have n0: "p \<noteq> 0" "p - 8 \<noteq> 0" using b(2) shapeD(4) [OF I(3) b(1)] by auto
  have e: "hmem (u_free p h) = st32 (hmem h) (p - 8 + 4) (free_list h)" "free_list (u_free p h) = p - 8" "heap_top (u_free p h) = heap_top h"
    using n0(1) by (simp_all add: u_free_def)
  show "hmem (u_free p h) x = hmem h x" if q: "L q = Some k" "unat q \<le> unat x" "unat x < unat q + k"
    using w(4) [OF held_block(1) [OF inv q(1)], of x] held_block(2) [OF inv q(1)] I(5) [OF q(1)] q(2,3) by (simp add: e)
  have F: "p - 8 \<notin> set F" using I(4) p live_iff [of p L] by auto
  then have "links (hmem (u_free p h)) (free_list h) F 0" using I(1) links_cong [of F "hmem (u_free p h)" "hmem h"] w(3) by (auto simp: e)
  then have "links (hmem (u_free p h)) (p - 8) ((p - 8) # F) 0" using w(1) n0(2) by (simp add: e)
  moreover have C: "set ((p - 8) # F) \<union> live (L(p := None)) = set F \<union> live L" using p live_iff [of p L] by (auto simp: live_upd)
  moreover have "\<forall>c\<in>set F \<union> live L. chunk_size (hmem (u_free p h)) c = chunk_size (hmem h) c" using w(2) unfolding e(1) by blast
  then have "shape (hmem (u_free p h)) (heap_top h) (set F \<union> live L)" using I(3) by (simp only: shape_cong)
  moreover have "j \<le> csize (hmem (u_free p h)) (q - 8)" if "(L(p := None)) q = Some j" for q j
    using that I(5) [of q j] w(2) [OF held_block(1) [OF inv, of q j]] by (auto simp: e split: if_splits)
  ultimately show "heap_inv ((p - 8) # F) (L(p := None)) (u_free p h)"
    using I(2,4) F unfolding heap_inv_def e(2,3) by (simp add: live_upd) blast
qed

lemma store_inv:
  assumes inv: "heap_inv F L h"
    and x: "L p = Some n \<and> unat p \<le> unat x \<and> unat x < unat p + n \<or> unat x \<notin> {unat USER_HEAP_START..<unat USER_HEAP_END}"
  shows "heap_inv F L (h\<lparr>hmem := (hmem h)(x := v)\<rparr>)"
proof -
  note I = heap_invD [OF inv]
  have "p - 8 \<in> set F \<union> live L \<and> unat (p - 8) + 8 \<le> unat x \<and> unat x < unat (p - 8) + 8 + csize (hmem h) (p - 8) \<or> unat x \<notin> {0x8100000..<0x8200000}"
    using x
  proof
    assume a: "L p = Some n \<and> unat p \<le> unat x \<and> unat x < unat p + n"
    then show ?thesis using held_block [OF inv, of p n] I(5) [of p n] by auto
  qed (simp add: USER_HEAP_START_def USER_HEAP_END_def)
  note w = byte_write [OF I(3) this, where v = v]
  have "\<forall>c\<in>set F \<union> live L. chunk_size ((hmem h)(x := v)) c = chunk_size (hmem h) c" using w(1) by blast
  then have "shape ((hmem h)(x := v)) (heap_top h) (set F \<union> live L)" using I(3) by (simp only: shape_cong)
  moreover have "links ((hmem h)(x := v)) (free_list h) F 0" using I(1) w(2) links_cong [of F "(hmem h)(x := v)" "hmem h"] by simp
  moreover have "j \<le> csize ((hmem h)(x := v)) (q - 8)" if "L q = Some j" for q j
    using I(5) [OF that] w(1) [OF held_block(1) [OF inv that]] by simp
  ultimately show ?thesis using I(2,4) by (simp add: heap_inv_def)
qed

subsection \<open>Programs\<close>

text \<open>
  What a program does with the heap: allocate, release what it holds, write to what it holds, and write outside the
  heap. Requests are below 2 GB.
\<close>

inductive heap_run :: "mem \<Rightarrow> (u32 \<rightharpoonup> nat) \<Rightarrow> heap \<Rightarrow> bool" for m where
  start: "heap_run m Map.empty (heap_start m)"
| alloc: "heap_run m L h \<Longrightarrow> unat n < 2 ^ 31 \<Longrightarrow> u_malloc n h = Some (p, h') \<Longrightarrow>
    heap_run m (if p = 0 then L else L(p \<mapsto> unat n)) h'"
| release: "heap_run m L h \<Longrightarrow> L p = Some n \<Longrightarrow> heap_run m (L(p := None)) (u_free p h)"
| store: "heap_run m L h \<Longrightarrow> L p = Some n \<and> unat p \<le> unat x \<and> unat x < unat p + n \<or>
      unat x \<notin> {unat USER_HEAP_START..<unat USER_HEAP_END} \<Longrightarrow>
    heap_run m L (h\<lparr>hmem := (hmem h)(x := v)\<rparr>)"

lemma heap_run_inv: "heap_run m L h \<Longrightarrow> \<exists>F. heap_inv F L h"
proof (induction rule: heap_run.induct)
  case start
  have "heap_inv [] Map.empty (heap_start m)"
    by (simp add: heap_inv_def heap_start_def shape_def live_def USER_HEAP_START_def USER_HEAP_END_def)
  then show ?case by blast
next
  case (alloc L h n p h')
  then obtain F where "heap_inv F L h" by blast
  from malloc_inv [OF this alloc(2)] alloc(3)
  have r: "p = 0 \<Longrightarrow> h' = h" "p \<noteq> 0 \<Longrightarrow> \<exists>G. heap_inv G (L(p \<mapsto> unat n)) h'" by auto
  show ?case
  proof (cases "p = 0")
    case True
    then show ?thesis using r(1) \<open>heap_inv F L h\<close> by auto
  next
    case False
    then show ?thesis using r(2) by (simp only: False if_False not_False_eq_True simp_thms)
  qed
next
  case (release L h p n)
  then show ?case using free_inv(1) by blast
next
  case (store L h p n x v)
  then show ?case using store_inv by blast
qed

text \<open>
  C27. The user heap is well formed at every moment of a program that writes only to blocks it holds: each block it holds
  is aligned to 8 bytes, lies inside the heap with all the bytes asked for, and overlaps no other; the next \<open>malloc\<close>
  returns, with a null pointer and nothing changed or with a block that was not held; and neither \<open>malloc\<close> nor \<open>free\<close>
  changes a byte of a block that is held.
\<close>

theorem heap_blocks_apart:
  assumes "heap_run m L h"
  shows "(\<forall>p n. L p = Some n \<longrightarrow> 8 dvd unat p \<and> unat USER_HEAP_START + 8 \<le> unat p \<and> unat p + n \<le> unat USER_HEAP_END \<and>
      (\<forall>q k. L q = Some k \<and> q \<noteq> p \<longrightarrow> {unat p..<unat p + n} \<inter> {unat q..<unat q + k} = {}) \<and>
      (\<forall>q k x. L q = Some k \<and> unat q \<le> unat x \<and> unat x < unat q + k \<longrightarrow> hmem (u_free p h) x = hmem h x)) \<and>
    (\<forall>sz. unat sz < 2 ^ 31 \<longrightarrow> (\<exists>p h'. u_malloc sz h = Some (p, h') \<and> (p = 0 \<longrightarrow> h' = h) \<and> (p \<noteq> 0 \<longrightarrow> L p = None) \<and>
      (\<forall>q k x. L q = Some k \<and> unat q \<le> unat x \<and> unat x < unat q + k \<longrightarrow> hmem h' x = hmem h x)))"
proof -
  obtain F where inv: "heap_inv F L h" using heap_run_inv [OF assms] by blast
  note I = heap_invD [OF inv]
  have b: "p - 8 \<in> set F \<union> live L" "unat p = unat (p - 8) + 8" "n \<le> csize (hmem h) (p - 8)" if "L p = Some n" for p n
    using held_block [OF inv that] I(5) [OF that] by auto
  have "8 dvd unat p \<and> unat USER_HEAP_START + 8 \<le> unat p \<and> unat p + n \<le> unat USER_HEAP_END" if p: "L p = Some n" for p n
    using b [OF p] shapeD(4,5) [OF I(3) b(1) [OF p]] shape_end [OF I(3) b(1) [OF p]] by (simp add: USER_HEAP_START_def USER_HEAP_END_def)
  moreover have "{unat p..<unat p + n} \<inter> {unat q..<unat q + k} = {}" if p: "L p = Some n" and q: "L q = Some k" "q \<noteq> p" for p n q k
  proof -
    have "p - 8 \<noteq> q - 8" using q(2) by simp
    from shapeD(8) [OF I(3) b(1) [OF p] b(1) [OF q(1)] this] b(2,3) [OF p] b(2,3) [OF q(1)] show ?thesis by (auto simp: disjoint_iff)
  qed
  moreover have "hmem (u_free p h) x = hmem h x" if "L p = Some n" "L q = Some k" "unat q \<le> unat x" "unat x < unat q + k" for p n q k x
    using free_inv(2) [OF inv that] .
  moreover have "\<exists>p h'. u_malloc sz h = Some (p, h') \<and> (p = 0 \<longrightarrow> h' = h) \<and> (p \<noteq> 0 \<longrightarrow> L p = None) \<and>
      (\<forall>q k x. L q = Some k \<and> unat q \<le> unat x \<and> unat x < unat q + k \<longrightarrow> hmem h' x = hmem h x)" if "unat sz < 2 ^ 31" for sz
    using malloc_inv [OF inv that] by blast
  ultimately show ?thesis by blast
qed

lemma first_malloc:
  "u_malloc 12 (heap_start m) = Some (0x8100008, \<lparr>hmem = st32 m 0x8100000 16, free_list = 0, heap_top = 0x8100018\<rparr>)"
  by (simp add: u_malloc_def heap_start_def first_fit.simps USER_HEAP_START_def USER_HEAP_END_def)

theorem heap_blocks_apart_witness:
  "\<exists>h. heap_run (\<lambda>_. 0) [0x8100008 \<mapsto> 12] h \<and> (\<exists>p h'. u_malloc 100 h = Some (p, h') \<and> (p \<noteq> 0 \<longrightarrow> p \<noteq> 0x8100008))"
proof -
  have r: "heap_run (\<lambda>_. 0) [0x8100008 \<mapsto> 12] \<lparr>hmem = st32 (\<lambda>_. 0) 0x8100000 16, free_list = 0, heap_top = 0x8100018\<rparr>"
    using heap_run.alloc [OF heap_run.start _ first_malloc] by simp
  show ?thesis using heap_blocks_apart [OF r, THEN conjunct2, rule_format, of 100] r by force
qed

text \<open>
  Requests near 4 GB are not refused: the rounding of the size, and the test against the end of the heap, wrap around.
  The first gets 8 bytes; the second moves the top of the heap below its start.
\<close>

lemma u_malloc_wraps:
  "u_malloc 0xFFFFFFFF (heap_start m) = Some (0x8100008, \<lparr>hmem = st32 m 0x8100000 8, free_list = 0, heap_top = 0x8100010\<rparr>)"
  "u_malloc 0xF8000000 (heap_start m) = Some (0x8100008, \<lparr>hmem = st32 m 0x8100000 0xF8000000, free_list = 0, heap_top = 0x100008\<rparr>)"
  by (simp_all add: u_malloc_def heap_start_def first_fit.simps USER_HEAP_START_def USER_HEAP_END_def)

end
