(* ===== verification/Shell.thy ===== *)
theory Shell
  imports User_Lib
begin

text \<open>
  The shell programs run from, \<open>user/sh.c\<close>. Its parser works in place on a static buffer and leaves pointers into it, so
  the buffer is part of the state and an \<open>argv\<close> entry is an offset. The system calls are arguments, collected in a
  record; a call that does not come back is \<open>None\<close>. A function of the shell ends by returning, by \<open>exit\<close>, or by
  becoming another program. What \<open>printf\<close> reports is left out.
\<close>

definition ascii :: "string \<Rightarrow> byte list" where "ascii s = map (\<lambda>c. of_nat (of_char c)) s"

definition LINE_MAX :: nat where "LINE_MAX = 128"
definition ARGS_MAX :: nat where "ARGS_MAX = 16"
definition MAX_CMDS :: nat where "MAX_CMDS = 4"
definition MAX_BG :: nat where "MAX_BG = 8"

record cmd =
  argv :: "nat \<Rightarrow> nat option"
  argc :: nat
  c_in :: "nat option"
  c_out :: "nat option"
  append :: bool

subsection \<open>Parsing\<close>

definition is_blank :: "byte \<Rightarrow> bool" where "is_blank c \<longleftrightarrow> c = 32 \<or> c = 9"
definition meta :: "byte \<Rightarrow> bool" where "meta c \<longleftrightarrow> c = 60 \<or> c = 62 \<or> c = 124"

text \<open>The text \<open>normalize\<close> produces for a buffer of \<open>outsz\<close> bytes, without the closing 0.\<close>

fun normalize_text :: "nat \<Rightarrow> byte list \<Rightarrow> byte list \<Rightarrow> byte list" where
  "normalize_text outsz [] out = out"
| "normalize_text outsz (c # inp) out =
     (if length out \<ge> outsz - 4 then out
      else if meta c
      then if c = 62 \<and> inp \<noteq> [] \<and> hd inp = 62 then normalize_text outsz (tl inp) (out @ [32, 62, 62, 32])
           else normalize_text outsz inp (out @ [32, c, 32])
      else normalize_text outsz inp (out @ [c]))"

definition put_str :: "byte list \<Rightarrow> bytes \<Rightarrow> bytes" where
  "put_str t m = (\<lambda>i. if i < length t then t ! i else if i = length t then 0 else m i)"

text \<open>The string at an offset of the buffer.\<close>

definition word_at :: "bytes \<Rightarrow> nat \<Rightarrow> byte list" where
  "word_at m p = takeWhile (\<lambda>c. c \<noteq> 0) (map m [p..<LINE_MAX])"

text \<open>
  The next word from \<open>p\<close> on: \<open>None\<close> at the end of the text, otherwise where it starts, the buffer with its end marked,
  and where to go on. Leaving the buffer is undefined.
\<close>

definition next_word :: "bytes \<Rightarrow> nat \<Rightarrow> (nat \<times> bytes \<times> nat) option option" where
  "next_word m p = do {
     w \<leftarrow> scan (\<lambda>i. \<not> is_blank (m i)) p LINE_MAX;
     if m w = 0 then Some None
     else do {
       e \<leftarrow> scan (\<lambda>i. m i = 0 \<or> is_blank (m i)) w LINE_MAX;
       Some (Some (if m e \<noteq> 0 then (w, m(e := 0), Suc e) else (w, m, e))) } }"

definition fresh_cmd :: "cmd \<Rightarrow> cmd" where
  "fresh_cmd c = c\<lparr>argc := 0, c_in := None, c_out := None, append := False\<rparr>"

lemma next_word_progress: "next_word m p = Some (Some (w, m', q)) \<Longrightarrow> p \<le> w \<and> w < q \<and> q \<le> LINE_MAX"
proof -
  assume a: "next_word m p = Some (Some (w, m', q))"
  then obtain e where e: "scan (\<lambda>i. \<not> is_blank (m i)) p LINE_MAX = Some w" "m w \<noteq> 0" "scan (\<lambda>i. m i = 0 \<or> is_blank (m i)) w LINE_MAX = Some e"
    "q = (if m e \<noteq> 0 then Suc e else e)"
    by (auto simp: next_word_def split: Option.bind_splits if_splits)
  then show ?thesis using scan_SomeD [OF e(1)] scan_SomeD [OF e(3)] by (cases "e = w") auto
qed

function parse_loop :: "nat \<Rightarrow> bytes \<Rightarrow> (nat \<Rightarrow> cmd) \<Rightarrow> nat \<Rightarrow> nat \<Rightarrow> (int \<times> bytes \<times> (nat \<Rightarrow> cmd)) option" where
  "parse_loop maxcmds m cs n p =
     (case next_word m p of
        None \<Rightarrow> None
      | Some None \<Rightarrow>
          Some (if argc (cs n) = 0 then (if n = 0 then 0 else -1, m, cs)
                else (int n + 1, m, cs(n := (cs n)\<lparr>argv := (argv (cs n))(argc (cs n) := None)\<rparr>)))
      | Some (Some (word, m, p)) \<Rightarrow>
          if word_at m word = ascii ''|''
          then if n + 1 \<ge> maxcmds \<or> argc (cs n) = 0 then Some (-1, m, cs)
               else parse_loop maxcmds m (cs(n + 1 := fresh_cmd (cs (n + 1)))) (n + 1) p
          else if word_at m word \<in> {ascii ''<'', ascii ''>'', ascii ''>>''}
          then (case next_word m p of
                  None \<Rightarrow> None
                | Some None \<Rightarrow> Some (-1, m, cs)
                | Some (Some (file, m, p)) \<Rightarrow>
                    parse_loop maxcmds m
                      (cs(n := if m word = 60 then (cs n)\<lparr>c_in := Some file\<rparr>
                               else (cs n)\<lparr>c_out := Some file, append := (m (word + 1) = 62)\<rparr>)) n p)
          else if argc (cs n) \<ge> ARGS_MAX - 1 then Some (-1, m, cs)
          else parse_loop maxcmds m
                 (cs(n := (cs n)\<lparr>argv := (argv (cs n))(argc (cs n) := Some word), argc := argc (cs n) + 1\<rparr>)) n p)"
  by pat_completeness auto

termination
  by (relation "measure (\<lambda>(_, _, _, _, p). LINE_MAX - p)") (auto dest!: next_word_progress)

declare parse_loop.simps [simp del]

definition parse_pipeline :: "byte list \<Rightarrow> bytes \<Rightarrow> (nat \<Rightarrow> cmd) \<Rightarrow> nat \<Rightarrow> (int \<times> bytes \<times> (nat \<Rightarrow> cmd)) option" where
  "parse_pipeline line norm cmds maxcmds =
     parse_loop maxcmds (put_str (normalize_text LINE_MAX line []) norm) (cmds(0 := fresh_cmd (cmds 0))) 0 0"

subsection \<open>System calls and the shell's state\<close>

text \<open>
  \<open>os_getc\<close> is \<open>read\<close> of one byte from descriptor 0, \<open>os_puts\<close> is \<open>write\<close> to descriptor 1. \<open>os_execve\<close> tells whether the
  image was replaced; it gets the array of argument strings as it stands. \<open>os_waitpid\<close> takes \<open>True\<close> for \<open>WNOHANG\<close>.
\<close>

record 's os =
  os_getc :: "'s \<Rightarrow> (byte option \<times> 's) option"
  os_puts :: "byte list \<Rightarrow> 's \<Rightarrow> 's option"
  os_open :: "byte list \<Rightarrow> nat \<Rightarrow> 's \<Rightarrow> (int \<times> 's) option"
  os_creat :: "byte list \<Rightarrow> nat \<Rightarrow> 's \<Rightarrow> (int \<times> 's) option"
  os_lseek :: "int \<Rightarrow> int \<Rightarrow> nat \<Rightarrow> 's \<Rightarrow> (int \<times> 's) option"
  os_dup :: "int \<Rightarrow> 's \<Rightarrow> (int \<times> 's) option"
  os_dup2 :: "int \<Rightarrow> int \<Rightarrow> 's \<Rightarrow> (int \<times> 's) option"
  os_close :: "int \<Rightarrow> 's \<Rightarrow> (int \<times> 's) option"
  os_pipe :: "'s \<Rightarrow> (int \<times> int \<times> int \<times> 's) option"
  os_fork :: "'s \<Rightarrow> (int \<times> 's) option"
  os_waitpid :: "int \<Rightarrow> bool \<Rightarrow> 's \<Rightarrow> (int \<times> u32 \<times> 's) option"
  os_chdir :: "byte list \<Rightarrow> 's \<Rightarrow> (int \<times> 's) option"
  os_sleep :: "u32 \<Rightarrow> 's \<Rightarrow> (int \<times> 's) option"
  os_execve :: "byte list \<Rightarrow> (nat \<Rightarrow> byte list option) \<Rightarrow> 's \<Rightarrow> (bool \<times> 's) option"

record 's shell =
  norm :: bytes
  cmds :: "nat \<Rightarrow> cmd"
  want_exit :: bool
  exit_code :: int
  bg_pid :: "nat \<Rightarrow> int"
  sys :: 's

datatype 'a outcome = Ret 'a | Exit int | Exec "byte list" "nat \<Rightarrow> byte list option"

text \<open>A call on the state under the shell.\<close>

definition call :: "('s \<Rightarrow> ('a \<times> 's) option) \<Rightarrow> 's shell \<Rightarrow> ('a \<times> 's shell) option" where
  "call f st = do { (r, s) \<leftarrow> f (sys st); Some (r, st\<lparr>sys := s\<rparr>) }"

definition do_call :: "('s \<Rightarrow> ('a \<times> 's) option) \<Rightarrow> 's shell \<Rightarrow> 's shell option" where
  "do_call f st = do { (r, st) \<leftarrow> call f st; Some st }"

definition puts :: "'s os \<Rightarrow> byte list \<Rightarrow> 's shell \<Rightarrow> 's shell option" where
  "puts os t st = do { s \<leftarrow> os_puts os t (sys st); Some (st\<lparr>sys := s\<rparr>) }"

subsection \<open>Reading a line\<close>

partial_function (option) read_line :: "'s os \<Rightarrow> nat \<Rightarrow> nat \<Rightarrow> bytes \<Rightarrow> 's shell \<Rightarrow> (int \<times> bytes \<times> 's shell) option" where
  "read_line os sz i buf st = do {
     (c, st) \<leftarrow> call (os_getc os) st;
     case c of
       None \<Rightarrow> Some (if i \<noteq> 0 then int i else -1, buf, st)
     | Some c \<Rightarrow>
         if c = 10 then do { st \<leftarrow> puts os [10] st; Some (int i, buf(i := 0), st) }
         else if c = 8 \<or> c = 127
         then if i > 0 then do { st \<leftarrow> puts os [8, 32, 8] st; read_line os sz (i - 1) buf st } else read_line os sz i buf st
         else if i < sz - 1 then do { st \<leftarrow> puts os [c] st; read_line os sz (i + 1) (buf(i := c)) st }
         else read_line os sz i buf st }"

subsection \<open>Running commands\<close>

definition redir_to :: "'s os \<Rightarrow> int \<Rightarrow> int \<Rightarrow> 's shell \<Rightarrow> 's shell option" where
  "redir_to os fd std st = do {
     st \<leftarrow> do_call (os_dup2 os fd std) st;
     if fd \<noteq> std then do_call (os_close os fd) st else Some st }"

definition apply_redirs :: "'s os \<Rightarrow> cmd \<Rightarrow> 's shell \<Rightarrow> (bool \<times> 's shell) option" where
  "apply_redirs os c st = do {
     (ok, st) \<leftarrow> (case c_in c of
        None \<Rightarrow> Some (True, st)
      | Some f \<Rightarrow> do {
          (fd, st) \<leftarrow> call (os_open os (word_at (norm st) f) 0) st;
          if fd < 0 then Some (False, st) else do { st \<leftarrow> redir_to os fd 0 st; Some (True, st) } });
     if \<not> ok then Some (False, st)
     else case c_out c of
        None \<Rightarrow> Some (True, st)
      | Some f \<Rightarrow> do {
          (fd, st) \<leftarrow> (if append c
             then do {
               (fd, st) \<leftarrow> call (os_open os (word_at (norm st) f) 1) st;
               st \<leftarrow> (if fd \<ge> 0 then do_call (os_lseek os fd 0 2) st else Some st);
               Some (fd, st) }
             else call (os_creat os (word_at (norm st) f) 420) st);
          if fd < 0 then Some (False, st) else do { st \<leftarrow> redir_to os fd 1 st; Some (True, st) } } }"

definition bg_add :: "int \<Rightarrow> 's shell \<Rightarrow> 's shell" where
  "bg_add pid st =
     (case scan (\<lambda>i. bg_pid st i = 0) 0 MAX_BG of
        None \<Rightarrow> st
      | Some i \<Rightarrow> st\<lparr>bg_pid := (bg_pid st)(i := pid)\<rparr>)"

definition bg_reap_one :: "'s os \<Rightarrow> bool \<Rightarrow> int \<Rightarrow> nat \<Rightarrow> 's shell \<Rightarrow> 's shell option" where
  "bg_reap_one os blocking only_pid i st =
     (if bg_pid st i = 0 \<or> (only_pid \<noteq> 0 \<and> bg_pid st i \<noteq> only_pid) then Some st
      else do {
        ((r, code), st) \<leftarrow> call (\<lambda>s. map_option (\<lambda>(r, code, s). ((r, code), s)) (os_waitpid os (bg_pid st i) (\<not> blocking) s)) st;
        Some (if r = bg_pid st i \<or> r < 0 then st\<lparr>bg_pid := (bg_pid st)(i := 0)\<rparr> else st) })"

definition bg_reap :: "'s os \<Rightarrow> bool \<Rightarrow> int \<Rightarrow> 's shell \<Rightarrow> 's shell option" where
  "bg_reap os blocking only_pid st = for_range 0 MAX_BG (bg_reap_one os blocking only_pid) st"

definition is_builtin :: "byte list \<Rightarrow> bool" where
  "is_builtin name \<longleftrightarrow> name \<in> {ascii ''cd'', ascii ''echo'', ascii ''help'', ascii ''exit'', ascii ''wait'', ascii ''sleep''}"

definition arg :: "cmd \<Rightarrow> nat \<Rightarrow> 's shell \<Rightarrow> byte list" where
  "arg c i st = word_at (norm st) (the (argv c i))"

fun echo_args :: "byte list list \<Rightarrow> byte list list" where
  "echo_args [] = []"
| "echo_args [a] = [a]"
| "echo_args (a # as) = a # [32] # echo_args as"

definition put_all :: "'s os \<Rightarrow> byte list list \<Rightarrow> 's shell \<Rightarrow> 's shell option" where
  "put_all os ts st = for_range 0 (length ts) (\<lambda>i. puts os (ts ! i)) st"

definition builtin_run :: "'s os \<Rightarrow> cmd \<Rightarrow> 's shell \<Rightarrow> (int \<times> 's shell) option" where
  "builtin_run os c st =
     (let name = arg c 0 st
      in if name = ascii ''echo'' then do {
           st \<leftarrow> put_all os (echo_args (map (\<lambda>i. arg c i st) [1..<argc c]) @ [[10]]) st;
           Some (0, st) }
         else if name = ascii ''help'' then Some (0, st)
         else if name = ascii ''wait'' then do {
           st \<leftarrow> bg_reap os True (if argc c > 1 then atoi (arg c 1 st) else 0) st;
           Some (0, st) }
         else if name = ascii ''sleep'' then do {
           st \<leftarrow> do_call (os_sleep os (if argc c > 1 then of_int (atoi (arg c 1 st)) else 1)) st;
           Some (0, st) }
         else if name = ascii ''cd'' then
           if argv c 1 = None then Some (1, st)
           else do {
             (r, st) \<leftarrow> call (os_chdir os (arg c 1 st)) st;
             Some (if r < 0 then 1 else 0, st) }
         else if name = ascii ''exit'' then
           let code = (if argv c 1 \<noteq> None then atoi (arg c 1 st) else 0)
           in Some (code, st\<lparr>want_exit := True, exit_code := code\<rparr>)
         else Some (127, st))"

definition exec_program :: "'s os \<Rightarrow> cmd \<Rightarrow> 's shell \<Rightarrow> ('a outcome \<times> 's shell) option" where
  "exec_program os c st = do {
     let path = take 63 (ascii ''/bin/'' @ arg c 0 st);
     let args = (\<lambda>i. map_option (word_at (norm st)) (argv c i));
     (ok, st) \<leftarrow> call (os_execve os path args) st;
     Some (if ok then Exec path args else Exit 127, st) }"

text \<open>The child of a fork, once its descriptors are in place.\<close>

definition child :: "'s os \<Rightarrow> cmd \<Rightarrow> 's shell \<Rightarrow> ('a outcome \<times> 's shell) option" where
  "child os c st = do {
     (ok, st) \<leftarrow> apply_redirs os c st;
     if \<not> ok then Some (Exit 1, st)
     else if is_builtin (arg c 0 st) then do { (r, st) \<leftarrow> builtin_run os c st; Some (Exit r, st) }
     else exec_program os c st }"

definition restore :: "'s os \<Rightarrow> int \<Rightarrow> int \<Rightarrow> 's shell \<Rightarrow> 's shell option" where
  "restore os save std st =
     (if save \<ge> 0 then do { st \<leftarrow> do_call (os_dup2 os save std) st; do_call (os_close os save) st } else Some st)"

definition wait_for :: "'s os \<Rightarrow> int \<Rightarrow> 's shell \<Rightarrow> (u32 \<times> 's shell) option" where
  "wait_for os pid st = do {
     (r, code, s) \<leftarrow> os_waitpid os pid False (sys st);
     Some (code, st\<lparr>sys := s\<rparr>) }"

definition run_one :: "'s os \<Rightarrow> cmd \<Rightarrow> 's shell \<Rightarrow> (int outcome \<times> 's shell) option" where
  "run_one os c st =
     (if is_builtin (arg c 0 st)
      then do {
        let redir = (c_in c \<noteq> None \<or> c_out c \<noteq> None);
        (save0, st) \<leftarrow> (if redir then call (os_dup os 0) st else Some (-1, st));
        (save1, st) \<leftarrow> (if redir then call (os_dup os 1) st else Some (-1, st));
        (ok, st) \<leftarrow> (if redir then apply_redirs os c st else Some (True, st));
        (status, st) \<leftarrow> (if ok then builtin_run os c st else Some (1, st));
        st \<leftarrow> restore os save0 0 st;
        st \<leftarrow> restore os save1 1 st;
        Some (Ret status, st) }
      else do {
        (pid, st) \<leftarrow> call (os_fork os) st;
        if pid < 0 then Some (Ret 1, st)
        else if pid = 0 then child os c st
        else do {
          (code, st) \<leftarrow> wait_for os pid st;
          Some (Ret (sint code), st) } })"

text \<open>
  One stage of a pipeline: \<open>prev\<close> is the read end of the pipe from the stage before, -1 if there is none. \<open>Inl\<close> stops the
  loop, \<open>Inr\<close> goes on with the next read end. A pid that was never stored is what the stack held.
\<close>

definition stage_child :: "'s os \<Rightarrow> cmd \<Rightarrow> int \<Rightarrow> (int \<times> int) option \<Rightarrow> 's shell \<Rightarrow> ('a outcome \<times> 's shell) option" where
  "stage_child os c prev fds st = do {
     st \<leftarrow> (if prev \<ge> 0 then do { st \<leftarrow> do_call (os_dup2 os prev 0) st; do_call (os_close os prev) st } else Some st);
     st \<leftarrow> (case fds of
        None \<Rightarrow> Some st
      | Some (rd, wr) \<Rightarrow> do {
          st \<leftarrow> do_call (os_close os rd) st;
          st \<leftarrow> do_call (os_dup2 os wr 1) st;
          do_call (os_close os wr) st });
     child os c st }"

definition stage :: "'s os \<Rightarrow> nat \<Rightarrow> nat \<Rightarrow> int \<Rightarrow> (nat \<Rightarrow> int) \<Rightarrow> 's shell \<Rightarrow>
    ((int \<times> (nat \<Rightarrow> int) + int \<times> (nat \<Rightarrow> int)) outcome \<times> 's shell) option" where
  "stage os ncmds i prev pids st = do {
     (r, fds, st) \<leftarrow> (if i < ncmds - 1
        then do {
          (r, rd, wr, s) \<leftarrow> os_pipe os (sys st);
          Some (r, Some (rd, wr), st\<lparr>sys := s\<rparr>) }
        else Some (0, None, st));
     if r < 0 then Some (Ret (Inl (prev, pids)), st)
     else do {
       (pid, st) \<leftarrow> call (os_fork os) st;
       if pid < 0 then do {
         st \<leftarrow> (case fds of None \<Rightarrow> Some st
           | Some (rd, wr) \<Rightarrow> do { st \<leftarrow> do_call (os_close os rd) st; do_call (os_close os wr) st });
         Some (Ret (Inl (prev, pids)), st) }
       else if pid = 0 then stage_child os (cmds st i) prev fds st
       else do {
         st \<leftarrow> (case fds of None \<Rightarrow> Some st | Some (rd, wr) \<Rightarrow> do_call (os_close os wr) st);
         st \<leftarrow> (if prev \<ge> 0 then do_call (os_close os prev) st else Some st);
         Some (Ret (Inr (case fds of None \<Rightarrow> -1 | Some (rd, wr) \<Rightarrow> rd, pids(i := pid))), st) } } }"

function stages :: "'s os \<Rightarrow> nat \<Rightarrow> nat \<Rightarrow> int \<Rightarrow> (nat \<Rightarrow> int) \<Rightarrow> 's shell \<Rightarrow> ((int \<times> (nat \<Rightarrow> int)) outcome \<times> 's shell) option" where
  "stages os ncmds i prev pids st =
     (if i < ncmds
      then case stage os ncmds i prev pids st of
             None \<Rightarrow> None
           | Some (Ret (Inl x), st) \<Rightarrow> Some (Ret x, st)
           | Some (Ret (Inr (prev, pids)), st) \<Rightarrow> stages os ncmds (Suc i) prev pids st
           | Some (Exit r, st) \<Rightarrow> Some (Exit r, st)
           | Some (Exec p a, st) \<Rightarrow> Some (Exec p a, st)
      else Some (Ret (prev, pids), st))"
  by pat_completeness auto

termination
  by (relation "measure (\<lambda>(os, ncmds, i, _). ncmds - i)") auto

declare stages.simps [simp del]

definition wait_all :: "'s os \<Rightarrow> nat \<Rightarrow> (nat \<Rightarrow> int) \<Rightarrow> 's shell \<Rightarrow> (u32 \<times> 's shell) option" where
  "wait_all os ncmds pids st = for_range 0 ncmds (\<lambda>i (status, st). wait_for os (pids i) st) (0, st)"

definition run_pipeline :: "'s os \<Rightarrow> nat \<Rightarrow> (nat \<Rightarrow> int) \<Rightarrow> 's shell \<Rightarrow> (int outcome \<times> 's shell) option" where
  "run_pipeline os ncmds stack st =
     (if ncmds = 1 then run_one os (cmds st 0) st
      else do {
        (r, st) \<leftarrow> stages os ncmds 0 (-1) stack st;
        case r of
          Ret (prev, pids) \<Rightarrow> do {
            st \<leftarrow> (if prev \<ge> 0 then do_call (os_close os prev) st else Some st);
            (code, st) \<leftarrow> wait_all os ncmds pids st;
            Some (Ret (sint code), st) }
        | Exit r \<Rightarrow> Some (Exit r, st)
        | Exec p a \<Rightarrow> Some (Exec p a, st) })"

subsection \<open>The main loop\<close>

text \<open>A trailing \<open>&\<close> is blanked out; the result tells whether there was one.\<close>

definition take_amp :: "nat \<Rightarrow> bytes \<Rightarrow> bool \<times> bytes" where
  "take_amp n line =
     (case find (\<lambda>i. \<not> is_blank (line i)) (rev [0..<n]) of
        Some i \<Rightarrow> if line i = 38 then (True, line(i := 32)) else (False, line)
      | None \<Rightarrow> (False, line))"

text \<open>
  One round: \<open>Ret True\<close> goes on, \<open>Ret False\<close> leaves the loop. A line without its 0 is read past its end.
\<close>

definition round :: "'s os \<Rightarrow> (nat \<Rightarrow> int) \<Rightarrow> bytes \<Rightarrow> 's shell \<Rightarrow> (bool outcome \<times> bytes \<times> 's shell) option" where
  "round os stack line st = do {
     st \<leftarrow> bg_reap os False 0 st;
     st \<leftarrow> puts os (ascii ''$ '') st;
     (n, line, st) \<leftarrow> read_line os LINE_MAX 0 line st;
     if n < 0 then Some (Ret False, line, st)
     else if n = 0 then Some (Ret True, line, st)
     else let (background, line) = take_amp (nat n) line
          in if \<forall>i<LINE_MAX. line i \<noteq> 0 then None
             else do {
               (k, nm, cs) \<leftarrow> parse_pipeline (word_at line 0) (norm st) (cmds st) MAX_CMDS;
               let st = st\<lparr>norm := nm, cmds := cs\<rparr>;
               if k \<le> 0 then Some (Ret True, line, st)
               else if background then do {
                 (pid, st) \<leftarrow> call (os_fork os) st;
                 if pid < 0 then Some (Ret True, line, st)
                 else if pid = 0 then do {
                   (r, st) \<leftarrow> run_pipeline os (nat k) stack st;
                   Some (case r of Ret x \<Rightarrow> Exit x | Exit x \<Rightarrow> Exit x | Exec p a \<Rightarrow> Exec p a, line, st) }
                 else Some (Ret True, line, bg_add pid st) }
               else do {
                 (r, st) \<leftarrow> run_pipeline os (nat k) stack st;
                 Some (case r of Ret x \<Rightarrow> Ret (\<not> want_exit st) | Exit x \<Rightarrow> Exit x | Exec p a \<Rightarrow> Exec p a, line, st) } } }"

partial_function (option) sh_main :: "'s os \<Rightarrow> (nat \<Rightarrow> int) \<Rightarrow> bytes \<Rightarrow> 's shell \<Rightarrow> (int outcome \<times> 's shell) option" where
  "sh_main os stack line st = do {
     (r, line, st) \<leftarrow> round os stack line st;
     case r of
       Ret again \<Rightarrow> if again then sh_main os stack line st else Some (Ret (exit_code st), st)
     | Exit x \<Rightarrow> Some (Exit x, st)
     | Exec p a \<Rightarrow> Some (Exec p a, st) }"

end
