(* ===== verification/Shell_Parse.thy ===== *)
theory Shell_Parse
  imports Shell
begin

text \<open>
  The shell's parser implements its grammar: the pointers \<open>parse_pipeline\<close> leaves in its buffer spell the commands that
  the tokens of the line make up.
\<close>

subsection \<open>The grammar\<close>

text \<open>What a line means: the words of its text, and the commands they make up.\<close>

function words :: "byte list \<Rightarrow> byte list list" where
  "words [] = []"
| "words (c # t) =
     (if is_blank c then words t
      else (c # takeWhile (\<lambda>c. \<not> is_blank c) t) # words (dropWhile (\<lambda>c. \<not> is_blank c) t))"
  by pat_completeness auto

termination
  by (relation "measure length") (auto simp: le_imp_less_Suc length_dropWhile_le)

record scmd =
  s_args :: "byte list list"
  s_in :: "byte list option"
  s_out :: "(byte list \<times> bool) option"

definition no_cmd :: scmd where "no_cmd = \<lparr>s_args = [], s_in = None, s_out = None\<rparr>"

fun parse_words :: "nat \<Rightarrow> scmd list \<Rightarrow> scmd \<Rightarrow> byte list list \<Rightarrow> scmd list option" where
  "parse_words mx ds cm [] =
     (if s_args cm = [] then if ds = [] then Some [] else None else Some (ds @ [cm]))"
| "parse_words mx ds cm (w # ws) =
     (if w = ascii ''|''
      then if length ds + 1 \<ge> mx \<or> s_args cm = [] then None else parse_words mx (ds @ [cm]) no_cmd ws
      else if w \<in> {ascii ''<'', ascii ''>'', ascii ''>>''}
      then (case ws of [] \<Rightarrow> None
            | f # ws \<Rightarrow> parse_words mx ds (if w = ascii ''<'' then cm\<lparr>s_in := Some f\<rparr>
                          else cm\<lparr>s_out := Some (f, w = ascii ''>>'')\<rparr>) ws)
      else if length (s_args cm) \<ge> ARGS_MAX - 1 then None
      else parse_words mx ds (cm\<lparr>s_args := s_args cm @ [w]\<rparr>) ws)"

subsection \<open>Words in the buffer\<close>

primrec seg :: "bytes \<Rightarrow> nat \<Rightarrow> byte list \<Rightarrow> bool" where
  "seg m p [] \<longleftrightarrow> True"
| "seg m p (c # t) \<longleftrightarrow> m p = c \<and> c \<noteq> 0 \<and> seg m (Suc p) t"

definition text_at :: "bytes \<Rightarrow> nat \<Rightarrow> byte list \<Rightarrow> bool" where
  "text_at m p t \<longleftrightarrow> seg m p t \<and> p + length t < LINE_MAX \<and> m (p + length t) = 0"

lemma seg_append: "seg m p (a @ b) \<longleftrightarrow> seg m p a \<and> seg m (p + length a) b"
  by (induction a arbitrary: p) auto

lemma seg_cong: "\<forall>i. p \<le> i \<and> i < p + length t \<longrightarrow> m' i = m i \<Longrightarrow> seg m' p t = seg m p t"
  by (induction t arbitrary: p) auto

lemma seg_nth: "seg m p a \<Longrightarrow> i < length a \<Longrightarrow> m (p + i) = a ! i \<and> a ! i \<noteq> 0"
proof (induction a arbitrary: p i)
  case (Cons c a)
  then show ?case using Cons.IH [of "Suc p" "i - 1"] by (cases i) auto
qed simp

lemma seg_I: "\<forall>i<length a. m (p + i) = a ! i \<and> a ! i \<noteq> 0 \<Longrightarrow> seg m p a"
proof (induction a arbitrary: p)
  case (Cons c a)
  have "\<forall>i<length a. m (Suc p + i) = a ! i \<and> a ! i \<noteq> 0" using Cons.prems by fastforce
  then show ?case using Cons by fastforce
qed simp

lemma scan_seg:
  assumes "seg m p a" "\<forall>c\<in>set a. \<not> P c" "P (m (p + length a))" "p + length a < LINE_MAX"
  shows "scan (\<lambda>i. P (m i)) p LINE_MAX = Some (p + length a)"
proof -
  have "\<not> P (m j)" if "p \<le> j" "j < p + length a" for j
    using seg_nth [OF assms(1), of "j - p"] assms(2) that by simp
  then show ?thesis using assms(3,4) by (intro scan_eq_Some) auto
qed

lemma word_at_seg:
  assumes "text_at m p w"
  shows "word_at m p = w"
proof -
  let ?e = "p + length w"
  have "map m [p..<LINE_MAX] = map m [p..<?e] @ 0 # map m [Suc ?e..<LINE_MAX]"
    using assms upt_add_eq_append [of p ?e "LINE_MAX - ?e"] upt_conv_Cons [of ?e LINE_MAX] by (simp add: text_at_def)
  moreover have "map m [p..<?e] = w" using seg_nth assms by (intro nth_equalityI) (auto simp: text_at_def)
  moreover have "\<forall>c\<in>set w. c \<noteq> 0" using seg_nth assms by (metis in_set_conv_nth text_at_def)
  ultimately show ?thesis by (simp add: word_at_def takeWhile_append2)
qed

lemma word_at_cong:
  assumes "p \<le> k" "k < LINE_MAX" "m k = 0" "\<forall>i\<le>k. m' i = m i"
  shows "word_at m' p = word_at m p"
proof -
  have e: "[p..<LINE_MAX] = [p..<k] @ k # [Suc k..<LINE_MAX]" using assms(1,2) upt_add_eq_append [of p k "LINE_MAX - k"] upt_conv_Cons [of k LINE_MAX] by simp
  have m: "map m' [p..<k] = map m [p..<k]" "m' k = 0" using assms(3,4) by auto
  have z: "takeWhile (\<lambda>c. c \<noteq> 0) (xs @ 0 # ys) = takeWhile (\<lambda>c. c \<noteq> 0) xs" for xs ys :: "byte list" by (induction xs) auto
  show ?thesis unfolding word_at_def e map_append list.map m assms(3) z ..
qed

text \<open>Taking a word: the buffer changes only behind the start of the word.\<close>

lemma next_word_None:
  assumes "text_at m p t" "words t = []"
  shows "next_word m p = Some None"
proof -
  have b: "\<forall>c\<in>set t. is_blank c" using assms(2)
  proof (induction t)
    case (Cons c t)
    then show ?case by (cases "is_blank c") simp_all
  qed simp
  have "scan (\<lambda>i. \<not> is_blank (m i)) p LINE_MAX = Some (p + length t)"
    using scan_seg [of m p t "\<lambda>c. \<not> is_blank c"] assms(1) b by (simp add: text_at_def is_blank_def)
  then show ?thesis using assms(1) by (simp add: next_word_def text_at_def)
qed

lemma words_Cons:
  assumes "words t = w # ws"
  obtains bl r where "t = bl @ w @ r" "\<forall>c\<in>set bl. is_blank c" "w \<noteq> []" "\<forall>c\<in>set w. \<not> is_blank c" "words r = ws" "r = [] \<or> is_blank (hd r)"
  using assms
proof (induction t arbitrary: thesis rule: words.induct)
  case (2 c t)
  show ?case
  proof (cases "is_blank c")
    case True
    then have "words t = w # ws" using 2(4) by simp
    from 2(1) [OF True _ this] obtain bl r where "t = bl @ w @ r" "\<forall>c\<in>set bl. is_blank c" "w \<noteq> []" "\<forall>c\<in>set w. \<not> is_blank c" "words r = ws" "r = [] \<or> is_blank (hd r)" by blast
    then show ?thesis using True by (intro 2(3) [of "c # bl" r]) auto
  next
    case False
    let ?w = "takeWhile (\<lambda>c. \<not> is_blank c) t" and ?r = "dropWhile (\<lambda>c. \<not> is_blank c) t"
    have "w = c # ?w" "ws = words ?r" using 2(4) False by auto
    moreover have "?r = [] \<or> is_blank (hd ?r)" using hd_dropWhile [of "\<lambda>c. \<not> is_blank c" t] by auto
    ultimately show ?thesis using False by (intro 2(3) [of "[]" ?r]) (auto dest: set_takeWhileD)
  qed
qed simp

lemma next_word_Some:
  assumes tx: "text_at m p t" and ws: "words t = w # ws"
  obtains a m' q u where "next_word m p = Some (Some (a, m', q))" "p \<le> a" "text_at m' q u" "words u = ws"
    "text_at m' a w" "a + length w \<le> q" "\<forall>i\<le>a. m' i = m i" "w \<noteq> []"
proof -
  obtain bl r where r: "t = bl @ w @ r" "\<forall>c\<in>set bl. is_blank c" "w \<noteq> []" "\<forall>c\<in>set w. \<not> is_blank c" "words r = ws" "r = [] \<or> is_blank (hd r)"
    by (rule words_Cons [OF ws])
  define a where "a = p + length bl"
  define e where "e = a + length w"
  have s: "seg m p bl" "seg m a w" "seg m e r" "e + length r < LINE_MAX" "m (e + length r) = 0"
    using tx by (simp_all add: text_at_def r(1) seg_append a_def e_def add.assoc)
  have wa: "m a = hd w" "hd w \<noteq> 0" "\<not> is_blank (hd w)" using s(2) r(3,4) by (cases w; simp)+
  have we: "m e = 0 \<or> is_blank (m e)" using s(3,5) r(6) by (cases r) auto
  have w0: "\<forall>c\<in>set w. \<not> (c = 0 \<or> is_blank c)" using seg_nth [OF s(2)] r(4) by (metis in_set_conv_nth)
  have le: "a < e" "e < LINE_MAX" using r(3) s(4) by (simp_all add: e_def)
  have s1: "scan (\<lambda>i. \<not> is_blank (m i)) p LINE_MAX = Some a"
    using scan_seg [OF s(1), of "\<lambda>c. \<not> is_blank c"] r(2) wa le by (simp add: a_def)
  have s2: "scan (\<lambda>i. m i = 0 \<or> is_blank (m i)) a LINE_MAX = Some e"
    using scan_seg [OF s(2) w0] we le(2) by (simp add: e_def)
  show thesis
  proof (cases r)
    case Nil
    then have "next_word m p = Some (Some (a, m, e))" using s1 s2 wa s(5) by (simp add: next_word_def)
    then show ?thesis using that [of a m e "[]"] s le r(3,5) Nil by (auto simp: text_at_def a_def e_def)
  next
    case (Cons c u)
    let ?m = "m(e := 0)"
    have "next_word m p = Some (Some (a, ?m, Suc e))" using s1 s2 wa s(3) Cons by (simp add: next_word_def)
    moreover have "text_at ?m (Suc e) u" using s(3-5) Cons seg_cong [of "Suc e" u ?m m] by (simp add: text_at_def)
    moreover have "text_at ?m a w" using s(2) le seg_cong [of a w ?m m] by (simp add: text_at_def e_def)
    moreover have "words u = ws" using r(5,6) Cons by simp
    ultimately show ?thesis using that [of a ?m "Suc e" u] le r(3) by (auto simp: a_def e_def)
  qed
qed

subsection \<open>The parser implements the grammar\<close>

definition abs_cmd :: "bytes \<Rightarrow> cmd \<Rightarrow> scmd" where
  "abs_cmd m c = \<lparr>s_args = map (\<lambda>i. word_at m (the (argv c i))) [0..<argc c], s_in = map_option (word_at m) (c_in c),
     s_out = map_option (\<lambda>f. (word_at m f, append c)) (c_out c)\<rparr>"

text \<open>The pointers of a command point to words that end at or before \<open>p\<close>.\<close>

definition ends_by :: "bytes \<Rightarrow> nat \<Rightarrow> nat \<Rightarrow> bool" where
  "ends_by m p a \<longleftrightarrow> (\<exists>k. a \<le> k \<and> k \<le> p \<and> k < LINE_MAX \<and> m k = 0)"

definition settled :: "bytes \<Rightarrow> nat \<Rightarrow> cmd \<Rightarrow> bool" where
  "settled m p c \<longleftrightarrow> (\<forall>i<argc c. \<exists>a. argv c i = Some a \<and> ends_by m p a) \<and>
     (\<forall>a. c_in c = Some a \<longrightarrow> ends_by m p a) \<and> (\<forall>a. c_out c = Some a \<longrightarrow> ends_by m p a) \<and> (c_out c = None \<longrightarrow> \<not> append c)"

lemma ends_by_mono:
  assumes "ends_by m p a" "\<forall>i\<le>p. m' i = m i" "p \<le> q"
  shows "ends_by m' q a" "word_at m' a = word_at m a"
proof -
  obtain k where k: "a \<le> k" "k \<le> p" "k < LINE_MAX" "m k = 0" using assms(1) by (auto simp: ends_by_def)
  show "ends_by m' q a" using k assms(2,3) by (auto simp: ends_by_def intro!: exI [of _ k])
  show "word_at m' a = word_at m a" using word_at_cong [of a k m m'] k assms(2) by auto
qed

lemma settled_mono:
  assumes "settled m p c" "\<forall>i\<le>p. m' i = m i" "p \<le> q"
  shows "settled m' q c" "abs_cmd m' c = abs_cmd m c"
proof -
  show "settled m' q c" using assms(1) ends_by_mono(1) [OF _ assms(2,3)] unfolding settled_def by blast
  have "word_at m' (the (argv c i)) = word_at m (the (argv c i))" if "i < argc c" for i
    using assms(1) that ends_by_mono(2) [OF _ assms(2,3)] by (auto simp: settled_def)
  then show "abs_cmd m' c = abs_cmd m c" using assms(1) ends_by_mono(2) [OF _ assms(2,3)]
    by (cases "c_in c"; cases "c_out c") (auto simp: abs_cmd_def settled_def)
qed

lemma text_ends: "text_at m a w \<Longrightarrow> a + length w \<le> q \<Longrightarrow> ends_by m q a"
  unfolding ends_by_def text_at_def by (intro exI [of _ "a + length w"]) auto

lemma fresh_settled: "settled m p (fresh_cmd c)" "abs_cmd m (fresh_cmd c) = no_cmd"
  by (simp_all add: settled_def fresh_cmd_def abs_cmd_def no_cmd_def)

lemma add_word:
  assumes "settled m p c" "ends_by m p a"
  shows "settled m p (c\<lparr>argv := (argv c)(argc c := Some a), argc := argc c + 1\<rparr>)"
    "abs_cmd m (c\<lparr>argv := (argv c)(argc c := Some a), argc := argc c + 1\<rparr>) = (abs_cmd m c)\<lparr>s_args := s_args (abs_cmd m c) @ [word_at m a]\<rparr>"
  using assms by (auto simp: settled_def abs_cmd_def less_Suc_eq)

lemma add_redir:
  assumes "settled m p c" "ends_by m p f"
  shows "settled m p (c\<lparr>c_in := Some f\<rparr>)" "abs_cmd m (c\<lparr>c_in := Some f\<rparr>) = (abs_cmd m c)\<lparr>s_in := Some (word_at m f)\<rparr>"
    "settled m p (c\<lparr>c_out := Some f, append := b\<rparr>)"
    "abs_cmd m (c\<lparr>c_out := Some f, append := b\<rparr>) = (abs_cmd m c)\<lparr>s_out := Some (word_at m f, b)\<rparr>"
  using assms by (auto simp: settled_def abs_cmd_def)

definition parsed :: "scmd list option \<Rightarrow> (int \<times> bytes \<times> (nat \<Rightarrow> cmd)) option \<Rightarrow> bool" where
  "parsed L r \<longleftrightarrow> (case r of None \<Rightarrow> False | Some (n, m, cs) \<Rightarrow>
     (case L of None \<Rightarrow> n = -1
      | Some L \<Rightarrow> n = int (length L) \<and> map (\<lambda>i. abs_cmd m (cs i)) [0..<length L] = L \<and>
          (L \<noteq> [] \<longrightarrow> argv (cs (length L - 1)) (argc (cs (length L - 1))) = None)))"

definition stands_for :: "bytes \<Rightarrow> nat \<Rightarrow> (nat \<Rightarrow> cmd) \<Rightarrow> scmd list \<Rightarrow> bool" where
  "stands_for m p cs ds \<longleftrightarrow> (\<forall>i<length ds. settled m p (cs i) \<and> abs_cmd m (cs i) = ds ! i)"

lemma stands_for_mono: "stands_for m p cs ds \<Longrightarrow> \<forall>i\<le>p. m' i = m i \<Longrightarrow> p \<le> q \<Longrightarrow> stands_for m' q cs ds"
  unfolding stands_for_def using settled_mono by (metis (no_types, opaque_lifting))

lemma stands_for_last:
  "stands_for m p cs (ds @ [cm]) \<longleftrightarrow> stands_for m p cs ds \<and> settled m p (cs (length ds)) \<and> abs_cmd m (cs (length ds)) = cm"
  by (auto simp: stands_for_def less_Suc_eq nth_append)

lemma stands_for_upd: "stands_for m p (cs(length ds := c)) (ds @ [cm]) \<longleftrightarrow> stands_for m p cs ds \<and> settled m p c \<and> abs_cmd m c = cm"
  unfolding stands_for_last by (simp add: stands_for_def)

lemma parse_loop_refines:
  assumes "text_at m p t" "words t = ws" "stands_for m p cs (ds @ [cm])"
  shows "parsed (parse_words mx ds cm ws) (parse_loop mx m cs (length ds) p)"
  using assms
proof (induction mx ds cm ws arbitrary: m cs p t rule: parse_words.induct)
  case (1 mx ds cm)
  let ?n = "length ds"
  have c: "abs_cmd m (cs ?n) = cm" "stands_for m p cs ds" using 1(3) by (simp_all add: stands_for_last)
  have k: "argc (cs ?n) = length (s_args cm)" using c(1) by (auto simp: abs_cmd_def)
  have nw: "next_word m p = Some None" by (rule next_word_None [OF 1(1,2)])
  show ?case
  proof (cases "s_args cm = []")
    case True
    then show ?thesis using nw k by (simp add: parse_loop.simps [of mx m] parsed_def)
  next
    case False
    let ?c = "(cs ?n)\<lparr>argv := (argv (cs ?n))(argc (cs ?n) := None)\<rparr>"
    have "abs_cmd m ?c = cm" using c(1) by (auto simp: abs_cmd_def)
    moreover have "map (\<lambda>i. abs_cmd m ((cs(?n := ?c)) i)) [0..<?n] = ds" using c(2) by (intro nth_equalityI) (auto simp: stands_for_def)
    ultimately have "map (\<lambda>i. abs_cmd m ((cs(?n := ?c)) i)) [0..<length (ds @ [cm])] = ds @ [cm]" by simp
    then show ?thesis using nw k False by (simp add: parse_loop.simps [of mx m] parsed_def)
  qed
next
  case (2 mx ds cm w ws)
  obtain a m' q u where N: "next_word m p = Some (Some (a, m', q))" "p \<le> a" "text_at m' q u" "words u = ws"
    "text_at m' a w" "a + length w \<le> q" "\<forall>i\<le>a. m' i = m i" "w \<noteq> []"
    by (rule next_word_Some [OF 2(4,5)])
  have S: "stands_for m' q cs (ds @ [cm])" using stands_for_mono [OF 2(6)] N(2,6,7) by simp
  note e = text_ends [OF N(5,6)] and wa = word_at_seg [OF N(5)]
  have c: "abs_cmd m' (cs (length ds)) = cm" "settled m' q (cs (length ds))" "stands_for m' q cs ds" using S by (simp_all add: stands_for_last)
  have k: "argc (cs (length ds)) = length (s_args cm)" using c(1) by (auto simp: abs_cmd_def)
  note pl = parse_loop.simps [of mx m cs "length ds" p, unfolded N(1) option.case prod.case wa k]
  consider "w = ascii ''|''" | "w \<noteq> ascii ''|''" "w \<in> {ascii ''<'', ascii ''>'', ascii ''>>''}"
    | "w \<noteq> ascii ''|''" "w \<notin> {ascii ''<'', ascii ''>'', ascii ''>>''}" by blast
  then show ?case
  proof cases
    case 1
    show ?thesis
    proof (cases "length ds + 1 \<ge> mx \<or> s_args cm = []")
      case True
      then show ?thesis using 1 unfolding pl by (simp add: parsed_def)
    next
      case False
      have "stands_for m' q (cs(length ds + 1 := fresh_cmd (cs (length ds + 1)))) ((ds @ [cm]) @ [no_cmd])"
        using S fresh_settled stands_for_upd [of m' q cs "ds @ [cm]"] by simp
      then have "parsed (parse_words mx (ds @ [cm]) no_cmd ws) (parse_loop mx m' (cs(length ds + 1 := fresh_cmd (cs (length ds + 1)))) (length (ds @ [cm])) q)"
        by (rule "2.IH"(1) [OF 1 False N(3,4)])
      then show ?thesis using 1 False unfolding pl by simp
    qed
  next
    case 2
    note redir = this
    show ?thesis
    proof (cases ws)
      case Nil
      then show ?thesis using next_word_None [OF N(3)] N(4) redir unfolding pl by (simp add: parsed_def)
    next
      case (Cons f ws')
      obtain b m2 q2 u2 where M: "next_word m' q = Some (Some (b, m2, q2))" "q \<le> b" "text_at m2 q2 u2" "words u2 = ws'"
        "text_at m2 b f" "b + length f \<le> q2" "\<forall>i\<le>b. m2 i = m' i" "f \<noteq> []"
        by (rule next_word_Some [OF N(3) N(4) [unfolded Cons]])
      have "stands_for m2 q2 cs (ds @ [cm])" using stands_for_mono [OF S] M(2,6,7) by simp
      then have d: "abs_cmd m2 (cs (length ds)) = cm" "settled m2 q2 (cs (length ds))" "stands_for m2 q2 cs ds" by (simp_all add: stands_for_last)
      note r = add_redir [OF d(2) text_ends [OF M(5,6)]] and wf = word_at_seg [OF M(5)]
      have same: "m2 i = m' i" if "i \<le> a + length w" for i using that N(6) M(2,7) by simp
      have h: "(m2 a = 60) = (w = ascii ''<'')" "w \<noteq> ascii ''<'' \<Longrightarrow> (m2 (a + 1) = 62) = (w = ascii ''>>'')"
        using redir(2) N(5) same [of a] same [of "a + 1"] by (auto simp: text_at_def ascii_def)
      define c2 where "c2 = (if m2 a = 60 then (cs (length ds))\<lparr>c_in := Some b\<rparr> else (cs (length ds))\<lparr>c_out := Some b, append := (m2 (a + 1) = 62)\<rparr>)"
      have "stands_for m2 q2 (cs(length ds := c2)) (ds @ [if w = ascii ''<'' then cm\<lparr>s_in := Some f\<rparr> else cm\<lparr>s_out := Some (f, w = ascii ''>>'')\<rparr>])"
        using r h d by (subst stands_for_upd) (simp add: wf c2_def)
      then have "parsed (parse_words mx ds (if w = ascii ''<'' then cm\<lparr>s_in := Some f\<rparr> else cm\<lparr>s_out := Some (f, w = ascii ''>>'')\<rparr>) ws')
          (parse_loop mx m2 (cs(length ds := c2)) (length ds) q2)"
        by (rule "2.IH"(2) [OF redir Cons M(3,4)])
      then show ?thesis using redir Cons M(1) unfolding pl c2_def by simp
    qed
  next
    case 3
    show ?thesis
    proof (cases "length (s_args cm) \<ge> ARGS_MAX - 1")
      case True
      then show ?thesis using 3 unfolding pl by (simp add: parsed_def)
    next
      case False
      define c2 where "c2 = (cs (length ds))\<lparr>argv := (argv (cs (length ds)))(argc (cs (length ds)) := Some a), argc := argc (cs (length ds)) + 1\<rparr>"
      have "stands_for m' q (cs(length ds := c2)) (ds @ [cm\<lparr>s_args := s_args cm @ [w]\<rparr>])"
        using add_word [OF c(2) e] c by (subst stands_for_upd) (simp add: wa c2_def)
      then have "parsed (parse_words mx ds (cm\<lparr>s_args := s_args cm @ [w]\<rparr>) ws) (parse_loop mx m' (cs(length ds := c2)) (length ds) q)"
        by (rule "2.IH"(3) [OF 3 False N(3,4)])
      then show ?thesis using 3 False k unfolding pl c2_def by simp
    qed
  qed
qed

subsection \<open>Tokens of a line\<close>

text \<open>The line with blanks around its operators, and the tokens it stands for.\<close>

fun spaced :: "byte list \<Rightarrow> byte list" where
  "spaced [] = []"
| "spaced (c # t) =
     (if meta c then if c = 62 \<and> t \<noteq> [] \<and> hd t = 62 then [32, 62, 62, 32] @ spaced (tl t) else [32, c, 32] @ spaced t
      else c # spaced t)"

abbreviation plain :: "byte \<Rightarrow> bool" where "plain c \<equiv> \<not> is_blank c \<and> \<not> meta c"

function lex_line :: "byte list \<Rightarrow> byte list list" where
  "lex_line [] = []"
| "lex_line (c # t) =
     (if is_blank c then lex_line t
      else if meta c then if c = 62 \<and> t \<noteq> [] \<and> hd t = 62 then ascii ''>>'' # lex_line (tl t) else [c] # lex_line t
      else (c # takeWhile plain t) # lex_line (dropWhile plain t))"
  by pat_completeness auto

termination
  by (relation "measure length") (auto simp: le_imp_less_Suc length_dropWhile_le)

lemma normalize_spaced: "length out + length (spaced inp) \<le> sz - 4 \<Longrightarrow> normalize_text sz inp out = out @ spaced inp"
proof (induction inp arbitrary: out rule: spaced.induct)
  case (2 c t)
  then have "\<not> length out \<ge> sz - 4" by (auto split: if_splits)
  then have n: "normalize_text sz (c # t) out = (if meta c then if c = 62 \<and> t \<noteq> [] \<and> hd t = 62 then normalize_text sz (tl t) (out @ [32, 62, 62, 32])
      else normalize_text sz t (out @ [32, c, 32]) else normalize_text sz t (out @ [c]))" by simp
  consider "meta c" "c = 62 \<and> t \<noteq> [] \<and> hd t = 62" | "meta c" "\<not> (c = 62 \<and> t \<noteq> [] \<and> hd t = 62)" | "\<not> meta c" by blast
  then show ?case
  proof cases
    case 1
    then show ?thesis using "2.IH"(1) [OF 1, of "out @ [32, 62, 62, 32]"] "2.prems" unfolding n by simp
  next
    case 2
    then have s: "spaced (c # t) = [32, c, 32] @ spaced t" by auto
    show ?thesis using "2.IH"(2) [OF 2, of "out @ [32, c, 32]"] "2.prems" 2 unfolding n s by auto
  next
    case 3
    then show ?thesis using "2.IH"(3) [OF 3, of "out @ [c]"] "2.prems" unfolding n by simp
  qed
qed simp

lemma words_prefix: "w \<noteq> [] \<Longrightarrow> \<forall>c\<in>set w. \<not> is_blank c \<Longrightarrow> r = [] \<or> is_blank (hd r) \<Longrightarrow> words (w @ r) = w # words r"
proof -
  assume a: "w \<noteq> []" "\<forall>c\<in>set w. \<not> is_blank c" "r = [] \<or> is_blank (hd r)"
  then obtain c v where w: "w = c # v" by (cases w) auto
  have "takeWhile (\<lambda>c. \<not> is_blank c) (v @ r) = v" "dropWhile (\<lambda>c. \<not> is_blank c) (v @ r) = r"
    using a by (cases r; simp add: w)+
  then show ?thesis using a(2) by (simp add: w)
qed

lemma spaced_plain: "\<forall>c\<in>set a. \<not> meta c \<Longrightarrow> spaced (a @ b) = a @ spaced b"
  by (induction a) auto

lemma is_blank_32 [simp]: "is_blank 32"
  by (simp add: is_blank_def)

lemma words_spaced: "words (spaced t) = lex_line t"
proof (induction t rule: lex_line.induct)
  case (2 c t)
  show ?case
  proof (cases "is_blank c \<or> meta c")
    case True
    have nb: "meta c \<Longrightarrow> \<not> is_blank c" by (auto simp: meta_def is_blank_def)
    have "words ([62, 62] @ 32 # r) = ascii ''>>'' # words r" "\<not> is_blank c \<Longrightarrow> words ([c] @ 32 # r) = [c] # words r" for r
      using words_prefix [of "[62, 62]" "32 # r"] words_prefix [of "[c]" "32 # r"] by (auto simp: is_blank_def ascii_def)
    then show ?thesis using True nb 2 by auto
  next
    case False
    let ?a = "c # takeWhile plain t" and ?r = "dropWhile plain t"
    have e: "spaced (c # t) = ?a @ spaced ?r"
      using spaced_plain [of ?a ?r] False takeWhile_dropWhile_id [of plain t] by (auto dest: set_takeWhileD)
    have r: "spaced ?r = [] \<or> is_blank (hd (spaced ?r))"
    proof (cases ?r)
      case Nil
      then show ?thesis by (simp only: Nil spaced.simps simp_thms)
    next
      case (Cons x r)
      then have "\<not> plain x" using hd_dropWhile [of plain t] by (metis list.distinct(1) list.sel(1))
      then show ?thesis unfolding Cons by auto
    qed
    have "\<forall>x\<in>set ?a. \<not> is_blank x" using False by (auto dest: set_takeWhileD)
    then have "words (spaced (c # t)) = ?a # words (spaced ?r)" unfolding e by (intro words_prefix r) simp_all
    then show ?thesis using False 2(4) by simp
  qed
qed simp

lemma spaced_nonzero: "0 \<notin> set t \<Longrightarrow> 0 \<notin> set (spaced t)"
proof (induction t rule: spaced.induct)
  case (2 c t)
  then show ?case by (cases t) auto
qed simp

lemma put_str_text: "0 \<notin> set t \<Longrightarrow> length t < LINE_MAX \<Longrightarrow> text_at (put_str t m) 0 t"
proof -
  assume a: "0 \<notin> set t" "length t < LINE_MAX"
  then show ?thesis using seg_I [of t "put_str t m" 0] by (auto simp: text_at_def put_str_def in_set_conv_nth)
qed

text \<open>The limits of the grammar: at most \<open>mx\<close> commands, each with 1 to 15 words.\<close>

lemma parse_words_bounds:
  "parse_words mx ds cm ws = Some L \<Longrightarrow> length ds < mx \<Longrightarrow> \<forall>c\<in>set ds. s_args c \<noteq> [] \<and> length (s_args c) < ARGS_MAX \<Longrightarrow> length (s_args cm) < ARGS_MAX \<Longrightarrow>
    length L \<le> mx \<and> (\<forall>c\<in>set L. s_args c \<noteq> [] \<and> length (s_args c) < ARGS_MAX)"
proof (induction mx ds cm ws rule: parse_words.induct)
  case (2 mx ds cm w ws)
  consider "w = ascii ''|''" | "w \<noteq> ascii ''|''" "w \<in> {ascii ''<'', ascii ''>'', ascii ''>>''}"
    | "w \<noteq> ascii ''|''" "w \<notin> {ascii ''<'', ascii ''>'', ascii ''>>''}" by blast
  then show ?case
  proof cases
    case 1
    then have g: "\<not> (length ds + 1 \<ge> mx \<or> s_args cm = [])" "parse_words mx (ds @ [cm]) no_cmd ws = Some L"
      using "2.prems"(1) by (simp_all split: if_splits)
    show ?thesis by (rule "2.IH"(1) [OF 1 g]) (use g(1) "2.prems"(3,4) in \<open>auto simp: no_cmd_def ARGS_MAX_def\<close>)
  next
    case 2
    then obtain f ws' where f: "ws = f # ws'" "parse_words mx ds (if w = ascii ''<'' then cm\<lparr>s_in := Some f\<rparr> else cm\<lparr>s_out := Some (f, w = ascii ''>>'')\<rparr>) ws' = Some L"
      using "2.prems"(1) by (cases ws) simp_all
    show ?thesis by (rule "2.IH"(2) [OF 2 f "2.prems"(2,3)]) (use "2.prems"(4) in simp)
  next
    case 3
    then have g: "\<not> ARGS_MAX - 1 \<le> length (s_args cm)" "parse_words mx ds (cm\<lparr>s_args := s_args cm @ [w]\<rparr>) ws = Some L"
      using "2.prems"(1) by (simp_all split: if_splits)
    show ?thesis by (rule "2.IH"(3) [OF 3 g "2.prems"(2,3)]) (use g(1) in simp)
  qed
qed (auto split: if_splits)



subsection \<open>Stages keep old arguments\<close>

text \<open>
  Only the last command of a pipeline gets its null pointer. Behind the words of an earlier one the array keeps what the
  line before left there, and \<open>execve\<close> reads on to the next null pointer.
\<close>

definition keeps_old :: "(nat \<Rightarrow> cmd) \<Rightarrow> nat \<Rightarrow> (nat \<Rightarrow> cmd) \<Rightarrow> bool" where
  "keeps_old old n cs \<longleftrightarrow> (\<forall>i>n. cs i = old i) \<and> (\<forall>i\<le>n. \<forall>k\<ge>argc (cs i). argv (cs i) k = argv (old i) k)"

lemma keeps_old_step:
  assumes "keeps_old old n cs"
  shows "keeps_old old (n + 1) (cs(n + 1 := fresh_cmd (cs (n + 1))))"
    "argc c = argc (cs n) \<Longrightarrow> argv c = argv (cs n) \<Longrightarrow> keeps_old old n (cs(n := c))"
    "keeps_old old n (cs(n := (cs n)\<lparr>argv := (argv (cs n))(argc (cs n) := Some w), argc := argc (cs n) + 1\<rparr>))"
  using assms by (auto simp: keeps_old_def fresh_cmd_def le_Suc_eq)

lemma parse_loop_keeps_old:
  assumes "parse_loop mx m cs n p = Some (r, m', cs')" "keeps_old old n cs" "int i < r - 1"
  shows "argv (cs' i) (argc (cs' i)) = argv (old i) (argc (cs' i))"
  using assms
proof (induction mx m cs n p rule: parse_loop.induct)
  case (1 mx m cs n p)
  show ?case
  proof (cases "next_word m p")
    case None
    then show ?thesis using "1.prems"(1) by (simp add: parse_loop.simps [of mx m])
  next
    case (Some o1)
    show ?thesis
    proof (cases o1)
      case None
      with Some "1.prems" show ?thesis by (auto simp: parse_loop.simps [of mx m] keeps_old_def split: if_splits)
    next
      fix z assume "o1 = Some z"
      then obtain word m1 q where N: "next_word m p = Some (Some (word, m1, q))" using Some by (cases z) auto
      note IH = 1(1-3) [OF N refl refl refl]
      note pl = "1.prems"(1) [unfolded parse_loop.simps [of mx m cs n p] N option.case prod.case]
      consider "word_at m1 word = ascii ''|''" | "word_at m1 word \<noteq> ascii ''|''" "word_at m1 word \<in> {ascii ''<'', ascii ''>'', ascii ''>>''}"
        | "word_at m1 word \<noteq> ascii ''|''" "word_at m1 word \<notin> {ascii ''<'', ascii ''>'', ascii ''>>''}" by blast
      then show ?thesis
      proof cases
        case 1
        then have g: "\<not> (mx \<le> n + 1 \<or> argc (cs n) = 0)" using pl "1.prems"(3) by (auto split: if_splits)
        have "parse_loop mx m1 (cs(n + 1 := fresh_cmd (cs (n + 1)))) (n + 1) q = Some (r, m', cs')" using pl 1 g by simp
        then show ?thesis by (rule IH(1) [OF 1 g _ keeps_old_step(1) [OF "1.prems"(2)] "1.prems"(3)])
      next
        case 2
        note w = this
        show ?thesis
        proof (cases "next_word m1 q")
          case None
          then show ?thesis using pl w by simp
        next
          case (Some o2)
          show ?thesis
          proof (cases o2)
            case None
            then show ?thesis using pl w Some "1.prems"(3) by auto
          next
            fix y assume "o2 = Some y"
            then obtain fl m2 q2 where M: "next_word m1 q = Some (Some (fl, m2, q2))" using Some by (cases y) auto
            have k: "keeps_old old n (cs(n := if m2 word = 60 then (cs n)\<lparr>c_in := Some fl\<rparr> else (cs n)\<lparr>c_out := Some fl, append := (m2 (word + 1) = 62)\<rparr>))"
              by (rule keeps_old_step(2) [OF "1.prems"(2)]) simp_all
            have "parse_loop mx m2 (cs(n := if m2 word = 60 then (cs n)\<lparr>c_in := Some fl\<rparr> else (cs n)\<lparr>c_out := Some fl, append := (m2 (word + 1) = 62)\<rparr>)) n q2 = Some (r, m', cs')"
              using pl w M by simp
            then show ?thesis by (rule IH(2) [OF w M refl refl refl _ k "1.prems"(3)])
          qed
        qed
      next
        case 3
        then have g: "\<not> ARGS_MAX - 1 \<le> argc (cs n)" using pl "1.prems"(3) by (auto split: if_splits)
        have "parse_loop mx m1 (cs(n := (cs n)\<lparr>argv := (argv (cs n))(argc (cs n) := Some word), argc := argc (cs n) + 1\<rparr>)) n q = Some (r, m', cs')"
          using pl 3 g by simp
        then show ?thesis by (rule IH(3) [OF 3 g _ keeps_old_step(3) [OF "1.prems"(2)] "1.prems"(3)])
      qed
    qed
  qed
qed

lemma pipeline_keeps_old_arguments:
  assumes "parse_pipeline line nm old maxcmds = Some (n, m, cs)" "int i < n - 1"
  shows "argv (cs i) (argc (cs i)) = argv (old i) (argc (cs i))"
  by (rule parse_loop_keeps_old [OF assms(1) [unfolded parse_pipeline_def] _ assms(2)]) (simp add: keeps_old_def fresh_cmd_def)

end
