(* ===== verification/Spec2Isabelle.thy ===== *)
theory Spec2Isabelle
  imports Boot User_Heap Shell_Parse
begin

text \<open>
  Verification of a small kernel for the 80386 in the style of Linux 0.01: block cache, MINIX file system, paging with
  copy-on-write and swap, processes, signals, pipes, console, about seventy system calls.

  \<^bold>\<open>How the code is modelled.\<close> Every function of the source is a function of the machine state. The state is a chain of
  records, each theory adding the globals of its component: \<open>task_state\<close> (task table, \<open>current\<close>, \<open>jiffies\<close>),
  \<open>hd_state\<close> (the disk and what the drive answers), \<open>mem_state\<close> (page map, physical memory, swap map), \<open>buf_state\<close>
  (buffer heads, hash table, free list), \<open>fs_state\<close> (super blocks, inode table, entry cache), \<open>tty_state\<close> (screen,
  queues), \<open>sys_state\<close> (open files, signal masks, sleep deadlines). Pointers are indices or addresses, \<open>NULL\<close> is
  \<open>None\<close> or 0, machine integers are words of their width. An operation that may not come back (it sleeps with nobody
  left to wake it, panics, or runs into undefined behaviour) yields an option, with \<open>None\<close> for that outcome. A
  system call that sleeps takes the list of what the other tasks do meanwhile, one state transformer per time it is
  resumed. User memory is a function for reading; what a call stores there is returned as a list of stores. Messages
  printed for diagnosis are left out.

  \<^bold>\<open>Parts and theories.\<close>
  \<^item> \<open>Prelude\<close>: bytes, little-endian access, bounded search and counted loops shared by all theories.
  \<^item> \<open>Task\<close>: \<open>include/linux/sched.h\<close>, \<open>wake_up\<close> of \<open>fs/buffer.c\<close>. \<open>Hd\<close>: \<open>drivers/hd.c\<close> against an arbitrary drive.
  \<^item> \<open>Memory\<close>: \<open>mm/memory.c\<close>. \<open>Frames\<close>, \<open>Spaces\<close>, \<open>Reclaim\<close>, \<open>Space_Ops\<close>, \<open>Isolation\<close>: who uses which page frame; every
    operation, eviction under pressure included, keeps frames apart; address spaces are isolated; copy-on-write and
    swap preserve contents.
  \<^item> \<open>Buffer\<close>: \<open>fs/buffer.c\<close>. \<open>Cache\<close>: the ring and the hash chains. \<open>Block_Store\<close>: the interface of the cache as a locale,
    interpreted by the cache. \<open>Cache_Run\<close>: the cache refines a plain block store; failing drives.
  \<^item> \<open>Bitmap\<close>: \<open>fs/minix.c\<close>, \<open>fs/bitmap.c\<close>. \<open>Inode\<close>: \<open>fs/inode.c\<close>. \<open>File_Dev\<close>, \<open>File_Write\<close>: \<open>fs/file_dev.c\<close>.
    \<open>Namei\<close>, \<open>Dir\<close>, \<open>Dir_Map\<close>: \<open>fs/namei.c\<close>. Each layer is proved over the layer below it, down to the bytes on disk.
  \<^item> \<open>Ring\<close>, \<open>Tty\<close>: the character queues, console, keyboard and serial mirror of \<open>drivers/\<close>.
  \<^item> \<open>Sched\<close>: \<open>kernel/sched.c\<close>, \<open>kernel/sync.c\<close>. \<open>Pipe\<close>: \<open>fs/pipe.c\<close> and user memory access.
  \<^item> \<open>Lib\<close>: \<open>lib/\<close>. \<open>Printf\<close>: \<open>kernel/vsprintf.c\<close>.
  \<^item> \<open>Sys_File\<close>, \<open>Sys_Dir\<close>, \<open>Sys_Task\<close>: the system calls of \<open>kernel/sys.c\<close>; \<open>Process\<close>, \<open>Signal\<close>: \<open>kernel/process.c\<close>;
    \<open>Exec\<close>: the page fault entry and \<open>execve\<close>; \<open>Delivery\<close>: what signal delivery guarantees.
  \<^item> \<open>Boot\<close>: \<open>kernel/main.c\<close>, \<open>mm/memcheck.c\<close>, \<open>kernel/panic.c\<close> and the layout of \<open>include/linux/memmap.h\<close>: start-up
    passes its own check, and what it sets aside never becomes a page of a program.
  \<^item> \<open>User_Lib\<close>, \<open>User_Heap\<close>: \<open>user/lib.c\<close>, with the proof that the heap keeps the blocks of a program apart.
  \<^item> \<open>Shell\<close>, \<open>Shell_Parse\<close>: \<open>user/sh.c\<close> over a record of system calls; its in-place parser implements its grammar.

  \<^bold>\<open>Bounds.\<close> Loops over tables run over the table's size; the scans over pointer structures are partial functions,
  and the theorems about them prove that they return. The eviction retries of \<open>get_free_page\<close> are the source's own
  bound of 32. Requests to the user heap are below 2 GB, beyond which its arithmetic wraps around; lines of the shell
  fit its buffer of 128 bytes. Disk addresses stay below \<open>HD_LIMIT\<close>, what the drive's geometry can address.

  \<^bold>\<open>Not modelled.\<close> The boot code and interrupt stubs are x86 assembly that switches modes and stacks; only the checks of
  \<open>sys_sigreturn\<close> in \<open>kernel/asm.s\<close> are modelled. The TLB, the descriptor tables and the programming of the timer and
  interrupt controllers have no counterpart in the state. The host-side
  tools (\<open>tools/\<close>, \<open>scripts/\<close>) do not run in the system. The demonstration shell \<open>init/shell.c\<close> and the utilities and test
  programs under \<open>user/\<close> are sequences of modelled calls around printed output.
\<close>

end
